(* ===== verification/Latkit_Prelude.thy ===== *)
theory Latkit_Prelude
  imports Main "HOL-Library.Word"
begin

text \<open>
  Shared vocabulary of the development: the machine integer types of the C code, bit flags,
  byte-order readers and writers, C character constants, the allocator, and the list and word
  lemmas the component theories use.

  \<^item> \<open>__u8\<close>, \<open>__u16\<close>, \<open>__u32\<close>, \<open>__u64\<close> are words of that width where the code's
    wrap-around, bit patterns or comparisons matter (bytes, flags, sequence numbers, cookies,
    timestamps, row counters). Lengths and positions inside a buffer are \<open>nat\<close>, with
    \<open>mod 2 ^ 32\<close> written out at the places where the C expression can leave its range.
  \<^item> A pointer with its length is a byte list; a possibly-NULL pointer is an \<open>option\<close>.
  \<^item> \<open>malloc\<close>, \<open>calloc\<close> and \<open>realloc\<close> may fail: \<open>heap\<close> holds the outcome of every
    future call and counts the live blocks, so every NULL branch of the code is a branch of the
    model and no theorem depends on an allocation succeeding unless it says so.
\<close>

unbundle bit_operations_syntax

section \<open>Types\<close>

type_synonym u8 = "8 word"
type_synonym u16 = "16 word"
type_synonym u32 = "32 word"
type_synonym u64 = "64 word"

type_synonym bytes = "u8 list"

text \<open>The collections the component theories extend: rewrite rules that move a property of the
  state through an operation (\<open>frame_simps\<close>), and invariant preservation rules.\<close>

named_theorems flag_simps "membership of single-bit flags"
named_theorems frame_simps "fields an operation leaves alone"
named_theorems inv_intros "operations keep their component's invariant"

section \<open>Characters and C string literals\<close>

abbreviation ch :: "char \<Rightarrow> u8" where
  "ch c \<equiv> of_char c"

abbreviation lit :: "string \<Rightarrow> bytes" where
  "lit s \<equiv> map of_char s"

section \<open>Bit flags\<close>

definition has_flag :: "u16 \<Rightarrow> u16 \<Rightarrow> bool" where
  "has_flag f m \<longleftrightarrow> f AND m \<noteq> 0"

lemma has_flag_bit: "has_flag f (2 ^ i) = bit f i"
  by (simp add: has_flag_def and_exp_eq_0_iff_not_bit)

lemma has_flag_numeral [flag_simps]:
  "has_flag f 1 = bit f 0" "has_flag f 2 = bit f 1" "has_flag f 4 = bit f 2"
  "has_flag f 8 = bit f 3" "has_flag f 16 = bit f 4" "has_flag f 32 = bit f 5"
  "has_flag f 64 = bit f 6" "has_flag f 128 = bit f 7"
  using has_flag_bit [of f 0] has_flag_bit [of f 1] has_flag_bit [of f 2] has_flag_bit [of f 3]
    has_flag_bit [of f 4] has_flag_bit [of f 5] has_flag_bit [of f 6] has_flag_bit [of f 7]
  by simp_all

lemma has_flag_or_mask [flag_simps]: "has_flag f (a OR b) \<longleftrightarrow> has_flag f a \<or> has_flag f b"
  by (auto simp: has_flag_def bit_eq_iff bit_simps)

lemma has_flag_or [flag_simps]: "has_flag (f OR g) m \<longleftrightarrow> has_flag f m \<or> has_flag g m"
  by (auto simp: has_flag_def bit_eq_iff bit_simps)

lemma has_flag_0 [simp]: "\<not> has_flag 0 m"
  by (simp add: has_flag_def)

section \<open>Byte order\<close>

text \<open>The shift-and-or readers of the wire headers and of the framers.\<close>

definition be16 :: "bytes \<Rightarrow> u16" where
  "be16 p = push_bit 8 (ucast (p ! 0)) OR ucast (p ! 1)"

definition be32 :: "bytes \<Rightarrow> u32" where
  "be32 p = push_bit 24 (ucast (p ! 0)) OR push_bit 16 (ucast (p ! 1))
     OR push_bit 8 (ucast (p ! 2)) OR ucast (p ! 3)"

definition le16 :: "bytes \<Rightarrow> u16" where
  "le16 p = push_bit 8 (ucast (p ! 1)) OR ucast (p ! 0)"

definition le24 :: "bytes \<Rightarrow> u32" where
  "le24 p = push_bit 16 (ucast (p ! 2)) OR push_bit 8 (ucast (p ! 1)) OR ucast (p ! 0)"

definition le32 :: "bytes \<Rightarrow> u32" where
  "le32 p = push_bit 24 (ucast (p ! 3)) OR push_bit 16 (ucast (p ! 2))
     OR push_bit 8 (ucast (p ! 1)) OR ucast (p ! 0)"

definition le64 :: "bytes \<Rightarrow> u64" where
  "le64 p = foldr (\<lambda>b acc. push_bit 8 acc OR ucast b) (take 8 p) 0"

text \<open>Writers, the specification side of the readers above.\<close>

definition put_be32 :: "u32 \<Rightarrow> bytes" where
  "put_be32 x = [ucast (drop_bit 24 x), ucast (drop_bit 16 x), ucast (drop_bit 8 x), ucast x]"

definition put_le24 :: "u32 \<Rightarrow> bytes" where
  "put_le24 x = [ucast x, ucast (drop_bit 8 x), ucast (drop_bit 16 x)]"

definition put_le32 :: "u32 \<Rightarrow> bytes" where
  "put_le32 x = [ucast x, ucast (drop_bit 8 x), ucast (drop_bit 16 x), ucast (drop_bit 24 x)]"

lemma length_put [simp]:
  "length (put_be32 x) = 4" "length (put_le24 x) = 3" "length (put_le32 x) = 4"
  by (simp_all add: put_be32_def put_le24_def put_le32_def)

lemma be32_put [simp]: "be32 (put_be32 x @ r) = x"
proof (rule bit_word_eqI)
  fix n assume "n < LENGTH(32)"
  then show "bit (be32 (put_be32 x @ r)) n = bit x n"
    by (cases "8 \<le> n"; cases "16 \<le> n"; cases "24 \<le> n")
      (auto simp: be32_def put_be32_def bit_simps)
qed

lemma le32_put [simp]: "le32 (put_le32 x @ r) = x"
proof (rule bit_word_eqI)
  fix n assume "n < LENGTH(32)"
  then show "bit (le32 (put_le32 x @ r)) n = bit x n"
    by (cases "8 \<le> n"; cases "16 \<le> n"; cases "24 \<le> n")
      (auto simp: le32_def put_le32_def bit_simps)
qed

lemma le24_put:
  assumes "x < 2 ^ 24"
  shows "le24 (put_le24 x @ r) = x"
proof (rule bit_word_eqI)
  fix n assume "n < LENGTH(32)"
  have hi: "bit x k \<Longrightarrow> k < 24" for k
  proof (rule ccontr)
    assume b: "bit x k" and k: "\<not> k < 24"
    have "unat x < 2 ^ 24"
      using assms by (simp add: word_less_nat_alt)
    then have "take_bit 24 (unat x) = unat x"
      by (simp add: take_bit_nat_eq_self_iff)
    moreover have "bit (unat x) k"
      using b by (simp add: bit_unsigned_iff)
    ultimately have "bit (take_bit 24 (unat x)) k"
      by simp
    then show False
      using k by (simp add: bit_take_bit_iff)
  qed
  show "bit (le24 (put_le24 x @ r)) n = bit x n"
    using \<open>n < LENGTH(32)\<close> hi [of n]
    by (cases "8 \<le> n"; cases "16 \<le> n"; cases "24 \<le> n")
      (auto simp: le24_def put_le24_def bit_simps)
qed

definition put_le16 :: "u16 \<Rightarrow> bytes" where
  "put_le16 x = [ucast x, ucast (drop_bit 8 x)]"

definition put_le64 :: "u64 \<Rightarrow> bytes" where
  "put_le64 x = map (\<lambda>i. ucast (drop_bit (8 * i) x)) [0..<8]"

lemma length_put_le [simp]: "length (put_le16 x) = 2" "length (put_le64 y) = 8"
  by (simp_all add: put_le16_def put_le64_def)

lemma le16_put [simp]: "le16 (put_le16 x @ r) = x"
proof (rule bit_word_eqI)
  fix n assume "n < LENGTH(16)"
  then show "bit (le16 (put_le16 x @ r)) n = bit x n"
    by (cases "8 \<le> n") (auto simp: le16_def put_le16_def bit_simps)
qed

lemma bit_le64:
  fixes p :: bytes
  shows "length p = k \<Longrightarrow> bit (foldr (\<lambda>b acc. push_bit 8 acc OR ucast b) p (0::u64)) n \<longleftrightarrow> n < 64 \<and> n < 8 * k \<and> bit (p ! (n div 8)) (n mod 8)"
proof (induction p arbitrary: k n)
  case (Cons b p)
  show ?case
  proof (cases "n < 8")
    case True
    then show ?thesis using Cons.prems by (auto simp: bit_simps)
  next
    case False
    then obtain m where m: "n = m + 8" using le_Suc_ex not_less by (metis add.commute)
    have "\<not> bit b n" using False bit_imp_le_length [of b n] by auto
    moreover have "(m + 8) div 8 = Suc (m div 8)" by simp
    ultimately show ?thesis using Cons.IH [of "length p" m] Cons.prems by (auto simp: bit_simps m)
  qed
qed simp

lemma le64_put [simp]: "le64 (put_le64 x @ r) = x"
proof (rule bit_word_eqI)
  fix n assume n: "n < LENGTH(64)"
  then have "n div 8 < 8" by simp
  then have "bit (put_le64 x ! (n div 8)) (n mod 8) = bit x n"
    by (simp add: put_le64_def bit_simps)
  then show "bit (le64 (put_le64 x @ r)) n = bit x n"
    using n bit_le64 [of "put_le64 x" 8 n] by (simp add: le64_def)
qed

lemma be32_append [simp]: "4 \<le> length p \<Longrightarrow> be32 (p @ r) = be32 p"
  by (auto simp: be32_def nth_append)

lemma be32_take [simp]: "4 \<le> n \<Longrightarrow> be32 (take n p) = be32 p"
  by (simp add: be32_def)

lemma le24_append [simp]: "3 \<le> length p \<Longrightarrow> le24 (p @ r) = le24 p"
  by (auto simp: le24_def nth_append)

lemma le32_append [simp]: "4 \<le> length p \<Longrightarrow> le32 (p @ r) = le32 p"
  by (auto simp: le32_def nth_append)

section \<open>The allocator\<close>

record heap =
  hp_calls :: nat                  \<comment> \<open>allocation calls made so far\<close>
  hp_ok :: "nat \<Rightarrow> bool"           \<comment> \<open>outcome of the n-th call\<close>
  hp_live :: nat                   \<comment> \<open>blocks handed out and not freed\<close>

definition hp_alloc :: "heap \<Rightarrow> bool \<times> heap" where
  "hp_alloc h = (let ok = hp_ok h (hp_calls h) in
     (ok, h\<lparr>hp_calls := Suc (hp_calls h), hp_live := (if ok then Suc (hp_live h) else hp_live h)\<rparr>))"

definition hp_free :: "heap \<Rightarrow> heap" where
  "hp_free h = h\<lparr>hp_live := hp_live h - 1\<rparr>"

text \<open>\<open>realloc\<close>: \<open>fresh\<close> says that the pointer was NULL, so that success hands out a new block.\<close>

definition hp_realloc :: "bool \<Rightarrow> heap \<Rightarrow> bool \<times> heap" where
  "hp_realloc fresh h = (let ok = hp_ok h (hp_calls h) in
     (ok, h\<lparr>hp_calls := Suc (hp_calls h), hp_live := (if ok \<and> fresh then Suc (hp_live h) else hp_live h)\<rparr>))"

abbreviation heap_never_fails :: "heap \<Rightarrow> bool" where
  "heap_never_fails h \<equiv> (\<forall>n. hp_ok h n)"

lemma hp_ok_alloc [simp]: "hp_ok (snd (hp_alloc h)) = hp_ok h"
  by (simp add: hp_alloc_def Let_def)

lemma hp_ok_free [simp]: "hp_ok (hp_free h) = hp_ok h"
  by (simp add: hp_free_def)

lemma hp_ok_realloc [simp]: "hp_ok (snd (hp_realloc fr h)) = hp_ok h"
  by (simp add: hp_realloc_def Let_def)

lemma hp_realloc_ok: "hp_realloc fr h = (ok, h') \<Longrightarrow> hp_ok h' = hp_ok h"
  by (auto simp: hp_realloc_def Let_def)

text \<open>A buffer that grows by \<open>realloc\<close> is a block as soon as its capacity is not 0.\<close>

definition blk :: "nat \<Rightarrow> nat" where
  "blk cap = (if cap = 0 then 0 else 1)"

definition free_text :: "nat \<Rightarrow> heap \<Rightarrow> heap" where
  "free_text cap hp = (if cap = 0 then hp else hp_free hp)"

lemma hp_realloc_live: "hp_realloc fr h = (ok, h') \<Longrightarrow> hp_live h' = hp_live h + (if ok \<and> fr then 1 else 0)"
  by (auto simp: hp_realloc_def Let_def)

text \<open>The loops of \<open>free()\<close>.\<close>

lemma free_fold_live:
  "(\<Sum>i\<leftarrow>xs. blk (f i)) \<le> hp_live hp \<Longrightarrow>
     hp_live (fold (\<lambda>i. free_text (f i)) xs hp) = hp_live hp - (\<Sum>i\<leftarrow>xs. blk (f i))"
  by (induction xs arbitrary: hp) (auto simp: free_text_def hp_free_def blk_def)

lemma sum_upt_blk: "(\<Sum>i\<leftarrow>[0..<n]. blk (f i)) = (\<Sum>i<n. blk (f i))"
  by (simp add: sum_list_sum_nth atLeast0LessThan)

lemma sum_upd:
  fixes f :: "nat \<Rightarrow> nat"
  assumes "k < n"
  shows "(\<Sum>i<n. (f(k := v)) i) + f k = (\<Sum>i<n. f i) + v"
proof -
  have k: "k \<in> {..<n}" using assms by simp
  have "(\<Sum>i<n. (f(k := v)) i) = v + (\<Sum>i\<in>{..<n} - {k}. (f(k := v)) i)"
    using sum.remove [OF finite_lessThan k, of "f(k := v)"] by simp
  moreover have "(\<Sum>i\<in>{..<n} - {k}. (f(k := v)) i) = (\<Sum>i\<in>{..<n} - {k}. f i)"
    by (rule sum.cong) auto
  moreover have "(\<Sum>i<n. f i) = f k + (\<Sum>i\<in>{..<n} - {k}. f i)"
    using sum.remove [OF finite_lessThan k, of f] by simp
  ultimately show ?thesis by simp
qed

section \<open>Lists\<close>

lemma take_append_min: "n \<le> length xs \<Longrightarrow> take n (xs @ ys) = take n xs"
  by simp

lemma drop_append_le: "n \<le> length xs \<Longrightarrow> drop n (xs @ ys) = drop n xs @ ys"
  by simp

text \<open>First match of a scan over an index range.\<close>

lemma find_upt_Some: "List.find P [0..<n] = Some i \<longleftrightarrow> i < n \<and> P i \<and> (\<forall>j<i. \<not> P j)"
  by (auto simp: find_Some_iff)

lemma find_upt_None: "List.find P [0..<n] = None \<longleftrightarrow> (\<forall>i<n. \<not> P i)"
  by (auto simp: find_None_iff)

text \<open>The index loop that keeps the position of a least element.\<close>

definition argmin_from :: "('a \<Rightarrow> 'b::linorder) \<Rightarrow> 'a list \<Rightarrow> 'a \<Rightarrow> 'a" where
  "argmin_from f xs a = fold (\<lambda>i m. if f i < f m then i else m) xs a"

lemma argmin_from_in: "argmin_from f xs a \<in> insert a (set xs)"
  unfolding argmin_from_def
proof (induction xs arbitrary: a)
  case (Cons y xs)
  show ?case using Cons.IH [of "if f y < f a then y else a"] by (auto split: if_splits)
qed simp

lemma argmin_from_le: "x \<in> insert a (set xs) \<Longrightarrow> f (argmin_from f xs a) \<le> f x"
  unfolding argmin_from_def
proof (induction xs arbitrary: a x)
  case (Cons y xs)
  let ?a = "if f y < f a then y else a"
  have le: "f (fold (\<lambda>i m. if f i < f m then i else m) xs ?a) \<le> f z" if "z \<in> insert ?a (set xs)" for z
    using Cons.IH that by blast
  show ?case
    using Cons.prems le [of x] le [of ?a] by (auto split: if_splits)
qed simp

end
