(* ===== verification/Lk_Types.thy ===== *)
theory Lk_Types
  imports Latkit_Prelude
begin

text \<open>
  The data the components share: the kernel event formats (src/src/bpf/latkit.h), the framer
  state and the connection entry (src/src/agent/conn_table.h), the message and sink contract
  (src/src/agent/reassembly.h) and the protocol boundary (src/src/proto/proto.h).

  \<^item> The two \<open>void *\<close> fields of a connection, \<open>proto_state\<close> and \<open>frame_state\<close>, are type
    parameters \<open>'ps\<close> and \<open>'fs\<close>: the core never looks inside them.
  \<^item> A pointer to \<open>lk_proto_ops\<close> is the identifier of a registry entry (\<open>lk_proto_id\<close>); the
    functions of the entry are the record \<open>lk_proto_ops\<close>.
  \<^item> An accumulator with a fill count (\<open>hdr\<close>/\<open>hdr_len\<close>, \<open>buf\<close>/\<open>buf_len\<close>, \<open>body\<close>/\<open>body_cap\<close>) is
    the list of the bytes written so far; its length is the count.
\<close>

section \<open>Kernel events (latkit.h)\<close>

datatype lk_dir = LK_DIR_SEND | LK_DIR_RECV

datatype lk_ev_type = LK_EV_DATA | LK_EV_CONN_OPEN | LK_EV_CONN_CLOSE

abbreviation LK_F_TRUNC :: u16 where "LK_F_TRUNC \<equiv> 1"
abbreviation LK_F_GAP :: u16 where "LK_F_GAP \<equiv> 2"
abbreviation LK_F_SYNTHETIC :: u16 where "LK_F_SYNTHETIC \<equiv> 4"
abbreviation LK_F_DECRYPTED :: u16 where "LK_F_DECRYPTED \<equiv> 8"

record lk_tuple =
  tp_family :: u8
  tp_netns :: u32
  tp_saddr :: bytes
  tp_daddr :: bytes
  tp_sport :: u16
  tp_dport :: u16

record lk_ev_hdr =
  eh_conn_id :: u64
  eh_ts_ns :: u64
  eh_seq :: u32
  eh_type :: u8
  eh_dir :: u8
  eh_flags :: u16

record lk_ev_conn =
  ec_hdr :: lk_ev_hdr
  ec_tuple :: lk_tuple
  ec_pid :: u32
  ec_conn_dropped :: u32

record lk_ev_data =
  ed_hdr :: lk_ev_hdr
  ed_total_len :: nat
  ed_off :: nat
  ed_cap_len :: nat
  ed_payload :: bytes

section \<open>Framer state and connection entry (conn_table.h)\<close>

datatype lk_frame_state = LK_FR_HEADER | LK_FR_BODY | LK_FR_SKIP | LK_FR_DIRTY

record lk_frame =
  fr_st :: lk_frame_state
  fr_skip_left :: nat
  fr_call_pos :: nat
  fr_call_total :: nat
  fr_msg_ts :: u64
  fr_msg_len :: nat
  fr_body_len :: nat
  fr_body_total :: nat
  fr_msg_type :: u8
  fr_msg_cont :: bool
  fr_prefix_closed :: bool
  fr_msg_seq :: u8
  fr_msg_seq0 :: bool
  fr_startup_done :: bool
  fr_after_resync :: bool
  fr_resync_matched :: nat
  fr_hdr :: bytes
  fr_buf :: "bytes option"

definition lk_frame_zero :: lk_frame where
  "lk_frame_zero = \<lparr>fr_st = LK_FR_HEADER, fr_skip_left = 0, fr_call_pos = 0, fr_call_total = 0,
     fr_msg_ts = 0, fr_msg_len = 0, fr_body_len = 0, fr_body_total = 0, fr_msg_type = 0,
     fr_msg_cont = False, fr_prefix_closed = False, fr_msg_seq = 0, fr_msg_seq0 = False,
     fr_startup_done = False, fr_after_resync = False, fr_resync_matched = 0, fr_hdr = [],
     fr_buf = None\<rparr>"

text \<open>\<open>f->buf_len\<close>: how many bytes of the slab are filled; 0 while there is no slab.\<close>

definition fr_buf_len :: "lk_frame \<Rightarrow> nat" where
  "fr_buf_len f = (case fr_buf f of None \<Rightarrow> 0 | Some b \<Rightarrow> length b)"

definition fr_buf_bytes :: "lk_frame \<Rightarrow> bytes" where
  "fr_buf_bytes f = (case fr_buf f of None \<Rightarrow> [] | Some b \<Rightarrow> b)"

lemma length_fr_buf_bytes [simp]: "length (fr_buf_bytes f) = fr_buf_len f"
  by (simp add: fr_buf_bytes_def fr_buf_len_def split: option.split)

abbreviation LK_CONN_SYNTHETIC :: u16 where "LK_CONN_SYNTHETIC \<equiv> 1"
abbreviation LK_CONN_TLS :: u16 where "LK_CONN_TLS \<equiv> 2"
abbreviation LK_CONN_SSL_REPLY :: u16 where "LK_CONN_SSL_REPLY \<equiv> 4"
abbreviation LK_CONN_CANCEL :: u16 where "LK_CONN_CANCEL \<equiv> 8"
abbreviation LK_CONN_REPLICATION :: u16 where "LK_CONN_REPLICATION \<equiv> 16"
abbreviation LK_CONN_CAP_HEADERS :: u16 where "LK_CONN_CAP_HEADERS \<equiv> 32"
abbreviation LK_CONN_IGNORE :: u16 where "LK_CONN_IGNORE \<equiv> 64"
abbreviation LK_CONN_COMPRESS_PENDING :: u16 where "LK_CONN_COMPRESS_PENDING \<equiv> 128"

text \<open>The registry entries (src/src/proto/registry.c); PG is index 0, the default.\<close>

datatype lk_proto_id = LK_PROTO_PG | LK_PROTO_MY | LK_PROTO_HTTP | LK_PROTO_S3 | LK_PROTO_REDIS

type_synonym addr = nat

record ('ps, 'fs) lk_conn =
  cn_hnext :: "addr option"
  cn_lru_prev :: "addr option"
  cn_lru_next :: "addr option"
  cn_cookie :: u64
  cn_tuple :: "lk_tuple option"
  cn_ops :: "lk_proto_id option"
  cn_flags :: u16
  cn_last_seq :: u32
  cn_dropped :: u32
  cn_tls_last_seq :: u32
  cn_tls_dropped :: u32
  cn_tls_seq_seen :: bool
  cn_last_activity_ns :: u64
  cn_frame :: "lk_dir \<Rightarrow> lk_frame"
  cn_proto_state :: "'ps option"
  cn_frame_state :: "'fs option"

text \<open>\<open>calloc\<close> of a connection entry.\<close>

definition lk_conn_zero :: "('ps, 'fs) lk_conn" where
  "lk_conn_zero = \<lparr>cn_hnext = None, cn_lru_prev = None, cn_lru_next = None, cn_cookie = 0,
     cn_tuple = None, cn_ops = None, cn_flags = 0, cn_last_seq = 0, cn_dropped = 0,
     cn_tls_last_seq = 0, cn_tls_dropped = 0, cn_tls_seq_seen = False, cn_last_activity_ns = 0,
     cn_frame = (\<lambda>_. lk_frame_zero), cn_proto_state = None, cn_frame_state = None\<rparr>"

definition upd_frame :: "lk_dir \<Rightarrow> lk_frame \<Rightarrow> ('ps, 'fs) lk_conn \<Rightarrow> ('ps, 'fs) lk_conn" where
  "upd_frame d f c = c\<lparr>cn_frame := (cn_frame c)(d := f)\<rparr>"

lemma upd_frame_simps [simp]:
  "cn_frame (upd_frame d f c) = (cn_frame c)(d := f)"
  "cn_flags (upd_frame d f c) = cn_flags c"
  "cn_ops (upd_frame d f c) = cn_ops c"
  "cn_cookie (upd_frame d f c) = cn_cookie c"
  "cn_tuple (upd_frame d f c) = cn_tuple c"
  "cn_proto_state (upd_frame d f c) = cn_proto_state c"
  "cn_frame_state (upd_frame d f c) = cn_frame_state c"
  "upd_frame d f (upd_frame d g c) = upd_frame d f c"
  "upd_frame d (cn_frame c d) c = c"
  by (simp_all add: upd_frame_def)

section \<open>Messages and the framer's sink (reassembly.h)\<close>

definition LK_MSG_BODY_MAX :: nat where "LK_MSG_BODY_MAX = 16 * 1024"
definition LK_REASM_POOL_MAX :: nat where "LK_REASM_POOL_MAX = 64"

lemma LK_MSG_BODY_MAX_pos [simp]: "0 < LK_MSG_BODY_MAX"
  by (simp add: LK_MSG_BODY_MAX_def)

abbreviation LK_PG_PROTO_V3 :: u32 where "LK_PG_PROTO_V3 \<equiv> 0x00030000"
abbreviation LK_PG_CANCEL_REQUEST :: u32 where "LK_PG_CANCEL_REQUEST \<equiv> 80877102"
abbreviation LK_PG_SSL_REQUEST :: u32 where "LK_PG_SSL_REQUEST \<equiv> 80877103"
abbreviation LK_PG_GSSENC_REQUEST :: u32 where "LK_PG_GSSENC_REQUEST \<equiv> 80877104"

abbreviation LK_MSG_BODY_TRUNC :: u16 where "LK_MSG_BODY_TRUNC \<equiv> 1"
abbreviation LK_MSG_AFTER_RESYNC :: u16 where "LK_MSG_AFTER_RESYNC \<equiv> 2"
abbreviation LK_MSG_STARTUP :: u16 where "LK_MSG_STARTUP \<equiv> 4"

record lk_msg =
  m_ts_ns :: u64
  m_type :: u8
  m_flags :: u16
  m_len :: nat
  m_body :: bytes

abbreviation m_body_cap :: "lk_msg \<Rightarrow> nat" where
  "m_body_cap m \<equiv> length (m_body m)"

abbreviation m_trunc :: "lk_msg \<Rightarrow> bool" where
  "m_trunc m \<equiv> has_flag (m_flags m) LK_MSG_BODY_TRUNC"

text \<open>The sink: a context and callbacks, each of which may be NULL. A callback gets the context
  and the connection and gives both back.\<close>

record ('h, 'ps, 'fs) lk_msg_sink =
  sk_ctx :: 'h
  sk_on_msg :: "('h \<Rightarrow> ('ps, 'fs) lk_conn \<Rightarrow> lk_dir \<Rightarrow> lk_msg \<Rightarrow> 'h \<times> ('ps, 'fs) lk_conn) option"
  sk_on_conn_open :: "('h \<Rightarrow> ('ps, 'fs) lk_conn \<Rightarrow> 'h \<times> ('ps, 'fs) lk_conn) option"
  sk_on_conn_close :: "('h \<Rightarrow> ('ps, 'fs) lk_conn \<Rightarrow> 'h \<times> ('ps, 'fs) lk_conn) option"
  sk_on_resync :: "('h \<Rightarrow> ('ps, 'fs) lk_conn \<Rightarrow> lk_dir \<Rightarrow> 'h \<times> ('ps, 'fs) lk_conn) option"

record lk_reasm_stats =
  rs_msgs :: nat
  rs_msgs_trunc :: nat
  rs_holes :: nat
  rs_hole_bytes :: nat
  rs_bad_len :: nat
  rs_hdr_holes :: nat
  rs_off_anomalies :: nat
  rs_resyncs :: nat
  rs_tls_conns :: nat

definition lk_reasm_stats_zero :: lk_reasm_stats where
  "lk_reasm_stats_zero = \<lparr>rs_msgs = 0, rs_msgs_trunc = 0, rs_holes = 0, rs_hole_bytes = 0,
     rs_bad_len = 0, rs_hdr_holes = 0, rs_off_anomalies = 0, rs_resyncs = 0, rs_tls_conns = 0\<rparr>"

text \<open>The slabs of the free list are interchangeable, so the list is its length \<open>r_pool_n\<close>.\<close>

record ('h, 'ps, 'fs) lk_reasm =
  r_sink :: "('h, 'ps, 'fs) lk_msg_sink"
  r_st :: lk_reasm_stats
  r_pool_n :: nat
  r_heap :: heap

section \<open>The protocol boundary (proto.h)\<close>

abbreviation LK_PROTO_F_STREAM :: u16 where "LK_PROTO_F_STREAM \<equiv> 1"

text \<open>The framer hooks of one wire protocol. The two intercept hooks may be NULL. \<open>parse_hdr\<close>
  gives the updated frame, \<open>resync_scan\<close> the bytes used, whether the anchor was found and the
  updated frame, \<open>intercept_bytes\<close> whether to go on, and the bytes that are left.\<close>

record ('h, 'ps, 'fs) lk_proto_ops =
  op_name :: string
  op_flags :: u16
  op_hdr_size :: "('ps, 'fs) lk_conn \<Rightarrow> lk_dir \<Rightarrow> lk_frame \<Rightarrow> nat"
  op_parse_hdr :: "('ps, 'fs) lk_conn \<Rightarrow> lk_dir \<Rightarrow> lk_frame \<Rightarrow> bool \<times> lk_frame"
  op_pre_emit :: "('ps, 'fs) lk_conn \<Rightarrow> lk_dir \<Rightarrow> lk_msg \<Rightarrow> ('ps, 'fs) lk_conn \<times> lk_msg"
  op_intercept_bytes :: "(('h, 'ps, 'fs) lk_reasm \<Rightarrow> ('ps, 'fs) lk_conn \<Rightarrow> lk_dir \<Rightarrow> bytes \<Rightarrow> u64
     \<Rightarrow> bool \<times> ('h, 'ps, 'fs) lk_reasm \<times> ('ps, 'fs) lk_conn \<times> bytes) option"
  op_intercept_hole :: "(('ps, 'fs) lk_conn \<Rightarrow> lk_dir \<Rightarrow> bool \<times> ('ps, 'fs) lk_conn) option"
  op_resync_scan :: "lk_dir \<Rightarrow> lk_frame \<Rightarrow> bytes \<Rightarrow> nat \<times> bool \<times> lk_frame"
  op_resync_boundary :: "lk_dir \<Rightarrow> lk_ev_data \<Rightarrow> nat \<Rightarrow> bool"
  op_stream_bytes :: "('h, 'ps, 'fs) lk_reasm \<Rightarrow> ('ps, 'fs) lk_conn \<Rightarrow> lk_dir \<Rightarrow> bytes \<Rightarrow> u64
     \<Rightarrow> ('h, 'ps, 'fs) lk_reasm \<times> ('ps, 'fs) lk_conn"
  op_stream_hole :: "('h, 'ps, 'fs) lk_reasm \<Rightarrow> ('ps, 'fs) lk_conn \<Rightarrow> lk_dir \<Rightarrow> nat
     \<Rightarrow> ('h, 'ps, 'fs) lk_reasm \<times> ('ps, 'fs) lk_conn"

end
