(* ===== verification/Reassembly.thy ===== *)
theory Reassembly
  imports Lk_Types "HOL-Library.Monad_Syntax"
begin

text \<open>
  The streaming framer, src/src/agent/reassembly.c: per direction it turns captured bytes and
  holes of known size into whole protocol messages. One definition per C function; each arm of
  the state machine of \<open>lk_frame_bytes\<close> and \<open>lk_frame_hole\<close> is a step definition of its own and
  the \<open>while\<close> loop is a \<open>partial_function\<close>, so that a loop that does not end is \<open>None\<close>.

  \<open>tab\<close> is the protocol registry: it gives the hooks of a connection's protocol. \<open>c->frame[dir]\<close>,
  which the C code reads through the pointer \<open>f\<close>, is \<open>cn_frame c dir\<close>.
\<close>

section \<open>Counters and callbacks\<close>

definition upd_st :: "(lk_reasm_stats \<Rightarrow> lk_reasm_stats) \<Rightarrow> ('h, 'ps, 'fs) lk_reasm
    \<Rightarrow> ('h, 'ps, 'fs) lk_reasm" where
  "upd_st f r = r\<lparr>r_st := f (r_st r)\<rparr>"

definition call_on_msg :: "('h, 'ps, 'fs) lk_reasm \<Rightarrow> ('ps, 'fs) lk_conn \<Rightarrow> lk_dir \<Rightarrow> lk_msg
    \<Rightarrow> ('h, 'ps, 'fs) lk_reasm \<times> ('ps, 'fs) lk_conn" where
  "call_on_msg r c dir m =
     (case sk_on_msg (r_sink r) of
        None \<Rightarrow> (r, c)
      | Some cb \<Rightarrow> (let (h, c) = cb (sk_ctx (r_sink r)) c dir m in (r\<lparr>r_sink := (r_sink r)\<lparr>sk_ctx := h\<rparr>\<rparr>, c)))"

definition call_on_resync :: "('h, 'ps, 'fs) lk_reasm \<Rightarrow> ('ps, 'fs) lk_conn \<Rightarrow> lk_dir
    \<Rightarrow> ('h, 'ps, 'fs) lk_reasm \<times> ('ps, 'fs) lk_conn" where
  "call_on_resync r c dir =
     (case sk_on_resync (r_sink r) of
        None \<Rightarrow> (r, c)
      | Some cb \<Rightarrow> (let (h, c) = cb (sk_ctx (r_sink r)) c dir in (r\<lparr>r_sink := (r_sink r)\<lparr>sk_ctx := h\<rparr>\<rparr>, c)))"

section \<open>Protocol resolution, initialisation\<close>

text \<open>The effective protocol of a connection (also \<open>lk_conn_proto\<close> of proto.h): no assigned
  protocol means PG.\<close>

definition lk_conn_proto :: "('ps, 'fs) lk_conn \<Rightarrow> lk_proto_id" where
  "lk_conn_proto c = (case cn_ops c of None \<Rightarrow> LK_PROTO_PG | Some i \<Rightarrow> i)"

definition conn_ops :: "(lk_proto_id \<Rightarrow> ('h, 'ps, 'fs) lk_proto_ops) \<Rightarrow> ('ps, 'fs) lk_conn
    \<Rightarrow> ('h, 'ps, 'fs) lk_proto_ops \<times> ('ps, 'fs) lk_conn" where
  "conn_ops tab c = (let i = lk_conn_proto c in (tab i, c\<lparr>cn_ops := Some i\<rparr>))"

definition lk_reasm_init :: "('h, 'ps, 'fs) lk_msg_sink \<Rightarrow> heap \<Rightarrow> ('h, 'ps, 'fs) lk_reasm" where
  "lk_reasm_init sink hp = \<lparr>r_sink = sink, r_st = lk_reasm_stats_zero, r_pool_n = 0, r_heap = hp\<rparr>"

text \<open>\<open>while (r->pool_n) free(r->pool[--r->pool_n]);\<close>\<close>

fun pool_drain :: "nat \<Rightarrow> heap \<Rightarrow> heap" where
  "pool_drain 0 hp = hp"
| "pool_drain (Suc n) hp = pool_drain n (hp_free hp)"

definition lk_reasm_free :: "('h, 'ps, 'fs) lk_reasm \<Rightarrow> ('h, 'ps, 'fs) lk_reasm" where
  "lk_reasm_free r = r\<lparr>r_pool_n := 0, r_heap := pool_drain (r_pool_n r) (r_heap r)\<rparr>"

section \<open>The slab pool\<close>

text \<open>\<open>buf_get\<close>: pop the free list or \<open>malloc\<close>; False is NULL.\<close>

definition buf_get :: "('h, 'ps, 'fs) lk_reasm \<Rightarrow> bool \<times> ('h, 'ps, 'fs) lk_reasm" where
  "buf_get r =
     (if 0 < r_pool_n r then (True, r\<lparr>r_pool_n := r_pool_n r - 1\<rparr>)
      else (let (ok, hp) = hp_alloc (r_heap r) in (ok, r\<lparr>r_heap := hp\<rparr>)))"

definition buf_put :: "('h, 'ps, 'fs) lk_reasm \<Rightarrow> bytes option \<Rightarrow> ('h, 'ps, 'fs) lk_reasm" where
  "buf_put r b =
     (case b of
        None \<Rightarrow> r
      | Some _ \<Rightarrow> (if r_pool_n r < LK_REASM_POOL_MAX then r\<lparr>r_pool_n := r_pool_n r + 1\<rparr>
                   else r\<lparr>r_heap := hp_free (r_heap r)\<rparr>))"

text \<open>The pool as a stream protocol sees it.\<close>

definition lk_reasm_buf_get :: "('h, 'ps, 'fs) lk_reasm \<Rightarrow> bool \<times> ('h, 'ps, 'fs) lk_reasm" where
  "lk_reasm_buf_get r = buf_get r"

definition lk_reasm_buf_put :: "('h, 'ps, 'fs) lk_reasm \<Rightarrow> bytes option \<Rightarrow> ('h, 'ps, 'fs) lk_reasm" where
  "lk_reasm_buf_put r b = buf_put r b"

text \<open>\<open>if (!f->buf) f->buf = buf_get(r);\<close>\<close>

definition buf_acquire :: "('h, 'ps, 'fs) lk_reasm \<Rightarrow> lk_frame \<Rightarrow> ('h, 'ps, 'fs) lk_reasm \<times> lk_frame" where
  "buf_acquire r f =
     (case fr_buf f of
        Some _ \<Rightarrow> (r, f)
      | None \<Rightarrow> (let (ok, r) = buf_get r in (r, if ok then f\<lparr>fr_buf := Some []\<rparr> else f)))"

section \<open>Message boundary, loss and resynchronisation\<close>

definition msg_reset :: "('h, 'ps, 'fs) lk_reasm \<Rightarrow> lk_frame \<Rightarrow> ('h, 'ps, 'fs) lk_reasm \<times> lk_frame" where
  "msg_reset r f =
     (buf_put r (fr_buf f),
      f\<lparr>fr_buf := None, fr_hdr := [], fr_body_len := 0, fr_msg_cont := False,
        fr_prefix_closed := False, fr_st := LK_FR_HEADER\<rparr>)"

definition go_dirty :: "(lk_reasm_stats \<Rightarrow> lk_reasm_stats) \<Rightarrow> ('h, 'ps, 'fs) lk_reasm
    \<Rightarrow> ('ps, 'fs) lk_conn \<Rightarrow> lk_dir \<Rightarrow> ('h, 'ps, 'fs) lk_reasm \<times> ('ps, 'fs) lk_conn" where
  "go_dirty counter r c dir =
     (let (r, f) = msg_reset (upd_st counter r) (cn_frame c dir)
      in (r, upd_frame dir (f\<lparr>fr_skip_left := 0, fr_resync_matched := 0, fr_st := LK_FR_DIRTY\<rparr>) c))"

abbreviation inc_bad_len :: "lk_reasm_stats \<Rightarrow> lk_reasm_stats" where
  "inc_bad_len s \<equiv> s\<lparr>rs_bad_len := rs_bad_len s + 1\<rparr>"
abbreviation inc_hdr_holes :: "lk_reasm_stats \<Rightarrow> lk_reasm_stats" where
  "inc_hdr_holes s \<equiv> s\<lparr>rs_hdr_holes := rs_hdr_holes s + 1\<rparr>"
abbreviation inc_off_anomalies :: "lk_reasm_stats \<Rightarrow> lk_reasm_stats" where
  "inc_off_anomalies s \<equiv> s\<lparr>rs_off_anomalies := rs_off_anomalies s + 1\<rparr>"

definition do_resync :: "('h, 'ps, 'fs) lk_reasm \<Rightarrow> ('ps, 'fs) lk_conn \<Rightarrow> lk_dir
    \<Rightarrow> ('h, 'ps, 'fs) lk_reasm \<times> ('ps, 'fs) lk_conn" where
  "do_resync r c dir =
     (let (r, f) = msg_reset r (cn_frame c dir);
          f = f\<lparr>fr_skip_left := 0, fr_resync_matched := 0, fr_after_resync := True,
                fr_startup_done := True\<rparr>;
          r = upd_st (\<lambda>s. s\<lparr>rs_resyncs := rs_resyncs s + 1\<rparr>) r
      in call_on_resync r (upd_frame dir f c) dir)"

section \<open>Emitting a message\<close>

text \<open>The stamp and the counters shared by \<open>emit\<close> and \<open>lk_reasm_emit\<close>.\<close>

definition stamp_resync :: "('ps, 'fs) lk_conn \<Rightarrow> lk_dir \<Rightarrow> lk_msg \<Rightarrow> ('ps, 'fs) lk_conn \<times> lk_msg" where
  "stamp_resync c dir m =
     (if fr_after_resync (cn_frame c dir)
      then (upd_frame dir ((cn_frame c dir)\<lparr>fr_after_resync := False\<rparr>) c,
            m\<lparr>m_flags := m_flags m OR LK_MSG_AFTER_RESYNC\<rparr>)
      else (c, m))"

definition lk_reasm_emit :: "('h, 'ps, 'fs) lk_reasm \<Rightarrow> ('ps, 'fs) lk_conn \<Rightarrow> lk_dir \<Rightarrow> lk_msg
    \<Rightarrow> ('h, 'ps, 'fs) lk_reasm \<times> ('ps, 'fs) lk_conn" where
  "lk_reasm_emit r c dir m =
     (let (c, m) = stamp_resync c dir m;
          r = (if m_trunc m then upd_st (\<lambda>s. s\<lparr>rs_msgs_trunc := rs_msgs_trunc s + 1\<rparr>) r else r);
          r = upd_st (\<lambda>s. s\<lparr>rs_msgs := rs_msgs s + 1\<rparr>) r
      in call_on_msg r c dir m)"

definition lk_reasm_resync :: "('h, 'ps, 'fs) lk_reasm \<Rightarrow> ('ps, 'fs) lk_conn \<Rightarrow> lk_dir
    \<Rightarrow> ('h, 'ps, 'fs) lk_reasm \<times> ('ps, 'fs) lk_conn" where
  "lk_reasm_resync r c dir = do_resync r c dir"

definition emit :: "('h, 'ps, 'fs) lk_proto_ops \<Rightarrow> ('h, 'ps, 'fs) lk_reasm \<Rightarrow> ('ps, 'fs) lk_conn
    \<Rightarrow> lk_dir \<Rightarrow> bytes \<Rightarrow> ('h, 'ps, 'fs) lk_reasm \<times> ('ps, 'fs) lk_conn" where
  "emit ops r c dir body =
     (let f = cn_frame c dir;
          m = \<lparr>m_ts_ns = fr_msg_ts f, m_type = fr_msg_type f, m_flags = 0, m_len = fr_msg_len f,
               m_body = body\<rparr>;
          (c, m) = op_pre_emit ops c dir m;
          (c, m) = stamp_resync c dir m;
          cut = length body < fr_body_total (cn_frame c dir);
          m = (if cut then m\<lparr>m_flags := m_flags m OR LK_MSG_BODY_TRUNC\<rparr> else m);
          r = (if cut then upd_st (\<lambda>s. s\<lparr>rs_msgs_trunc := rs_msgs_trunc s + 1\<rparr>) r else r);
          r = upd_st (\<lambda>s. s\<lparr>rs_msgs := rs_msgs s + 1\<rparr>) r
      in call_on_msg r c dir m)"

definition body_target :: "lk_frame \<Rightarrow> nat" where
  "body_target f = (if fr_body_len f < LK_MSG_BODY_MAX then fr_body_len f else LK_MSG_BODY_MAX)"

definition went_blind :: "('h, 'ps, 'fs) lk_reasm \<Rightarrow> ('ps, 'fs) lk_conn \<Rightarrow> u16
    \<Rightarrow> bool \<times> ('h, 'ps, 'fs) lk_reasm" where
  "went_blind r c entry_flags =
     (if has_flag entry_flags (LK_CONN_TLS OR LK_CONN_IGNORE)
         \<or> \<not> has_flag (cn_flags c) (LK_CONN_TLS OR LK_CONN_IGNORE) then (False, r)
      else (True, if has_flag (cn_flags c) LK_CONN_TLS
                  then upd_st (\<lambda>s. s\<lparr>rs_tls_conns := rs_tls_conns s + 1\<rparr>) r else r))"

section \<open>Bytes\<close>

text \<open>One turn of a loop: \<open>return\<close>, or go on with what is left of the input.\<close>

datatype ('r, 'c, 'i) step = Return 'r 'c | Next 'r 'c 'i

text \<open>After an emitted message: leave the loop when the connection went blind.\<close>

definition after_emit :: "('h, 'ps, 'fs) lk_reasm \<Rightarrow> ('ps, 'fs) lk_conn \<Rightarrow> u16 \<Rightarrow> 'i
    \<Rightarrow> (('h, 'ps, 'fs) lk_reasm, ('ps, 'fs) lk_conn, 'i) step" where
  "after_emit r c entry_flags rest =
     (let (blind, r) = went_blind r c entry_flags in if blind then Return r c else Next r c rest)"

text \<open>\<open>case LK_FR_HEADER\<close>\<close>

definition header_step :: "('h, 'ps, 'fs) lk_proto_ops \<Rightarrow> lk_dir \<Rightarrow> u16 \<Rightarrow> u64
    \<Rightarrow> ('h, 'ps, 'fs) lk_reasm \<Rightarrow> ('ps, 'fs) lk_conn \<Rightarrow> bytes
    \<Rightarrow> (('h, 'ps, 'fs) lk_reasm, ('ps, 'fs) lk_conn, bytes) step" where
  "header_step ops dir entry_flags ts r c p =
     (let f = cn_frame c dir;
          hdr_size = op_hdr_size ops c dir f;
          f = (if fr_hdr f = [] \<and> \<not> fr_msg_cont f then f\<lparr>fr_msg_ts := ts\<rparr> else f);
          n = min (hdr_size - length (fr_hdr f)) (length p);
          f = f\<lparr>fr_hdr := fr_hdr f @ take n p\<rparr>
      in if length (fr_hdr f) < hdr_size then Return r (upd_frame dir f c)
         else case op_parse_hdr ops c dir f of (ok, f) \<Rightarrow>
           if \<not> ok then (case go_dirty inc_bad_len r (upd_frame dir f c) dir of (r, c) \<Rightarrow> Return r c)
           else if fr_body_len f = 0 then
             (case emit ops r (upd_frame dir f c) dir (fr_buf_bytes f) of (r, c) \<Rightarrow>
              case msg_reset r (cn_frame c dir) of (r, f) \<Rightarrow>
                after_emit r (upd_frame dir f c) entry_flags (drop n p))
           else Next r (upd_frame dir (f\<lparr>fr_st := LK_FR_BODY\<rparr>) c) (drop n p))"

text \<open>\<open>case LK_FR_BODY\<close>, the fragment is finished and more fragments follow: pin the prefix.\<close>

definition body_cont :: "lk_dir \<Rightarrow> ('h, 'ps, 'fs) lk_reasm \<Rightarrow> ('ps, 'fs) lk_conn \<Rightarrow> lk_frame
    \<Rightarrow> bytes \<Rightarrow> nat \<Rightarrow> nat \<Rightarrow> (('h, 'ps, 'fs) lk_reasm, ('ps, 'fs) lk_conn, bytes) step" where
  "body_cont dir r c f p rem skip =
     (case (if 0 < rem then buf_acquire r f else (r, f)) of (r, f) \<Rightarrow>
      (let f = (if 0 < rem \<and> fr_buf f \<noteq> None then f\<lparr>fr_buf := Some (fr_buf_bytes f @ take rem p)\<rparr> else f);
           f = f\<lparr>fr_prefix_closed := True, fr_hdr := [], fr_st := LK_FR_HEADER\<rparr>;
           f = (if 0 < skip then f\<lparr>fr_st := LK_FR_SKIP, fr_skip_left := skip\<rparr> else f)
       in Next r (upd_frame dir f c) (drop rem p)))"

text \<open>\<open>case LK_FR_BODY\<close>, the message is finished: emit it and skip its tail.\<close>

definition body_emit :: "('h, 'ps, 'fs) lk_proto_ops \<Rightarrow> lk_dir \<Rightarrow> u16 \<Rightarrow> ('h, 'ps, 'fs) lk_reasm
    \<Rightarrow> ('ps, 'fs) lk_conn \<Rightarrow> lk_frame \<Rightarrow> bytes \<Rightarrow> nat \<Rightarrow> nat
    \<Rightarrow> (('h, 'ps, 'fs) lk_reasm, ('ps, 'fs) lk_conn, bytes) step" where
  "body_emit ops dir entry_flags r c f p rem skip =
     (case emit ops r (upd_frame dir f c) dir (fr_buf_bytes f @ take rem p) of (r, c) \<Rightarrow>
      case msg_reset r (cn_frame c dir) of (r, f) \<Rightarrow>
      (let f = (if 0 < skip then f\<lparr>fr_st := LK_FR_SKIP, fr_skip_left := skip\<rparr> else f)
       in after_emit r (upd_frame dir f c) entry_flags (drop rem p)))"

definition body_step :: "('h, 'ps, 'fs) lk_proto_ops \<Rightarrow> lk_dir \<Rightarrow> u16 \<Rightarrow> ('h, 'ps, 'fs) lk_reasm
    \<Rightarrow> ('ps, 'fs) lk_conn \<Rightarrow> bytes \<Rightarrow> (('h, 'ps, 'fs) lk_reasm, ('ps, 'fs) lk_conn, bytes) step" where
  "body_step ops dir entry_flags r c p =
     (let f = cn_frame c dir;
          target = (if fr_prefix_closed f then fr_buf_len f else body_target f);
          rem = target - fr_buf_len f;
          short = length p < rem
      in case (if short then buf_acquire r f else (r, f)) of (r, f) \<Rightarrow>
         if short \<and> fr_buf f \<noteq> None
         then Return r (upd_frame dir (f\<lparr>fr_buf := Some (fr_buf_bytes f @ p)\<rparr>) c)
         else (let rem = (if short then length p else rem);
                   target = (if short then fr_buf_len f + length p else target);
                   skip = fr_body_len f - (if fr_prefix_closed f then 0 else target)
               in if fr_msg_cont f then body_cont dir r c f p rem skip
                  else body_emit ops dir entry_flags r c f p rem skip))"

text \<open>\<open>case LK_FR_SKIP\<close>\<close>

definition skip_frame :: "nat \<Rightarrow> lk_frame \<Rightarrow> lk_frame" where
  "skip_frame n f = (let left = fr_skip_left f - n; f = f\<lparr>fr_skip_left := left\<rparr>
     in if left = 0 then f\<lparr>fr_st := LK_FR_HEADER\<rparr> else f)"

definition skip_step :: "lk_dir \<Rightarrow> ('h, 'ps, 'fs) lk_reasm \<Rightarrow> ('ps, 'fs) lk_conn \<Rightarrow> bytes
    \<Rightarrow> (('h, 'ps, 'fs) lk_reasm, ('ps, 'fs) lk_conn, bytes) step" where
  "skip_step dir r c p =
     (let f = cn_frame c dir; n = min (fr_skip_left f) (length p)
      in Next r (upd_frame dir (skip_frame n f) c) (drop n p))"

text \<open>\<open>case LK_FR_DIRTY\<close>\<close>

definition dirty_step :: "('h, 'ps, 'fs) lk_proto_ops \<Rightarrow> lk_dir \<Rightarrow> ('h, 'ps, 'fs) lk_reasm
    \<Rightarrow> ('ps, 'fs) lk_conn \<Rightarrow> bytes \<Rightarrow> (('h, 'ps, 'fs) lk_reasm, ('ps, 'fs) lk_conn, bytes) step" where
  "dirty_step ops dir r c p =
     (case op_resync_scan ops dir (cn_frame c dir) p of (used, found, f) \<Rightarrow>
        if \<not> found then Return r (upd_frame dir f c)
        else (case do_resync r (upd_frame dir f c) dir of (r, c) \<Rightarrow> Next r c (drop used p)))"

definition bytes_step :: "('h, 'ps, 'fs) lk_proto_ops \<Rightarrow> lk_dir \<Rightarrow> u16 \<Rightarrow> u64
    \<Rightarrow> ('h, 'ps, 'fs) lk_reasm \<Rightarrow> ('ps, 'fs) lk_conn \<Rightarrow> bytes
    \<Rightarrow> (('h, 'ps, 'fs) lk_reasm, ('ps, 'fs) lk_conn, bytes) step" where
  "bytes_step ops dir entry_flags ts r c p =
     (case fr_st (cn_frame c dir) of
        LK_FR_HEADER \<Rightarrow> header_step ops dir entry_flags ts r c p
      | LK_FR_BODY \<Rightarrow> body_step ops dir entry_flags r c p
      | LK_FR_SKIP \<Rightarrow> skip_step dir r c p
      | LK_FR_DIRTY \<Rightarrow> dirty_step ops dir r c p)"

text \<open>\<open>while (n > 0) switch (f->st) { ... }\<close>\<close>

partial_function (option) bytes_loop :: "('h, 'ps, 'fs) lk_proto_ops \<Rightarrow> lk_dir \<Rightarrow> u16 \<Rightarrow> u64
    \<Rightarrow> ('h, 'ps, 'fs) lk_reasm \<Rightarrow> ('ps, 'fs) lk_conn \<Rightarrow> bytes
    \<Rightarrow> (('h, 'ps, 'fs) lk_reasm \<times> ('ps, 'fs) lk_conn) option" where
  "bytes_loop ops dir entry_flags ts r c p =
     (if p = [] then Some (r, c)
      else case bytes_step ops dir entry_flags ts r c p of
             Return r c \<Rightarrow> Some (r, c)
           | Next r c p \<Rightarrow> bytes_loop ops dir entry_flags ts r c p)"

definition lk_frame_bytes :: "(lk_proto_id \<Rightarrow> ('h, 'ps, 'fs) lk_proto_ops) \<Rightarrow> ('h, 'ps, 'fs) lk_reasm
    \<Rightarrow> ('ps, 'fs) lk_conn \<Rightarrow> lk_dir \<Rightarrow> bytes \<Rightarrow> u64
    \<Rightarrow> (('h, 'ps, 'fs) lk_reasm \<times> ('ps, 'fs) lk_conn) option" where
  "lk_frame_bytes tab r c dir p ts =
     (case conn_ops tab c of (ops, c) \<Rightarrow>
      let entry_flags = cn_flags c
      in if has_flag (op_flags ops) LK_PROTO_F_STREAM
         then Some (if p \<noteq> [] then op_stream_bytes ops r c dir p ts else (r, c))
         else case op_intercept_bytes ops of
                None \<Rightarrow> bytes_loop ops dir entry_flags ts r c p
              | Some ib \<Rightarrow>
                  if p = [] then Some (r, c)
                  else (case ib r c dir p ts of (go, r, c, p) \<Rightarrow>
                          if go then bytes_loop ops dir entry_flags ts r c p else Some (r, c)))"

section \<open>Holes\<close>

definition hole_body_step :: "('h, 'ps, 'fs) lk_proto_ops \<Rightarrow> lk_dir \<Rightarrow> u16 \<Rightarrow> ('h, 'ps, 'fs) lk_reasm
    \<Rightarrow> ('ps, 'fs) lk_conn \<Rightarrow> nat \<Rightarrow> (('h, 'ps, 'fs) lk_reasm, ('ps, 'fs) lk_conn, nat) step" where
  "hole_body_step ops dir entry_flags r c n =
     (let f = cn_frame c dir;
          rem = fr_body_len f - (if fr_prefix_closed f then 0 else fr_buf_len f);
          k = min rem n;
          tail = (\<lambda>f. if k < rem then f\<lparr>fr_st := LK_FR_SKIP, fr_skip_left := rem - k\<rparr> else f)
      in if fr_msg_cont f
         then Next r (upd_frame dir (tail (f\<lparr>fr_prefix_closed := True, fr_hdr := [],
                fr_st := LK_FR_HEADER\<rparr>)) c) (n - k)
         else (case emit ops r c dir (fr_buf_bytes f) of (r, c) \<Rightarrow>
               case msg_reset r (cn_frame c dir) of (r, f) \<Rightarrow>
                 after_emit r (upd_frame dir (tail f) c) entry_flags (n - k)))"

definition hole_step :: "('h, 'ps, 'fs) lk_proto_ops \<Rightarrow> lk_dir \<Rightarrow> u16 \<Rightarrow> ('h, 'ps, 'fs) lk_reasm
    \<Rightarrow> ('ps, 'fs) lk_conn \<Rightarrow> nat \<Rightarrow> (('h, 'ps, 'fs) lk_reasm, ('ps, 'fs) lk_conn, nat) step" where
  "hole_step ops dir entry_flags r c n =
     (case fr_st (cn_frame c dir) of
        LK_FR_HEADER \<Rightarrow> (case go_dirty inc_hdr_holes r c dir of (r, c) \<Rightarrow> Return r c)
      | LK_FR_BODY \<Rightarrow> hole_body_step ops dir entry_flags r c n
      | LK_FR_SKIP \<Rightarrow> (let f = cn_frame c dir; k = min (fr_skip_left f) n
                       in Next r (upd_frame dir (skip_frame k f) c) (n - k))
      | LK_FR_DIRTY \<Rightarrow> Return r c)"

partial_function (option) hole_loop :: "('h, 'ps, 'fs) lk_proto_ops \<Rightarrow> lk_dir \<Rightarrow> u16
    \<Rightarrow> ('h, 'ps, 'fs) lk_reasm \<Rightarrow> ('ps, 'fs) lk_conn \<Rightarrow> nat
    \<Rightarrow> (('h, 'ps, 'fs) lk_reasm \<times> ('ps, 'fs) lk_conn) option" where
  "hole_loop ops dir entry_flags r c n =
     (if n = 0 then Some (r, c)
      else case hole_step ops dir entry_flags r c n of
             Return r c \<Rightarrow> Some (r, c)
           | Next r c n \<Rightarrow> hole_loop ops dir entry_flags r c n)"

definition count_hole :: "nat \<Rightarrow> ('h, 'ps, 'fs) lk_reasm \<Rightarrow> ('h, 'ps, 'fs) lk_reasm" where
  "count_hole n = upd_st (\<lambda>s. s\<lparr>rs_holes := rs_holes s + 1, rs_hole_bytes := rs_hole_bytes s + n\<rparr>)"

definition lk_frame_hole :: "(lk_proto_id \<Rightarrow> ('h, 'ps, 'fs) lk_proto_ops) \<Rightarrow> ('h, 'ps, 'fs) lk_reasm
    \<Rightarrow> ('ps, 'fs) lk_conn \<Rightarrow> lk_dir \<Rightarrow> nat
    \<Rightarrow> (('h, 'ps, 'fs) lk_reasm \<times> ('ps, 'fs) lk_conn) option" where
  "lk_frame_hole tab r c dir n =
     (case conn_ops tab c of (ops, c) \<Rightarrow>
      let entry_flags = cn_flags c
      in if n = 0 then Some (r, c)
         else if has_flag (op_flags ops) LK_PROTO_F_STREAM
         then Some (op_stream_hole ops (count_hole n r) c dir n)
         else case (case op_intercept_hole ops of None \<Rightarrow> (False, c) | Some ih \<Rightarrow> ih c dir) of (hit, c) \<Rightarrow>
           if hit then Some (go_dirty inc_hdr_holes r c dir)
           else if fr_st (cn_frame c dir) = LK_FR_DIRTY
           then Some (r, upd_frame dir ((cn_frame c dir)\<lparr>fr_resync_matched := 0\<rparr>) c)
           else hole_loop ops dir entry_flags (count_hole n r) c n)"

section \<open>Events\<close>

text \<open>\<open>if (off == 0) ... else if (f->call_total == 0) ...\<close>: a new call closes an under-captured
  one with a hole; a chunk with no call in progress adopts the call.\<close>

definition call_begin :: "(lk_proto_id \<Rightarrow> ('h, 'ps, 'fs) lk_proto_ops) \<Rightarrow> ('h, 'ps, 'fs) lk_reasm
    \<Rightarrow> ('ps, 'fs) lk_conn \<Rightarrow> lk_dir \<Rightarrow> lk_ev_data
    \<Rightarrow> (('h, 'ps, 'fs) lk_reasm \<times> ('ps, 'fs) lk_conn) option" where
  "call_begin tab r c dir ev =
     (let f = cn_frame c dir;
          start = (\<lambda>c. upd_frame dir ((cn_frame c dir)\<lparr>fr_call_total := ed_total_len ev, fr_call_pos := 0\<rparr>) c)
      in if ed_off ev = 0 then
           do { (r, c) \<leftarrow> (if fr_call_pos f < fr_call_total f
                            then lk_frame_hole tab r c dir (fr_call_total f - fr_call_pos f)
                            else Some (r, c));
                Some (r, start c) }
         else if fr_call_total f = 0 then Some (r, start c)
         else Some (r, c))"

text \<open>Off-anomalies dirty a clean direction; a missing interval is a hole.\<close>

definition call_align :: "(lk_proto_id \<Rightarrow> ('h, 'ps, 'fs) lk_proto_ops) \<Rightarrow> ('h, 'ps, 'fs) lk_reasm
    \<Rightarrow> ('ps, 'fs) lk_conn \<Rightarrow> lk_dir \<Rightarrow> lk_ev_data \<Rightarrow> nat
    \<Rightarrow> (('h, 'ps, 'fs) lk_reasm \<times> ('ps, 'fs) lk_conn) option" where
  "call_align tab r c dir ev cap_len =
     (let f = cn_frame c dir; total = ed_total_len ev; off = ed_off ev
      in if total \<noteq> fr_call_total f \<or> off < fr_call_pos f \<or> total < off + cap_len then
           (case (if fr_st f \<noteq> LK_FR_DIRTY then go_dirty inc_off_anomalies r c dir else (r, c)) of (r, c) \<Rightarrow>
              Some (r, upd_frame dir ((cn_frame c dir)\<lparr>fr_call_total := total, fr_call_pos := off\<rparr>) c))
         else if fr_call_pos f < off then
           do { (r, c) \<leftarrow> lk_frame_hole tab r c dir (off - fr_call_pos f);
                Some (r, upd_frame dir ((cn_frame c dir)\<lparr>fr_call_pos := off\<rparr>) c) }
         else Some (r, c))"

text \<open>\<open>f->call_pos = off + cap_len\<close> (32-bit), and the call is forgotten once accounted for.\<close>

definition call_end :: "('ps, 'fs) lk_conn \<Rightarrow> lk_dir \<Rightarrow> lk_ev_data \<Rightarrow> nat \<Rightarrow> ('ps, 'fs) lk_conn" where
  "call_end c dir ev cap_len =
     (let f = cn_frame c dir; pos = (ed_off ev + cap_len) mod 2 ^ 32
      in upd_frame dir (if fr_call_total f \<le> pos then f\<lparr>fr_call_pos := 0, fr_call_total := 0\<rparr>
                        else f\<lparr>fr_call_pos := pos\<rparr>) c)"

definition lk_reasm_data :: "(lk_proto_id \<Rightarrow> ('h, 'ps, 'fs) lk_proto_ops) \<Rightarrow> ('h, 'ps, 'fs) lk_reasm
    \<Rightarrow> ('ps, 'fs) lk_conn \<Rightarrow> lk_dir \<Rightarrow> lk_ev_data \<Rightarrow> nat
    \<Rightarrow> (('h, 'ps, 'fs) lk_reasm \<times> ('ps, 'fs) lk_conn) option" where
  "lk_reasm_data tab r c dir ev cap_len =
     (case conn_ops tab c of (ops, c) \<Rightarrow>
      let decrypted = has_flag (eh_flags (ed_hdr ev)) LK_F_DECRYPTED
      in if has_flag (cn_flags c) (LK_CONN_CANCEL OR LK_CONN_IGNORE) then Some (r, c)
         else if has_flag (cn_flags c) LK_CONN_TLS \<and> \<not> decrypted then Some (r, c)
         else do {
           (r, c) \<leftarrow> call_begin tab r c dir ev;
           (r, c) \<leftarrow> call_align tab r c dir ev cap_len;
           (r, c) \<leftarrow> Some (if fr_st (cn_frame c dir) = LK_FR_DIRTY
                              \<and> \<not> has_flag (op_flags ops) LK_PROTO_F_STREAM
                              \<and> op_resync_boundary ops dir ev cap_len
                           then do_resync r c dir else (r, c));
           (r, c) \<leftarrow> (if 0 < cap_len
                       then lk_frame_bytes tab r c dir (take cap_len (ed_payload ev)) (eh_ts_ns (ed_hdr ev))
                       else Some (r, c));
           Some (r, call_end c dir ev cap_len) })"

end
