(* ===== verification/Framer.thy ===== *)
theory Framer
  imports Reassembly
begin

text \<open>
  The contract between the framer and a message-framed protocol (\<open>framer_ops\<close>, the contract notes
  of \<open>struct lk_proto_ops\<close> in src/src/proto/proto.h) and between the framer and its sink
  (\<open>sink_ok\<close>), and what follows for the framer for every protocol that keeps it: the loops end,
  the per-direction state stays well formed, a direction never buffers more than
  \<open>LK_MSG_BODY_MAX\<close> bytes, the free list never exceeds its cap and no slab is leaked or freed
  twice.
\<close>

section \<open>What a sink may do\<close>

text \<open>A callback may change a connection's flags and the handler's state, nothing else.\<close>

definition keeps_core :: "('ps, 'fs) lk_conn \<Rightarrow> ('ps, 'fs) lk_conn \<Rightarrow> bool" where
  "keeps_core c c' \<longleftrightarrow> c' = c\<lparr>cn_flags := cn_flags c', cn_proto_state := cn_proto_state c'\<rparr>"

lemma keeps_core_refl [simp]: "keeps_core c c"
  by (simp add: keeps_core_def)

lemma keeps_core_ops: "keeps_core c c' \<Longrightarrow> cn_ops c' = cn_ops c"
  unfolding keeps_core_def
  by (metis lk_conn.select_convs(6) lk_conn.surjective lk_conn.update_convs(7,15))

lemma keeps_core_frame: "keeps_core c c' \<Longrightarrow> cn_frame c' = cn_frame c"
  unfolding keeps_core_def by (metis lk_conn.select_convs(14) lk_conn.surjective lk_conn.update_convs(7,15))

definition sink_ok :: "('h, 'ps, 'fs) lk_msg_sink \<Rightarrow> bool" where
  "sink_ok s \<longleftrightarrow>
     (\<forall>cb h c d m. sk_on_msg s = Some cb \<longrightarrow> keeps_core c (snd (cb h c d m))) \<and>
     (\<forall>cb h c d. sk_on_resync s = Some cb \<longrightarrow> keeps_core c (snd (cb h c d)))"

lemma sink_ok_ctx [simp]: "sink_ok (s\<lparr>sk_ctx := h\<rparr>) = sink_ok s"
  by (simp add: sink_ok_def)

section \<open>Well-formed direction state\<close>

definition frame_inv :: "nat \<Rightarrow> lk_frame \<Rightarrow> bool" where
  "frame_inv hs f \<longleftrightarrow> length (fr_hdr f) \<le> 8 \<and> fr_buf_len f \<le> LK_MSG_BODY_MAX \<and>
     (case fr_st f of
        LK_FR_HEADER \<Rightarrow> length (fr_hdr f) < hs \<and> (fr_msg_cont f \<longleftrightarrow> fr_prefix_closed f)
                        \<and> (\<not> fr_msg_cont f \<longrightarrow> fr_buf f = None)
      | LK_FR_BODY \<Rightarrow> 0 < fr_body_len f \<and> (\<not> fr_prefix_closed f \<longrightarrow> fr_buf_len f < body_target f)
      | LK_FR_SKIP \<Rightarrow> 0 < fr_skip_left f \<and> fr_hdr f = [] \<and> (fr_msg_cont f \<longleftrightarrow> fr_prefix_closed f)
                        \<and> (\<not> fr_msg_cont f \<longrightarrow> fr_buf f = None)
      | LK_FR_DIRTY \<Rightarrow> True)"

definition slabs_of :: "lk_frame \<Rightarrow> nat" where
  "slabs_of f = (if fr_buf f = None then 0 else 1)"

definition slabs_held :: "('ps, 'fs) lk_conn \<Rightarrow> nat" where
  "slabs_held c = slabs_of (cn_frame c LK_DIR_SEND) + slabs_of (cn_frame c LK_DIR_RECV)"

text \<open>The pool: at most \<open>LK_REASM_POOL_MAX\<close> recycled slabs, and every live block is in the pool, in
  one of this connection's directions, or among the \<open>k\<close> blocks other connections hold.\<close>

definition pool_inv :: "nat \<Rightarrow> ('h, 'ps, 'fs) lk_reasm \<Rightarrow> ('ps, 'fs) lk_conn \<Rightarrow> bool" where
  "pool_inv k r c \<longleftrightarrow> r_pool_n r \<le> LK_REASM_POOL_MAX \<and>
     hp_live (r_heap r) = r_pool_n r + slabs_held c + k"

lemma frame_inv_upd [simp]:
  "frame_inv hs (f\<lparr>fr_startup_done := x\<rparr>) = frame_inv hs f"
  "frame_inv hs (f\<lparr>fr_after_resync := x\<rparr>) = frame_inv hs f"
  "frame_inv hs (f\<lparr>fr_resync_matched := n\<rparr>) = frame_inv hs f"
  "frame_inv hs (f\<lparr>fr_call_pos := n\<rparr>) = frame_inv hs f"
  "frame_inv hs (f\<lparr>fr_call_total := n\<rparr>) = frame_inv hs f"
  by (cases "fr_st f"; simp add: frame_inv_def fr_buf_len_def body_target_def)+

lemma fr_buf_len_upd [simp]:
  "fr_buf_len (f\<lparr>fr_st := x1\<rparr>) = fr_buf_len f"
  "fr_buf_len (f\<lparr>fr_buf := Some b\<rparr>) = length b"
  "fr_buf_len (f\<lparr>fr_buf := None\<rparr>) = 0"
  by (simp_all add: fr_buf_len_def)

lemma frame_inv_zero: "0 < hs \<Longrightarrow> frame_inv hs lk_frame_zero"
  by (simp add: frame_inv_def lk_frame_zero_def fr_buf_len_def)

section \<open>The pool under the buffer operations\<close>

lemma slabs_held_upd:
  "slabs_held (upd_frame d f c) + slabs_of (cn_frame c d) = slabs_held c + slabs_of f"
  by (cases d) (simp_all add: slabs_held_def)

lemma pool_inv_buf_get:
  assumes "pool_inv k r c" and "buf_get r = (ok, r')"
  shows "r_pool_n r' \<le> LK_REASM_POOL_MAX"
    and "hp_live (r_heap r') = r_pool_n r' + slabs_held c + k + (if ok then 1 else 0)"
    and "r_sink r' = r_sink r"
  using assms by (auto simp: pool_inv_def buf_get_def hp_alloc_def Let_def split: if_splits)

lemma pool_inv_frame:
  "slabs_of f = slabs_of (cn_frame c d) \<Longrightarrow> pool_inv k r (upd_frame d f c) = pool_inv k r c"
  using slabs_held_upd [of d f c] by (simp add: pool_inv_def)

lemma buf_acquire_cases:
  assumes "buf_acquire r f = (r', f')" and "pool_inv k r (upd_frame d f c)"
  shows "pool_inv k r' (upd_frame d f' c)"
    and "r_sink r' = r_sink r" "r_st r' = r_st r"
    and "f' = f \<or> fr_buf f = None \<and> f' = f\<lparr>fr_buf := Some []\<rparr>"
proof -
  show "r_sink r' = r_sink r" "r_st r' = r_st r"
    and "f' = f \<or> fr_buf f = None \<and> f' = f\<lparr>fr_buf := Some []\<rparr>"
    using assms by (auto simp: buf_acquire_def buf_get_def Let_def split: option.splits if_splits prod.splits)
  show "pool_inv k r' (upd_frame d f' c)"
  proof (cases "fr_buf f")
    case None
    obtain ok where bg: "buf_get r = (ok, r')" and f': "f' = (if ok then f\<lparr>fr_buf := Some []\<rparr> else f)"
      using assms(1) None by (auto simp: buf_acquire_def split: prod.splits)
    show ?thesis
      using pool_inv_buf_get [OF assms(2) bg] slabs_held_upd [of d f c] slabs_held_upd [of d f' c] None f'
      by (auto simp: pool_inv_def slabs_of_def split: if_splits)
  qed (use assms in \<open>simp add: buf_acquire_def\<close>)
qed

lemma buf_acquire_if:
  assumes "(if b then buf_acquire r f else (r, f)) = (r', f')" and "pool_inv k r (upd_frame d f c)"
  shows "pool_inv k r' (upd_frame d f' c)" and "r_sink r' = r_sink r"
    and "f' = f \<or> fr_buf f = None \<and> f' = f\<lparr>fr_buf := Some []\<rparr>"
proof -
  have "pool_inv k r' (upd_frame d f' c) \<and> r_sink r' = r_sink r \<and>
      (f' = f \<or> fr_buf f = None \<and> f' = f\<lparr>fr_buf := Some []\<rparr>)"
  proof (cases b)
    case True
    then have "buf_acquire r f = (r', f')" using assms(1) by simp
    then show ?thesis using buf_acquire_cases [OF _ assms(2)] by blast
  next
    case False
    then show ?thesis using assms by simp
  qed
  then show "pool_inv k r' (upd_frame d f' c)" and "r_sink r' = r_sink r"
    and "f' = f \<or> fr_buf f = None \<and> f' = f\<lparr>fr_buf := Some []\<rparr>"
    by blast+
qed

lemma msg_reset_pool:
  assumes "msg_reset r (cn_frame c d) = (r', f')" and "pool_inv k r c" and "fr_buf g = None"
  shows "pool_inv k r' (upd_frame d g c)" and "r_sink r' = r_sink r"
  using assms slabs_held_upd [of d g c]
  by (auto simp: msg_reset_def buf_put_def pool_inv_def slabs_of_def hp_free_def
      split: option.splits if_splits)

section \<open>Callbacks\<close>

lemma call_on_msg_keeps:
  assumes "sink_ok (r_sink r)" and "call_on_msg r c d m = (r', c')"
  shows "sink_ok (r_sink r')" "r_pool_n r' = r_pool_n r" "r_heap r' = r_heap r"
    "r_st r' = r_st r" "keeps_core c c'"
  using assms
  by (auto simp: call_on_msg_def sink_ok_def Let_def split: option.splits prod.splits)
    (metis snd_conv)+

lemma call_on_resync_keeps:
  assumes "sink_ok (r_sink r)" and "call_on_resync r c d = (r', c')"
  shows "sink_ok (r_sink r')" "r_pool_n r' = r_pool_n r" "r_heap r' = r_heap r"
    "r_st r' = r_st r" "keeps_core c c'"
  using assms
  by (auto simp: call_on_resync_def sink_ok_def Let_def split: option.splits prod.splits)
    (metis snd_conv)+

lemma upd_st_simps [simp]:
  "r_sink (upd_st g r) = r_sink r" "r_pool_n (upd_st g r) = r_pool_n r"
  "r_heap (upd_st g r) = r_heap r" "r_st (upd_st g r) = g (r_st r)"
  by (simp_all add: upd_st_def)

lemma pool_inv_upd_st [simp]: "pool_inv k (upd_st g r) c = pool_inv k r c"
  by (simp add: pool_inv_def)

lemma pool_inv_cong:
  "r_pool_n r' = r_pool_n r \<Longrightarrow> r_heap r' = r_heap r \<Longrightarrow> (\<And>d. slabs_of (cn_frame c' d) = slabs_of (cn_frame c d))
   \<Longrightarrow> pool_inv k r' c' = pool_inv k r c"
  by (simp add: pool_inv_def slabs_held_def)

section \<open>The contract of a message-framed protocol\<close>

text \<open>\<open>parse_hdr\<close> fills in the description of the message and leaves everything else alone.\<close>

definition hdr_fields_only :: "lk_frame \<Rightarrow> lk_frame \<Rightarrow> bool" where
  "hdr_fields_only f f' \<longleftrightarrow>
     f' = f\<lparr>fr_msg_len := fr_msg_len f', fr_body_len := fr_body_len f',
            fr_body_total := fr_body_total f', fr_msg_type := fr_msg_type f',
            fr_msg_cont := fr_msg_cont f', fr_msg_seq := fr_msg_seq f', fr_msg_seq0 := fr_msg_seq0 f'\<rparr>"

text \<open>\<open>pre_emit\<close> may set the phase bit of either direction, connection flags, and the type and
  flags of the message.\<close>

definition phase_only :: "('ps, 'fs) lk_conn \<Rightarrow> ('ps, 'fs) lk_conn \<Rightarrow> bool" where
  "phase_only c c' \<longleftrightarrow>
     c' = c\<lparr>cn_flags := cn_flags c',
            cn_frame := (\<lambda>d. (cn_frame c d)\<lparr>fr_startup_done := fr_startup_done (cn_frame c' d)\<rparr>)\<rparr>"

locale framer_ops =
  fixes pid :: lk_proto_id and ops :: "('h, 'ps, 'fs) lk_proto_ops"
  assumes message_mode: "\<not> has_flag (op_flags ops) LK_PROTO_F_STREAM"
    and hdr_size_pos: "0 < op_hdr_size ops c d f"
    and hdr_size_le: "op_hdr_size ops c d f \<le> 8"
    and hdr_size_cong:
      "fr_startup_done f = fr_startup_done g \<Longrightarrow> op_hdr_size ops c d f = op_hdr_size ops c' d g"
    and parse_hdr_fields: "op_parse_hdr ops c d f = (ok, f') \<Longrightarrow> hdr_fields_only f f'"
    and pre_emit_phase: "op_pre_emit ops c d m = (c', m') \<Longrightarrow> phase_only c c'"
    and pre_emit_msg:
      "op_pre_emit ops c d m = (c', m') \<Longrightarrow> m' = m\<lparr>m_type := m_type m', m_flags := m_flags m'\<rparr>"
    and pre_emit_other: "op_pre_emit ops c d m = (c', m') \<Longrightarrow> d' \<noteq> d
      \<Longrightarrow> op_hdr_size ops c' d' (cn_frame c' d') = op_hdr_size ops c d' (cn_frame c d')"
    and scan_used: "op_resync_scan ops d f p = (used, found, f') \<Longrightarrow> found \<Longrightarrow> p \<noteq> [] \<Longrightarrow> 0 < used"
    and scan_frame: "op_resync_scan ops d f p = (used, found, f')
      \<Longrightarrow> f' = f\<lparr>fr_resync_matched := fr_resync_matched f'\<rparr>"
    and intercept_bytes_keeps: "op_intercept_bytes ops = Some ib \<Longrightarrow> sink_ok (r_sink r)
      \<Longrightarrow> ib r c d p ts = (go, r', c', p') \<Longrightarrow> sink_ok (r_sink r') \<and> r_pool_n r' = r_pool_n r
          \<and> r_heap r' = r_heap r \<and> keeps_core c c' \<and> length p' \<le> length p"
    and intercept_hole_keeps: "op_intercept_hole ops = Some ih \<Longrightarrow> ih c d = (hit, c') \<Longrightarrow> keeps_core c c'"
begin

definition frames_ok :: "('ps, 'fs) lk_conn \<Rightarrow> bool" where
  "frames_ok c \<longleftrightarrow> (\<forall>d. frame_inv (op_hdr_size ops c d (cn_frame c d)) (cn_frame c d))"

definition framer_inv :: "nat \<Rightarrow> ('h, 'ps, 'fs) lk_reasm \<Rightarrow> ('ps, 'fs) lk_conn \<Rightarrow> bool" where
  "framer_inv k r c \<longleftrightarrow> cn_ops c = Some pid \<and> sink_ok (r_sink r) \<and> pool_inv k r c \<and> frames_ok c"

text \<open>The invariant without the condition on the direction being worked on.\<close>

definition outer_inv :: "nat \<Rightarrow> lk_dir \<Rightarrow> ('h, 'ps, 'fs) lk_reasm \<Rightarrow> ('ps, 'fs) lk_conn \<Rightarrow> bool" where
  "outer_inv k d r c \<longleftrightarrow> cn_ops c = Some pid \<and> sink_ok (r_sink r) \<and> pool_inv k r c \<and>
     (\<forall>d'. d' \<noteq> d \<longrightarrow> frame_inv (op_hdr_size ops c d' (cn_frame c d')) (cn_frame c d'))"

lemma framer_inv_split:
  "framer_inv k r c \<longleftrightarrow> outer_inv k d r c \<and> frame_inv (op_hdr_size ops c d (cn_frame c d)) (cn_frame c d)"
  by (auto simp: framer_inv_def outer_inv_def frames_ok_def)

lemma hdr_size_conn: "op_hdr_size ops c d f = op_hdr_size ops c' d f"
  by (rule hdr_size_cong) simp

lemma emit_frames:
  assumes "sink_ok (r_sink r)" and "emit ops r c d body = (r', c')"
  shows "sink_ok (r_sink r')" "r_pool_n r' = r_pool_n r" "r_heap r' = r_heap r"
    and "cn_ops c' = cn_ops c"
    and "\<exists>s a. cn_frame c' d' = (cn_frame c d')\<lparr>fr_startup_done := s, fr_after_resync := a\<rparr>"
    and "d' \<noteq> d \<Longrightarrow> op_hdr_size ops c' d' (cn_frame c' d') = op_hdr_size ops c d' (cn_frame c d')"
    and "d' \<noteq> d \<Longrightarrow> fr_after_resync (cn_frame c' d') = fr_after_resync (cn_frame c d')"
proof -
  let ?m = "\<lparr>m_ts_ns = fr_msg_ts (cn_frame c d), m_type = fr_msg_type (cn_frame c d), m_flags = 0,
     m_len = fr_msg_len (cn_frame c d), m_body = body\<rparr>"
  obtain c1 m1 where pe: "op_pre_emit ops c d ?m = (c1, m1)" by fastforce
  obtain c2 m2 where sr: "stamp_resync c1 d m1 = (c2, m2)" by fastforce
  let ?t = "\<lambda>s. s\<lparr>rs_msgs_trunc := rs_msgs_trunc s + 1\<rparr>" and ?n = "\<lambda>s. s\<lparr>rs_msgs := rs_msgs s + 1\<rparr>"
  let ?cut = "length body < fr_body_total (cn_frame c2 d)"
  define r2 where "r2 = upd_st ?n (if ?cut then upd_st ?t r else r)"
  define m3 where "m3 = (if ?cut then m2\<lparr>m_flags := m_flags m2 OR LK_MSG_BODY_TRUNC\<rparr> else m2)"
  have r2: "r_sink r2 = r_sink r" "r_pool_n r2 = r_pool_n r" "r_heap r2 = r_heap r"
    by (simp_all add: r2_def)
  have cb: "call_on_msg r2 c2 d m3 = (r', c')"
    using assms(2) pe sr by (simp add: emit_def Let_def r2_def m3_def)
  note cbk = call_on_msg_keeps [OF _ cb]
  have "cn_ops c1 = cn_ops c"
    using pre_emit_phase [OF pe] unfolding phase_only_def
    by (metis (no_types, lifting) lk_conn.select_convs(6) lk_conn.surjective lk_conn.update_convs(7,14))
  moreover have "cn_ops c2 = cn_ops c1"
    using sr by (auto simp: stamp_resync_def split: if_splits)
  ultimately show "cn_ops c' = cn_ops c"
    using keeps_core_ops [OF cbk(5)] assms(1) r2(1) by simp
  have ph: "cn_frame c1 d' = (cn_frame c d')\<lparr>fr_startup_done := fr_startup_done (cn_frame c1 d')\<rparr>" for d'
    using pre_emit_phase [OF pe] unfolding phase_only_def
    by (metis (no_types, lifting) lk_conn.select_convs(14) lk_conn.surjective lk_conn.update_convs(14))
  have st: "cn_frame c2 = (cn_frame c1)(d := (cn_frame c1 d)\<lparr>fr_after_resync := False\<rparr>) \<or> cn_frame c2 = cn_frame c1"
    using sr by (auto simp: stamp_resync_def split: if_splits)
  have fr: "cn_frame c' = cn_frame c2"
    using cbk(5) assms(1) r2(1) by (simp add: keeps_core_frame)
  show "sink_ok (r_sink r')" "r_pool_n r' = r_pool_n r" "r_heap r' = r_heap r"
    using cbk assms(1) r2 by simp_all
  show "\<exists>s a. cn_frame c' d' = (cn_frame c d')\<lparr>fr_startup_done := s, fr_after_resync := a\<rparr>"
  proof -
    have "cn_frame c' d' = cn_frame c1 d' \<or> cn_frame c' d' = (cn_frame c1 d')\<lparr>fr_after_resync := False\<rparr>"
      using st fr by auto
    moreover obtain s where s: "cn_frame c1 d' = (cn_frame c d')\<lparr>fr_startup_done := s\<rparr>"
      using ph by blast
    ultimately show ?thesis
      by (metis lk_frame.surjective lk_frame.update_convs(14,15))
  qed
  have other: "cn_frame c' d' = cn_frame c1 d'" if "d' \<noteq> d"
    using st fr that by auto
  show "op_hdr_size ops c' d' (cn_frame c' d') = op_hdr_size ops c d' (cn_frame c d')" if "d' \<noteq> d"
    using other [OF that] pre_emit_other [OF pe that] hdr_size_conn by metis
  show "fr_after_resync (cn_frame c' d') = fr_after_resync (cn_frame c d')" if "d' \<noteq> d"
    using arg_cong [OF ph [of d'], of fr_after_resync] by (simp add: other [OF that])
qed

lemma emit_outer:
  assumes "outer_inv k d r c" and "emit ops r c d body = (r', c')"
  shows "outer_inv k d r' c'"
proof -
  have sk: "sink_ok (r_sink r)"
    using assms(1) by (simp add: outer_inv_def)
  note e = emit_frames [OF sk assms(2)]
  have sl: "slabs_of (cn_frame c' d') = slabs_of (cn_frame c d')" for d'
    using e(5) [of d'] by (auto simp: slabs_of_def)
  have "frame_inv (op_hdr_size ops c' d' (cn_frame c' d')) (cn_frame c' d')" if "d' \<noteq> d" for d'
    using e(5) [of d'] e(6) [OF that] assms(1) that by (auto simp: outer_inv_def)
  then show ?thesis
    using e(1-4) assms(1) pool_inv_cong [OF e(2,3) sl] by (simp add: outer_inv_def)
qed

text \<open>Closing a message: whatever the direction looked like, after the reset it may be left in any
  well-formed state without a slab.\<close>

lemma reset_inv:
  assumes "outer_inv k d r c" and "msg_reset r (cn_frame c d) = (r', f')"
    and "fr_buf g = None" and "\<And>hs. 0 < hs \<Longrightarrow> frame_inv hs g"
  shows "framer_inv k r' (upd_frame d g c)"
proof -
  have "frame_inv (op_hdr_size ops (upd_frame d g c) d g) g"
    using assms(4) hdr_size_pos by blast
  moreover have "outer_inv k d r' (upd_frame d g c)"
    using assms(1) msg_reset_pool [OF assms(2) _ assms(3)] hdr_size_conn [of "upd_frame d g c" _ _ c]
    by (auto simp: outer_inv_def)
  ultimately show ?thesis
    by (simp add: framer_inv_split [of _ _ _ d])
qed

lemma outer_upd: "slabs_of f = slabs_of (cn_frame c d) \<Longrightarrow> outer_inv k d r (upd_frame d f c) = outer_inv k d r c"
  using hdr_size_conn [of "upd_frame d f c" _ _ c] by (simp add: outer_inv_def pool_inv_frame)

lemma framer_inv_upd:
  assumes "slabs_of f = slabs_of (cn_frame c d)" and "outer_inv k d r c"
    and "frame_inv (op_hdr_size ops c d f) f"
  shows "framer_inv k r (upd_frame d f c)"
  using assms hdr_size_conn [of "upd_frame d f c" d f c]
  by (simp add: framer_inv_split [of _ _ _ d] outer_upd)

lemma go_dirty_inv [inv_intros]:
  assumes "outer_inv k d r c" and "go_dirty g r c d = (r', c')"
  shows "framer_inv k r' c'"
proof -
  obtain f1 where mr: "msg_reset (upd_st g r) (cn_frame c d) = (r', f1)"
    and c': "c' = upd_frame d (f1\<lparr>fr_skip_left := 0, fr_resync_matched := 0, fr_st := LK_FR_DIRTY\<rparr>) c"
    using assms(2) by (auto simp: go_dirty_def Let_def split: prod.splits)
  have "outer_inv k d (upd_st g r) c"
    using assms(1) by (simp add: outer_inv_def)
  then show ?thesis
    unfolding c' using mr
    by (rule reset_inv) (use mr in \<open>auto simp: msg_reset_def frame_inv_def fr_buf_len_def\<close>)
qed

lemma do_resync_inv [inv_intros]:
  assumes "outer_inv k d r c" and "do_resync r c d = (r', c')"
  shows "framer_inv k r' c'" and "cn_frame c' d' = (if d' = d then (cn_frame c d)\<lparr>fr_buf := None, fr_hdr := [],
      fr_body_len := 0, fr_msg_cont := False, fr_prefix_closed := False, fr_st := LK_FR_HEADER,
      fr_skip_left := 0, fr_resync_matched := 0, fr_after_resync := True, fr_startup_done := True\<rparr>
      else cn_frame c d')"
proof -
  define g where "g = (cn_frame c d)\<lparr>fr_buf := None, fr_hdr := [], fr_body_len := 0,
      fr_msg_cont := False, fr_prefix_closed := False, fr_st := LK_FR_HEADER, fr_skip_left := 0,
      fr_resync_matched := 0, fr_after_resync := True, fr_startup_done := True\<rparr>"
  obtain r1 f1 where mr: "msg_reset r (cn_frame c d) = (r1, f1)"
    by fastforce
  have cb: "call_on_resync (upd_st (\<lambda>s. s\<lparr>rs_resyncs := rs_resyncs s + 1\<rparr>) r1) (upd_frame d g c) d = (r', c')"
    using assms(2) mr by (auto simp: do_resync_def msg_reset_def g_def)
  have inv: "framer_inv k r1 (upd_frame d g c)"
    using assms(1) mr by (rule reset_inv) (auto simp: g_def frame_inv_def fr_buf_len_def)
  then have "sink_ok (r_sink (upd_st (\<lambda>s. s\<lparr>rs_resyncs := rs_resyncs s + 1\<rparr>) r1))"
    by (simp add: framer_inv_def)
  note k = call_on_resync_keeps [OF this cb]
  have fr: "cn_frame c' = (cn_frame c)(d := g)"
    using keeps_core_frame [OF k(5)] by simp
  show "framer_inv k r' c'"
    using inv k fr hdr_size_conn [of c' _ _ "upd_frame d g c"] keeps_core_ops [OF k(5)]
    by (simp add: framer_inv_def frames_ok_def pool_inv_def slabs_held_def)
  show "cn_frame c' d' = (if d' = d then (cn_frame c d)\<lparr>fr_buf := None, fr_hdr := [],
      fr_body_len := 0, fr_msg_cont := False, fr_prefix_closed := False, fr_st := LK_FR_HEADER,
      fr_skip_left := 0, fr_resync_matched := 0, fr_after_resync := True, fr_startup_done := True\<rparr>
      else cn_frame c d')"
    by (simp add: fr g_def)
qed

text \<open>A turn of a loop is good when it keeps the invariant and, if the loop goes on, makes the
  state and the rest of the input satisfy \<open>P\<close>.\<close>

definition good :: "nat \<Rightarrow> (('ps, 'fs) lk_conn \<Rightarrow> 'i \<Rightarrow> bool)
    \<Rightarrow> (('h, 'ps, 'fs) lk_reasm, ('ps, 'fs) lk_conn, 'i) step \<Rightarrow> bool" where
  "good k P s = (case s of Return r c \<Rightarrow> framer_inv k r c | Next r c i \<Rightarrow> framer_inv k r c \<and> P c i)"

lemma good_simps [simp]:
  "good k P (Return r c) = framer_inv k r c"
  "good k P (Next r c i) \<longleftrightarrow> framer_inv k r c \<and> P c i"
  by (simp_all add: good_def)

lemma framer_inv_upd_st [simp]: "framer_inv k (upd_st g r) c = framer_inv k r c"
  by (simp add: framer_inv_def)

lemma good_after_emit: "framer_inv k r c \<Longrightarrow> P c i \<Longrightarrow> good k P (after_emit r c ef i)"
  by (auto simp: after_emit_def went_blind_def Let_def)

text \<open>The shape of every arm that ends a message: emit, reset, perhaps skip a tail.\<close>

lemma good_emit_reset:
  assumes inv: "outer_inv k d r c" and tail: "\<And>f hs. fr_buf f = None \<Longrightarrow> fr_hdr f = []
      \<Longrightarrow> \<not> fr_msg_cont f \<Longrightarrow> \<not> fr_prefix_closed f \<Longrightarrow> fr_st f = LK_FR_HEADER \<Longrightarrow> 0 < hs
      \<Longrightarrow> fr_buf (t f) = None \<and> frame_inv hs (t f)"
    and P: "\<And>f c. fr_st f = LK_FR_HEADER \<Longrightarrow> P (upd_frame d (t f) c) i"
  shows "good k P (case emit ops r c d body of (r, c) \<Rightarrow>
      case msg_reset r (cn_frame c d) of (r, f) \<Rightarrow> after_emit r (upd_frame d (t f) c) ef i)"
proof -
  obtain r1 c1 where e: "emit ops r c d body = (r1, c1)" by fastforce
  obtain r2 f2 where m: "msg_reset r1 (cn_frame c1 d) = (r2, f2)" by fastforce
  have f2: "fr_buf f2 = None" "fr_hdr f2 = []" "\<not> fr_msg_cont f2" "\<not> fr_prefix_closed f2"
      "fr_st f2 = LK_FR_HEADER"
    using m by (auto simp: msg_reset_def)
  have "framer_inv k r2 (upd_frame d (t f2) c1)"
    by (rule reset_inv [OF emit_outer [OF inv e] m]) (use tail [OF f2] in \<open>auto\<close>)
  then show ?thesis
    using P [OF f2(5)] by (simp add: e m good_after_emit)
qed

text \<open>What decreases: the input, or else the state leaves \<open>BODY\<close>.\<close>

definition loop_meas :: "lk_dir \<Rightarrow> ('ps, 'fs) lk_conn \<Rightarrow> nat \<Rightarrow> nat" where
  "loop_meas d c n = 2 * n + (if fr_st (cn_frame c d) = LK_FR_BODY then 1 else 0)"

lemma hdr_fields_frame:
  assumes "hdr_fields_only f f'"
  shows "fr_hdr f' = fr_hdr f" "fr_buf f' = fr_buf f" "fr_prefix_closed f' = fr_prefix_closed f"
    "fr_st f' = fr_st f" "fr_startup_done f' = fr_startup_done f" "fr_skip_left f' = fr_skip_left f"
    "fr_after_resync f' = fr_after_resync f" "fr_msg_ts f' = fr_msg_ts f"
    "fr_call_pos f' = fr_call_pos f" "fr_call_total f' = fr_call_total f"
    "fr_resync_matched f' = fr_resync_matched f"
proof -
  obtain a b c e x y z where f': "f' = f\<lparr>fr_msg_len := a, fr_body_len := b, fr_body_total := c,
      fr_msg_type := e, fr_msg_cont := x, fr_msg_seq := y, fr_msg_seq0 := z\<rparr>"
    using assms unfolding hdr_fields_only_def by blast
  show "fr_hdr f' = fr_hdr f" "fr_buf f' = fr_buf f" "fr_prefix_closed f' = fr_prefix_closed f"
    "fr_st f' = fr_st f" "fr_startup_done f' = fr_startup_done f" "fr_skip_left f' = fr_skip_left f"
    "fr_after_resync f' = fr_after_resync f" "fr_msg_ts f' = fr_msg_ts f"
    "fr_call_pos f' = fr_call_pos f" "fr_call_total f' = fr_call_total f"
    "fr_resync_matched f' = fr_resync_matched f"
    by (simp_all add: f')
qed

lemma header_step_good:
  assumes inv: "framer_inv k r c" and st: "fr_st (cn_frame c d) = LK_FR_HEADER" and p: "p \<noteq> []"
  shows "good k (\<lambda>c' p'. loop_meas d c' (length p') < loop_meas d c (length p))
           (header_step ops d ef ts r c p)"
proof -
  define f0 where "f0 = cn_frame c d"
  define hs where "hs = op_hdr_size ops c d f0"
  define f1 where "f1 = (if fr_hdr f0 = [] \<and> \<not> fr_msg_cont f0 then f0\<lparr>fr_msg_ts := ts\<rparr> else f0)"
  define n where "n = min (hs - length (fr_hdr f1)) (length p)"
  define f2 where "f2 = f1\<lparr>fr_hdr := fr_hdr f1 @ take n p\<rparr>"
  obtain ok f3 where ph: "op_parse_hdr ops c d f2 = (ok, f3)" by fastforce
  note f3 = hdr_fields_frame [OF parse_hdr_fields [OF ph]]
  have o: "outer_inv k d r c" and fi: "frame_inv hs f0"
    using inv by (simp_all add: framer_inv_split [of _ _ _ d] hs_def f0_def)
  have f2s: "fr_st f2 = LK_FR_HEADER" "fr_buf f2 = fr_buf f0" "fr_prefix_closed f2 = fr_prefix_closed f0"
      "fr_msg_cont f2 = fr_msg_cont f0" "fr_startup_done f2 = fr_startup_done f0" "length (fr_hdr f2) \<le> hs"
    using st fi by (auto simp: f2_def f1_def f0_def n_def frame_inv_def)
  have hs8: "hs \<le> 8" by (simp add: hs_def hdr_size_le)
  have n: "0 < n" "n \<le> length p"
    using fi st p by (auto simp: n_def f1_def frame_inv_def f0_def)
  have hsf: "op_hdr_size ops c d f = hs" if "fr_startup_done f = fr_startup_done f0" for f
    using that hdr_size_cong by (auto simp: hs_def)
  have sl: "slabs_of f3 = slabs_of (cn_frame c d)"
    using f3 f2s by (simp add: slabs_of_def f0_def)
  have step: "header_step ops d ef ts r c p =
     (if length (fr_hdr f2) < hs then Return r (upd_frame d f2 c)
      else if \<not> ok then (case go_dirty inc_bad_len r (upd_frame d f3 c) d of (r, c) \<Rightarrow> Return r c)
      else if fr_body_len f3 = 0 then
        (case emit ops r (upd_frame d f3 c) d (fr_buf_bytes f3) of (r, c) \<Rightarrow>
         case msg_reset r (cn_frame c d) of (r, f) \<Rightarrow> after_emit r (upd_frame d f c) ef (drop n p))
      else Next r (upd_frame d (f3\<lparr>fr_st := LK_FR_BODY\<rparr>) c) (drop n p))"
    unfolding header_step_def Let_def f0_def [symmetric] hs_def [symmetric] f1_def [symmetric]
      n_def [symmetric] f2_def [symmetric] ph by simp
  have short: "framer_inv k r (upd_frame d f2 c)" if "length (fr_hdr f2) < hs"
    using that o fi f2s hs8 st
    by (intro framer_inv_upd) (auto simp: slabs_of_def hsf frame_inv_def fr_buf_len_def f0_def)
  have dirty: "framer_inv k r' c'" if "go_dirty inc_bad_len r (upd_frame d f3 c) d = (r', c')" for r' c'
    using go_dirty_inv that o sl by (metis outer_upd)
  have body: "framer_inv k r (upd_frame d (f3\<lparr>fr_st := LK_FR_BODY\<rparr>) c)" if "fr_body_len f3 \<noteq> 0"
    using that o fi f2s f3 hs8 st sl
    by (intro framer_inv_upd) (auto simp: slabs_of_def hsf frame_inv_def fr_buf_len_def f0_def body_target_def
        split: option.splits)
  have em: "good k (\<lambda>c' p'. loop_meas d c' (length p') < loop_meas d c (length p))
      (case emit ops r (upd_frame d f3 c) d (fr_buf_bytes f3) of (r, c) \<Rightarrow>
       case msg_reset r (cn_frame c d) of (r, f) \<Rightarrow> after_emit r (upd_frame d f c) ef (drop n p))"
    using n o sl st by (intro good_emit_reset [where t = "\<lambda>f. f"])
      (auto simp: outer_upd loop_meas_def frame_inv_def fr_buf_len_def)
  show ?thesis
    using short dirty body em n by (auto simp: step loop_meas_def st split: prod.splits)
qed

lemma body_cont_good:
  assumes o: "outer_inv k d r (upd_frame d f c)" and cont: "fr_msg_cont f"
    and len: "fr_buf_len f + rem \<le> LK_MSG_BODY_MAX" "rem \<le> length p"
    and P: "\<And>f. fr_st f \<noteq> LK_FR_BODY \<Longrightarrow> P (upd_frame d f c) (drop rem p)"
  shows "good k P (body_cont d r c f p rem skip)"
proof -
  obtain r1 f1 where a: "(if 0 < rem then buf_acquire r f else (r, f)) = (r1, f1)" by fastforce
  define f2 where "f2 = (if 0 < rem \<and> fr_buf f1 \<noteq> None
      then f1\<lparr>fr_buf := Some (fr_buf_bytes f1 @ take rem p)\<rparr> else f1)"
  define f3 where "f3 = f2\<lparr>fr_prefix_closed := True, fr_hdr := [], fr_st := LK_FR_HEADER\<rparr>"
  define f4 where "f4 = (if 0 < skip then f3\<lparr>fr_st := LK_FR_SKIP, fr_skip_left := skip\<rparr> else f3)"
  have step: "body_cont d r c f p rem skip = Next r1 (upd_frame d f4 c) (drop rem p)"
    unfolding body_cont_def a Let_def prod.case f2_def [symmetric] f3_def [symmetric] f4_def [symmetric] ..
  have pi: "pool_inv k r (upd_frame d f c)"
    using o by (simp add: outer_inv_def)
  note f1 = buf_acquire_if(3,2,1) [OF a pi]
  have o1: "outer_inv k d r1 (upd_frame d f1 c)"
    using o f1 hdr_size_conn [of "upd_frame d f1 c" _ _ "upd_frame d f c"] by (auto simp: outer_inv_def)
  have sl: "slabs_of f4 = slabs_of f1"
    by (auto simp: f4_def f3_def f2_def slabs_of_def)
  have fr: "frame_inv (op_hdr_size ops (upd_frame d f1 c) d f4) f4"
    using f1(1) cont len hdr_size_pos
    by (auto simp: f4_def f3_def f2_def frame_inv_def fr_buf_len_def fr_buf_bytes_def split: option.splits)
  have "framer_inv k r1 (upd_frame d f4 (upd_frame d f1 c))"
    using sl o1 fr by (intro framer_inv_upd) simp_all
  then show ?thesis
    using P [of f4] by (simp add: step f4_def f3_def)
qed

lemma body_emit_good:
  assumes o: "outer_inv k d r (upd_frame d f c)"
    and P: "\<And>f c. fr_st f \<noteq> LK_FR_BODY \<Longrightarrow> P (upd_frame d f c) (drop rem p)"
  shows "good k P (body_emit ops d ef r c f p rem skip)"
  unfolding body_emit_def Let_def
  by (rule good_emit_reset [OF o]) (auto simp: frame_inv_def fr_buf_len_def intro: P)

lemma body_step_good:
  assumes inv: "framer_inv k r c" and st: "fr_st (cn_frame c d) = LK_FR_BODY" and p: "p \<noteq> []"
  shows "good k (\<lambda>c' p'. loop_meas d c' (length p') < loop_meas d c (length p))
           (body_step ops d ef r c p)"
proof -
  define f where "f = cn_frame c d"
  define target where "target = (if fr_prefix_closed f then fr_buf_len f else body_target f)"
  define rem where "rem = target - fr_buf_len f"
  obtain r1 f1 where a: "(if length p < rem then buf_acquire r f else (r, f)) = (r1, f1)" by fastforce
  have o: "outer_inv k d r c" and fi: "frame_inv (op_hdr_size ops c d f) f"
    using inv by (simp_all add: framer_inv_split [of _ _ _ d] f_def)
  have pi: "pool_inv k r (upd_frame d f c)"
    using o by (simp add: outer_inv_def f_def)
  note f1 = buf_acquire_if(3,2,1) [OF a pi]
  have o1: "outer_inv k d r1 (upd_frame d f1 c)"
    using o f1 hdr_size_conn [of "upd_frame d f1 c" _ _ c] by (auto simp: outer_inv_def)
  have f1s: "fr_buf_len f1 = fr_buf_len f" "fr_st f1 = LK_FR_BODY" "fr_hdr f1 = fr_hdr f"
      "fr_body_len f1 = fr_body_len f" "fr_prefix_closed f1 = fr_prefix_closed f"
    using f1(1) st by (auto simp: fr_buf_len_def f_def)
  have len: "fr_buf_len f + rem \<le> LK_MSG_BODY_MAX"
    using fi by (auto simp: rem_def target_def frame_inv_def body_target_def)
  have spill: "framer_inv k r1 (upd_frame d (f1\<lparr>fr_buf := Some (fr_buf_bytes f1 @ p)\<rparr>) c)"
    if "length p < rem" "fr_buf f1 \<noteq> None"
  proof -
    have "\<not> fr_prefix_closed f" and "fr_buf_len f + length p < body_target f"
      using that(1) by (auto simp: rem_def target_def split: if_splits)
    then have "frame_inv hs (f1\<lparr>fr_buf := Some (fr_buf_bytes f1 @ p)\<rparr>)" for hs
      using fi f1s by (simp add: frame_inv_def body_target_def split: if_splits)
    then have "framer_inv k r1 (upd_frame d (f1\<lparr>fr_buf := Some (fr_buf_bytes f1 @ p)\<rparr>) (upd_frame d f1 c))"
      using that(2) o1 by (intro framer_inv_upd) (simp_all add: slabs_of_def)
    then show ?thesis by simp
  qed
  have dec: "loop_meas d (upd_frame d f' c') (length (drop n p)) < loop_meas d c (length p)"
    if "fr_st f' \<noteq> LK_FR_BODY" for f' c' n
    using that st by (simp add: loop_meas_def)
  show ?thesis
    unfolding body_step_def Let_def f_def [symmetric] target_def [symmetric] rem_def [symmetric] a prod.case
    using spill f1s len o1
    by (auto intro!: body_cont_good body_emit_good dec)
qed

lemma skip_step_good:
  assumes inv: "framer_inv k r c" and st: "fr_st (cn_frame c d) = LK_FR_SKIP" and n: "0 < n"
    and m: "m = min (fr_skip_left (cn_frame c d)) n"
  shows "framer_inv k r (upd_frame d (skip_frame m (cn_frame c d)) c)"
    and "loop_meas d (upd_frame d (skip_frame m (cn_frame c d)) c) (n - m) < loop_meas d c n"
proof -
  let ?f = "cn_frame c d"
  have o: "outer_inv k d r c" and fi: "frame_inv (op_hdr_size ops c d ?f) ?f"
    using inv by (simp_all add: framer_inv_split [of _ _ _ d])
  have "frame_inv (op_hdr_size ops c d (skip_frame m ?f)) (skip_frame m ?f)"
    using fi st hdr_size_pos by (auto simp: skip_frame_def Let_def frame_inv_def fr_buf_len_def)
  then show "framer_inv k r (upd_frame d (skip_frame m ?f) c)"
    using o by (intro framer_inv_upd) (auto simp: slabs_of_def skip_frame_def Let_def)
  show "loop_meas d (upd_frame d (skip_frame m ?f) c) (n - m) < loop_meas d c n"
    using fi st n by (auto simp: m skip_frame_def Let_def loop_meas_def frame_inv_def)
qed

lemma dirty_step_good:
  assumes inv: "framer_inv k r c" and st: "fr_st (cn_frame c d) = LK_FR_DIRTY" and p: "p \<noteq> []"
  shows "good k (\<lambda>c' p'. loop_meas d c' (length p') < loop_meas d c (length p)) (dirty_step ops d r c p)"
proof -
  obtain used found f where sc: "op_resync_scan ops d (cn_frame c d) p = (used, found, f)"
    by (metis prod.exhaust)
  obtain n where f: "f = (cn_frame c d)\<lparr>fr_resync_matched := n\<rparr>"
    using scan_frame [OF sc] by blast
  have o: "outer_inv k d r c" and fi: "frame_inv (op_hdr_size ops c d (cn_frame c d)) (cn_frame c d)"
    using inv by (simp_all add: framer_inv_split [of _ _ _ d])
  have o': "outer_inv k d r (upd_frame d f c)"
    using o by (simp add: outer_upd f slabs_of_def)
  have "frame_inv hs f" for hs
    using fi st by (simp add: f frame_inv_def fr_buf_len_def)
  then have stay: "framer_inv k r (upd_frame d f c)"
    using o by (intro framer_inv_upd) (simp_all add: f slabs_of_def)
  obtain r1 c1 where rs: "do_resync r (upd_frame d f c) d = (r1, c1)" by fastforce
  have meas: "loop_meas d c1 (length (drop used p)) < loop_meas d c (length p)" if found
    using scan_used [OF sc that p] p do_resync_inv(2) [OF o' rs, of d]
    by (cases p) (auto simp: loop_meas_def st)
  show ?thesis
    using stay do_resync_inv(1) [OF o' rs] meas by (simp add: dirty_step_def sc rs)
qed

lemma bytes_step_good:
  assumes "framer_inv k r c" and "p \<noteq> []"
  shows "good k (\<lambda>c' p'. loop_meas d c' (length p') < loop_meas d c (length p))
           (bytes_step ops d ef ts r c p)"
proof (cases "fr_st (cn_frame c d)")
  case LK_FR_SKIP
  have "0 < length p" using assms(2) by simp
  then show ?thesis
    using skip_step_good [OF assms(1) LK_FR_SKIP, of "length p"] LK_FR_SKIP
    by (simp add: bytes_step_def skip_step_def Let_def)
qed (use header_step_good body_step_good dirty_step_good assms in \<open>simp_all add: bytes_step_def\<close>)

theorem bytes_loop_total:
  assumes "framer_inv k r c"
  shows "\<exists>r' c'. bytes_loop ops d ef ts r c p = Some (r', c') \<and> framer_inv k r' c'"
  using assms
proof (induction "loop_meas d c (length p)" arbitrary: r c p rule: less_induct)
  case less
  show ?case
  proof (cases "p = []")
    case False
    show ?thesis
      using bytes_step_good [OF less.prems False, of d ef ts] less.hyps False
      by (subst bytes_loop.simps) (auto split: step.splits)
  qed (use less.prems in \<open>simp add: bytes_loop.simps\<close>)
qed

lemma hole_step_good:
  assumes inv: "framer_inv k r c" and n: "0 < n"
  shows "good k (\<lambda>c' n'. loop_meas d c' n' < loop_meas d c n) (hole_step ops d ef r c n)"
proof -
  let ?f = "cn_frame c d"
  have o: "outer_inv k d r c" and fi: "frame_inv (op_hdr_size ops c d ?f) ?f"
    using inv by (simp_all add: framer_inv_split [of _ _ _ d])
  show ?thesis
  proof (cases "fr_st ?f")
    case LK_FR_HEADER
    then show ?thesis
      using go_dirty_inv [OF o] by (auto simp: hole_step_def split: prod.splits)
  next
    case LK_FR_BODY
    define rem where "rem = fr_body_len ?f - (if fr_prefix_closed ?f then 0 else fr_buf_len ?f)"
    define m where "m = min rem n"
    define tail where "tail f = (if m < rem then f\<lparr>fr_st := LK_FR_SKIP, fr_skip_left := rem - m\<rparr> else f)" for f :: lk_frame
    have "0 < rem"
      using fi LK_FR_BODY by (auto simp: rem_def frame_inv_def body_target_def split: if_splits)
    then have m: "0 < m" "m \<le> n"
      using n by (simp_all add: m_def)
    have dec: "loop_meas d (upd_frame d f' c') (n - m) < loop_meas d c n" for f' c'
      using m LK_FR_BODY by (auto simp: loop_meas_def)
    have cont: "framer_inv k r (upd_frame d (tail (?f\<lparr>fr_prefix_closed := True, fr_hdr := [],
        fr_st := LK_FR_HEADER\<rparr>)) c)" if "fr_msg_cont ?f"
      using that o fi hdr_size_pos
      by (intro framer_inv_upd) (auto simp: tail_def slabs_of_def frame_inv_def fr_buf_len_def)
    have step: "hole_step ops d ef r c n =
       (if fr_msg_cont ?f
        then Next r (upd_frame d (tail (?f\<lparr>fr_prefix_closed := True, fr_hdr := [], fr_st := LK_FR_HEADER\<rparr>)) c) (n - m)
        else (case emit ops r c d (fr_buf_bytes ?f) of (r, c) \<Rightarrow>
              case msg_reset r (cn_frame c d) of (r, f) \<Rightarrow> after_emit r (upd_frame d (tail f) c) ef (n - m)))"
      unfolding hole_step_def LK_FR_BODY lk_frame_state.case hole_body_step_def Let_def
        rem_def [symmetric] m_def [symmetric] tail_def ..
    show ?thesis
      unfolding step using cont dec
      by (auto intro!: good_emit_reset o simp: tail_def frame_inv_def fr_buf_len_def)
  next
    case LK_FR_SKIP
    then show ?thesis
      using skip_step_good [OF inv LK_FR_SKIP n] by (simp add: hole_step_def Let_def)
  next
    case LK_FR_DIRTY
    then show ?thesis
      using inv by (simp add: hole_step_def)
  qed
qed

theorem hole_loop_total:
  assumes "framer_inv k r c"
  shows "\<exists>r' c'. hole_loop ops d ef r c n = Some (r', c') \<and> framer_inv k r' c'"
  using assms
proof (induction "loop_meas d c n" arbitrary: r c n rule: less_induct)
  case less
  show ?case
  proof (cases "n = 0")
    case False
    then show ?thesis
      using hole_step_good [OF less.prems, of n d ef] less.hyps
      by (subst hole_loop.simps) (auto split: step.splits)
  qed (use less.prems in \<open>simp add: hole_loop.simps\<close>)
qed

section \<open>Whole calls\<close>

text \<open>The registry gives this protocol's hooks for its identifier.\<close>

definition registered :: "(lk_proto_id \<Rightarrow> ('h, 'ps, 'fs) lk_proto_ops) \<Rightarrow> bool" where
  "registered tab \<longleftrightarrow> tab pid = ops"

lemma framer_inv_cong:
  assumes "framer_inv k r c" and "cn_ops c' = Some pid" and "cn_frame c' = cn_frame c"
    and "sink_ok (r_sink r')" and "r_pool_n r' = r_pool_n r" and "r_heap r' = r_heap r"
  shows "framer_inv k r' c'"
  using assms hdr_size_conn [of c' _ _ c]
  by (simp add: framer_inv_def frames_ok_def pool_inv_def slabs_held_def)

lemma framer_inv_same:
  assumes inv: "framer_inv k r c" and "fr_startup_done f = fr_startup_done (cn_frame c d)"
    and "slabs_of f = slabs_of (cn_frame c d)" and "\<And>hs. frame_inv hs f = frame_inv hs (cn_frame c d)"
  shows "framer_inv k r (upd_frame d f c)"
  using assms hdr_size_cong [OF assms(2), of c d c]
  by (intro framer_inv_upd) (simp_all add: framer_inv_split [of _ _ _ d])

lemma conn_ops_inv:
  assumes "framer_inv k r c" and "registered tab" and "conn_ops tab c = (ops', c')"
  shows "ops' = ops" and "framer_inv k r c'" and "cn_frame c' = cn_frame c" and "cn_flags c' = cn_flags c"
proof -
  have i: "lk_conn_proto c = pid" using assms(1) by (simp add: framer_inv_def lk_conn_proto_def)
  show "ops' = ops" "cn_frame c' = cn_frame c" "cn_flags c' = cn_flags c"
    using assms(2,3) i by (auto simp: conn_ops_def Let_def registered_def)
  have c': "c' = c\<lparr>cn_ops := Some pid\<rparr>"
    using assms(3) i by (auto simp: conn_ops_def Let_def)
  show "framer_inv k r c'"
    by (rule framer_inv_cong [OF assms(1)])
      (use assms(1) in \<open>simp_all add: c' framer_inv_def\<close>)
qed

theorem lk_frame_bytes_total:
  assumes inv: "framer_inv k r c" and tab: "registered tab"
  shows "\<exists>r' c'. lk_frame_bytes tab r c d p ts = Some (r', c') \<and> framer_inv k r' c'"
proof -
  obtain ops' c1 where co: "conn_ops tab c = (ops', c1)" by fastforce
  note c1 = conn_ops_inv [OF inv tab co]
  have sk: "sink_ok (r_sink r)" using inv by (simp add: framer_inv_def)
  have ib: "framer_inv k r' c'" if "op_intercept_bytes ops = Some ib" "ib r c1 d p ts = (go, r', c', p')"
    for ib go r' c' p'
    using intercept_bytes_keeps [OF that(1) sk that(2)] keeps_core_frame keeps_core_ops [of c1 c'] c1(2)
    by (intro framer_inv_cong [OF c1(2)]) (auto simp: framer_inv_def)
  show ?thesis
  proof (cases "op_intercept_bytes ops")
    case None
    then show ?thesis
      using bytes_loop_total [OF c1(2)] by (simp add: lk_frame_bytes_def co c1(1) message_mode Let_def)
  next
    case (Some h)
    obtain go r' c' p' where h: "h r c1 d p ts = (go, r', c', p')"
      by (metis prod.exhaust)
    show ?thesis
      using bytes_loop_total [OF ib [OF Some h]] ib [OF Some h] c1(2)
      by (simp add: lk_frame_bytes_def co c1(1) message_mode Let_def Some h)
  qed
qed

theorem lk_frame_hole_total:
  assumes inv: "framer_inv k r c" and tab: "registered tab"
  shows "\<exists>r' c'. lk_frame_hole tab r c d n = Some (r', c') \<and> framer_inv k r' c'"
proof -
  obtain ops' c1 where co: "conn_ops tab c = (ops', c1)" by fastforce
  note c1 = conn_ops_inv [OF inv tab co]
  obtain hit c2 where ih: "(case op_intercept_hole ops of None \<Rightarrow> (False, c1) | Some ih \<Rightarrow> ih c1 d) = (hit, c2)"
    by fastforce
  have "keeps_core c1 c2"
    using ih intercept_hole_keeps by (cases "op_intercept_hole ops") auto
  then have c2: "framer_inv k r c2"
    using c1(2) keeps_core_frame keeps_core_ops [of c1 c2]
    by (intro framer_inv_cong [OF c1(2)]) (auto simp: framer_inv_def)
  then have o: "outer_inv k d r c2" and fi: "frame_inv (op_hdr_size ops c2 d (cn_frame c2 d)) (cn_frame c2 d)"
    by (simp_all add: framer_inv_split [of _ _ _ d])
  have gd: "\<exists>r' c'. go_dirty inc_hdr_holes r c2 d = (r', c') \<and> framer_inv k r' c'"
    using go_dirty_inv [OF o] by (cases "go_dirty inc_hdr_holes r c2 d") blast
  have dirty: "framer_inv k r (upd_frame d ((cn_frame c2 d)\<lparr>fr_resync_matched := 0\<rparr>) c2)"
    by (rule framer_inv_same [OF c2]) (simp_all add: slabs_of_def)
  have "framer_inv k (count_hole n r) c2"
    using c2 by (simp add: count_hole_def)
  then show ?thesis
    using c1 dirty gd hole_loop_total [of k "count_hole n r" c2 d "cn_flags c1" n]
    by (simp add: lk_frame_hole_def co c1(1) message_mode Let_def ih)
qed

lemma framer_inv_call:
  assumes "framer_inv k r c"
  shows "framer_inv k r (upd_frame d ((cn_frame c d)\<lparr>fr_call_total := a, fr_call_pos := b\<rparr>) c)"
    and "framer_inv k r (upd_frame d ((cn_frame c d)\<lparr>fr_call_pos := b\<rparr>) c)"
    and "framer_inv k r (upd_frame d ((cn_frame c d)\<lparr>fr_call_pos := b, fr_call_total := a\<rparr>) c)"
  by (rule framer_inv_same [OF assms]; simp add: slabs_of_def)+

lemma call_begin_total:
  assumes "framer_inv k r c" and "registered tab"
  shows "\<exists>r' c'. call_begin tab r c d ev = Some (r', c') \<and> framer_inv k r' c'"
  using lk_frame_hole_total [OF assms, of d "fr_call_total (cn_frame c d) - fr_call_pos (cn_frame c d)"] assms(1)
  by (auto simp: call_begin_def Let_def framer_inv_call)

lemma call_align_total:
  assumes inv: "framer_inv k r c" and tab: "registered tab"
  shows "\<exists>r' c'. call_align tab r c d ev n = Some (r', c') \<and> framer_inv k r' c'"
proof -
  have "outer_inv k d r c"
    using inv by (simp add: framer_inv_split [of _ _ _ d])
  then have "\<exists>r' c'. go_dirty inc_off_anomalies r c d = (r', c') \<and> framer_inv k r' c'"
    by (cases "go_dirty inc_off_anomalies r c d") (blast intro: go_dirty_inv)
  then show ?thesis
    using lk_frame_hole_total [OF assms, of d "ed_off ev - fr_call_pos (cn_frame c d)"] inv
    by (auto simp: call_align_def Let_def framer_inv_call)
qed

text \<open>One data event, whatever its claimed offsets and lengths: the framer returns and stays well
  formed.\<close>

theorem lk_reasm_data_total:
  assumes inv: "framer_inv k r c" and tab: "registered tab"
  shows "\<exists>r' c'. lk_reasm_data tab r c d ev n = Some (r', c') \<and> framer_inv k r' c'"
proof -
  obtain ops' c0 where co: "conn_ops tab c = (ops', c0)" by fastforce
  note c0 = conn_ops_inv [OF inv tab co]
  obtain r1 c1 where b: "call_begin tab r c0 d ev = Some (r1, c1)" and i1: "framer_inv k r1 c1"
    using call_begin_total [OF c0(2) tab] by blast
  obtain r2 c2 where a: "call_align tab r1 c1 d ev n = Some (r2, c2)" and i2: "framer_inv k r2 c2"
    using call_align_total [OF i1 tab] by blast
  obtain r3 c3 where s: "(if fr_st (cn_frame c2 d) = LK_FR_DIRTY \<and> \<not> has_flag (op_flags ops) LK_PROTO_F_STREAM
      \<and> op_resync_boundary ops d ev n then do_resync r2 c2 d else (r2, c2)) = (r3, c3)" by fastforce
  have i3: "framer_inv k r3 c3"
    using s i2 do_resync_inv(1) by (auto simp: framer_inv_split [of _ _ _ d] split: if_splits)
  obtain r4 c4 where f: "(if 0 < n then lk_frame_bytes tab r3 c3 d (take n (ed_payload ev)) (eh_ts_ns (ed_hdr ev))
      else Some (r3, c3)) = Some (r4, c4)" and i4: "framer_inv k r4 c4"
    using lk_frame_bytes_total [OF i3 tab, of d "take n (ed_payload ev)" "eh_ts_ns (ed_hdr ev)"] i3
    by (cases "0 < n") auto
  have "framer_inv k r4 (call_end c4 d ev n)"
    using i4 by (simp add: call_end_def Let_def framer_inv_call)
  then show ?thesis
    using c0(2) b a s f by (simp add: lk_reasm_data_def co c0(1) Let_def)
qed

end

end
