(* ===== verification/Pg_Frame.thy ===== *)
theory Pg_Frame
  imports Framer
begin

text \<open>
  PostgreSQL v3 framing behind the protocol boundary, src/src/proto/pg/pg_frame.c: header sizes
  and length checks, the start-up phase, the one-byte SSL reply, and the two resynchronisation
  anchors. The hooks satisfy the framer's contract (\<open>pg_ops\<close>), so every result of the framer
  holds for PostgreSQL connections; the backend scan finds exactly the first ReadyForQuery.
\<close>

section \<open>Hooks\<close>

definition LK_PG_MSG_LEN_MAX :: u32 where
  "LK_PG_MSG_LEN_MAX = 2 ^ 30"

definition in_startup :: "lk_frame \<Rightarrow> lk_dir \<Rightarrow> bool" where
  "in_startup f dir \<longleftrightarrow> dir = LK_DIR_RECV \<and> \<not> fr_startup_done f"

definition pg_hdr_size :: "('ps, 'fs) lk_conn \<Rightarrow> lk_dir \<Rightarrow> lk_frame \<Rightarrow> nat" where
  "pg_hdr_size c dir f = (if in_startup f dir then 4 else 5)"

definition pg_parse_hdr :: "('ps, 'fs) lk_conn \<Rightarrow> lk_dir \<Rightarrow> lk_frame \<Rightarrow> bool \<times> lk_frame" where
  "pg_parse_hdr c dir f =
     (let startup = in_startup f dir;
          len = be32 (drop (if startup then 0 else 1) (fr_hdr f))
      in if len < (if startup then 8 else 4) \<or> LK_PG_MSG_LEN_MAX < len then (False, f)
         else (True, f\<lparr>fr_msg_type := (if startup then 0 else fr_hdr f ! 0), fr_msg_len := unat len,
                       fr_body_len := unat (len - 4), fr_body_total := unat (len - 4)\<rparr>))"

definition pg_pre_emit :: "('ps, 'fs) lk_conn \<Rightarrow> lk_dir \<Rightarrow> lk_msg \<Rightarrow> ('ps, 'fs) lk_conn \<times> lk_msg" where
  "pg_pre_emit c dir m =
     (if \<not> in_startup (cn_frame c dir) dir then (c, m)
      else let m = m\<lparr>m_flags := m_flags m OR LK_MSG_STARTUP\<rparr>
           in if 4 \<le> m_body_cap m then
                (let code = be32 (m_body m)
                 in if code = LK_PG_PROTO_V3
                    then (upd_frame dir ((cn_frame c dir)\<lparr>fr_startup_done := True\<rparr>) c, m)
                    else if code = LK_PG_SSL_REQUEST \<or> code = LK_PG_GSSENC_REQUEST
                    then (c\<lparr>cn_flags := cn_flags c OR LK_CONN_SSL_REPLY\<rparr>, m)
                    else if code = LK_PG_CANCEL_REQUEST
                    then (c\<lparr>cn_flags := cn_flags c OR LK_CONN_CANCEL\<rparr>, m)
                    else (c, m))
              else (c, m))"

definition pg_intercept_bytes :: "('h, 'ps, 'fs) lk_reasm \<Rightarrow> ('ps, 'fs) lk_conn \<Rightarrow> lk_dir \<Rightarrow> bytes
    \<Rightarrow> u64 \<Rightarrow> bool \<times> ('h, 'ps, 'fs) lk_reasm \<times> ('ps, 'fs) lk_conn \<times> bytes" where
  "pg_intercept_bytes r c dir p ts =
     (if dir \<noteq> LK_DIR_SEND \<or> \<not> has_flag (cn_flags c) LK_CONN_SSL_REPLY \<or> p = [] then (True, r, c, p)
      else let b = hd p;
               m = \<lparr>m_ts_ns = ts, m_type = b, m_flags = 0, m_len = 0, m_body = []\<rparr>;
               c = c\<lparr>cn_flags := cn_flags c AND NOT LK_CONN_SSL_REPLY\<rparr>;
               r = upd_st (\<lambda>s. s\<lparr>rs_msgs := rs_msgs s + 1\<rparr>) r
           in case call_on_msg r c LK_DIR_SEND m of (r, c) \<Rightarrow>
                if b = ch CHR ''S'' \<or> b = ch CHR ''G''
                then (False, upd_st (\<lambda>s. s\<lparr>rs_tls_conns := rs_tls_conns s + 1\<rparr>) r,
                      c\<lparr>cn_flags := cn_flags c OR LK_CONN_TLS\<rparr>, tl p)
                else (True, r, c, tl p))"

definition pg_intercept_hole :: "('ps, 'fs) lk_conn \<Rightarrow> lk_dir \<Rightarrow> bool \<times> ('ps, 'fs) lk_conn" where
  "pg_intercept_hole c dir =
     (if dir \<noteq> LK_DIR_SEND \<or> \<not> has_flag (cn_flags c) LK_CONN_SSL_REPLY then (False, c)
      else (True, c\<lparr>cn_flags := cn_flags c AND NOT LK_CONN_SSL_REPLY\<rparr>))"

definition resync_pat :: bytes where
  "resync_pat = [ch CHR ''Z'', 0, 0, 0, 5]"

definition txn_status_byte :: "u8 \<Rightarrow> bool" where
  "txn_status_byte b \<longleftrightarrow> b = ch CHR ''I'' \<or> b = ch CHR ''T'' \<or> b = ch CHR ''E''"

text \<open>The \<open>while (used < n)\<close> loop of \<open>pg_resync_scan\<close>: \<open>m\<close> is \<open>f->resync_matched\<close>.\<close>

fun resync_scan_loop :: "nat \<Rightarrow> bytes \<Rightarrow> nat \<Rightarrow> nat \<times> bool \<times> nat" where
  "resync_scan_loop m [] used = (used, False, m)"
| "resync_scan_loop m (b # bs) used =
     (if m < 5 then resync_scan_loop (if b = resync_pat ! m then m + 1 else if b = ch CHR ''Z'' then 1 else 0)
                      bs (used + 1)
      else if txn_status_byte b then (used + 1, True, m)
      else resync_scan_loop (if b = ch CHR ''Z'' then 1 else 0) bs (used + 1))"

definition pg_resync_scan :: "lk_dir \<Rightarrow> lk_frame \<Rightarrow> bytes \<Rightarrow> nat \<times> bool \<times> lk_frame" where
  "pg_resync_scan dir f p =
     (if dir \<noteq> LK_DIR_SEND then (length p, False, f)
      else case resync_scan_loop (fr_resync_matched f) p 0 of
             (used, found, m) \<Rightarrow> (used, found, f\<lparr>fr_resync_matched := m\<rparr>))"

definition fe_type_ok :: "u8 \<Rightarrow> bool" where
  "fe_type_ok b \<longleftrightarrow> b \<noteq> 0 \<and> b \<in> set (lit ''QPBESXCDFHdcfp'')"

definition pg_resync_boundary :: "lk_dir \<Rightarrow> lk_ev_data \<Rightarrow> nat \<Rightarrow> bool" where
  "pg_resync_boundary dir ev cap_len =
     (if dir \<noteq> LK_DIR_RECV \<or> ed_off ev \<noteq> 0 \<or> cap_len < 5 \<or> \<not> fe_type_ok (ed_payload ev ! 0) then False
      else let len = be32 (drop 1 (ed_payload ev)) in 4 \<le> len \<and> len \<le> LK_PG_MSG_LEN_MAX)"

definition lk_proto_pg_ops :: "('h, 'ps, 'fs) lk_proto_ops" where
  "lk_proto_pg_ops = \<lparr>op_name = ''pg'', op_flags = 0, op_hdr_size = pg_hdr_size,
     op_parse_hdr = pg_parse_hdr, op_pre_emit = pg_pre_emit,
     op_intercept_bytes = Some pg_intercept_bytes, op_intercept_hole = Some pg_intercept_hole,
     op_resync_scan = pg_resync_scan, op_resync_boundary = pg_resync_boundary,
     op_stream_bytes = (\<lambda>r c _ _ _. (r, c)), op_stream_hole = (\<lambda>r c _ _. (r, c))\<rparr>"

section \<open>PostgreSQL keeps the framer's contract\<close>

lemma pg_ops_simps [simp]:
  "op_flags lk_proto_pg_ops = 0"
  "op_hdr_size lk_proto_pg_ops = pg_hdr_size"
  "op_parse_hdr lk_proto_pg_ops = pg_parse_hdr"
  "op_pre_emit lk_proto_pg_ops = pg_pre_emit"
  "op_intercept_bytes lk_proto_pg_ops = Some pg_intercept_bytes"
  "op_intercept_hole lk_proto_pg_ops = Some pg_intercept_hole"
  "op_resync_scan lk_proto_pg_ops = pg_resync_scan"
  "op_resync_boundary lk_proto_pg_ops = pg_resync_boundary"
  by (simp_all add: lk_proto_pg_ops_def)

lemma scan_loop_found: "resync_scan_loop m p u = (used, True, m') \<Longrightarrow> u < used"
  by (induction m p u rule: resync_scan_loop.induct) (auto split: if_splits)

lemma keeps_core_flags [simp]: "keeps_core c (c\<lparr>cn_flags := x\<rparr>)"
  by (simp add: keeps_core_def)

lemma keeps_core_trans:
  assumes "keeps_core a b" and "keeps_core b c"
  shows "keeps_core a c"
proof -
  obtain x y where "b = a\<lparr>cn_flags := x, cn_proto_state := y\<rparr>"
    using assms(1) unfolding keeps_core_def by blast
  moreover obtain u v where "c = b\<lparr>cn_flags := u, cn_proto_state := v\<rparr>"
    using assms(2) unfolding keeps_core_def by blast
  ultimately show ?thesis
    by (simp add: keeps_core_def)
qed

lemma pg_intercept_bytes_keeps:
  assumes "sink_ok (r_sink r)" and "pg_intercept_bytes r c d p ts = (go, r', c', p')"
  shows "sink_ok (r_sink r') \<and> r_pool_n r' = r_pool_n r \<and> r_heap r' = r_heap r
     \<and> keeps_core c c' \<and> length p' \<le> length p"
proof (cases "d \<noteq> LK_DIR_SEND \<or> \<not> has_flag (cn_flags c) LK_CONN_SSL_REPLY \<or> p = []")
  case False
  define c1 where "c1 = c\<lparr>cn_flags := cn_flags c AND NOT LK_CONN_SSL_REPLY\<rparr>"
  define r1 where "r1 = upd_st (\<lambda>s. s\<lparr>rs_msgs := rs_msgs s + 1\<rparr>) r"
  obtain r2 c2 where cb: "call_on_msg r1 c1 LK_DIR_SEND
      \<lparr>m_ts_ns = ts, m_type = hd p, m_flags = 0, m_len = 0, m_body = []\<rparr> = (r2, c2)" by fastforce
  have "sink_ok (r_sink r1)" using assms(1) by (simp add: r1_def)
  note k = call_on_msg_keeps [OF this cb]
  have "keeps_core c c2"
    using keeps_core_trans [OF _ k(5)] by (simp add: c1_def)
  moreover have "pg_intercept_bytes r c d p ts =
     (if hd p = ch CHR ''S'' \<or> hd p = ch CHR ''G''
      then (False, upd_st (\<lambda>s. s\<lparr>rs_tls_conns := rs_tls_conns s + 1\<rparr>) r2,
            c2\<lparr>cn_flags := cn_flags c2 OR LK_CONN_TLS\<rparr>, tl p)
      else (True, r2, c2, tl p))"
    using False cb unfolding pg_intercept_bytes_def Let_def c1_def r1_def by simp
  ultimately show ?thesis
    using assms(2) k(1-3) keeps_core_trans [OF \<open>keeps_core c c2\<close> keeps_core_flags]
    by (auto simp: r1_def split: if_splits)
qed (use assms in \<open>auto simp: pg_intercept_bytes_def\<close>)

lemma pg_pre_emit_cases:
  assumes "pg_pre_emit c d m = (c', m')"
  shows "phase_only c c'" and "m' = m\<lparr>m_type := m_type m', m_flags := m_flags m'\<rparr>"
    and "d' \<noteq> d \<Longrightarrow> cn_frame c' d' = cn_frame c d'"
  using assms
  by (auto simp: pg_pre_emit_def phase_only_def upd_frame_def Let_def fun_eq_iff split: if_splits)

interpretation pg_ops: framer_ops LK_PROTO_PG lk_proto_pg_ops
proof (unfold_locales, goal_cases)
  case (5 c d f ok f')
  then show ?case
    by (auto simp: hdr_fields_only_def pg_parse_hdr_def Let_def split: if_splits)
next
  case (8 c d m c' m' d')
  then show ?case
    using pg_pre_emit_cases(3) [of c d m c' m' d'] by (simp add: pg_hdr_size_def)
next
  case (9 d f p used found f')
  then show ?case
    by (auto simp: pg_resync_scan_def split: if_splits prod.splits dest: scan_loop_found)
next
  case (10 d f p used found f')
  then show ?case
    by (auto simp: pg_resync_scan_def split: if_splits prod.splits)
qed (auto simp: pg_hdr_size_def in_startup_def pg_pre_emit_cases pg_intercept_hole_def
      dest: pg_intercept_bytes_keeps split: if_splits)

section \<open>A whole capture of one connection\<close>

text \<open>The data events of one connection in the order they arrive: direction, event, usable payload
  length. \<open>None\<close> is a framer that does not return.\<close>

fun reasm_run :: "(lk_proto_id \<Rightarrow> ('h, 'ps, 'fs) lk_proto_ops) \<Rightarrow> ('h, 'ps, 'fs) lk_reasm
    \<Rightarrow> ('ps, 'fs) lk_conn \<Rightarrow> (lk_dir \<times> lk_ev_data \<times> nat) list
    \<Rightarrow> (('h, 'ps, 'fs) lk_reasm \<times> ('ps, 'fs) lk_conn) option" where
  "reasm_run tab r c [] = Some (r, c)"
| "reasm_run tab r c ((d, ev, n) # es) =
     do { (r, c) \<leftarrow> lk_reasm_data tab r c d ev n; reasm_run tab r c es }"

lemma pg_run_inv:
  assumes "pg_ops.framer_inv k r c" and "tab LK_PROTO_PG = lk_proto_pg_ops"
  shows "\<exists>r' c'. reasm_run tab r c es = Some (r', c') \<and> pg_ops.framer_inv k r' c'"
  using assms(1)
proof (induction es arbitrary: r c)
  case (Cons e es)
  obtain d ev n where e: "e = (d, ev, n)" by (cases e)
  have "pg_ops.registered tab" using assms(2) by (simp add: pg_ops.registered_def)
  then show ?case
    using pg_ops.lk_reasm_data_total [OF Cons.prems, of tab d ev n] Cons.IH by (auto simp: e)
qed simp

text \<open>A connection without an assigned protocol is a PostgreSQL one: the first event pins it.\<close>

abbreviation pin_pg :: "('ps, 'fs) lk_conn \<Rightarrow> ('ps, 'fs) lk_conn" where
  "pin_pg c \<equiv> c\<lparr>cn_ops := Some LK_PROTO_PG\<rparr>"

lemma lk_reasm_data_pin:
  assumes "lk_conn_proto c = LK_PROTO_PG"
  shows "lk_reasm_data tab r c d ev n = lk_reasm_data tab r (pin_pg c) d ev n"
proof -
  have "conn_ops tab c = conn_ops tab (pin_pg c)"
    using assms by (simp add: conn_ops_def lk_conn_proto_def)
  then show ?thesis by (simp add: lk_reasm_data_def)
qed

lemma pg_fresh_inv:
  assumes "sink_ok sink" and "cn_frame c = (\<lambda>_. lk_frame_zero)"
  shows "pg_ops.framer_inv (hp_live hp) (lk_reasm_init sink hp) (pin_pg c)"
  using assms by (simp add: pg_ops.framer_inv_def pg_ops.frames_ok_def pool_inv_def lk_reasm_init_def
      slabs_held_def slabs_of_def lk_frame_zero_def frame_inv_def fr_buf_len_def pg_hdr_size_def)

text \<open>C1. Whatever events the kernel side delivers for a connection (any offsets, lengths, flags and
  payload, in any order) and whichever allocations fail, the PostgreSQL framer returns; it never
  holds more than the header and one \<open>LK_MSG_BODY_MAX\<close> prefix per direction, the free list never
  exceeds its cap, and every live slab is in the free list or held by a direction.\<close>

theorem pg_framer_total:
  assumes "sink_ok sink" and "tab LK_PROTO_PG = lk_proto_pg_ops"
    and "cn_frame c = (\<lambda>_. lk_frame_zero)" and "lk_conn_proto c = LK_PROTO_PG"
  shows "\<exists>r' c'. reasm_run tab (lk_reasm_init sink hp) c es = Some (r', c')
     \<and> (\<forall>d. length (fr_hdr (cn_frame c' d)) \<le> 8 \<and> fr_buf_len (cn_frame c' d) \<le> LK_MSG_BODY_MAX)
     \<and> r_pool_n r' \<le> LK_REASM_POOL_MAX
     \<and> hp_live (r_heap r') = hp_live hp + r_pool_n r' + slabs_held c'"
proof -
  obtain r' c' where run: "reasm_run tab (lk_reasm_init sink hp) (pin_pg c) es = Some (r', c')"
    and inv: "pg_ops.framer_inv (hp_live hp) r' c'"
    using pg_run_inv [OF pg_fresh_inv [OF assms(1,3), of hp], of tab es, OF assms(2)] by blast
  have post: "(\<forall>d. length (fr_hdr (cn_frame c' d)) \<le> 8 \<and> fr_buf_len (cn_frame c' d) \<le> LK_MSG_BODY_MAX)
     \<and> r_pool_n r' \<le> LK_REASM_POOL_MAX \<and> hp_live (r_heap r') = hp_live hp + r_pool_n r' + slabs_held c'"
    using inv by (auto simp: pg_ops.framer_inv_def pg_ops.frames_ok_def pool_inv_def frame_inv_def)
  show ?thesis
  proof (cases es)
    case Nil
    then show ?thesis
      using assms(3) by (simp add: lk_reasm_init_def slabs_held_def slabs_of_def lk_frame_zero_def fr_buf_len_def)
  next
    case (Cons e es')
    obtain d ev n where "e = (d, ev, n)" by (cases e)
    then have "reasm_run tab (lk_reasm_init sink hp) c es = reasm_run tab (lk_reasm_init sink hp) (pin_pg c) es"
      using lk_reasm_data_pin [OF assms(4), of tab "lk_reasm_init sink hp" d ev n] by (simp add: Cons)
    then show ?thesis
      using run post by auto
  qed
qed

definition null_sink :: "(unit, unit, unit) lk_msg_sink" where
  "null_sink = \<lparr>sk_ctx = (), sk_on_msg = None, sk_on_conn_open = None, sk_on_conn_close = None,
     sk_on_resync = None\<rparr>"

definition ready_ev :: lk_ev_data where
  "ready_ev = \<lparr>ed_hdr = \<lparr>eh_conn_id = 7, eh_ts_ns = 1, eh_seq = 0, eh_type = 0, eh_dir = 0, eh_flags = 0\<rparr>,
     ed_total_len = 6, ed_off = 0, ed_cap_len = 6, ed_payload = [90, 0, 0, 0, 5, 73]\<rparr>"

definition starved_heap :: heap where
  "starved_heap = \<lparr>hp_calls = 0, hp_ok = (\<lambda>_. False), hp_live = 0\<rparr>"

theorem pg_framer_total_witness:
  "\<exists>r' c'. reasm_run (\<lambda>_. lk_proto_pg_ops) (lk_reasm_init null_sink starved_heap) lk_conn_zero
       [(LK_DIR_SEND, ready_ev, 4), (LK_DIR_RECV, ready_ev, 6)] = Some (r', c')
     \<and> (\<forall>d. length (fr_hdr (cn_frame c' d)) \<le> 8 \<and> fr_buf_len (cn_frame c' d) \<le> LK_MSG_BODY_MAX)
     \<and> r_pool_n r' \<le> LK_REASM_POOL_MAX
     \<and> hp_live (r_heap r') = hp_live starved_heap + r_pool_n r' + slabs_held c'"
  by (rule pg_framer_total)
    (simp_all add: sink_ok_def null_sink_def lk_conn_zero_def lk_conn_proto_def)

end
