(* ===== verification/Pg_Resync.thy ===== *)
theory Pg_Resync
  imports Pg_Frame
begin

text \<open>
  The backend resynchronisation scan of src/src/proto/pg/pg_frame.c finds the first ReadyForQuery
  on the wire, however the bytes are cut into events: the byte-at-a-time matcher with its carried
  match length is equivalent to a search for the first anchor in the whole stream.
\<close>

section \<open>Specification\<close>

definition anchor_at :: "bytes \<Rightarrow> nat \<Rightarrow> bool" where
  "anchor_at p i \<longleftrightarrow> i + 6 \<le> length p \<and> take 5 (drop i p) = resync_pat \<and> txn_status_byte (p ! (i + 5))"

text \<open>The position after the first anchor.\<close>

definition first_anchor_end :: "bytes \<Rightarrow> nat option" where
  "first_anchor_end p = map_option (\<lambda>i. i + 6) (List.find (anchor_at p) [0..<length p])"

text \<open>The scanner over the captured chunks of a dirty direction.\<close>

fun scan_chunks :: "lk_frame \<Rightarrow> bytes list \<Rightarrow> nat \<Rightarrow> nat option" where
  "scan_chunks f [] off = None"
| "scan_chunks f (p # ps) off =
     (case pg_resync_scan LK_DIR_SEND f p of (used, found, f') \<Rightarrow>
        if found then Some (off + used) else scan_chunks f' ps (off + length p))"

section \<open>The match length\<close>

definition suf :: "bytes \<Rightarrow> nat \<Rightarrow> bool" where
  "suf pre j \<longleftrightarrow> j \<le> length pre \<and> drop (length pre - j) pre = take j resync_pat"

definition scan_inv :: "bytes \<Rightarrow> nat \<Rightarrow> bool" where
  "scan_inv pre m \<longleftrightarrow> m \<le> 5 \<and> suf pre m \<and> (\<forall>j. m < j \<longrightarrow> j \<le> 5 \<longrightarrow> \<not> suf pre j) \<and> (\<forall>i. \<not> anchor_at pre i)"

lemma length_resync_pat [simp]: "length resync_pat = 5"
  by (simp add: resync_pat_def)

lemma resync_pat_Z: "j < 5 \<Longrightarrow> resync_pat ! j = ch CHR ''Z'' \<longleftrightarrow> j = 0"
proof -
  assume "j < 5"
  then consider "j = 0" | "j = 1" | "j = 2" | "j = 3" | "j = 4" by linarith
  then show ?thesis
    by cases (simp_all add: resync_pat_def)
qed

lemma suf_0 [simp]: "suf pre 0"
  by (simp add: suf_def)

lemma suf_snoc:
  assumes "j < 5"
  shows "suf (pre @ [b]) (Suc j) \<longleftrightarrow> suf pre j \<and> b = resync_pat ! j"
proof -
  have "take (Suc j) resync_pat = take j resync_pat @ [resync_pat ! j]"
    using assms by (intro take_Suc_conv_app_nth) simp
  then show ?thesis
    by (auto simp: suf_def)
qed

lemma suf_nth: "suf pre m \<Longrightarrow> k < m \<Longrightarrow> m \<le> 5 \<Longrightarrow> pre ! (length pre - m + k) = resync_pat ! k"
  by (metis suf_def diff_le_self nth_drop nth_take)

lemma suf_unique:
  assumes "suf pre m" and "suf pre j" and "0 < j" and "j < m" and "m \<le> 5"
  shows False
proof -
  have "pre ! (length pre - j) = resync_pat ! 0"
    using suf_nth [OF assms(2), of 0] assms by simp
  moreover have "length pre - m + (m - j) = length pre - j"
    using assms(1,4) by (auto simp: suf_def)
  then have "pre ! (length pre - j) = resync_pat ! (m - j)"
    using suf_nth [OF assms(1), of "m - j"] assms by simp
  ultimately show False
    using resync_pat_Z [of "m - j"] resync_pat_Z [of 0] assms by simp
qed

lemma anchor_at_snoc:
  "anchor_at (pre @ [b]) i \<longleftrightarrow> anchor_at pre i \<or> i + 5 = length pre \<and> suf pre 5 \<and> txn_status_byte b"
proof (cases "i + 6 \<le> length pre")
  case True
  then show ?thesis
    by (auto simp: anchor_at_def nth_append)
next
  case False
  then have "i + 5 \<le> length pre \<Longrightarrow> i = length pre - 5 \<and> i + 5 = length pre"
    by linarith
  then show ?thesis
    using False by (auto simp: anchor_at_def suf_def)
qed

lemma scan_inv_Nil: "scan_inv [] 0"
  by (auto simp: scan_inv_def suf_def anchor_at_def)

text \<open>One byte: the match goes on, or restarts at \<open>Z\<close>.\<close>

lemma scan_inv_go:
  assumes "scan_inv pre m" and "m < 5" and "b = resync_pat ! m"
  shows "scan_inv (pre @ [b]) (Suc m)"
proof -
  have "\<not> suf (pre @ [b]) j" if "Suc m < j" "j \<le> 5" for j
    using that assms(1) suf_snoc [of "j - 1" pre b] by (auto simp: scan_inv_def)
  then show ?thesis
    using assms by (auto simp: scan_inv_def suf_snoc anchor_at_snoc)
qed

lemma scan_inv_restart:
  assumes inv: "scan_inv pre m" and no: "m < 5 \<Longrightarrow> b \<noteq> resync_pat ! m"
    and st: "m = 5 \<Longrightarrow> \<not> txn_status_byte b"
  shows "scan_inv (pre @ [b]) (if b = ch CHR ''Z'' then 1 else 0)"
proof -
  have only: "suf (pre @ [b]) j \<Longrightarrow> j = 0 \<or> j = 1 \<and> b = ch CHR ''Z''" if "j \<le> 5" for j
  proof (cases j)
    case (Suc i)
    assume s: "suf (pre @ [b]) j"
    then have i: "suf pre i" "b = resync_pat ! i" "i < 5"
      using Suc that suf_snoc [of i pre b] by auto
    then have "i < m"
      using inv no by (metis Suc_leI nat_neq_iff le_antisym less_imp_le_nat scan_inv_def)
    then have "i = 0"
      using suf_unique [of pre m i] inv i by (auto simp: scan_inv_def)
    then show ?thesis
      using i Suc resync_pat_Z [of 0] by simp
  qed simp
  have na: "\<not> anchor_at (pre @ [b]) i" for i
    using inv st by (auto simp: scan_inv_def anchor_at_snoc le_less)
  have "suf (pre @ [b]) 1" if "b = ch CHR ''Z''"
    using that suf_snoc [of 0 pre b] resync_pat_Z [of 0] by simp
  then show ?thesis
    using only na by (auto simp: scan_inv_def)
qed

section \<open>The loop\<close>

lemma anchor_at_prefix: "anchor_at (p @ q) i \<Longrightarrow> i + 6 \<le> length p \<Longrightarrow> anchor_at p i"
  by (auto simp: anchor_at_def nth_append)

lemma anchor_at_append: "anchor_at p i \<Longrightarrow> anchor_at (p @ q) i"
  by (auto simp: anchor_at_def nth_append)

text \<open>After \<open>pre\<close>, the \<open>k\<close>-th byte of \<open>p\<close> completes the first anchor.\<close>

definition found_at :: "bytes \<Rightarrow> bytes \<Rightarrow> nat \<Rightarrow> bool" where
  "found_at pre p k \<longleftrightarrow> 6 \<le> length pre + k \<and> anchor_at (pre @ p) (length pre + k - 6)
     \<and> (\<forall>j < length pre + k - 6. \<not> anchor_at (pre @ p) j)"

lemma found_at_shift: "found_at (pre @ [b]) bs k \<longleftrightarrow> found_at pre (b # bs) (Suc k)"
  by (simp add: found_at_def)

lemma found_at_here:
  assumes "scan_inv pre 5" and "txn_status_byte b"
  shows "found_at pre (b # bs) 1"
proof -
  have s: "suf pre 5" "5 \<le> length pre" and none: "\<And>i. \<not> anchor_at pre i"
    using assms(1) by (auto simp: scan_inv_def suf_def)
  have "anchor_at (pre @ [b]) (length pre - 5)"
    using s assms(2) by (simp add: anchor_at_snoc)
  then have "anchor_at (pre @ b # bs) (length pre - 5)"
    using anchor_at_append [of "pre @ [b]" _ bs] by simp
  moreover have "\<not> anchor_at (pre @ b # bs) j" if "j < length pre - 5" for j
    using anchor_at_prefix [of pre "b # bs" j] none that by fastforce
  ultimately show ?thesis
    using s(2) by (simp add: found_at_def)
qed

lemma scan_loop_spec:
  assumes "scan_inv pre m" and "resync_scan_loop m p u = (used, found, m')"
  shows "if found then \<exists>k. used = u + k \<and> found_at pre p k
         else used = u + length p \<and> scan_inv (pre @ p) m'"
  using assms
proof (induction m p u arbitrary: pre rule: resync_scan_loop.induct)
  case (2 m b bs u)
  have m5: "m \<le> 5" using 2(3) by (simp add: scan_inv_def)
  show ?case
  proof (cases "m = 5 \<and> txn_status_byte b")
    case True
    then show ?thesis
      using 2(3,4) found_at_here [of pre b bs] by (auto intro!: exI [of _ 1])
  next
    case False
    define m1 where "m1 = (if m < 5 \<and> b = resync_pat ! m then Suc m else if b = ch CHR ''Z'' then 1 else 0)"
    have eq1: "resync_scan_loop m1 bs (u + 1) = (used, found, m')"
      using 2(4) False m5 by (auto simp: m1_def split: if_splits)
    have inv1: "scan_inv (pre @ [b]) m1"
      using scan_inv_go [OF 2(3)] scan_inv_restart [OF 2(3), of b] False by (auto simp: m1_def)
    have "if found then \<exists>k. used = u + 1 + k \<and> found_at (pre @ [b]) bs k
         else used = u + 1 + length bs \<and> scan_inv ((pre @ [b]) @ bs) m'"
    proof (cases "m < 5")
      case True
      then have "m1 = (if b = resync_pat ! m then m + 1 else if b = ch CHR ''Z'' then 1 else 0)"
        by (simp add: m1_def)
      then show ?thesis
        using 2(1) [OF True, of "pre @ [b]"] inv1 eq1 by blast
    next
      case ge: False
      then have "m1 = (if b = ch CHR ''Z'' then 1 else 0)" and "\<not> txn_status_byte b"
        using False m5 by (simp_all add: m1_def)
      then show ?thesis
        using 2(2) [OF ge, of "pre @ [b]"] inv1 eq1 by blast
    qed
    then show ?thesis
      by (cases found) (auto simp: found_at_shift intro: exI [of _ "Suc _"])
  qed
qed simp

lemma find_first:
  assumes "P n" and "\<forall>j < n. \<not> P j" and "n < k"
  shows "List.find P [0..<k] = Some n"
  using assms by (auto simp: find_Some_iff)

lemma scan_chunks_from:
  assumes "scan_inv pre (fr_resync_matched f)"
  shows "scan_chunks f ps (length pre) = first_anchor_end (pre @ concat ps)"
  using assms
proof (induction ps arbitrary: pre f)
  case Nil
  then show ?case
    by (auto simp: first_anchor_end_def scan_inv_def find_None_iff)
next
  case (Cons p ps)
  obtain used found m where sl: "resync_scan_loop (fr_resync_matched f) p 0 = (used, found, m)"
    by (metis prod.exhaust)
  note spec = scan_loop_spec [OF Cons.prems sl]
  show ?case
  proof (cases found)
    case True
    define n where "n = length pre + used - 6"
    have n: "6 \<le> length pre + used" "anchor_at (pre @ p) n" "\<forall>j<n. \<not> anchor_at (pre @ p) j"
      using spec True by (auto simp: n_def found_at_def)
    have "\<not> anchor_at ((pre @ p) @ concat ps) j" if "j < n" for j
      using n(2,3) that anchor_at_prefix [of "pre @ p" "concat ps" j] by (auto simp: anchor_at_def)
    then have "List.find (anchor_at ((pre @ p) @ concat ps)) [0..<length ((pre @ p) @ concat ps)] = Some n"
      using n(2) anchor_at_append [OF n(2)] by (intro find_first) (auto simp: anchor_at_def)
    then show ?thesis
      using True n(1) by (simp add: pg_resync_scan_def sl first_anchor_end_def n_def)
  next
    case False
    then show ?thesis
      using spec Cons.IH [of "pre @ p" "f\<lparr>fr_resync_matched := m\<rparr>"] by (simp add: pg_resync_scan_def sl)
  qed
qed

text \<open>C2. However the backend bytes of a dirty direction are cut into captured chunks, the scan
  stops right after the first \<open>'Z' 00 00 00 05 [ITE]\<close> of the whole stream, and finds nothing when
  there is none.\<close>

theorem pg_resync_scan_first_anchor:
  assumes "fr_resync_matched f = 0"
  shows "scan_chunks f ps 0 = first_anchor_end (concat ps)"
  using scan_chunks_from [of "[]" f ps] assms by (simp add: scan_inv_Nil)

theorem pg_resync_scan_first_anchor_witness:
  "scan_chunks lk_frame_zero [[1, 90, 90, 0], [0, 0], [5, 73, 4]] 0 = Some 8"
  using pg_resync_scan_first_anchor [of lk_frame_zero "[[1, 90, 90, 0], [0, 0], [5, 73, 4]]"]
  by (simp add: lk_frame_zero_def first_anchor_end_def anchor_at_def resync_pat_def
      txn_status_byte_def upt_conv_Cons)

end
