(* ===== verification/Framer_Chunks.thy ===== *)
theory Framer_Chunks
  imports Framer
begin

text \<open>
  Framing does not depend on how the byte stream is cut into events: for every protocol whose hooks
  satisfy \<open>framer_stream\<close>, feeding two chunks one after the other has the same effect as feeding
  them as one, except on the slab pool. The pool is left out by comparing states through \<open>view\<close>.
\<close>

section \<open>The observable part of the framer state\<close>

definition view :: "('h, 'ps, 'fs) lk_reasm \<Rightarrow> ('h, 'ps, 'fs) lk_msg_sink \<times> lk_reasm_stats" where
  "view r = (r_sink r, r_st r)"

abbreviation mem_ok :: "('h, 'ps, 'fs) lk_reasm \<Rightarrow> bool" where
  "mem_ok r \<equiv> heap_never_fails (r_heap r)"

text \<open>A sink that neither reads nor writes the framer's fields, never turns the connection blind
  (TLS or ignored) and leaves the pending SSL reply alone.\<close>

definition blind_bits :: "('ps, 'fs) lk_conn \<Rightarrow> bool" where
  "blind_bits c \<longleftrightarrow> has_flag (cn_flags c) (LK_CONN_TLS OR LK_CONN_IGNORE)"

definition reply_due :: "('ps, 'fs) lk_conn \<Rightarrow> bool" where
  "reply_due c \<longleftrightarrow> has_flag (cn_flags c) LK_CONN_SSL_REPLY"

definition sink_plain :: "('h, 'ps, 'fs) lk_msg_sink \<Rightarrow> bool" where
  "sink_plain s \<longleftrightarrow> sink_ok s \<and>
     (\<forall>cb h c F d m. sk_on_msg s = Some cb \<longrightarrow>
        cb h (c\<lparr>cn_frame := F\<rparr>) d m = (case cb h c d m of (h', c') \<Rightarrow> (h', c'\<lparr>cn_frame := F\<rparr>))
        \<and> blind_bits (snd (cb h c d m)) = blind_bits c \<and> reply_due (snd (cb h c d m)) = reply_due c) \<and>
     (\<forall>cb h c d. sk_on_resync s = Some cb \<longrightarrow>
        blind_bits (snd (cb h c d)) = blind_bits c \<and> reply_due (snd (cb h c d)) = reply_due c)"

lemma sink_plain_ctx [simp]: "sink_plain (s\<lparr>sk_ctx := h\<rparr>) = sink_plain s"
  by (simp add: sink_plain_def)

lemma blind_bits_upd [simp]: "blind_bits (upd_frame d f c) = blind_bits c"
  by (simp add: blind_bits_def)

lemma went_blind_calm:
  "blind_bits c = has_flag ef (LK_CONN_TLS OR LK_CONN_IGNORE) \<Longrightarrow> went_blind r c ef = (False, r)"
  unfolding went_blind_def blind_bits_def
  by (cases "has_flag ef (LK_CONN_TLS OR LK_CONN_IGNORE)") (simp_all only: if_True if_False simp_thms)

section \<open>Operations through the view\<close>

lemma view_upd_st: "view r = view r' \<Longrightarrow> view (upd_st g r) = view (upd_st g r')"
  by (simp add: view_def)

lemma call_on_msg_view:
  assumes "view r = view r'"
  shows "map_prod view id (call_on_msg r c d m) = map_prod view id (call_on_msg r' c d m)"
  using assms by (auto simp: call_on_msg_def view_def Let_def split: option.splits prod.splits)

lemma call_on_resync_view:
  assumes "view r = view r'"
  shows "map_prod view id (call_on_resync r c d) = map_prod view id (call_on_resync r' c d)"
  using assms by (auto simp: call_on_resync_def view_def Let_def split: option.splits prod.splits)

lemma emit_view:
  assumes "view r = view r'"
  shows "map_prod view id (emit ops r c d b) = map_prod view id (emit ops r' c d b)"
  unfolding emit_def Let_def split_beta
  by (rule call_on_msg_view) (use assms in \<open>simp add: view_def\<close>)

lemma msg_reset_view: "view (fst (msg_reset r f)) = view r" "snd (msg_reset r f) = snd (msg_reset r' f)"
  by (simp_all add: msg_reset_def buf_put_def view_def split: option.split)

lemma msg_reset_mem: "mem_ok r \<Longrightarrow> mem_ok (fst (msg_reset r f))"
  by (simp add: msg_reset_def buf_put_def split: option.split)

lemma buf_acquire_view:
  assumes "mem_ok r"
  shows "view (fst (buf_acquire r f)) = view r" "mem_ok (fst (buf_acquire r f))"
    "snd (buf_acquire r f) = (if fr_buf f = None then f\<lparr>fr_buf := Some []\<rparr> else f)"
  using assms by (auto simp: buf_acquire_def buf_get_def view_def hp_alloc_def Let_def split: option.split)

lemma call_on_msg_mem: "r_heap (fst (call_on_msg r c d m)) = r_heap r"
  by (simp add: call_on_msg_def Let_def split: option.split prod.split)

lemma call_on_resync_mem: "r_heap (fst (call_on_resync r c d)) = r_heap r"
  by (simp add: call_on_resync_def Let_def split: option.split prod.split)

lemma emit_mem: "r_heap (fst (emit ops r c d b)) = r_heap r"
  unfolding emit_def Let_def split_beta by (simp add: call_on_msg_mem)

text \<open>Ending a message, as every arm of the framer does it.\<close>

definition close_msg :: "('h, 'ps, 'fs) lk_proto_ops \<Rightarrow> lk_dir \<Rightarrow> u16 \<Rightarrow> (lk_frame \<Rightarrow> lk_frame)
    \<Rightarrow> ('h, 'ps, 'fs) lk_reasm \<Rightarrow> ('ps, 'fs) lk_conn \<Rightarrow> bytes \<Rightarrow> 'i
    \<Rightarrow> (('h, 'ps, 'fs) lk_reasm, ('ps, 'fs) lk_conn, 'i) step" where
  "close_msg ops d ef t r c body i =
     (case emit ops r c d body of (r, c) \<Rightarrow> case msg_reset r (cn_frame c d) of (r, f) \<Rightarrow>
        after_emit r (upd_frame d (t f) c) ef i)"

abbreviation obs :: "(('h, 'ps, 'fs) lk_reasm, ('ps, 'fs) lk_conn, 'i) step
    \<Rightarrow> (('h, 'ps, 'fs) lk_msg_sink \<times> lk_reasm_stats, ('ps, 'fs) lk_conn, 'i) step" where
  "obs \<equiv> map_step view id id"

lemma after_emit_view: "view r = view r' \<Longrightarrow> obs (after_emit r c ef i) = obs (after_emit r' c ef i)"
  by (auto simp: after_emit_def went_blind_def view_def Let_def)

lemma msg_reset_pair:
  assumes "msg_reset r f = (r2, f2)" and "view r = view r'"
  shows "\<exists>r2'. msg_reset r' f = (r2', f2) \<and> view r2 = view r2'"
  using assms msg_reset_view [of r f] msg_reset_view [of r' f]
  by (metis fst_conv snd_conv prod.collapse)

lemma close_msg_view:
  assumes "view r = view r'"
  shows "obs (close_msg ops d ef t r c body i) = obs (close_msg ops d ef t r' c body i)"
proof -
  obtain r1 c1 where e: "emit ops r c d body = (r1, c1)" by fastforce
  obtain r1' where e': "emit ops r' c d body = (r1', c1)" and v: "view r1 = view r1'"
    using emit_view [OF assms, of ops c d body] e by (cases "emit ops r' c d body") auto
  obtain r2 f2 where m: "msg_reset r1 (cn_frame c1 d) = (r2, f2)" by fastforce
  obtain r2' where m': "msg_reset r1' (cn_frame c1 d) = (r2', f2)" and v2: "view r2 = view r2'"
    using msg_reset_pair [OF m v] by blast
  show ?thesis
    by (simp add: close_msg_def e e' m m' after_emit_view [OF v2])
qed

lemma go_dirty_view:
  assumes "view r = view r'"
  shows "map_prod view id (go_dirty g r c d) = map_prod view id (go_dirty g r' c d)"
proof -
  obtain r2 f2 where m: "msg_reset (upd_st g r) (cn_frame c d) = (r2, f2)" by fastforce
  then obtain r2' where "msg_reset (upd_st g r') (cn_frame c d) = (r2', f2)" "view r2 = view r2'"
    using msg_reset_pair [OF m view_upd_st [OF assms]] by blast
  then show ?thesis
    by (simp add: go_dirty_def m Let_def)
qed

lemma do_resync_view:
  assumes "view r = view r'"
  shows "map_prod view id (do_resync r c d) = map_prod view id (do_resync r' c d)"
proof -
  obtain r2 f2 where m: "msg_reset r (cn_frame c d) = (r2, f2)" by fastforce
  then obtain r2' where m': "msg_reset r' (cn_frame c d) = (r2', f2)" and v: "view r2 = view r2'"
    using msg_reset_pair [OF m assms] by blast
  show ?thesis
    using call_on_resync_view [OF view_upd_st [OF v]] by (simp add: do_resync_def m m' Let_def)
qed

lemma header_step_close:
  "header_step ops d ef ts r c p =
     (let f = cn_frame c d;
          hdr_size = op_hdr_size ops c d f;
          f = (if fr_hdr f = [] \<and> \<not> fr_msg_cont f then f\<lparr>fr_msg_ts := ts\<rparr> else f);
          n = min (hdr_size - length (fr_hdr f)) (length p);
          f = f\<lparr>fr_hdr := fr_hdr f @ take n p\<rparr>
      in if length (fr_hdr f) < hdr_size then Return r (upd_frame d f c)
         else case op_parse_hdr ops c d f of (ok, f) \<Rightarrow>
           if \<not> ok then (case go_dirty inc_bad_len r (upd_frame d f c) d of (r, c) \<Rightarrow> Return r c)
           else if fr_body_len f = 0
           then close_msg ops d ef (\<lambda>f. f) r (upd_frame d f c) (fr_buf_bytes f) (drop n p)
           else Next r (upd_frame d (f\<lparr>fr_st := LK_FR_BODY\<rparr>) c) (drop n p))"
  unfolding header_step_def close_msg_def ..

lemma body_emit_close:
  "body_emit ops d ef r c f p rem skip =
     close_msg ops d ef (\<lambda>f. if 0 < skip then f\<lparr>fr_st := LK_FR_SKIP, fr_skip_left := skip\<rparr> else f)
       r (upd_frame d f c) (fr_buf_bytes f @ take rem p) (drop rem p)"
  unfolding body_emit_def close_msg_def Let_def ..

lemma obs_return: "obs (case x of (r, c) \<Rightarrow> Return r c) = (case map_prod view id x of (v, c) \<Rightarrow> Return v c)"
  by (cases x) simp

lemma header_step_view:
  assumes v: "view r = view r'"
  shows "obs (header_step ops d ef ts r c p) = obs (header_step ops d ef ts r' c p)"
proof -
  define f where "f = (if fr_hdr (cn_frame c d) = [] \<and> \<not> fr_msg_cont (cn_frame c d)
      then (cn_frame c d)\<lparr>fr_msg_ts := ts\<rparr> else cn_frame c d)"
  define n where "n = min (op_hdr_size ops c d (cn_frame c d) - length (fr_hdr f)) (length p)"
  define g where "g = f\<lparr>fr_hdr := fr_hdr f @ take n p\<rparr>"
  obtain ok h where ph: "op_parse_hdr ops c d g = (ok, h)" by fastforce
  show ?thesis
    unfolding header_step_close Let_def f_def [symmetric] n_def [symmetric] g_def [symmetric] ph prod.case
      if_distrib [of obs] obs_return go_dirty_view [OF v] close_msg_view [OF v]
    by (simp only: step.map v)
qed

text \<open>With allocations that succeed, a slab is there whenever the framer wants one.\<close>

lemma body_cont_mem:
  assumes "mem_ok r"
  shows "obs (body_cont d r c f p rem skip) =
     (let f = (if 0 < rem then f\<lparr>fr_buf := Some (fr_buf_bytes f @ take rem p)\<rparr> else f);
          f = f\<lparr>fr_prefix_closed := True, fr_hdr := [], fr_st := LK_FR_HEADER\<rparr>;
          f = (if 0 < skip then f\<lparr>fr_st := LK_FR_SKIP, fr_skip_left := skip\<rparr> else f)
      in Next (view r) (upd_frame d f c) (drop rem p))"
  using buf_acquire_view [OF assms, of f]
  by (cases "buf_acquire r f") (auto simp: body_cont_def Let_def fr_buf_bytes_def)

lemma body_step_mem:
  assumes "mem_ok r"
  shows "obs (body_step ops d ef r c p) =
     (let f = cn_frame c d;
          target = (if fr_prefix_closed f then fr_buf_len f else body_target f);
          rem = target - fr_buf_len f;
          skip = fr_body_len f - (if fr_prefix_closed f then 0 else target)
      in if length p < rem
         then Return (view r) (upd_frame d (f\<lparr>fr_buf := Some (fr_buf_bytes f @ p)\<rparr>) c)
         else if fr_msg_cont f then obs (body_cont d r c f p rem skip)
         else obs (body_emit ops d ef r c f p rem skip))"
  using buf_acquire_view [OF assms, of "cn_frame c d"]
  by (cases "buf_acquire r (cn_frame c d)") (auto simp: body_step_def Let_def fr_buf_bytes_def)

lemma body_step_view:
  assumes "view r = view r'" and "mem_ok r" and "mem_ok r'"
  shows "obs (body_step ops d ef r c p) = obs (body_step ops d ef r' c p)"
  unfolding body_step_mem [OF assms(2)] body_step_mem [OF assms(3)] Let_def
    body_cont_mem [OF assms(2)] body_cont_mem [OF assms(3)] body_emit_close
  by (simp add: assms(1) close_msg_view [OF assms(1)])

lemma bytes_step_view:
  assumes "view r = view r'" and "mem_ok r" and "mem_ok r'"
  shows "obs (bytes_step ops d ef ts r c p) = obs (bytes_step ops d ef ts r' c p)"
proof (cases "fr_st (cn_frame c d)")
  case LK_FR_DIRTY
  obtain used found f where sc: "op_resync_scan ops d (cn_frame c d) p = (used, found, f)"
    by (metis prod.exhaust)
  show ?thesis
    using do_resync_view [OF assms(1), of "upd_frame d f c" d] assms(1)
    by (auto simp: bytes_step_def LK_FR_DIRTY dirty_step_def sc split: prod.splits)
qed (simp_all add: bytes_step_def header_step_view [OF assms(1)] body_step_view [OF assms]
      skip_step_def Let_def assms(1))

section \<open>What a turn of the loop keeps\<close>

fun step_r :: "('r, 'c, 'i) step \<Rightarrow> 'r" where
  "step_r (Return r c) = r"
| "step_r (Next r c i) = r"

lemma msg_reset_ok: "hp_ok (r_heap (fst (msg_reset r f))) = hp_ok (r_heap r)"
  by (simp add: msg_reset_def buf_put_def split: option.split)

lemma buf_acquire_ok: "hp_ok (r_heap (fst (buf_acquire r f))) = hp_ok (r_heap r)"
  by (auto simp: buf_acquire_def buf_get_def hp_alloc_def Let_def split: option.split)

lemma after_emit_r [simp]:
  "r_heap (step_r (after_emit r c ef i)) = r_heap r"
  "r_sink (step_r (after_emit r c ef i)) = r_sink r"
  "rs_bad_len (r_st (step_r (after_emit r c ef i))) = rs_bad_len (r_st r)"
  by (simp_all add: after_emit_def went_blind_def Let_def)

lemma close_msg_ok: "hp_ok (r_heap (step_r (close_msg ops d ef t r c body i))) = hp_ok (r_heap r)"
  by (simp add: close_msg_def split_beta emit_mem msg_reset_ok)

lemma do_resync_ok: "hp_ok (r_heap (fst (do_resync r c d))) = hp_ok (r_heap r)"
  by (simp add: do_resync_def Let_def split_beta call_on_resync_mem msg_reset_ok)

lemma go_dirty_ok: "hp_ok (r_heap (fst (go_dirty g r c d))) = hp_ok (r_heap r)"
  by (simp add: go_dirty_def Let_def split_beta msg_reset_ok)

lemma step_r_split [simp]:
  "step_r (case x of (r, c) \<Rightarrow> Return r c) = fst x"
  "step_r (case x of (r, c) \<Rightarrow> Next r c i) = fst x"
  by (simp_all add: split_beta)

lemma step_r_if [simp]: "step_r (if b then s else t) = (if b then step_r s else step_r t)"
  by simp

lemma header_step_ok: "hp_ok (r_heap (step_r (header_step ops d ef ts r c p))) = hp_ok (r_heap r)"
  unfolding header_step_close Let_def
  by (simp add: split_beta close_msg_ok go_dirty_ok)

lemma body_step_ok: "hp_ok (r_heap (step_r (body_step ops d ef r c p))) = hp_ok (r_heap r)"
proof -
  have cont: "hp_ok (r_heap (step_r (body_cont d r' c f p rem skip))) = hp_ok (r_heap r')" for r' :: "('a, 'b, 'c) lk_reasm" and f rem skip
    by (simp add: body_cont_def Let_def split_beta buf_acquire_ok)
  show ?thesis
    by (simp add: body_step_def Let_def split_beta cont body_emit_close close_msg_ok buf_acquire_ok)
qed

lemma bytes_step_ok: "hp_ok (r_heap (step_r (bytes_step ops d ef ts r c p))) = hp_ok (r_heap r)"
proof (cases "fr_st (cn_frame c d)")
  case LK_FR_DIRTY
  then show ?thesis
    by (simp add: bytes_step_def dirty_step_def split_beta do_resync_ok)
qed (simp_all add: bytes_step_def header_step_ok body_step_ok skip_step_def Let_def)

text \<open>The count of rejected headers.\<close>

abbreviation bad :: "('h, 'ps, 'fs) lk_reasm \<Rightarrow> nat" where
  "bad r \<equiv> rs_bad_len (r_st r)"

text \<open>The entry flags matter only through the blind bits.\<close>

lemma after_emit_ef:
  assumes "has_flag ef (LK_CONN_TLS OR LK_CONN_IGNORE) = has_flag ef' (LK_CONN_TLS OR LK_CONN_IGNORE)"
  shows "after_emit r c ef i = after_emit r c ef' i"
  unfolding after_emit_def went_blind_def assms ..

lemma bytes_step_ef:
  assumes "has_flag ef (LK_CONN_TLS OR LK_CONN_IGNORE) = has_flag ef' (LK_CONN_TLS OR LK_CONN_IGNORE)"
  shows "bytes_step ops d ef ts r c p = bytes_step ops d ef' ts r c p"
  unfolding bytes_step_def header_step_def body_step_def body_emit_def after_emit_ef [OF assms] ..

section \<open>Feeding chunks\<close>

fun feed :: "(lk_proto_id \<Rightarrow> ('h, 'ps, 'fs) lk_proto_ops) \<Rightarrow> lk_dir \<Rightarrow> ('h, 'ps, 'fs) lk_reasm
    \<Rightarrow> ('ps, 'fs) lk_conn \<Rightarrow> (bytes \<times> u64) list \<Rightarrow> (('h, 'ps, 'fs) lk_reasm \<times> ('ps, 'fs) lk_conn) option" where
  "feed tab d r c [] = Some (r, c)"
| "feed tab d r c ((p, ts) # ps) = do { (r, c) \<leftarrow> lk_frame_bytes tab r c d p ts; feed tab d r c ps }"

text \<open>The same bytes with the same timestamps, one at a time.\<close>

definition one_by_one :: "bytes \<Rightarrow> u64 \<Rightarrow> (bytes \<times> u64) list" where
  "one_by_one p ts = map (\<lambda>b. ([b], ts)) p"

definition bytewise :: "(bytes \<times> u64) list \<Rightarrow> (bytes \<times> u64) list" where
  "bytewise ps = concat (map (\<lambda>(p, ts). one_by_one p ts) ps)"

text \<open>No header is rejected along the run.\<close>

fun unbroken :: "(lk_proto_id \<Rightarrow> ('h, 'ps, 'fs) lk_proto_ops) \<Rightarrow> lk_dir \<Rightarrow> ('h, 'ps, 'fs) lk_reasm
    \<Rightarrow> ('ps, 'fs) lk_conn \<Rightarrow> (bytes \<times> u64) list \<Rightarrow> bool" where
  "unbroken tab d r c [] = True"
| "unbroken tab d r c ((p, ts) # ps) =
     (case lk_frame_bytes tab r c d p ts of None \<Rightarrow> False
      | Some (r1, c1) \<Rightarrow> bad r1 = bad r \<and> unbroken tab d r1 c1 ps)"

lemma unbroken_append: "unbroken tab d r c (ps @ qs) \<longleftrightarrow> unbroken tab d r c ps \<and>
    (case feed tab d r c ps of None \<Rightarrow> True | Some (r1, c1) \<Rightarrow> unbroken tab d r1 c1 qs)"
  by (induction ps arbitrary: r c) (auto split: prod.splits option.splits)

lemma unbroken_feed: "unbroken tab d r c ps \<Longrightarrow> feed tab d r c ps \<noteq> None"
  by (induction ps arbitrary: r c) (auto split: prod.splits option.splits)

lemma feed_append: "feed tab d r c (ps @ qs) = do { (r, c) \<leftarrow> feed tab d r c ps; feed tab d r c qs }"
  by (induction ps arbitrary: r c) (auto split: prod.splits bind_splits)

section \<open>Plain sinks\<close>

lemma sink_plain_ok: "sink_plain s \<Longrightarrow> sink_ok s"
  by (simp add: sink_plain_def)

lemma call_on_msg_plain:
  assumes "sink_plain (r_sink r)" and "call_on_msg r c d m = (r', c')"
  shows "sink_plain (r_sink r')" "blind_bits c' = blind_bits c" "r_st r' = r_st r" "reply_due c' = reply_due c"
    and "call_on_msg r (c\<lparr>cn_frame := F\<rparr>) d m = (r', c'\<lparr>cn_frame := F\<rparr>)"
proof -
  show "sink_plain (r_sink r')" "r_st r' = r_st r"
    using assms by (auto simp: call_on_msg_def Let_def split: option.splits prod.splits)
  have "blind_bits c' = blind_bits c \<and> reply_due c' = reply_due c"
  proof (cases "sk_on_msg (r_sink r)")
    case (Some cb)
    then have "blind_bits (snd (cb (sk_ctx (r_sink r)) c d m)) = blind_bits c
        \<and> reply_due (snd (cb (sk_ctx (r_sink r)) c d m)) = reply_due c"
      using assms(1) by (simp add: sink_plain_def)
    then show ?thesis
      using assms(2) Some by (auto simp: call_on_msg_def split: prod.splits)
  qed (use assms in \<open>simp add: call_on_msg_def\<close>)
  then show "blind_bits c' = blind_bits c" "reply_due c' = reply_due c"
    by simp_all
  show "call_on_msg r (c\<lparr>cn_frame := F\<rparr>) d m = (r', c'\<lparr>cn_frame := F\<rparr>)"
    using assms by (auto simp: call_on_msg_def sink_plain_def Let_def split: option.splits prod.splits)
qed

lemma call_on_resync_plain:
  assumes "sink_plain (r_sink r)" and "call_on_resync r c d = (r', c')"
  shows "sink_plain (r_sink r')" "blind_bits c' = blind_bits c" "r_st r' = r_st r" "reply_due c' = reply_due c"
proof -
  show "sink_plain (r_sink r')" "r_st r' = r_st r"
    using assms by (auto simp: call_on_resync_def Let_def split: option.splits prod.splits)
  have "blind_bits c' = blind_bits c \<and> reply_due c' = reply_due c"
  proof (cases "sk_on_resync (r_sink r)")
    case (Some cb)
    then have "blind_bits (snd (cb (sk_ctx (r_sink r)) c d)) = blind_bits c
        \<and> reply_due (snd (cb (sk_ctx (r_sink r)) c d)) = reply_due c"
      using assms(1) by (simp add: sink_plain_def)
    then show ?thesis
      using assms(2) Some by (auto simp: call_on_resync_def split: prod.splits)
  qed (use assms in \<open>simp add: call_on_resync_def\<close>)
  then show "blind_bits c' = blind_bits c" "reply_due c' = reply_due c"
    by simp_all
qed

definition calm :: "u16 \<Rightarrow> lk_dir \<Rightarrow> ('ps, 'fs) lk_conn \<Rightarrow> bool" where
  "calm ef d c \<longleftrightarrow> blind_bits c = has_flag ef (LK_CONN_TLS OR LK_CONN_IGNORE)
     \<and> (d = LK_DIR_SEND \<longrightarrow> \<not> reply_due c)"

lemma calm_upd [simp]: "calm ef d (upd_frame d' f c) = calm ef d c"
  by (simp add: calm_def reply_due_def)

lemma after_emit_calm: "calm ef d c \<Longrightarrow> after_emit r c ef i = Next r c i"
  by (simp add: after_emit_def calm_def went_blind_calm)

section \<open>Splitting a chunk\<close>

text \<open>What a protocol needs, beyond the framer's contract, for its framing to be independent of
  chunking: the header parse looks at the frame only, the emit hook does not look at the slab and
  never turns the connection blind, and the resync scan can be continued.\<close>

locale framer_stream = framer_ops pid ops
  for pid :: lk_proto_id and ops :: "('h, 'ps, 'fs) lk_proto_ops" +
  assumes parse_hdr_conn: "op_parse_hdr ops c d f = op_parse_hdr ops c' d f"
    and pre_emit_buf: "op_pre_emit ops c d m = (c', m') \<Longrightarrow>
      op_pre_emit ops (upd_frame d ((cn_frame c d)\<lparr>fr_buf := b\<rparr>) c) d m
        = (upd_frame d ((cn_frame c' d)\<lparr>fr_buf := b\<rparr>) c', m')"
    and pre_emit_calm: "op_pre_emit ops c d m = (c', m') \<Longrightarrow> blind_bits c' = blind_bits c"
    and pre_emit_reply: "op_pre_emit ops c LK_DIR_SEND m = (c', m') \<Longrightarrow> reply_due c' = reply_due c"
    and scan_le: "op_resync_scan ops d f p = (used, found, f') \<Longrightarrow> used \<le> length p"
    and scan_found: "op_resync_scan ops d f p = (used, True, f')
      \<Longrightarrow> op_resync_scan ops d f (p @ q) = (used, True, f')"
    and scan_go_on: "op_resync_scan ops d f p = (used, False, f')
      \<Longrightarrow> op_resync_scan ops d f (p @ q)
        = (case op_resync_scan ops d f' q of (u, found, f'') \<Rightarrow> (length p + u, found, f''))"
    and intercept_idle: "op_intercept_bytes ops = Some ib \<Longrightarrow> (d = LK_DIR_SEND \<Longrightarrow> \<not> reply_due c)
      \<Longrightarrow> ib r c d p ts = (True, r, c, p)"
begin

lemma emit_plain:
  assumes "sink_plain (r_sink r)" and "emit ops r c d body = (r', c')"
  shows "sink_plain (r_sink r')" "calm ef d c \<Longrightarrow> calm ef d c'"
    "rs_bad_len (r_st r') = rs_bad_len (r_st r)"
    and "emit ops r (upd_frame d ((cn_frame c d)\<lparr>fr_buf := b\<rparr>) c) d body
      = (r', upd_frame d ((cn_frame c' d)\<lparr>fr_buf := b\<rparr>) c')"
proof -
  let ?m = "\<lparr>m_ts_ns = fr_msg_ts (cn_frame c d), m_type = fr_msg_type (cn_frame c d), m_flags = 0,
     m_len = fr_msg_len (cn_frame c d), m_body = body\<rparr>"
  let ?t = "\<lambda>s. s\<lparr>rs_msgs_trunc := rs_msgs_trunc s + 1\<rparr>" and ?n = "\<lambda>s. s\<lparr>rs_msgs := rs_msgs s + 1\<rparr>"
  obtain c1 m1 where pe: "op_pre_emit ops c d ?m = (c1, m1)" by fastforce
  obtain c2 m2 where sr: "stamp_resync c1 d m1 = (c2, m2)" by fastforce
  let ?cut = "length body < fr_body_total (cn_frame c2 d)"
  define r2 where "r2 = upd_st ?n (if ?cut then upd_st ?t r else r)"
  define m3 where "m3 = (if ?cut then m2\<lparr>m_flags := m_flags m2 OR LK_MSG_BODY_TRUNC\<rparr> else m2)"
  have cb: "call_on_msg r2 c2 d m3 = (r', c')"
    using assms(2) pe sr by (simp add: emit_def Let_def r2_def m3_def)
  have p2: "sink_plain (r_sink r2)" using assms(1) by (simp add: r2_def)
  note k = call_on_msg_plain [OF p2 cb]
  show "sink_plain (r_sink r')" by (rule k(1))
  have "blind_bits c2 = blind_bits c1" "reply_due c2 = reply_due c1"
    using sr by (auto simp: stamp_resync_def reply_due_def split: if_splits)
  then show "calm ef d c'" if "calm ef d c"
    using that k(2,4) pre_emit_calm [OF pe] pre_emit_reply [of c ?m c1 m1] pe by (auto simp: calm_def)
  show "rs_bad_len (r_st r') = rs_bad_len (r_st r)"
    using k(3) by (simp add: r2_def)
  have fr: "cn_frame c' = cn_frame c2"
    using call_on_msg_keeps(5) [OF sink_plain_ok [OF p2] cb] by (rule keeps_core_frame)
  let ?b = "\<lambda>c. upd_frame d ((cn_frame c d)\<lparr>fr_buf := b\<rparr>) c"
  have comm: "f\<lparr>fr_buf := b, fr_after_resync := x\<rparr> = f\<lparr>fr_after_resync := x, fr_buf := b\<rparr>" for f :: lk_frame and x
    by (cases f) simp
  have sb: "stamp_resync (?b c1) d m1 = (?b c2, m2)"
    using sr by (auto simp: stamp_resync_def upd_frame_def comm split: if_splits)
  have "call_on_msg r2 (?b c2) d m3 = (r', ?b c')"
    using k(5) [of "(cn_frame c2)(d := (cn_frame c2 d)\<lparr>fr_buf := b\<rparr>)"] by (simp add: upd_frame_def fr)
  then show "emit ops r (?b c) d body = (r', ?b c')"
    using pre_emit_buf [OF pe, of b] sb by (simp add: emit_def Let_def r2_def m3_def)
qed

text \<open>Ending a message of a calm connection goes on with the rest, and does not depend on whether
  the body was spilled into a slab.\<close>

lemma close_msg_next:
  assumes "sink_plain (r_sink r)" and "calm ef d c"
  shows "\<exists>r' c'. (\<forall>i :: bytes. close_msg ops d ef t r c body i = Next r' c' i)
    \<and> sink_plain (r_sink r') \<and> calm ef d c' \<and> rs_bad_len (r_st r') = rs_bad_len (r_st r)"
proof -
  obtain r1 c1 where e: "emit ops r c d body = (r1, c1)" by fastforce
  obtain r2 f2 where m: "msg_reset r1 (cn_frame c1 d) = (r2, f2)" by fastforce
  note k = emit_plain [OF assms(1) e]
  have calm: "calm ef d (upd_frame d (t f2) c1)" using k(2) assms(2) by simp
  have v: "view r2 = view r1" using msg_reset_view(1) [of r1 "cn_frame c1 d"] m by simp
  show ?thesis
    by (intro exI [of _ r2] exI [of _ "upd_frame d (t f2) c1"])
      (use calm v k in \<open>simp add: close_msg_def e m after_emit_calm view_def\<close>)
qed

lemma close_msg_buf:
  assumes "sink_plain (r_sink r)"
  shows "obs (close_msg ops d ef t r (upd_frame d (f\<lparr>fr_buf := b\<rparr>) c) body i)
       = obs (close_msg ops d ef t r (upd_frame d f c) body i)"
proof -
  obtain r1 c1 where e: "emit ops r (upd_frame d f c) d body = (r1, c1)" by fastforce
  have e': "emit ops r (upd_frame d (f\<lparr>fr_buf := b\<rparr>) c) d body = (r1, upd_frame d ((cn_frame c1 d)\<lparr>fr_buf := b\<rparr>) c1)"
    using emit_plain(4) [OF assms e, of b] by simp
  let ?f = "(cn_frame c1 d)\<lparr>fr_buf := None, fr_hdr := [], fr_body_len := 0, fr_msg_cont := False,
     fr_prefix_closed := False, fr_st := LK_FR_HEADER\<rparr>"
  have m: "msg_reset r1 (cn_frame c1 d) = (buf_put r1 (fr_buf (cn_frame c1 d)), ?f)"
      "msg_reset r1 ((cn_frame c1 d)\<lparr>fr_buf := b\<rparr>) = (buf_put r1 b, ?f)"
    by (simp_all add: msg_reset_def)
  have "view (buf_put r1 x) = view r1" for x
    by (simp add: buf_put_def view_def split: option.split)
  then show ?thesis
    by (simp add: close_msg_def e e' m after_emit_view [of "buf_put r1 b" "buf_put r1 (fr_buf (cn_frame c1 d))"])
qed

text \<open>How one turn on \<open>p @ q\<close> relates to one turn on \<open>p\<close>: it is the same turn with \<open>q\<close> left over;
  or \<open>p\<close> was used up and the turn is the one \<open>q\<close> starts with; or a header was rejected.\<close>

definition plain_state :: "u16 \<Rightarrow> lk_dir \<Rightarrow> ('h, 'ps, 'fs) lk_reasm \<Rightarrow> ('ps, 'fs) lk_conn \<Rightarrow> bool" where
  "plain_state ef d r c \<longleftrightarrow> mem_ok r \<and> sink_plain (r_sink r) \<and> calm ef d c"

definition splits :: "lk_dir \<Rightarrow> u16 \<Rightarrow> u64 \<Rightarrow> ('h, 'ps, 'fs) lk_reasm \<Rightarrow> ('ps, 'fs) lk_conn
    \<Rightarrow> bytes \<Rightarrow> bytes \<Rightarrow> bool" where
  "splits d ef ts r c p q \<longleftrightarrow>
     (\<exists>r2 c2 p2. bytes_step ops d ef ts r c p = Next r2 c2 p2
        \<and> bytes_step ops d ef ts r c (p @ q) = Next r2 c2 (p2 @ q)
        \<and> rs_bad_len (r_st r2) = rs_bad_len (r_st r) \<and> plain_state ef d r2 c2) \<or>
     (\<exists>r2 c2. (bytes_step ops d ef ts r c p = Return r2 c2 \<or> bytes_step ops d ef ts r c p = Next r2 c2 [])
        \<and> obs (bytes_step ops d ef ts r c (p @ q)) = obs (bytes_step ops d ef ts r2 c2 q)
        \<and> plain_state ef d r2 c2) \<or>
     (\<exists>r2 c2. bytes_step ops d ef ts r c p = Return r2 c2 \<and> rs_bad_len (r_st r2) \<noteq> rs_bad_len (r_st r))"

lemma splits_same:
  assumes "bytes_step ops d ef ts r c p = Next r2 c2 p2"
    and "bytes_step ops d ef ts r c (p @ q) = Next r2 c2 (p2 @ q)"
    and "rs_bad_len (r_st r2) = rs_bad_len (r_st r)" and "sink_plain (r_sink r2)" and "calm ef d c2"
    and "mem_ok r"
  shows "splits d ef ts r c p q"
  using assms bytes_step_ok [of ops d ef ts r c p] by (auto simp: splits_def plain_state_def)

lemma splits_used:
  assumes "bytes_step ops d ef ts r c p = Return r2 c2 \<or> bytes_step ops d ef ts r c p = Next r2 c2 []"
    and "obs (bytes_step ops d ef ts r c (p @ q)) = obs (bytes_step ops d ef ts r2 c2 q)"
    and "sink_plain (r_sink r2)" and "calm ef d c2" and "mem_ok r"
  shows "splits d ef ts r c p q"
proof -
  have "mem_ok r2"
    using assms(1,5) bytes_step_ok [of ops d ef ts r c p] by auto
  then show ?thesis
    using assms by (auto simp: splits_def plain_state_def)
qed

lemma splits_bad:
  assumes "bytes_step ops d ef ts r c p = Return r2 c2" and "rs_bad_len (r_st r2) \<noteq> rs_bad_len (r_st r)"
  shows "splits d ef ts r c p q"
  using assms by (auto simp: splits_def)

text \<open>The header is complete: \<open>f\<close> is the frame with the full header.\<close>

definition header_done :: "lk_dir \<Rightarrow> u16 \<Rightarrow> ('h, 'ps, 'fs) lk_reasm \<Rightarrow> ('ps, 'fs) lk_conn \<Rightarrow> lk_frame
    \<Rightarrow> bytes \<Rightarrow> (('h, 'ps, 'fs) lk_reasm, ('ps, 'fs) lk_conn, bytes) step" where
  "header_done d ef r c f rest = (case op_parse_hdr ops c d f of (ok, f) \<Rightarrow>
      if \<not> ok then (case go_dirty inc_bad_len r (upd_frame d f c) d of (r, c) \<Rightarrow> Return r c)
      else if fr_body_len f = 0
      then close_msg ops d ef (\<lambda>f. f) r (upd_frame d f c) (fr_buf_bytes f) rest
      else Next r (upd_frame d (f\<lparr>fr_st := LK_FR_BODY\<rparr>) c) rest)"

definition stamped :: "u64 \<Rightarrow> lk_frame \<Rightarrow> lk_frame" where
  "stamped ts f = (if fr_hdr f = [] \<and> \<not> fr_msg_cont f then f\<lparr>fr_msg_ts := ts\<rparr> else f)"

lemma stamped_simps [simp]:
  "fr_hdr (stamped ts f) = fr_hdr f" "fr_startup_done (stamped ts f) = fr_startup_done f"
  "fr_st (stamped ts f) = fr_st f"
  by (simp_all add: stamped_def)

lemma bytes_step_header:
  assumes "fr_st (cn_frame c d) = LK_FR_HEADER"
  shows "bytes_step ops d ef ts r c x =
     (let f = cn_frame c d; hs = op_hdr_size ops c d f; n = min (hs - length (fr_hdr f)) (length x);
          f = (stamped ts f)\<lparr>fr_hdr := fr_hdr f @ take n x\<rparr>
      in if length (fr_hdr f) < hs then Return r (upd_frame d f c) else header_done d ef r c f (drop n x))"
  unfolding bytes_step_def assms lk_frame_state.case header_step_close header_done_def Let_def
    stamped_def [symmetric] stamped_simps ..

lemma header_done_splits:
  assumes sp: "sink_plain (r_sink r)" and cl: "calm ef d c"
  shows "(\<exists>r2 c2. (\<forall>rest. header_done d ef r c f rest = Next r2 c2 rest) \<and> sink_plain (r_sink r2) \<and> calm ef d c2
            \<and> rs_bad_len (r_st r2) = rs_bad_len (r_st r)) \<or>
         (\<exists>r2 c2. (\<forall>rest. header_done d ef r c f rest = Return r2 c2) \<and> rs_bad_len (r_st r2) \<noteq> rs_bad_len (r_st r))"
proof -
  obtain ok g where ph: "op_parse_hdr ops c d f = (ok, g)" by fastforce
  obtain r2 c2 where gd: "go_dirty inc_bad_len r (upd_frame d g c) d = (r2, c2)" by fastforce
  then have "rs_bad_len (r_st r2) = rs_bad_len (r_st r) + 1"
    by (auto simp: go_dirty_def msg_reset_def buf_put_def Let_def split: option.splits if_splits)
  then have bad: ?thesis if "\<not> ok"
    using that gd by (auto simp: header_done_def ph)
  obtain r3 c3 where cm: "\<And>i :: bytes. close_msg ops d ef (\<lambda>f. f) r (upd_frame d g c) (fr_buf_bytes g) i = Next r3 c3 i"
      "sink_plain (r_sink r3)" "calm ef d c3" "rs_bad_len (r_st r3) = rs_bad_len (r_st r)"
    using close_msg_next [OF sp, of ef d "upd_frame d g c"] cl unfolding calm_upd by blast
  have ?thesis if ok "fr_body_len g = 0"
    using that cm by (auto simp: header_done_def ph)
  moreover have ?thesis if ok "fr_body_len g \<noteq> 0"
    using that sp cl by (auto simp: header_done_def ph)
  ultimately show ?thesis using bad by blast
qed

lemma header_splits_short:
  assumes pl: "plain_state ef d r c" and st: "fr_st (cn_frame c d) = LK_FR_HEADER" and p: "p \<noteq> []"
    and short: "length (fr_hdr (cn_frame c d)) + length p < op_hdr_size ops c d (cn_frame c d)"
  shows "splits d ef ts r c p q"
proof -
  let ?f = "cn_frame c d" and ?hs = "op_hdr_size ops c d (cn_frame c d)"
  define f2 where "f2 = (stamped ts ?f)\<lparr>fr_hdr := fr_hdr ?f @ p\<rparr>"
  define c2 where "c2 = upd_frame d f2 c"
  have ret: "bytes_step ops d ef ts r c p = Return r c2"
    using short by (simp add: bytes_step_header [OF st] Let_def c2_def f2_def)
  have c2: "cn_frame c2 d = f2" "fr_st (cn_frame c2 d) = LK_FR_HEADER" "fr_hdr f2 = fr_hdr ?f @ p"
      "stamped ts f2 = f2" "op_hdr_size ops c2 d f2 = ?hs"
    using p hdr_size_cong [of f2 ?f c2 d c] st by (simp_all add: c2_def f2_def stamped_def)
  have hd: "header_done d ef r c2 g rest = header_done d ef r c g rest" for g rest
    using parse_hdr_conn [of c2 d g c] by (cases "op_parse_hdr ops c d g") (simp add: header_done_def c2_def)
  define n where "n = min (?hs - length (fr_hdr f2)) (length q)"
  have n: "min (?hs - length (fr_hdr ?f)) (length (p @ q)) = length p + n"
    using short c2(3) unfolding n_def by (simp only: length_append)
  have f2h: "f2\<lparr>fr_hdr := h\<rparr> = (stamped ts ?f)\<lparr>fr_hdr := h\<rparr>" for h
    by (simp add: f2_def)
  have "bytes_step ops d ef ts r c (p @ q) = bytes_step ops d ef ts r c2 q"
    unfolding bytes_step_header [OF st] bytes_step_header [OF c2(2)] Let_def n c2(1,4,5) n_def [symmetric] hd
    using c2(3) by (simp add: f2h) (simp add: c2_def)
  then show ?thesis
    using ret pl by (intro splits_used [of _ _ _ _ _ _ r c2]) (simp_all add: c2_def plain_state_def)
qed

lemma header_splits:
  assumes pl: "plain_state ef d r c" and st: "fr_st (cn_frame c d) = LK_FR_HEADER" and p: "p \<noteq> []"
  shows "splits d ef ts r c p q"
proof (cases "length (fr_hdr (cn_frame c d)) + length p < op_hdr_size ops c d (cn_frame c d)")
  case False
  let ?f = "cn_frame c d"
  define n where "n = op_hdr_size ops c d ?f - length (fr_hdr ?f)"
  define g where "g = (stamped ts ?f)\<lparr>fr_hdr := fr_hdr ?f @ take n p\<rparr>"
  have n: "n \<le> length p" using False by (simp add: n_def)
  have "bytes_step ops d ef ts r c p = header_done d ef r c g (drop n p)"
      "bytes_step ops d ef ts r c (p @ q) = header_done d ef r c g (drop n p @ q)"
    using False n by (simp_all add: bytes_step_header [OF st] Let_def n_def [symmetric] g_def min_absorb1) (auto simp: n_def)
  then show ?thesis
    using header_done_splits [of r ef d c g] pl splits_same splits_bad unfolding plain_state_def by metis
qed (rule header_splits_short [OF assms])

lemma fr_buf_bytes_upd [simp]: "fr_buf_bytes (f\<lparr>fr_buf := Some b\<rparr>) = b"
  by (simp add: fr_buf_bytes_def)

lemma body_splits_short:
  assumes pl: "plain_state ef d r c" and st: "fr_st (cn_frame c d) = LK_FR_BODY"
    and open': "\<not> fr_prefix_closed (cn_frame c d)"
    and short: "length p < body_target (cn_frame c d) - fr_buf_len (cn_frame c d)"
  shows "splits d ef ts r c p q"
proof -
  let ?f = "cn_frame c d"
  have mem: "mem_ok r" and sp: "sink_plain (r_sink r)" and cl: "calm ef d c"
    using pl by (simp_all add: plain_state_def)
  define r2 where "r2 = fst (buf_acquire r ?f)"
  define f2 where "f2 = ?f\<lparr>fr_buf := Some (fr_buf_bytes ?f @ p)\<rparr>"
  define c2 where "c2 = upd_frame d f2 c"
  have r2: "view r2 = view r" "mem_ok r2"
    using buf_acquire_view [OF mem, of ?f] by (simp_all add: r2_def)
  have ret: "bytes_step ops d ef ts r c p = Return r2 c2"
    using short open' buf_acquire_view(3) [OF mem, of ?f]
    by (cases "buf_acquire r ?f")
      (auto simp: bytes_step_def st body_step_def Let_def r2_def c2_def f2_def fr_buf_bytes_def)
  have f2: "cn_frame c2 d = f2" "fr_st f2 = LK_FR_BODY" "body_target f2 = body_target ?f"
      "fr_prefix_closed f2 = False" "fr_buf_len f2 = fr_buf_len ?f + length p" "fr_msg_cont f2 = fr_msg_cont ?f"
      "fr_body_len f2 = fr_body_len ?f" "fr_buf_bytes f2 = fr_buf_bytes ?f @ p"
      "upd_frame d g c2 = upd_frame d g c" for g
    using st open' by (simp_all add: c2_def f2_def body_target_def)
  define rem where "rem = body_target ?f - fr_buf_len ?f"
  define skip where "skip = fr_body_len ?f - body_target ?f"
  have rem: "body_target ?f - (fr_buf_len ?f + length p) = rem - length p" "length p < rem"
    using short by (simp_all add: rem_def)
  have tk: "take rem (p @ q) = p @ take (rem - length p) q" "drop rem (p @ q) = drop (rem - length p) q"
    using rem(2) by simp_all
  have cont: "obs (body_cont d r c ?f (p @ q) rem skip) = obs (body_cont d r2 c2 f2 q (rem - length p) skip)"
    using rem(2) unfolding body_cont_mem [OF mem] body_cont_mem [OF r2(2)] tk Let_def r2(1) f2(8,9)
    by (simp add: f2_def)
  have em: "obs (body_emit ops d ef r c ?f (p @ q) rem skip) = obs (body_emit ops d ef r2 c2 f2 q (rem - length p) skip)"
    unfolding body_emit_close tk f2(8,9) close_msg_view [OF r2(1)]
    by (simp add: f2_def close_msg_buf [OF sp])
  have "obs (bytes_step ops d ef ts r c (p @ q)) = obs (bytes_step ops d ef ts r2 c2 q)"
    unfolding bytes_step_def f2(1,2) st lk_frame_state.case body_step_mem [OF mem] body_step_mem [OF r2(2)] Let_def
      f2(1,3-9) if_False rem(1) r2(1) rem_def [symmetric] skip_def [symmetric] cont em
    using open' cont em rem(2) by (simp add: f2_def rem_def [symmetric] skip_def [symmetric]) (simp add: less_diff_conv add.commute)
  then show ?thesis
    using ret sp cl mem r2 by (intro splits_used [of _ _ _ _ _ _ r2 c2]) (simp_all add: c2_def view_def)
qed

lemma body_splits:
  assumes pl: "plain_state ef d r c" and st: "fr_st (cn_frame c d) = LK_FR_BODY"
  shows "splits d ef ts r c p q"
proof (cases "\<not> fr_prefix_closed (cn_frame c d) \<and> length p < body_target (cn_frame c d) - fr_buf_len (cn_frame c d)")
  case True
  then show ?thesis using body_splits_short [OF pl st] by blast
next
  case False
  let ?f = "cn_frame c d"
  have mem: "mem_ok r" and sp: "sink_plain (r_sink r)" and cl: "calm ef d c"
    using pl by (simp_all add: plain_state_def)
  define rem where "rem = (if fr_prefix_closed ?f then fr_buf_len ?f else body_target ?f) - fr_buf_len ?f"
  define skip where "skip = fr_body_len ?f - (if fr_prefix_closed ?f then 0 else body_target ?f)"
  have rem: "rem \<le> length p"
    using False by (auto simp: rem_def)
  have step: "bytes_step ops d ef ts r c x =
      (if fr_msg_cont ?f then body_cont d r c ?f x rem skip else body_emit ops d ef r c ?f x rem skip)"
    if "rem \<le> length x" for x
    using that by (auto simp: bytes_step_def st body_step_def Let_def rem_def skip_def)
  have tk: "take rem (p @ q) = take rem p" "drop rem (p @ q) = drop rem p @ q"
    using rem by simp_all
  obtain r3 c3 where cm: "\<And>i :: bytes. close_msg ops d ef (\<lambda>f. if 0 < skip then f\<lparr>fr_st := LK_FR_SKIP, fr_skip_left := skip\<rparr> else f)
       r (upd_frame d ?f c) (fr_buf_bytes ?f @ take rem p) i = Next r3 c3 i"
      "sink_plain (r_sink r3)" "calm ef d c3" "rs_bad_len (r_st r3) = rs_bad_len (r_st r)"
    using close_msg_next [OF sp, of ef d "upd_frame d ?f c"] cl unfolding calm_upd by blast
  obtain r4 f1 where a: "(if 0 < rem then buf_acquire r ?f else (r, ?f)) = (r4, f1)" by fastforce
  have r4: "view r4 = view r"
    using a buf_acquire_view(1) [OF mem, of ?f] by (auto split: if_splits)
  define cf where "cf y = (let f = (if 0 < rem \<and> fr_buf f1 \<noteq> None then f1\<lparr>fr_buf := Some (fr_buf_bytes f1 @ y)\<rparr> else f1);
      f = f\<lparr>fr_prefix_closed := True, fr_hdr := [], fr_st := LK_FR_HEADER\<rparr>
      in if 0 < skip then f\<lparr>fr_st := LK_FR_SKIP, fr_skip_left := skip\<rparr> else f)" for y
  have bc: "body_cont d r c ?f x rem skip = Next r4 (upd_frame d (cf (take rem x)) c) (drop rem x)" for x
    unfolding body_cont_def a prod.case Let_def cf_def ..
  show ?thesis
  proof (cases "fr_msg_cont ?f")
    case True
    then show ?thesis
      using step bc rem tk sp cl mem r4
      by (intro splits_same [of _ _ _ _ _ _ r4 "upd_frame d (cf (take rem p)) c" "drop rem p"]) (simp_all add: view_def)
  next
    case False
    then show ?thesis
      using step cm rem tk mem
      by (intro splits_same [of _ _ _ _ _ _ r3 c3 "drop rem p"]) (simp_all add: body_emit_close)
  qed
qed

lemma skip_splits:
  assumes pl: "plain_state ef d r c" and st: "fr_st (cn_frame c d) = LK_FR_SKIP" and p: "p \<noteq> []"
    and left: "0 < fr_skip_left (cn_frame c d)"
  shows "splits d ef ts r c p q"
proof (cases "fr_skip_left (cn_frame c d) \<le> length p")
  case True
  then show ?thesis
    using pl by (intro splits_same [of _ _ _ _ _ _ r "upd_frame d (skip_frame (fr_skip_left (cn_frame c d)) (cn_frame c d)) c"
          "drop (fr_skip_left (cn_frame c d)) p"])
      (simp_all add: bytes_step_def st skip_step_def Let_def plain_state_def)
next
  case False
  let ?f = "cn_frame c d" and ?c2 = "upd_frame d (skip_frame (length p) (cn_frame c d)) c"
  have f2: "skip_frame (length p) ?f = ?f\<lparr>fr_skip_left := fr_skip_left ?f - length p\<rparr>"
    using False by (simp add: skip_frame_def Let_def)
  define n where "n = min (fr_skip_left ?f - length p) (length q)"
  have n: "min (fr_skip_left ?f) (length (p @ q)) = length p + n"
    using False unfolding n_def by auto
  have sf: "skip_frame n (skip_frame (length p) ?f) = skip_frame (length p + n) ?f"
    by (simp add: f2) (simp add: skip_frame_def Let_def)
  have "bytes_step ops d ef ts r c (p @ q) = Next r (upd_frame d (skip_frame (length p + n) ?f) c) (drop n q)"
    unfolding bytes_step_def st lk_frame_state.case skip_step_def Let_def n by simp
  moreover have "cn_frame ?c2 d = ?f\<lparr>fr_skip_left := fr_skip_left ?f - length p\<rparr>"
    by (simp add: f2)
  then have "bytes_step ops d ef ts r ?c2 q = Next r (upd_frame d (skip_frame (length p + n) ?f) c) (drop n q)"
    using st by (simp add: bytes_step_def skip_step_def Let_def n_def [symmetric] sf [symmetric] f2)
  ultimately have "bytes_step ops d ef ts r c (p @ q) = bytes_step ops d ef ts r ?c2 q"
    by simp
  moreover have "bytes_step ops d ef ts r c p = Next r ?c2 []"
    using False by (simp add: bytes_step_def st skip_step_def Let_def min_absorb2)
  ultimately show ?thesis
    using pl by (intro splits_used [of _ _ _ _ _ _ r ?c2]) (simp_all add: plain_state_def)
qed

lemma dirty_splits:
  assumes pl: "plain_state ef d r c" and st: "fr_st (cn_frame c d) = LK_FR_DIRTY"
  shows "splits d ef ts r c p q"
proof -
  obtain used found f where sc: "op_resync_scan ops d (cn_frame c d) p = (used, found, f)"
    by (metis prod.exhaust)
  have mem: "mem_ok r" and sp: "sink_plain (r_sink r)" and cl: "calm ef d c"
    using pl by (simp_all add: plain_state_def)
  show ?thesis
  proof (cases found)
    case True
    obtain r2 f2 where mr: "msg_reset r (cn_frame (upd_frame d f c) d) = (r2, f2)" by fastforce
    obtain r3 c3 where rs: "do_resync r (upd_frame d f c) d = (r3, c3)" by fastforce
    obtain r1 c1 where cb: "call_on_resync r1 c1 d = (r3, c3)" and "view r1 = (r_sink r, (r_st r)\<lparr>rs_resyncs := rs_resyncs (r_st r) + 1\<rparr>)"
        and "calm ef d c1"
      using rs mr msg_reset_view(1) [of r "cn_frame (upd_frame d f c) d"] cl
      by (auto simp: do_resync_def Let_def view_def)
    then have "sink_plain (r_sink r3)" "calm ef d c3" "rs_bad_len (r_st r3) = rs_bad_len (r_st r)"
      using call_on_resync_plain [OF _ cb] sp by (auto simp: view_def calm_def)
    then show ?thesis
      using sc scan_le [OF sc] scan_found [of d "cn_frame c d" p used f q] True rs mem
      by (intro splits_same [of _ _ _ _ _ _ r3 c3 "drop used p"]) (simp_all add: bytes_step_def st dirty_step_def)
  next
    case False
    have f: "f = (cn_frame c d)\<lparr>fr_resync_matched := fr_resync_matched f\<rparr>"
      by (rule scan_frame [OF sc])
    have stf: "fr_st f = LK_FR_DIRTY"
      using arg_cong [OF f, of fr_st] st by simp
    obtain u fnd g where sq: "op_resync_scan ops d f q = (u, fnd, g)"
      by (metis prod.exhaust)
    have "bytes_step ops d ef ts r c (p @ q) = bytes_step ops d ef ts r (upd_frame d f c) q"
      using scan_go_on [of d "cn_frame c d" p used f q] sc False sq
      by (simp add: bytes_step_def st stf dirty_step_def)
    then show ?thesis
      using pl sc False by (intro splits_used [of _ _ _ _ _ _ r "upd_frame d f c"])
        (simp_all add: bytes_step_def st dirty_step_def plain_state_def)
  qed
qed

lemma bytes_splits:
  assumes "plain_state ef d r c" and "framer_inv k r c" and "p \<noteq> []"
  shows "splits d ef ts r c p q"
proof (cases "fr_st (cn_frame c d)")
  case LK_FR_SKIP
  then have "0 < fr_skip_left (cn_frame c d)"
    using assms(2) by (simp add: framer_inv_split [of _ _ _ d] frame_inv_def)
  then show ?thesis using skip_splits [OF assms(1) LK_FR_SKIP assms(3)] by blast
qed (simp_all add: header_splits body_splits dirty_splits assms)

section \<open>Splitting a run\<close>

abbreviation obs_run :: "(('h, 'ps, 'fs) lk_reasm \<times> ('ps, 'fs) lk_conn) option
    \<Rightarrow> ((('h, 'ps, 'fs) lk_msg_sink \<times> lk_reasm_stats) \<times> ('ps, 'fs) lk_conn) option" where
  "obs_run \<equiv> map_option (map_prod view id)"

lemma loop_view:
  assumes "framer_inv k r c" and "framer_inv k' r' c" and "view r = view r'" and "mem_ok r" and "mem_ok r'"
  shows "obs_run (bytes_loop ops d ef ts r c p) = obs_run (bytes_loop ops d ef ts r' c p)"
  using assms
proof (induction "loop_meas d c (length p)" arbitrary: r r' c p rule: less_induct)
  case less
  show ?case
  proof (cases "p = []")
    case True
    then show ?thesis using less.prems by (simp add: bytes_loop.simps)
  next
    case False
    let ?s = "bytes_step ops d ef ts r c p" and ?s' = "bytes_step ops d ef ts r' c p"
    have g: "good k (\<lambda>c' p'. loop_meas d c' (length p') < loop_meas d c (length p)) ?s"
        "good k' (\<lambda>c' p'. loop_meas d c' (length p') < loop_meas d c (length p)) ?s'"
      using less.prems False by (auto intro: bytes_step_good)
    have o: "obs ?s = obs ?s'" by (rule bytes_step_view) (use less.prems in auto)
    have ok: "mem_ok (step_r ?s)" "mem_ok (step_r ?s')"
      using bytes_step_ok less.prems by metis+
    show ?thesis
    proof (cases ?s)
      case (Return r2 c2)
      then show ?thesis
        using o False by (cases ?s') (simp_all add: bytes_loop.simps [of _ _ _ _ _ _ p])
    next
      case (Next r2 c2 p2)
      then obtain r2' where n: "?s' = Next r2' c2 p2" "view r2 = view r2'"
        using o by (cases ?s') auto
      show ?thesis
        using less.hyps [of c2 p2 r2 r2'] g ok Next n False by (simp add: bytes_loop.simps [of _ _ _ _ _ _ p])
    qed
  qed
qed

lemma loop_same_step:
  assumes "framer_inv k r c" and "framer_inv k' r' c'" and "mem_ok r" and "mem_ok r'"
    and "p \<noteq> []" and "q \<noteq> []"
    and "obs (bytes_step ops d ef ts r c p) = obs (bytes_step ops d ef ts r' c' q)"
  shows "obs_run (bytes_loop ops d ef ts r c p) = obs_run (bytes_loop ops d ef ts r' c' q)"
proof -
  let ?s = "bytes_step ops d ef ts r c p" and ?s' = "bytes_step ops d ef ts r' c' q"
  have g: "good k (\<lambda>_ _. True) ?s" "good k' (\<lambda>_ _. True) ?s'"
    using bytes_step_good [OF assms(1,5), of d ef ts] bytes_step_good [OF assms(2,6), of d ef ts]
    by (simp_all add: good_def split: step.splits)
  have ok: "mem_ok (step_r ?s)" "mem_ok (step_r ?s')"
    using bytes_step_ok assms(3,4) by metis+
  show ?thesis
  proof (cases ?s)
    case (Return r2 c2)
    then show ?thesis
      using assms(5-7) by (cases ?s') (simp_all add: bytes_loop.simps [of _ _ _ _ _ _ p] bytes_loop.simps [of _ _ _ _ _ _ q])
  next
    case (Next r2 c2 p2)
    then obtain r2' where n: "?s' = Next r2' c2 p2" "view r2 = view r2'"
      using assms(7) by (cases ?s') auto
    show ?thesis
      using loop_view [of k r2 c2 k' r2'] g ok Next n assms(5,6)
      by (simp add: bytes_loop.simps [of _ _ _ _ _ _ p] bytes_loop.simps [of _ _ _ _ _ _ q])
  qed
qed

theorem bytes_loop_split:
  assumes "framer_inv k r c" and "plain_state ef d r c"
    and "bytes_loop ops d ef ts r c p = Some (r1, c1)" and "rs_bad_len (r_st r1) = rs_bad_len (r_st r)"
  shows "plain_state ef d r1 c1"
    and "obs_run (bytes_loop ops d ef ts r c (p @ q)) = obs_run (bytes_loop ops d ef ts r1 c1 q)"
proof -
  have "plain_state ef d r1 c1 \<and> (q \<noteq> [] \<longrightarrow>
      obs_run (bytes_loop ops d ef ts r c (p @ q)) = obs_run (bytes_loop ops d ef ts r1 c1 q))"
    using assms
  proof (induction "loop_meas d c (length p)" arbitrary: r c p rule: less_induct)
    case less
    show ?case
    proof (cases "p = []")
      case True
      then show ?thesis using less.prems by (simp add: bytes_loop.simps [of _ _ _ _ _ _ "[]"])
    next
      case False
      let ?s = "bytes_step ops d ef ts r c p"
      have g: "good k (\<lambda>c' p'. loop_meas d c' (length p') < loop_meas d c (length p)) ?s"
        using less.prems(1) False by (rule bytes_step_good)
      have loop: "(case ?s of Return r c \<Rightarrow> Some (r, c) | Next r c p \<Rightarrow> bytes_loop ops d ef ts r c p) = Some (r1, c1)"
        using less.prems(3) False by (simp add: bytes_loop.simps [of _ _ _ _ _ _ p])
      have mem: "mem_ok r" using less.prems(2) by (simp add: plain_state_def)
      from bytes_splits [OF less.prems(2,1) False, of ts q]
      consider (same) r2 c2 p2 where "?s = Next r2 c2 p2" "bytes_step ops d ef ts r c (p @ q) = Next r2 c2 (p2 @ q)"
            "rs_bad_len (r_st r2) = rs_bad_len (r_st r)" "plain_state ef d r2 c2"
        | (used) r2 c2 where "?s = Return r2 c2 \<or> ?s = Next r2 c2 []" "plain_state ef d r2 c2"
            "obs (bytes_step ops d ef ts r c (p @ q)) = obs (bytes_step ops d ef ts r2 c2 q)"
        | (bad) r2 c2 where "?s = Return r2 c2" "rs_bad_len (r_st r2) \<noteq> rs_bad_len (r_st r)"
        unfolding splits_def by blast
      then show ?thesis
      proof cases
        case same
        then show ?thesis
          using less.hyps [of c2 p2 r2] g loop less.prems(4) False by (simp add: bytes_loop.simps [of _ _ _ _ _ _ "p @ q"])
      next
        case used
        then have [simp]: "r2 = r1" "c2 = c1" and inv: "framer_inv k r1 c1"
          using loop g by (auto simp: bytes_loop.simps [of _ _ _ _ _ _ "[]"])
        have "mem_ok r1" using used(2) by (simp add: plain_state_def)
        then show ?thesis
          using loop_same_step [OF less.prems(1) inv mem, of "p @ q" q] used False by simp
      next
        case bad
        then show ?thesis using loop less.prems(4) by simp
      qed
    qed
  qed
  then show "plain_state ef d r1 c1"
    and "obs_run (bytes_loop ops d ef ts r c (p @ q)) = obs_run (bytes_loop ops d ef ts r1 c1 q)"
    using assms(3) by (cases "q = []"; simp add: bytes_loop.simps [of _ _ _ _ _ _ "[]"])+
qed

section \<open>Chunks and bytes\<close>

lemma loop_ef:
  assumes "framer_inv k r c"
    and ef: "has_flag ef (LK_CONN_TLS OR LK_CONN_IGNORE) = has_flag ef' (LK_CONN_TLS OR LK_CONN_IGNORE)"
  shows "bytes_loop ops d ef ts r c p = bytes_loop ops d ef' ts r c p"
  using assms(1)
proof (induction "loop_meas d c (length p)" arbitrary: r c p rule: less_induct)
  case less
  show ?case
  proof (cases "p = []")
    case False
    show ?thesis
      using bytes_step_good [OF less.prems False, of d ef ts] less.hyps False bytes_step_ef [OF ef, of ops d ts r c p]
      by (auto simp: bytes_loop.simps [of _ _ _ _ _ _ p] split: step.splits)
  qed (simp add: bytes_loop.simps)
qed

definition quiet :: "lk_dir \<Rightarrow> ('h, 'ps, 'fs) lk_reasm \<Rightarrow> ('ps, 'fs) lk_conn \<Rightarrow> bool" where
  "quiet d r c \<longleftrightarrow> mem_ok r \<and> sink_plain (r_sink r) \<and> (d = LK_DIR_SEND \<longrightarrow> \<not> reply_due c)"

lemma quiet_plain: "quiet d r c = plain_state (cn_flags c) d r c"
  by (auto simp: quiet_def plain_state_def calm_def blind_bits_def)

lemma lk_frame_bytes_quiet:
  assumes "framer_inv k r c" and "quiet d r c" and "registered tab"
  shows "lk_frame_bytes tab r c d p ts = bytes_loop ops d (cn_flags c) ts r c p"
proof -
  have co: "conn_ops tab c = (ops, c)"
    using assms(1,3) by (simp add: conn_ops_def lk_conn_proto_def framer_inv_def registered_def)
  show ?thesis
  proof (cases "op_intercept_bytes ops")
    case (Some ib)
    have "ib r c d p ts = (True, r, c, p)"
      using intercept_idle [OF Some] assms(2) by (auto simp: quiet_def)
    then show ?thesis
      by (simp add: lk_frame_bytes_def co message_mode Some Let_def bytes_loop.simps [of _ _ _ _ _ _ "[]"])
  qed (simp add: lk_frame_bytes_def co message_mode Let_def)
qed

lemma loop_quiet:
  assumes "framer_inv k r c" and "quiet d r c" and "bytes_loop ops d (cn_flags c) ts r c p = Some (r1, c1)"
    and "bad r1 = bad r"
  shows "quiet d r1 c1" and "bytes_loop ops d (cn_flags c) ts r1 c1 q = bytes_loop ops d (cn_flags c1) ts r1 c1 q"
proof -
  have ps: "plain_state (cn_flags c) d r1 c1"
    using bytes_loop_split(1) [OF assms(1) _ assms(3,4)] assms(2) by (simp add: quiet_plain)
  then show "quiet d r1 c1"
    by (auto simp: quiet_def plain_state_def calm_def)
  have "framer_inv k r1 c1"
    using bytes_loop_total [OF assms(1), of d "cn_flags c" ts p] assms(3) by simp
  then show "bytes_loop ops d (cn_flags c) ts r1 c1 q = bytes_loop ops d (cn_flags c1) ts r1 c1 q"
    using ps by (intro loop_ef) (simp_all add: plain_state_def calm_def blind_bits_def)
qed

lemma one_by_one_feed:
  assumes "framer_inv k r c" and "quiet d r c" and "registered tab" and "unbroken tab d r c (one_by_one p ts)"
  shows "\<exists>r1 c1. feed tab d r c (one_by_one p ts) = Some (r1, c1) \<and> framer_inv k r1 c1 \<and> quiet d r1 c1
     \<and> bad r1 = bad r \<and> obs_run (bytes_loop ops d (cn_flags c) ts r c p) = Some (view r1, c1)"
  using assms
proof (induction p arbitrary: r c)
  case Nil
  then show ?case by (simp add: one_by_one_def bytes_loop.simps)
next
  case (Cons b p)
  obtain r1 c1 where l1: "bytes_loop ops d (cn_flags c) ts r c [b] = Some (r1, c1)" and inv1: "framer_inv k r1 c1"
    using bytes_loop_total [OF Cons.prems(1), of d "cn_flags c" ts "[b]"] by blast
  have fb: "lk_frame_bytes tab r c d [b] ts = Some (r1, c1)"
    using lk_frame_bytes_quiet [OF Cons.prems(1-3)] l1 by simp
  have ub: "bad r1 = bad r" "unbroken tab d r1 c1 (one_by_one p ts)"
    using Cons.prems(4) fb by (simp_all add: one_by_one_def)
  note q1 = loop_quiet [OF Cons.prems(1,2) l1 ub(1)]
  have "obs_run (bytes_loop ops d (cn_flags c) ts r c ([b] @ p)) = obs_run (bytes_loop ops d (cn_flags c) ts r1 c1 p)"
    using bytes_loop_split(2) [OF Cons.prems(1) _ l1 ub(1), of p] Cons.prems(2) by (simp add: quiet_plain)
  then have "obs_run (bytes_loop ops d (cn_flags c) ts r c (b # p)) = obs_run (bytes_loop ops d (cn_flags c1) ts r1 c1 p)"
    using q1(2) by simp
  moreover obtain r2 c2 where "feed tab d r1 c1 (one_by_one p ts) = Some (r2, c2)" "framer_inv k r2 c2"
      "quiet d r2 c2" "bad r2 = bad r1" "obs_run (bytes_loop ops d (cn_flags c1) ts r1 c1 p) = Some (view r2, c2)"
    using Cons.IH [OF inv1 q1(1) Cons.prems(3) ub(2)] by blast
  ultimately show ?case
    using fb ub(1) by (intro exI [of _ r2] exI [of _ c2]) (simp only: one_by_one_def list.map feed.simps bind.bind_lunit prod.case)
qed

theorem feed_bytewise:
  assumes "framer_inv k r c" and "quiet d r c" and "registered tab" and "unbroken tab d r c (bytewise ps)"
    and "framer_inv k' r' c" and "quiet d r' c" and "view r' = view r"
  shows "obs_run (feed tab d r' c ps) = obs_run (feed tab d r c (bytewise ps))"
  using assms
proof (induction ps arbitrary: r r' c)
  case Nil
  then show ?case by (simp add: bytewise_def)
next
  case (Cons e ps)
  obtain p ts where e: "e = (p, ts)" by (cases e)
  have bw: "bytewise (e # ps) = one_by_one p ts @ bytewise ps"
    by (simp add: bytewise_def e)
  have "unbroken tab d r c (one_by_one p ts)"
    using Cons.prems(4) by (simp add: bw unbroken_append)
  then obtain r1 c1 where f1: "feed tab d r c (one_by_one p ts) = Some (r1, c1)" "framer_inv k r1 c1" "quiet d r1 c1"
      "bad r1 = bad r" "obs_run (bytes_loop ops d (cn_flags c) ts r c p) = Some (view r1, c1)"
    using one_by_one_feed [OF Cons.prems(1-3)] by blast
  have ub: "unbroken tab d r1 c1 (bytewise ps)"
    using Cons.prems(4) f1(1) by (simp add: bw unbroken_append)
  obtain r2 c2 where l2: "bytes_loop ops d (cn_flags c) ts r' c p = Some (r2, c2)" and inv2: "framer_inv k' r2 c2"
    using bytes_loop_total [OF Cons.prems(5), of d "cn_flags c" ts p] by blast
  have "obs_run (bytes_loop ops d (cn_flags c) ts r' c p) = Some (view r1, c1)"
    using loop_view [OF Cons.prems(1,5), of d "cn_flags c" ts p] Cons.prems(2,6,7) f1(5) unfolding quiet_def by metis
  then have v2: "view r2 = view r1" "c2 = c1"
    using l2 by simp_all
  have "bad r2 = bad r'"
    using v2(1) f1(4) Cons.prems(7) by (simp add: view_def)
  then have q2: "quiet d r2 c1"
    using loop_quiet(1) [OF Cons.prems(5,6) l2] v2 by simp
  have ih: "obs_run (feed tab d r2 c1 ps) = obs_run (feed tab d r1 c1 (bytewise ps))"
    by (rule Cons.IH [OF f1(2,3) Cons.prems(3) ub]) (use inv2 q2 v2 in simp_all)
  have "feed tab d r' c (e # ps) = feed tab d r2 c1 ps"
    using lk_frame_bytes_quiet [OF Cons.prems(5,6,3), of p ts] l2 v2(2) by (simp add: e)
  moreover have "feed tab d r c (bytewise (e # ps)) = feed tab d r1 c1 (bytewise ps)"
    unfolding bw by (simp add: feed_append f1(1))
  ultimately show ?case
    using ih by (simp only:)
qed

end

end
