(* ===== verification/Pg_Chunks.thy ===== *)
theory Pg_Chunks
  imports Pg_Frame Framer_Chunks
begin

text \<open>
  PostgreSQL framing is independent of how the stream is cut into events, and inverts the wire
  encoding: any chunking of a sequence of encoded messages gives back exactly those messages, each
  with the timestamp of its first byte and its body cut at \<open>LK_MSG_BODY_MAX\<close>.
\<close>

section \<open>The stream laws for PostgreSQL\<close>

lemma scan_loop_le: "resync_scan_loop m p u = (used, found, m') \<Longrightarrow> used \<le> u + length p"
  by (induction m p u rule: resync_scan_loop.induct) (fastforce split: if_splits)+

lemma scan_loop_shift:
  "resync_scan_loop m p u = (case resync_scan_loop m p 0 of (used, found, m') \<Rightarrow> (u + used, found, m'))"
proof (induction p arbitrary: m u)
  case (Cons b p)
  show ?case
    using Cons.IH [of _ "Suc u"] Cons.IH [of _ "Suc 0"]
    by (simp split: prod.splits)
qed simp

lemma scan_loop_append:
  "resync_scan_loop m (p @ q) u =
     (case resync_scan_loop m p u of (used, found, m') \<Rightarrow>
        if found then (used, True, m') else resync_scan_loop m' q (u + length p))"
  by (induction m p u rule: resync_scan_loop.induct) (auto split: prod.splits)

lemma pg_pre_emit_buf:
  assumes "pg_pre_emit c d m = (c', m')"
  shows "pg_pre_emit (upd_frame d ((cn_frame c d)\<lparr>fr_buf := b\<rparr>) c) d m
    = (upd_frame d ((cn_frame c' d)\<lparr>fr_buf := b\<rparr>) c', m')"
proof -
  have comm: "f\<lparr>fr_buf := b, fr_startup_done := x\<rparr> = f\<lparr>fr_startup_done := x, fr_buf := b\<rparr>" for f :: lk_frame and x
    by (cases f) simp
  show ?thesis
    using assms by (auto simp: pg_pre_emit_def in_startup_def upd_frame_def comm Let_def split: if_splits)
qed

lemma blind_bits_bit: "blind_bits c \<longleftrightarrow> bit (cn_flags c) 1 \<or> bit (cn_flags c) 6"
  unfolding blind_bits_def has_flag_or_mask has_flag_numeral ..

lemma pg_pre_emit_flags:
  assumes "pg_pre_emit c d m = (c', m')"
  shows "blind_bits c' = blind_bits c" and "d = LK_DIR_SEND \<Longrightarrow> reply_due c' = reply_due c"
  using assms
  by (auto simp: pg_pre_emit_def in_startup_def blind_bits_bit reply_due_def flag_simps bit_simps Let_def
      split: if_splits)

interpretation pg_stream: framer_stream LK_PROTO_PG lk_proto_pg_ops
proof (unfold_locales, goal_cases)
  case (5 d f p used found f')
  then show ?case
    using scan_loop_le [of "fr_resync_matched f" p 0] by (auto simp: pg_resync_scan_def split: if_splits prod.splits)
next
  case (6 d f p used f' q)
  then show ?case
    by (auto simp: pg_resync_scan_def scan_loop_append split: if_splits prod.splits)
next
  case (7 d f p used f' q)
  show ?case
  proof (cases "d = LK_DIR_SEND")
    case True
    then show ?thesis
      using 7 scan_loop_shift [of _ q "length p"]
      by (auto simp: pg_resync_scan_def scan_loop_append split: if_splits prod.splits)
  next
    case False
    then show ?thesis
      using 7 by (auto simp: pg_resync_scan_def)
  qed
next
  case (8 ib d c r p ts)
  then show ?case
    by (auto simp: pg_intercept_bytes_def reply_due_def)
qed (auto simp: pg_parse_hdr_def pg_pre_emit_buf dest: pg_pre_emit_flags)


section \<open>Encoded messages\<close>

text \<open>A typed protocol message on the wire.\<close>

definition pg_encode :: "u8 \<times> bytes \<Rightarrow> bytes" where
  "pg_encode m = (case m of (ty, body) \<Rightarrow> ty # put_be32 (of_nat (length body + 4)) @ body)"

definition pg_fits :: "u8 \<times> bytes \<Rightarrow> bool" where
  "pg_fits m \<longleftrightarrow> length (snd m) + 4 \<le> 2 ^ 30"

definition pg_expect :: "u64 \<Rightarrow> u8 \<times> bytes \<Rightarrow> lk_msg" where
  "pg_expect ts m = (case m of (ty, body) \<Rightarrow>
     \<lparr>m_ts_ns = ts, m_type = ty, m_flags = (if LK_MSG_BODY_MAX < length body then LK_MSG_BODY_TRUNC else 0),
      m_len = length body + 4, m_body = take LK_MSG_BODY_MAX body\<rparr>)"

text \<open>A sink that keeps the list of the messages it was given.\<close>

definition rec_sink :: "lk_msg list \<Rightarrow> (lk_msg list, 'ps, 'fs) lk_msg_sink" where
  "rec_sink h = \<lparr>sk_ctx = h, sk_on_msg = Some (\<lambda>h c d m. (h @ [m], c)), sk_on_conn_open = None,
     sk_on_conn_close = None, sk_on_resync = None\<rparr>"

lemma rec_sink_plain: "sink_plain (rec_sink h)"
  by (simp add: sink_plain_def sink_ok_def rec_sink_def)

text \<open>Between two messages, past the start-up phase.\<close>

definition at_boundary :: "lk_dir \<Rightarrow> lk_frame \<Rightarrow> bool" where
  "at_boundary d f \<longleftrightarrow> fr_st f = LK_FR_HEADER \<and> fr_hdr f = [] \<and> fr_buf f = None \<and> \<not> fr_msg_cont f
     \<and> \<not> fr_prefix_closed f \<and> \<not> fr_after_resync f \<and> \<not> in_startup f d"

definition body_kept :: "u8 \<times> bytes \<Rightarrow> nat" where
  "body_kept m = min (length (snd m)) LK_MSG_BODY_MAX"

lemma body_kept_le: "body_kept m \<le> length (snd m)" "body_kept m \<le> LK_MSG_BODY_MAX"
  by (simp_all add: body_kept_def)

lemma body_kept_cut: "body_kept m < length (snd m) \<longleftrightarrow> LK_MSG_BODY_MAX < length (snd m)"
  by (auto simp: body_kept_def)

definition parsed_frame :: "lk_frame \<Rightarrow> u64 \<Rightarrow> u8 \<times> bytes \<Rightarrow> lk_frame" where
  "parsed_frame f ts m = f\<lparr>fr_msg_ts := ts, fr_hdr := take 5 (pg_encode m), fr_msg_type := fst m,
     fr_msg_len := length (snd m) + 4, fr_body_len := length (snd m), fr_body_total := length (snd m)\<rparr>"

definition closed_frame :: "lk_frame \<Rightarrow> u64 \<Rightarrow> u8 \<times> bytes \<Rightarrow> lk_frame" where
  "closed_frame f ts m = (parsed_frame f ts m)\<lparr>fr_buf := None, fr_hdr := [], fr_body_len := 0,
     fr_msg_cont := False, fr_prefix_closed := False, fr_st := LK_FR_HEADER\<rparr>"

text \<open>The direction after \<open>j\<close> bytes of message \<open>m\<close>, whose first byte had timestamp \<open>ts\<close>.\<close>

definition frame_at :: "lk_frame \<Rightarrow> u64 \<Rightarrow> u8 \<times> bytes \<Rightarrow> nat \<Rightarrow> lk_frame" where
  "frame_at f ts m j =
     (if j = 0 then f
      else if j < 5 then f\<lparr>fr_msg_ts := ts, fr_hdr := take j (pg_encode m)\<rparr>
      else if j < 5 + body_kept m
      then (parsed_frame f ts m)\<lparr>fr_st := LK_FR_BODY, fr_buf := (if j = 5 then None else Some (take (j - 5) (snd m)))\<rparr>
      else if j < 5 + length (snd m)
      then (closed_frame f ts m)\<lparr>fr_st := LK_FR_SKIP, fr_skip_left := 5 + length (snd m) - j\<rparr>
      else if LK_MSG_BODY_MAX < length (snd m) then (closed_frame f ts m)\<lparr>fr_skip_left := 0\<rparr>
      else closed_frame f ts m)"

definition msgs_at :: "u64 \<Rightarrow> u8 \<times> bytes \<Rightarrow> nat \<Rightarrow> lk_msg list" where
  "msgs_at ts m j = (if 5 + body_kept m \<le> j then [pg_expect ts m] else [])"

lemma length_pg_encode [simp]: "length (pg_encode m) = 5 + length (snd m)"
  by (cases m) (simp add: pg_encode_def)

lemma pg_encode_Nil [simp]: "pg_encode m \<noteq> []"
  by (cases m) (simp add: pg_encode_def)

lemma pg_encode_nth: "5 + k < length (pg_encode m) \<Longrightarrow> pg_encode m ! (5 + k) = snd m ! k"
  by (cases m) (simp add: pg_encode_def nth_append)

lemma pg_encode_len: "pg_fits m \<Longrightarrow> unat (be32 (drop 1 (take 5 (pg_encode m)))) = length (snd m) + 4"
proof (cases m)
  case (Pair ty body)
  assume "pg_fits m"
  then have "length body + 4 < 2 ^ LENGTH(32)"
    by (simp add: pg_fits_def Pair)
  then have "unat (of_nat (length body + 4) :: u32) = length body + 4"
    by (simp only: unat_of_nat mod_less)
  moreover have "be32 (drop 1 (take 5 (pg_encode m))) = of_nat (length (snd m) + 4)"
    using be32_put [of "of_nat (length body + 4)" "[]"] by (simp add: Pair pg_encode_def)
  ultimately show ?thesis by (simp only: Pair snd_conv)
qed

lemma pg_parse_encoded:
  assumes "pg_fits m" and "\<not> in_startup f d" and "fr_hdr g = take 5 (pg_encode m)" and "fr_startup_done g = fr_startup_done f"
  shows "pg_parse_hdr c d g = (True, g\<lparr>fr_msg_type := fst m, fr_msg_len := length (snd m) + 4,
     fr_body_len := length (snd m), fr_body_total := length (snd m)\<rparr>)"
proof -
  define len where "len = be32 (drop 1 (fr_hdr g))"
  have u: "unat len = length (snd m) + 4"
    using pg_encode_len [OF assms(1)] by (simp add: len_def assms(3))
  have "unat (2 ^ 30 :: u32) = 2 ^ 30"
    by simp
  then have ok: "\<not> len < 4" "\<not> LK_PG_MSG_LEN_MAX < len" "unat (len - 4) = length (snd m)"
    using u assms(1) unat_sub [of 4 len]
    by (auto simp: word_less_nat_alt word_le_nat_alt LK_PG_MSG_LEN_MAX_def pg_fits_def)
  have ty: "fr_hdr g ! 0 = fst m"
    by (cases m) (simp add: assms(3) pg_encode_def)
  have "in_startup g d = False"
    using assms(2,4) by (simp add: in_startup_def)
  then show ?thesis
    unfolding pg_parse_hdr_def Let_def by (simp only: if_False len_def [symmetric] ok u ty simp_thms)
qed

section \<open>One byte at a time\<close>

lemma emit_rec:
  assumes "r_sink r = rec_sink h" and "\<not> in_startup (cn_frame c d) d" and "\<not> fr_after_resync (cn_frame c d)"
  shows "\<exists>r'. emit lk_proto_pg_ops r c d body = (r', c) \<and> bad r' = bad r \<and>
     r_sink r' = rec_sink (h @ [\<lparr>m_ts_ns = fr_msg_ts (cn_frame c d), m_type = fr_msg_type (cn_frame c d),
         m_flags = (if length body < fr_body_total (cn_frame c d) then LK_MSG_BODY_TRUNC else 0),
         m_len = fr_msg_len (cn_frame c d), m_body = body\<rparr>])"
  using assms
  by (simp add: emit_def pg_pre_emit_def stamp_resync_def Let_def call_on_msg_def rec_sink_def upd_st_def)

lemma close_rec:
  assumes "r_sink r = rec_sink h" and "\<not> in_startup (cn_frame c d) d" and "\<not> fr_after_resync (cn_frame c d)"
    and "m = \<lparr>m_ts_ns = fr_msg_ts (cn_frame c d), m_type = fr_msg_type (cn_frame c d),
         m_flags = (if length body < fr_body_total (cn_frame c d) then LK_MSG_BODY_TRUNC else 0),
         m_len = fr_msg_len (cn_frame c d), m_body = body\<rparr>"
  shows "\<exists>r'. close_msg lk_proto_pg_ops d (cn_flags c) t r c body i
     = Next r' (upd_frame d (t ((cn_frame c d)\<lparr>fr_buf := None, fr_hdr := [], fr_body_len := 0,
         fr_msg_cont := False, fr_prefix_closed := False, fr_st := LK_FR_HEADER\<rparr>)) c) i
     \<and> r_sink r' = rec_sink (h @ [m]) \<and> bad r' = bad r"
proof -
  obtain r1 where e: "emit lk_proto_pg_ops r c d body = (r1, c)" "bad r1 = bad r" "r_sink r1 = rec_sink (h @ [m])"
    using emit_rec [OF assms(1-3), of body] assms(4) by metis
  have wb: "went_blind r' (upd_frame d f c) (cn_flags c) = (False, r')" for r' :: "(lk_msg list, 'a, 'b) lk_reasm" and f
    by (rule went_blind_calm) (simp add: blind_bits_def)
  show ?thesis
    using e by (simp add: close_msg_def msg_reset_def after_emit_def wb buf_put_def split: option.split)
qed

text \<open>A one-byte chunk is one turn of the loop whenever that turn uses the byte up.\<close>

lemma loop_one:
  "bytes_step ops d ef ts r c [b] = Return r' c' \<Longrightarrow> bytes_loop ops d ef ts r c [b] = Some (r', c')"
  "bytes_step ops d ef ts r c [b] = Next r' c' [] \<Longrightarrow> bytes_loop ops d ef ts r c [b] = Some (r', c')"
  by (simp_all add: bytes_loop.simps)

lemma byte_header_short:
  assumes "at_boundary d f" and "cn_frame c d = frame_at f ts m j" and "j < 4" and "j = 0 \<Longrightarrow> t = ts"
  shows "bytes_loop lk_proto_pg_ops d ef t r c [pg_encode m ! j] = Some (r, upd_frame d (frame_at f ts m (Suc j)) c)"
proof -
  let ?f = "frame_at f ts m j"
  have f: "fr_st ?f = LK_FR_HEADER" "fr_hdr ?f = take j (pg_encode m)" "\<not> in_startup ?f d" "\<not> fr_msg_cont ?f"
    using assms(1,3) by (auto simp: at_boundary_def frame_at_def in_startup_def)
  have tk: "take (Suc j) (pg_encode m) = take j (pg_encode m) @ [pg_encode m ! j]"
    using assms(3) by (intro take_Suc_conv_app_nth) simp
  have fr: "(pg_stream.stamped t ?f)\<lparr>fr_hdr := take (Suc j) (pg_encode m)\<rparr> = frame_at f ts m (Suc j)"
    using assms by (auto simp: pg_stream.stamped_def frame_at_def at_boundary_def)
  have "bytes_step lk_proto_pg_ops d ef t r c [pg_encode m ! j] = Return r (upd_frame d (frame_at f ts m (Suc j)) c)"
    using f assms(3) fr by (simp add: pg_stream.bytes_step_header assms(2) pg_hdr_size_def Let_def tk)
  then show ?thesis by (rule loop_one)
qed

lemma byte_header_done:
  assumes bd: "at_boundary d f" and c: "cn_frame c d = frame_at f ts m 4" and fits: "pg_fits m"
    and r: "r_sink r = rec_sink (h @ msgs_at ts m 4)"
  shows "\<exists>r'. bytes_loop lk_proto_pg_ops d (cn_flags c) t r c [pg_encode m ! 4] = Some (r', upd_frame d (frame_at f ts m 5) c)
     \<and> r_sink r' = rec_sink (h @ msgs_at ts m 5) \<and> bad r' = bad r"
proof -
  let ?f = "frame_at f ts m 4"
  have f: "fr_st ?f = LK_FR_HEADER" "fr_hdr ?f = take 4 (pg_encode m)" "\<not> in_startup ?f d" "\<not> fr_msg_cont ?f"
    using bd by (auto simp: at_boundary_def frame_at_def in_startup_def)
  have tk: "take 5 (pg_encode m) = take 4 (pg_encode m) @ [pg_encode m ! 4]"
    using take_Suc_conv_app_nth [of 4 "pg_encode m"] by simp
  have h: "r_sink r = rec_sink h"
    using r by (simp add: msgs_at_def)
  define g where "g = ?f\<lparr>fr_hdr := take 5 (pg_encode m)\<rparr>"
  have st: "pg_stream.stamped t ?f = ?f"
    using f(2) by (simp add: pg_stream.stamped_def)
  have ph: "pg_parse_hdr c d g = (True, parsed_frame f ts m)"
    using pg_parse_encoded [OF fits f(3), of g c] by (simp add: g_def parsed_frame_def frame_at_def)
  have step: "bytes_step lk_proto_pg_ops d (cn_flags c) t r c [pg_encode m ! 4]
      = pg_stream.header_done d (cn_flags c) r c g []"
    using f st by (simp add: pg_stream.bytes_step_header c pg_hdr_size_def Let_def tk g_def)
  show ?thesis
  proof (cases "snd m = []")
    case True
    let ?p = "parsed_frame f ts m"
    have p: "fr_buf_bytes ?p = []" "fr_body_len ?p = 0" "\<not> in_startup ?p d" "\<not> fr_after_resync ?p"
      using bd True by (simp_all add: parsed_frame_def at_boundary_def fr_buf_bytes_def in_startup_def)
    have m: "pg_expect ts m = \<lparr>m_ts_ns = fr_msg_ts ?p, m_type = fr_msg_type ?p,
         m_flags = (if length [] < fr_body_total ?p then LK_MSG_BODY_TRUNC else 0), m_len = fr_msg_len ?p, m_body = []\<rparr>"
      using True by (cases m) (simp add: pg_expect_def parsed_frame_def)
    have "body_kept m = 0"
      using True by (simp add: body_kept_def)
    then show ?thesis
      using close_rec [OF h, of "upd_frame d ?p c" d "pg_expect ts m" "[]" "\<lambda>f. f" "[]"] p m True
      by (auto simp: step pg_stream.header_done_def ph msgs_at_def frame_at_def closed_frame_def
          intro!: loop_one(2) exI)
  next
    case False
    have kept: "0 < body_kept m"
      using False by (simp add: body_kept_def)
    have "(parsed_frame f ts m)\<lparr>fr_st := LK_FR_BODY\<rparr> = frame_at f ts m 5"
      using kept bd by (simp add: frame_at_def parsed_frame_def at_boundary_def)
    then show ?thesis
      using False h kept by (intro exI [of _ r])
        (auto simp: step pg_stream.header_done_def ph msgs_at_def parsed_frame_def [of f ts m] intro!: loop_one(2))
  qed
qed

lemma byte_body:
  assumes bd: "at_boundary d f" and c: "cn_frame c d = frame_at f ts m j" and j: "5 \<le> j" "j < 5 + body_kept m"
    and r: "r_sink r = rec_sink (h @ msgs_at ts m j)" and mem: "mem_ok r"
  shows "\<exists>r'. bytes_loop lk_proto_pg_ops d (cn_flags c) t r c [pg_encode m ! j] = Some (r', upd_frame d (frame_at f ts m (Suc j)) c)
     \<and> r_sink r' = rec_sink (h @ msgs_at ts m (Suc j)) \<and> bad r' = bad r"
proof -
  define k where "k = j - 5"
  have k: "j = 5 + k" "k < length (snd m)" "k < LK_MSG_BODY_MAX"
    using j body_kept_le [of m] by (auto simp: k_def)
  let ?b = "pg_encode m ! j" and ?f = "frame_at f ts m j"
  have b: "?b = snd m ! k"
    using k pg_encode_nth [of k m] by simp
  have tk: "take (Suc k) (snd m) = take k (snd m) @ [?b]"
    using k(2) b by (simp add: take_Suc_conv_app_nth)
  have f: "fr_st ?f = LK_FR_BODY" "fr_buf_bytes ?f = take k (snd m)" "fr_buf_len ?f = k"
      "\<not> fr_prefix_closed ?f" "\<not> fr_msg_cont ?f" "body_target ?f = body_kept m" "fr_body_len ?f = length (snd m)"
    using j k bd by (auto simp: frame_at_def parsed_frame_def at_boundary_def fr_buf_bytes_def fr_buf_len_def body_target_def body_kept_def)
  have h: "r_sink r = rec_sink h"
    using r j by (simp add: msgs_at_def)
  have step: "bytes_step lk_proto_pg_ops d (cn_flags c) t r c [?b] = body_step lk_proto_pg_ops d (cn_flags c) r c [?b]"
    by (simp add: bytes_step_def c f(1))
  show ?thesis
  proof (cases "Suc k < body_kept m")
    case True
    have fr: "?f\<lparr>fr_buf := Some (take (Suc k) (snd m))\<rparr> = frame_at f ts m (Suc j)"
      using True k by (simp add: frame_at_def parsed_frame_def)
    obtain r1 f1 where a: "buf_acquire r ?f = (r1, f1)" by fastforce
    have f1: "f1 = (if fr_buf ?f = None then ?f\<lparr>fr_buf := Some []\<rparr> else ?f)" "view r1 = view r"
      using buf_acquire_view [OF mem, of ?f] a by simp_all
    have fb: "fr_buf_bytes f1 = take k (snd m)" "fr_buf f1 \<noteq> None"
        "f1\<lparr>fr_buf := Some (take (Suc k) (snd m))\<rparr> = frame_at f ts m (Suc j)"
      using f(2) fr by (auto simp: f1(1) fr_buf_bytes_def)
    have "Suc 0 < body_kept m - k"
      using True by simp
    then have "body_step lk_proto_pg_ops d (cn_flags c) r c [?b] = Return r1 (upd_frame d (frame_at f ts m (Suc j)) c)"
      using f fb tk by (simp add: body_step_def c Let_def a)
    moreover have "msgs_at ts m (Suc j) = []"
      using True k(1) by (simp add: msgs_at_def)
    ultimately show ?thesis
      using h f1(2) step by (intro exI [of _ r1]) (simp add: view_def loop_one(1))
  next
    case False
    then have last: "Suc k = body_kept m" using j k(1) by simp
    then have kept: "take (Suc k) (snd m) = take LK_MSG_BODY_MAX (snd m)"
      by (cases "length (snd m) \<le> LK_MSG_BODY_MAX") (simp_all add: body_kept_def)
    let ?t = "\<lambda>f. if 0 < length (snd m) - body_kept m then f\<lparr>fr_st := LK_FR_SKIP, fr_skip_left := length (snd m) - body_kept m\<rparr> else f"
    have "body_step lk_proto_pg_ops d (cn_flags c) r c [?b] = body_emit lk_proto_pg_ops d (cn_flags c) r c ?f [?b] 1 (length (snd m) - body_kept m)"
      using f by (simp add: body_step_def c Let_def last [symmetric])
    also have "\<dots> = close_msg lk_proto_pg_ops d (cn_flags c) ?t r c (take LK_MSG_BODY_MAX (snd m)) []"
      using tk kept f(2) upd_frame_simps(9) [of d c] by (simp add: body_emit_close c)
    finally have s1: "bytes_step lk_proto_pg_ops d (cn_flags c) t r c [?b] = close_msg lk_proto_pg_ops d (cn_flags c) ?t r c (take LK_MSG_BODY_MAX (snd m)) []"
      by (simp add: step)
    have s2: "?t (?f\<lparr>fr_buf := None, fr_hdr := [], fr_body_len := 0,
         fr_msg_cont := False, fr_prefix_closed := False, fr_st := LK_FR_HEADER\<rparr>) = frame_at f ts m (Suc j)"
      using last j k(1) body_kept_le [of m] body_kept_cut [of m]
      by (auto simp: frame_at_def parsed_frame_def closed_frame_def)
    have s3: "pg_expect ts m = \<lparr>m_ts_ns = fr_msg_ts ?f, m_type = fr_msg_type ?f,
         m_flags = (if length (take LK_MSG_BODY_MAX (snd m)) < fr_body_total ?f then LK_MSG_BODY_TRUNC else 0),
         m_len = fr_msg_len ?f, m_body = take LK_MSG_BODY_MAX (snd m)\<rparr>"
      using j by (cases m) (auto simp: frame_at_def parsed_frame_def pg_expect_def)
    have s4: "\<not> in_startup ?f d" "\<not> fr_after_resync ?f"
      using j bd by (simp_all add: frame_at_def parsed_frame_def at_boundary_def in_startup_def)
    obtain r' where cl: "close_msg lk_proto_pg_ops d (cn_flags c) ?t r c (take LK_MSG_BODY_MAX (snd m)) ([] :: bytes)
          = Next r' (upd_frame d (frame_at f ts m (Suc j)) c) []"
        "r_sink r' = rec_sink (h @ [pg_expect ts m])" "bad r' = bad r"
      using close_rec [OF h, of c d, unfolded c, OF s4 s3, of ?t "[] :: bytes", unfolded s2] by blast
    have "bytes_loop lk_proto_pg_ops d (cn_flags c) t r c [?b] = Some (r', upd_frame d (frame_at f ts m (Suc j)) c)"
      by (rule loop_one(2)) (simp only: s1 cl(1))
    moreover have "msgs_at ts m (Suc j) = [pg_expect ts m]"
      using last k(1) by (simp add: msgs_at_def)
    ultimately show ?thesis
      using cl by (intro exI [of _ r']) simp
  qed
qed

lemma byte_skip:
  assumes c: "cn_frame c d = frame_at f ts m j" and j: "5 + body_kept m \<le> j" "5 \<le> j" "j < 5 + length (snd m)"
  shows "bytes_loop lk_proto_pg_ops d ef t r c [b] = Some (r, upd_frame d (frame_at f ts m (Suc j)) c)"
proof -
  have cut: "LK_MSG_BODY_MAX < length (snd m)"
    using j body_kept_cut [of m] by linarith
  have f: "frame_at f ts m j = (closed_frame f ts m)\<lparr>fr_st := LK_FR_SKIP, fr_skip_left := 5 + length (snd m) - j\<rparr>"
    using j by (simp add: frame_at_def)
  have "skip_frame 1 (frame_at f ts m j) = frame_at f ts m (Suc j)"
  proof (cases "Suc j < 5 + length (snd m)")
    case True
    then show ?thesis
      using j by (simp add: f skip_frame_def Let_def) (simp add: frame_at_def)
  next
    case False
    then have "Suc j = 5 + length (snd m)" "snd m \<noteq> []" using j cut by auto
    then show ?thesis
      using j cut body_kept_le [of m] by (simp add: f skip_frame_def Let_def) (simp add: frame_at_def closed_frame_def)
  qed
  moreover have "fr_st (frame_at f ts m j) = LK_FR_SKIP" "min (fr_skip_left (frame_at f ts m j)) 1 = 1"
    using j by (simp_all add: f)
  ultimately show ?thesis
    by (intro loop_one(2)) (simp add: bytes_step_def c skip_step_def Let_def)
qed

text \<open>Any byte of a message, wherever it falls.\<close>

lemma byte_any:
  assumes bd: "at_boundary d f" and c: "cn_frame c d = frame_at f ts m j" and j: "j < length (pg_encode m)"
    and fits: "pg_fits m" and r: "r_sink r = rec_sink (h @ msgs_at ts m j)" and mem: "mem_ok r"
    and t: "j = 0 \<Longrightarrow> t = ts"
  shows "\<exists>r'. bytes_loop lk_proto_pg_ops d (cn_flags c) t r c [pg_encode m ! j] = Some (r', upd_frame d (frame_at f ts m (Suc j)) c)
     \<and> r_sink r' = rec_sink (h @ msgs_at ts m (Suc j)) \<and> bad r' = bad r"
proof -
  consider "j < 4" | "j = 4" | "5 \<le> j" "j < 5 + body_kept m" | "5 + body_kept m \<le> j" "5 \<le> j"
    by linarith
  then show ?thesis
  proof cases
    case 1
    then show ?thesis
      using byte_header_short [OF bd c _ t] r by (intro exI [of _ r]) (simp add: msgs_at_def)
  next
    case 2
    then show ?thesis
      using byte_header_done [OF bd _ fits, of c ts r h t] c r by (simp add: numeral_eq_Suc)
  next
    case 3
    then show ?thesis using byte_body [OF bd c _ _ r mem] by blast
  next
    case 4
    then show ?thesis
      using byte_skip [OF c] j r by (intro exI [of _ r]) (simp add: msgs_at_def)
  qed
qed

section \<open>Whole messages\<close>

text \<open>The bytes of a message, each with a timestamp of its own.\<close>

definition timed :: "bytes \<Rightarrow> u64 list \<Rightarrow> (bytes \<times> u64) list" where
  "timed p tss = map2 (\<lambda>b t. ([b], t)) p tss"

lemma msgs_at_end: "msgs_at ts m (length (pg_encode m)) = [pg_expect ts m]"
  using body_kept_le [of m] by (simp add: msgs_at_def)

lemma timed_Cons: "timed (b # p) (t # tss) = ([b], t) # timed p tss"
  by (simp add: timed_def)

lemma message_feed:
  assumes tab: "pg_ops.registered tab" and inv: "pg_ops.framer_inv k r c" and mem: "mem_ok r"
    and r: "r_sink r = rec_sink (h @ msgs_at ts m j)" and rd: "d = LK_DIR_SEND \<Longrightarrow> \<not> reply_due c"
    and bd: "at_boundary d f" and c: "cn_frame c d = frame_at f ts m j" and fits: "pg_fits m"
    and len: "length tss + j \<le> length (pg_encode m)" and t: "j = 0 \<Longrightarrow> tss \<noteq> [] \<Longrightarrow> hd tss = ts"
  shows "\<exists>r'. feed tab d r c (timed (drop j (pg_encode m)) tss) = Some (r', upd_frame d (frame_at f ts m (length tss + j)) c)
     \<and> unbroken tab d r c (timed (drop j (pg_encode m)) tss)
     \<and> r_sink r' = rec_sink (h @ msgs_at ts m (length tss + j)) \<and> mem_ok r'
     \<and> pg_ops.framer_inv k r' (upd_frame d (frame_at f ts m (length tss + j)) c)"
  using inv mem r rd c len t
proof (induction tss arbitrary: j r c)
  case Nil
  have "upd_frame d (frame_at f ts m j) c = c"
    using upd_frame_simps(9) [of d c] by (simp only: Nil.prems(5))
  then show ?case
    using Nil.prems by (intro exI [of _ r]) (simp add: timed_def)
next
  case (Cons t tss)
  let ?b = "pg_encode m ! j" and ?c' = "upd_frame d (frame_at f ts m (Suc j)) c"
  have j: "j < length (pg_encode m)" using Cons.prems(6) by simp
  have dr: "timed (drop j (pg_encode m)) (t # tss) = ([?b], t) # timed (drop (Suc j) (pg_encode m)) tss"
    by (subst Cons_nth_drop_Suc [OF j, symmetric]) (rule timed_Cons)
  obtain r' where l: "bytes_loop lk_proto_pg_ops d (cn_flags c) t r c [?b] = Some (r', ?c')"
      "r_sink r' = rec_sink (h @ msgs_at ts m (Suc j))" "bad r' = bad r"
    using byte_any [OF bd Cons.prems(5) j fits Cons.prems(3,2), of t] Cons.prems(7) by auto
  have q: "pg_stream.quiet d r c"
    using Cons.prems(2-4) rec_sink_plain by (simp add: pg_stream.quiet_def)
  have fb: "lk_frame_bytes tab r c d [?b] t = Some (r', ?c')"
    using pg_stream.lk_frame_bytes_quiet [OF Cons.prems(1) q tab, of "[?b]" t] l(1) by simp
  have inv': "pg_ops.framer_inv k r' ?c'"
    using pg_ops.bytes_loop_total [OF Cons.prems(1), of d "cn_flags c" t "[?b]"] l(1) by simp
  have q': "pg_stream.quiet d r' ?c'"
    using pg_stream.loop_quiet(1) [OF Cons.prems(1) q l(1,3)] .
  have mem': "mem_ok r'" and rd': "d = LK_DIR_SEND \<Longrightarrow> \<not> reply_due ?c'"
    using q' unfolding pg_stream.quiet_def by blast+
  have "length tss + Suc j \<le> length (pg_encode m)" "cn_frame ?c' d = frame_at f ts m (Suc j)"
    using Cons.prems(6) by simp_all
  then show ?case
    using Cons.IH [OF inv' mem' l(2) rd'] fb l(3) by (simp add: dr)
qed

lemma boundary_after:
  assumes "at_boundary d f"
  shows "at_boundary d (frame_at f ts m (length (pg_encode m)))"
  using assms body_kept_le [of m]
  by (simp add: at_boundary_def frame_at_def closed_frame_def parsed_frame_def in_startup_def)

text \<open>What the sink should receive: each message with the timestamp of its first byte.\<close>

fun pg_delivered :: "(bytes \<times> u64) list \<Rightarrow> (u8 \<times> bytes) list \<Rightarrow> lk_msg list" where
  "pg_delivered tb [] = []"
| "pg_delivered tb (m # ms) = pg_expect (snd (hd tb)) m # pg_delivered (drop (length (pg_encode m)) tb) ms"

lemma timed_singletons: "\<forall>x \<in> set xs. \<exists>b. fst x = [b] \<Longrightarrow> xs = timed (concat (map fst xs)) (map snd xs)"
  by (induction xs) (auto simp: timed_def)

lemma bytewise_timed: "bytewise ps = timed (concat (map fst ps)) (map snd (bytewise ps))"
proof -
  have "concat (map fst (one_by_one p t)) = p" for p t
    by (induction p) (simp_all add: one_by_one_def)
  then have "concat (map fst (bytewise ps)) = concat (map fst ps)"
    by (induction ps) (auto simp: bytewise_def)
  moreover have "\<forall>x \<in> set (bytewise ps). \<exists>b. fst x = [b]"
    by (auto simp: bytewise_def one_by_one_def)
  ultimately show ?thesis
    using timed_singletons [of "bytewise ps"] by simp
qed

lemma length_bytewise: "length (bytewise ps) = length (concat (map fst ps))"
  by (induction ps) (auto simp: bytewise_def one_by_one_def)

lemma messages_feed:
  assumes tab: "pg_ops.registered tab" and "pg_ops.framer_inv k r c" and "mem_ok r"
    and "r_sink r = rec_sink h" and "d = LK_DIR_SEND \<Longrightarrow> \<not> reply_due c"
    and "at_boundary d (cn_frame c d)" and "\<forall>m \<in> set ms. pg_fits m"
    and "length tss = length (concat (map pg_encode ms))"
  shows "\<exists>r' c'. feed tab d r c (timed (concat (map pg_encode ms)) tss) = Some (r', c')
     \<and> unbroken tab d r c (timed (concat (map pg_encode ms)) tss)
     \<and> r_sink r' = rec_sink (h @ pg_delivered (timed (concat (map pg_encode ms)) tss) ms)
     \<and> at_boundary d (cn_frame c' d)"
  using assms(2-)
proof (induction ms arbitrary: r c h tss)
  case Nil
  then show ?case by (simp add: timed_def)
next
  case (Cons m ms)
  let ?n = "length (pg_encode m)" and ?rest = "concat (map pg_encode ms)"
  define t1 where "t1 = take ?n tss"
  define t2 where "t2 = drop ?n tss"
  define ts where "ts = hd tss"
  have len: "length t1 = ?n" "length t2 = length ?rest" "tss = t1 @ t2" "t1 \<noteq> []"
    using Cons.prems(7) by (auto simp: t1_def t2_def)
  have split: "timed (concat (map pg_encode (m # ms))) tss = timed (pg_encode m) t1 @ timed ?rest t2"
    using len(1) by (simp add: timed_def len(3))
  let ?c' = "upd_frame d (frame_at (cn_frame c d) ts m ?n) c"
  have start: "r_sink r = rec_sink (h @ msgs_at ts m 0)" "cn_frame c d = frame_at (cn_frame c d) ts m 0"
      "pg_fits m" "length t1 + 0 \<le> ?n" "0 = (0 :: nat) \<Longrightarrow> t1 \<noteq> [] \<Longrightarrow> hd t1 = ts"
    using Cons.prems(3,6) len by (simp_all add: msgs_at_def frame_at_def ts_def)
  obtain r' where f1: "feed tab d r c (timed (pg_encode m) t1) = Some (r', ?c')"
      "unbroken tab d r c (timed (pg_encode m) t1)" "r_sink r' = rec_sink (h @ [pg_expect ts m])" "mem_ok r'"
      "pg_ops.framer_inv k r' ?c'"
    using message_feed [OF tab Cons.prems(1,2) start(1) Cons.prems(4,5) start(2-5)] msgs_at_end [of ts m] len(1)
    unfolding drop_0 add_0_right by metis
  have rd: "d = LK_DIR_SEND \<Longrightarrow> \<not> reply_due ?c'"
    using Cons.prems(4) by (simp add: reply_due_def)
  have bd: "at_boundary d (cn_frame ?c' d)"
    using boundary_after [OF Cons.prems(5)] by simp
  obtain r2 c2 where f2: "feed tab d r' ?c' (timed ?rest t2) = Some (r2, c2)" "unbroken tab d r' ?c' (timed ?rest t2)"
      "r_sink r2 = rec_sink ((h @ [pg_expect ts m]) @ pg_delivered (timed ?rest t2) ms)" "at_boundary d (cn_frame c2 d)"
    using Cons.IH [OF f1(5,4,3) rd bd _ len(2)] Cons.prems(6) by auto
  have del: "pg_delivered (timed (pg_encode m) t1 @ timed ?rest t2) (m # ms) = pg_expect ts m # pg_delivered (timed ?rest t2) ms"
    using len(1,4) by (cases "pg_encode m"; cases t1) (simp_all add: timed_def ts_def len(3))
  show ?case
    unfolding split del using f1 f2 by (simp add: feed_append unbroken_append)
qed

text \<open>C4. Framing inverts the wire encoding: however a sequence of well-formed PostgreSQL messages is
  cut into captured chunks, the sink receives exactly those messages, in order, each with its type,
  wire length, the first \<open>LK_MSG_BODY_MAX\<close> bytes of its body (flagged when that is not all of it) and
  the timestamp of its first byte, and the direction ends between two messages.\<close>

theorem pg_framing_roundtrip:
  assumes "tab LK_PROTO_PG = lk_proto_pg_ops" and "pg_ops.framer_inv k r c" and "heap_never_fails (r_heap r)"
    and "r_sink r = rec_sink h" and "d = LK_DIR_SEND \<Longrightarrow> \<not> reply_due c"
    and "at_boundary d (cn_frame c d)" and "\<forall>m \<in> set ms. pg_fits m"
    and "concat (map fst ps) = concat (map pg_encode ms)"
  shows "\<exists>r' c'. feed tab d r c ps = Some (r', c')
     \<and> sk_ctx (r_sink r') = h @ pg_delivered (bytewise ps) ms \<and> at_boundary d (cn_frame c' d)"
proof -
  have reg: "pg_ops.registered tab"
    using assms(1) by (simp add: pg_ops.registered_def)
  have bw: "bytewise ps = timed (concat (map pg_encode ms)) (map snd (bytewise ps))"
    using bytewise_timed [of ps] assms(8) by simp
  have len: "length (map snd (bytewise ps)) = length (concat (map pg_encode ms))"
    using assms(8) by (simp add: length_bytewise)
  obtain r1 c1 where f: "feed tab d r c (bytewise ps) = Some (r1, c1)" "unbroken tab d r c (bytewise ps)"
      "r_sink r1 = rec_sink (h @ pg_delivered (bytewise ps) ms)" "at_boundary d (cn_frame c1 d)"
    using messages_feed [OF reg assms(2-7) len] bw by auto
  have q: "pg_stream.quiet d r c"
    using assms(3-5) rec_sink_plain by (simp add: pg_stream.quiet_def)
  have "map_option (map_prod view id) (feed tab d r c ps) = Some (view r1, c1)"
    using pg_stream.feed_bytewise [OF assms(2) q reg f(2) assms(2) q refl] f(1) by simp
  then show ?thesis
    using f(3,4) by (auto simp: view_def rec_sink_def)
qed

section \<open>A hole inside a body\<close>

lemma conn_ops_pinned:
  assumes "cn_ops c = Some i"
  shows "conn_ops tab c = (tab i, c)"
proof -
  have "c\<lparr>cn_ops := Some i\<rparr> = c" using assms by simp
  then show ?thesis using assms by (simp add: conn_ops_def lk_conn_proto_def)
qed

lemma hole_one: "hole_step ops d ef r c n = Next r' c' 0 \<Longrightarrow> 0 < n \<Longrightarrow> hole_loop ops d ef r c n = Some (r', c')"
  by (simp add: hole_loop.simps)

lemma timed_take: "timed (take (length tss) p) tss = timed p tss"
proof (induction tss arbitrary: p)
  case (Cons t tss)
  then show ?case by (cases p) (simp_all add: timed_def)
qed (simp add: timed_def)

lemma hole_rest:
  assumes bd: "at_boundary d f" and c: "cn_frame c d = frame_at f ts m j" and j: "5 \<le> j" "j < length (pg_encode m)"
    and r: "r_sink r = rec_sink (h @ msgs_at ts m j)"
  shows "\<exists>r' c'. hole_loop lk_proto_pg_ops d (cn_flags c) r c (length (pg_encode m) - j) = Some (r', c')
     \<and> at_boundary d (cn_frame c' d)
     \<and> r_sink r' = rec_sink (h @ [(pg_expect ts m)\<lparr>m_flags := LK_MSG_BODY_TRUNC,
          m_body := take (min (j - 5) LK_MSG_BODY_MAX) (snd m)\<rparr>])"
proof (cases "j < 5 + body_kept m")
  case True
  let ?f = "frame_at f ts m j" and ?n = "length (pg_encode m) - j" and ?body = "take (j - 5) (snd m)"
  have f: "fr_st ?f = LK_FR_BODY" "fr_buf_bytes ?f = ?body" "fr_buf_len ?f = j - 5"
      "\<not> fr_prefix_closed ?f" "\<not> fr_msg_cont ?f" "fr_body_len ?f = length (snd m)" "\<not> in_startup ?f d" "\<not> fr_after_resync ?f"
    using j True bd by (auto simp: frame_at_def parsed_frame_def at_boundary_def fr_buf_bytes_def fr_buf_len_def in_startup_def)
  have h: "r_sink r = rec_sink h"
    using r True by (simp add: msgs_at_def)
  have step: "hole_step lk_proto_pg_ops d (cn_flags c) r c ?n = close_msg lk_proto_pg_ops d (cn_flags c) (\<lambda>f. f) r c ?body (0 :: nat)"
    using f j by (simp add: hole_step_def hole_body_step_def c close_msg_def Let_def)
  have msg: "(pg_expect ts m)\<lparr>m_flags := LK_MSG_BODY_TRUNC, m_body := take (min (j - 5) LK_MSG_BODY_MAX) (snd m)\<rparr>
      = \<lparr>m_ts_ns = fr_msg_ts ?f, m_type = fr_msg_type ?f,
         m_flags = (if length ?body < fr_body_total ?f then LK_MSG_BODY_TRUNC else 0), m_len = fr_msg_len ?f, m_body = ?body\<rparr>"
    using j True body_kept_le [of m]
    by (cases m) (auto simp: frame_at_def parsed_frame_def pg_expect_def min_absorb1)
  obtain r' where cl: "close_msg lk_proto_pg_ops d (cn_flags c) (\<lambda>f. f) r c ?body (0 :: nat)
        = Next r' (upd_frame d (?f\<lparr>fr_buf := None, fr_hdr := [], fr_body_len := 0,
         fr_msg_cont := False, fr_prefix_closed := False, fr_st := LK_FR_HEADER\<rparr>) c) 0"
      "r_sink r' = rec_sink (h @ [(pg_expect ts m)\<lparr>m_flags := LK_MSG_BODY_TRUNC,
          m_body := take (min (j - 5) LK_MSG_BODY_MAX) (snd m)\<rparr>])"
    using close_rec [OF h, of c d, unfolded c, OF f(7,8) msg, of "\<lambda>f. f" "0 :: nat"] by blast
  have "hole_loop lk_proto_pg_ops d (cn_flags c) r c ?n = Some (r', upd_frame d (?f\<lparr>fr_buf := None, fr_hdr := [],
      fr_body_len := 0, fr_msg_cont := False, fr_prefix_closed := False, fr_st := LK_FR_HEADER\<rparr>) c)"
    using j(2) by (intro hole_one) (simp_all only: step cl(1) zero_less_diff)
  then show ?thesis
    using cl(2) f(7,8) by (simp add: at_boundary_def in_startup_def)
next
  case False
  let ?f = "frame_at f ts m j" and ?n = "length (pg_encode m) - j"
  have cut: "LK_MSG_BODY_MAX < length (snd m)" "LK_MSG_BODY_MAX \<le> j - 5"
    using False j body_kept_cut [of m] by (simp_all add: body_kept_def split: if_splits)
  have f: "?f = (closed_frame f ts m)\<lparr>fr_st := LK_FR_SKIP, fr_skip_left := ?n\<rparr>"
    using False j by (simp add: frame_at_def)
  have "hole_step lk_proto_pg_ops d (cn_flags c) r c ?n = Next r (upd_frame d (skip_frame ?n ?f) c) 0"
    by (simp add: hole_step_def c f Let_def)
  then have "hole_loop lk_proto_pg_ops d (cn_flags c) r c ?n = Some (r, upd_frame d (skip_frame ?n ?f) c)"
    using j(2) by (intro hole_one) (simp_all only: zero_less_diff)
  moreover have "at_boundary d (skip_frame ?n ?f)"
    using bd by (simp add: f skip_frame_def at_boundary_def closed_frame_def parsed_frame_def in_startup_def)
  moreover have "pg_expect ts m = (pg_expect ts m)\<lparr>m_flags := LK_MSG_BODY_TRUNC,
      m_body := take (min (j - 5) LK_MSG_BODY_MAX) (snd m)\<rparr>"
    using cut by (cases m) (simp add: pg_expect_def min_absorb2)
  ultimately show ?thesis
    using r False by (simp add: msgs_at_def)
qed

text \<open>C5. Losing the rest of a message body does not lose synchronisation: after the header and any
  part of the body (in any chunks), a hole of exactly the missing size makes the framer deliver the
  captured prefix, flagged as truncated, and stand at the next message boundary.\<close>

theorem pg_hole_in_body:
  assumes "tab LK_PROTO_PG = lk_proto_pg_ops" and "pg_ops.framer_inv k r c" and "heap_never_fails (r_heap r)"
    and "r_sink r = rec_sink h" and "d = LK_DIR_SEND \<Longrightarrow> \<not> reply_due c"
    and "at_boundary d (cn_frame c d)" and "pg_fits m" and "5 \<le> j" and "j < length (pg_encode m)"
    and "concat (map fst ps) = take j (pg_encode m)"
  shows "\<exists>r1 c1 r2 c2. feed tab d r c ps = Some (r1, c1)
     \<and> lk_frame_hole tab r1 c1 d (length (pg_encode m) - j) = Some (r2, c2) \<and> at_boundary d (cn_frame c2 d)
     \<and> sk_ctx (r_sink r2) = h @ [(pg_expect (snd (hd (bytewise ps))) m)\<lparr>m_flags := LK_MSG_BODY_TRUNC,
          m_body := take (min (j - 5) LK_MSG_BODY_MAX) (snd m)\<rparr>]"
proof -
  let ?f = "cn_frame c d" and ?ts = "snd (hd (bytewise ps))" and ?tss = "map snd (bytewise ps)"
  have reg: "pg_ops.registered tab"
    using assms(1) by (simp add: pg_ops.registered_def)
  have len: "length ?tss = j"
    using assms(9) by (simp add: length_bytewise assms(10))
  have bw: "bytewise ps = timed (pg_encode m) ?tss"
    using bytewise_timed [of ps] timed_take [of ?tss "pg_encode m"] by (simp only: assms(10) len)
  have start: "r_sink r = rec_sink (h @ msgs_at ?ts m 0)" "?f = frame_at ?f ?ts m 0" "length ?tss + 0 \<le> length (pg_encode m)"
      "0 = (0 :: nat) \<Longrightarrow> ?tss \<noteq> [] \<Longrightarrow> hd ?tss = ?ts"
    using assms(4,9) len by (simp_all add: msgs_at_def frame_at_def hd_map)
  let ?c1 = "upd_frame d (frame_at ?f ?ts m j) c"
  obtain rb where f: "feed tab d r c (bytewise ps) = Some (rb, ?c1)" "unbroken tab d r c (bytewise ps)"
      "r_sink rb = rec_sink (h @ msgs_at ?ts m j)"
    using message_feed [OF reg assms(2,3) start(1) assms(5,6) start(2) assms(7) start(3,4)] bw len
    unfolding drop_0 add_0_right by metis
  have q: "pg_stream.quiet d r c"
    using assms(3-5) rec_sink_plain by (simp add: pg_stream.quiet_def)
  have "map_option (map_prod view id) (feed tab d r c ps) = Some (view rb, ?c1)"
    using pg_stream.feed_bytewise [OF assms(2) q reg f(2) assms(2) q refl] f(1) by simp
  then obtain r1 where r1: "feed tab d r c ps = Some (r1, ?c1)" "r_sink r1 = rec_sink (h @ msgs_at ?ts m j)"
    using f(3) by (auto simp: view_def)
  have c1: "cn_ops ?c1 = Some LK_PROTO_PG" "fr_st (cn_frame ?c1 d) \<noteq> LK_FR_DIRTY" "\<not> (d = LK_DIR_SEND \<and> reply_due ?c1)"
    using assms(2,5,6,8) by (auto simp: pg_ops.framer_inv_def reply_due_def frame_at_def parsed_frame_def closed_frame_def at_boundary_def)
  define n where "n = length (pg_encode m) - j"
  have "0 < n" using assms(9) by (simp add: n_def)
  then have hole: "lk_frame_hole tab r1 ?c1 d n = hole_loop lk_proto_pg_ops d (cn_flags ?c1) (count_hole n r1) ?c1 n"
    using c1 assms(1) by (auto simp: lk_frame_hole_def conn_ops_pinned Let_def pg_intercept_hole_def reply_due_def
        split: if_splits)
  have "cn_frame ?c1 d = frame_at ?f ?ts m j" "r_sink (count_hole n r1) = rec_sink (h @ msgs_at ?ts m j)"
    using r1(2) by (simp_all add: count_hole_def)
  then show ?thesis
    using hole_rest [OF assms(6) _ assms(8,9), of ?c1 ?ts "count_hole n r1" h] r1(1) hole
    by (auto simp: n_def [symmetric] rec_sink_def simp del: length_pg_encode)
qed

section \<open>Concrete runs\<close>

definition roomy_heap :: heap where
  "roomy_heap = \<lparr>hp_calls = 0, hp_ok = (\<lambda>_. True), hp_live = 0\<rparr>"

definition rec_start :: "(lk_msg list, unit, unit) lk_reasm" where
  "rec_start = lk_reasm_init (rec_sink []) roomy_heap"

definition pg_conn0 :: "(unit, unit) lk_conn" where
  "pg_conn0 = lk_conn_zero\<lparr>cn_ops := Some LK_PROTO_PG\<rparr>"

lemma rec_start_inv: "pg_ops.framer_inv 0 rec_start pg_conn0"
  using pg_fresh_inv [OF sink_plain_ok [OF rec_sink_plain], of lk_conn_zero roomy_heap "[]"]
  by (simp add: rec_start_def pg_conn0_def roomy_heap_def lk_conn_zero_def)

lemma rec_start_simps:
  "heap_never_fails (r_heap rec_start)" "r_sink rec_start = rec_sink []" "\<not> reply_due pg_conn0"
  "at_boundary LK_DIR_SEND (cn_frame pg_conn0 LK_DIR_SEND)"
  by (simp_all add: rec_start_def lk_reasm_init_def roomy_heap_def pg_conn0_def lk_conn_zero_def reply_due_def
      at_boundary_def lk_frame_zero_def in_startup_def)

lemma ready_encoded: "pg_encode (90, [73]) = [90, 0, 0, 0, 5, 73]"
  by (simp add: pg_encode_def put_be32_def)

theorem pg_framing_roundtrip_witness:
  "\<exists>r' c'. feed (\<lambda>_. lk_proto_pg_ops) LK_DIR_SEND rec_start pg_conn0 [([90, 0, 0], 1), ([0, 5], 2), ([73], 3)] = Some (r', c')
     \<and> sk_ctx (r_sink r') = [\<lparr>m_ts_ns = 1, m_type = 90, m_flags = 0, m_len = 5, m_body = [73]\<rparr>]
     \<and> at_boundary LK_DIR_SEND (cn_frame c' LK_DIR_SEND)"
  using pg_framing_roundtrip [of "\<lambda>_. lk_proto_pg_ops" 0 rec_start pg_conn0 "[]" LK_DIR_SEND "[(90, [73])]"
      "[([90, 0, 0], 1), ([0, 5], 2), ([73], 3)]"] rec_start_inv rec_start_simps
  by (simp add: ready_encoded pg_fits_def bytewise_def one_by_one_def pg_expect_def LK_MSG_BODY_MAX_def)


theorem pg_hole_in_body_witness:
  "\<exists>r1 c1 r2 c2. feed (\<lambda>_. lk_proto_pg_ops) LK_DIR_SEND rec_start pg_conn0 [([68, 0, 0, 0], 9), ([8, 1], 10)] = Some (r1, c1)
     \<and> lk_frame_hole (\<lambda>_. lk_proto_pg_ops) r1 c1 LK_DIR_SEND 3 = Some (r2, c2) \<and> at_boundary LK_DIR_SEND (cn_frame c2 LK_DIR_SEND)
     \<and> sk_ctx (r_sink r2) = [\<lparr>m_ts_ns = 9, m_type = 68, m_flags = LK_MSG_BODY_TRUNC, m_len = 8, m_body = [1]\<rparr>]"
proof -
  have "pg_encode (68, [1, 2, 3, 4]) = [68, 0, 0, 0, 8, 1, 2, 3, 4]"
    by (simp add: pg_encode_def put_be32_def)
  then show ?thesis
    using pg_hole_in_body [of "\<lambda>_. lk_proto_pg_ops" 0 rec_start pg_conn0 "[]" LK_DIR_SEND "(68, [1, 2, 3, 4])" 6
        "[([68, 0, 0, 0], 9), ([8, 1], 10)]"] rec_start_inv rec_start_simps
    by (simp add: pg_fits_def bytewise_def one_by_one_def pg_expect_def LK_MSG_BODY_MAX_def numeral_3_eq_3)
qed

end
