(* ===== verification/Proto_Types.thy ===== *)
theory Proto_Types
  imports Lk_Types
begin

text \<open>
  The up contract of a protocol handler (src/src/proto/proto.h): query observations, session labels,
  counters, and the handler object. The observation record holds the fields the database protocols
  fill in; the HTTP, S3 and Redis extensions hang off it by pointers that are NULL for them.

  The handler's sink is the list of calls it was given, in order: the callbacks take the connection
  as \<open>const\<close>, so a call is its arguments. A callback that is NULL is not called. The handler's
  allocations go through \<open>p_heap\<close>.
\<close>

section \<open>Observations\<close>

datatype lk_query_kind = LK_Q_SIMPLE | LK_Q_EXTENDED | LK_Q_FUNCTION | LK_Q_COPY_IN | LK_Q_COPY_OUT
  | LK_Q_CANCEL | LK_Q_REQUEST | LK_Q_COMMAND

abbreviation LK_QO_ERROR :: u16 where "LK_QO_ERROR \<equiv> 1"
abbreviation LK_QO_TEXT_TRUNC :: u16 where "LK_QO_TEXT_TRUNC \<equiv> 2"
abbreviation LK_QO_NO_TEXT :: u16 where "LK_QO_NO_TEXT \<equiv> 4"
abbreviation LK_QO_MULTI_STMT :: u16 where "LK_QO_MULTI_STMT \<equiv> 8"
abbreviation LK_QO_EMPTY :: u16 where "LK_QO_EMPTY \<equiv> 16"
abbreviation LK_QO_SUSPENDED :: u16 where "LK_QO_SUSPENDED \<equiv> 32"
abbreviation LK_QO_ABORTED :: u16 where "LK_QO_ABORTED \<equiv> 64"
abbreviation LK_QO_PIPELINED :: u16 where "LK_QO_PIPELINED \<equiv> 128"

text \<open>The fixed character arrays are C strings: the bytes before the terminator.\<close>

record lk_session =
  se_user :: bytes
  se_database :: bytes
  se_app :: bytes
  se_server_version :: bytes
  se_complete :: bool

definition lk_session_zero :: lk_session where
  "lk_session_zero = \<lparr>se_user = [], se_database = [], se_app = [], se_server_version = [], se_complete = False\<rparr>"

text \<open>The labels fit their arrays.\<close>

definition session_ok :: "lk_session \<Rightarrow> bool" where
  "session_ok s \<longleftrightarrow> length (se_user s) \<le> 63 \<and> length (se_database s) \<le> 63 \<and> length (se_app s) \<le> 63
     \<and> length (se_server_version s) \<le> 15"

record lk_query_obs =
  o_ts_start :: u64
  o_ts_first_row :: u64
  o_ts_complete :: u64
  o_ts_ready :: u64
  o_text :: "bytes option"
  o_rows :: u64
  o_bytes :: u64
  o_sqlstate :: bytes
  o_err_code :: u16
  o_kind :: lk_query_kind
  o_txn_status :: u8
  o_flags :: u16

datatype lk_out_call =
    OnQuery (oq_cookie: u64) (oq_session: lk_session) (oq_obs: lk_query_obs)
  | OnSession u64 lk_session
  | OnTxn u64 u64 u64 u8

section \<open>The handler object\<close>

record lk_proto_stats =
  ps_msgs :: nat
  ps_startup_msgs :: nat
  ps_resyncs :: nat
  ps_conns :: nat
  ps_queries :: nat
  ps_errors_sql :: nat
  ps_parse_errors :: nat
  ps_unknown_msgs :: nat
  ps_units_dropped_resync :: nat
  ps_units_dropped_close :: nat
  ps_units_dropped_overflow :: nat
  ps_prep_evictions :: nat
  ps_sessions :: nat
  ps_replication_conns :: nat
  ps_compressed_conns :: nat
  ps_by_type :: "lk_dir \<Rightarrow> u8 \<Rightarrow> nat"

definition lk_proto_stats_zero :: lk_proto_stats where
  "lk_proto_stats_zero = \<lparr>ps_msgs = 0, ps_startup_msgs = 0, ps_resyncs = 0, ps_conns = 0, ps_queries = 0,
     ps_errors_sql = 0, ps_parse_errors = 0, ps_unknown_msgs = 0, ps_units_dropped_resync = 0,
     ps_units_dropped_close = 0, ps_units_dropped_overflow = 0, ps_prep_evictions = 0, ps_sessions = 0,
     ps_replication_conns = 0, ps_compressed_conns = 0, ps_by_type = (\<lambda>_ _. 0)\<rparr>"

text \<open>\<open>p_has_query\<close>, \<open>p_has_session\<close>, \<open>p_has_txn\<close>: which callbacks of \<open>out\<close> are not NULL.\<close>

record lk_proto =
  p_has_query :: bool
  p_has_session :: bool
  p_has_txn :: bool
  p_calls :: "lk_out_call list"
  p_st :: lk_proto_stats
  p_heap :: heap

definition upd_pst :: "(lk_proto_stats \<Rightarrow> lk_proto_stats) \<Rightarrow> lk_proto \<Rightarrow> lk_proto" where
  "upd_pst g p = p\<lparr>p_st := g (p_st p)\<rparr>"

definition call_query :: "lk_proto \<Rightarrow> ('ps, 'fs) lk_conn \<Rightarrow> lk_session \<Rightarrow> lk_query_obs \<Rightarrow> lk_proto" where
  "call_query p c s q = (if p_has_query p then p\<lparr>p_calls := p_calls p @ [OnQuery (cn_cookie c) s q]\<rparr> else p)"

definition call_session :: "lk_proto \<Rightarrow> ('ps, 'fs) lk_conn \<Rightarrow> lk_session \<Rightarrow> lk_proto" where
  "call_session p c s = (if p_has_session p then p\<lparr>p_calls := p_calls p @ [OnSession (cn_cookie c) s]\<rparr> else p)"

definition call_txn :: "lk_proto \<Rightarrow> ('ps, 'fs) lk_conn \<Rightarrow> u64 \<Rightarrow> u64 \<Rightarrow> u8 \<Rightarrow> lk_proto" where
  "call_txn p c start end' status =
     (if p_has_txn p then p\<lparr>p_calls := p_calls p @ [OnTxn (cn_cookie c) start end' status]\<rparr> else p)"

lemma upd_pst_simps [simp]:
  "p_has_query (upd_pst g p) = p_has_query p" "p_has_session (upd_pst g p) = p_has_session p"
  "p_has_txn (upd_pst g p) = p_has_txn p" "p_calls (upd_pst g p) = p_calls p"
  "p_st (upd_pst g p) = g (p_st p)" "p_heap (upd_pst g p) = p_heap p"
  by (simp_all add: upd_pst_def)

lemma call_simps [simp]:
  "p_heap (call_query p c s q) = p_heap p" "p_st (call_query p c s q) = p_st p"
  "p_has_query (call_query p c s q) = p_has_query p" "p_has_txn (call_query p c s q) = p_has_txn p"
  "p_has_session (call_query p c s q) = p_has_session p"
  "p_heap (call_session p c s) = p_heap p" "p_st (call_session p c s) = p_st p"
  "p_has_query (call_session p c s) = p_has_query p" "p_has_txn (call_session p c s) = p_has_txn p"
  "p_has_session (call_session p c s) = p_has_session p"
  "p_heap (call_txn p c a b st) = p_heap p" "p_st (call_txn p c a b st) = p_st p"
  "p_has_query (call_txn p c a b st) = p_has_query p" "p_has_txn (call_txn p c a b st) = p_has_txn p"
  "p_has_session (call_txn p c a b st) = p_has_session p"
  by (simp_all add: call_query_def call_session_def call_txn_def)

text \<open>The observations among the calls.\<close>

definition queries_of :: "lk_out_call list \<Rightarrow> lk_query_obs list" where
  "queries_of cs = List.map_filter (\<lambda>x. case x of OnQuery _ _ q \<Rightarrow> Some q | _ \<Rightarrow> None) cs"

lemma queries_of_simps [simp]:
  "queries_of [] = []" "queries_of (xs @ ys) = queries_of xs @ queries_of ys"
  "queries_of (OnQuery k s q # xs) = q # queries_of xs" "queries_of (OnSession k s # xs) = queries_of xs"
  "queries_of (OnTxn k a b st # xs) = queries_of xs"
  by (simp_all add: queries_of_def map_filter_def)

lemma calls_simps:
  "p_calls (call_query p c s q) = p_calls p @ (if p_has_query p then [OnQuery (cn_cookie c) s q] else [])"
  "p_calls (call_session p c s) = p_calls p @ (if p_has_session p then [OnSession (cn_cookie c) s] else [])"
  "p_calls (call_txn p c a b st) = p_calls p @ (if p_has_txn p then [OnTxn (cn_cookie c) a b st] else [])"
  by (simp_all add: call_query_def call_session_def call_txn_def)

section \<open>Accounting\<close>

text \<open>\<open>silent\<close>: nothing was reported. \<open>accounts\<close>: calls were only appended, and the counters of
  observations and of failed queries moved by exactly the observations appended.\<close>

definition same_out :: "lk_proto \<Rightarrow> lk_proto \<Rightarrow> bool" where
  "same_out p p' \<longleftrightarrow> p_has_query p' = p_has_query p \<and> p_has_session p' = p_has_session p \<and> p_has_txn p' = p_has_txn p"

definition silent :: "lk_proto \<Rightarrow> lk_proto \<Rightarrow> bool" where
  "silent p p' \<longleftrightarrow> same_out p p' \<and> p_calls p' = p_calls p \<and> ps_queries (p_st p') = ps_queries (p_st p)
     \<and> ps_errors_sql (p_st p') = ps_errors_sql (p_st p)"

definition failed :: "lk_query_obs list \<Rightarrow> lk_query_obs list" where
  "failed qs = filter (\<lambda>q. has_flag (o_flags q) LK_QO_ERROR) qs"

definition reports :: "lk_proto \<Rightarrow> lk_out_call list \<Rightarrow> lk_proto \<Rightarrow> bool" where
  "reports p new p' \<longleftrightarrow> same_out p p' \<and> p_calls p' = p_calls p @ new \<and>
     (p_has_query p \<longrightarrow> ps_queries (p_st p') = ps_queries (p_st p) + length (queries_of new)
        \<and> ps_errors_sql (p_st p') = ps_errors_sql (p_st p) + length (failed (queries_of new)))"

definition accounts :: "lk_proto \<Rightarrow> lk_proto \<Rightarrow> bool" where
  "accounts p p' \<longleftrightarrow> (\<exists>new. reports p new p')"

lemma same_out_refl [simp]: "same_out p p"
  by (simp add: same_out_def)

lemma silent_refl [simp]: "silent p p"
  by (simp add: silent_def)

lemma silent_trans: "silent p p' \<Longrightarrow> silent p' p'' \<Longrightarrow> silent p p''"
  by (simp add: silent_def same_out_def)

lemma silent_heap [simp]: "silent p (q\<lparr>p_heap := h\<rparr>) = silent p q"
  by (simp add: silent_def same_out_def)

lemma silent_heap2 [simp]: "silent (p\<lparr>p_heap := h\<rparr>) q = silent p q"
  by (simp add: silent_def same_out_def)

lemma silent_upd:
  assumes "\<And>s. ps_queries (g s) = ps_queries s" and "\<And>s. ps_errors_sql (g s) = ps_errors_sql s"
  shows "silent p (upd_pst g p)"
  using assms by (simp add: silent_def same_out_def)

lemma reports_append: "reports p n1 p' \<Longrightarrow> reports p' n2 p'' \<Longrightarrow> reports p (n1 @ n2) p''"
  by (auto simp: reports_def same_out_def failed_def)

lemma silent_reports: "silent p p' \<Longrightarrow> reports p [] p'"
  by (simp add: silent_def reports_def failed_def)

lemma accounts_refl [simp]: "accounts p p"
  using silent_reports [of p p] by (auto simp: accounts_def)

lemma accounts_trans: "accounts p p' \<Longrightarrow> accounts p' p'' \<Longrightarrow> accounts p p''"
  by (auto simp: accounts_def intro: reports_append)

lemma silent_accounts: "silent p p' \<Longrightarrow> accounts p p'"
  by (auto simp: accounts_def intro: silent_reports)

lemma call_session_reports: "accounts p (call_session p c s)"
  unfolding accounts_def
  by (intro exI [of _ "if p_has_session p then [OnSession (cn_cookie c) s] else []"])
    (auto simp: reports_def same_out_def calls_simps failed_def)

lemma call_txn_reports: "accounts p (call_txn p c a b st)"
  unfolding accounts_def
  by (intro exI [of _ "if p_has_txn p then [OnTxn (cn_cookie c) a b st] else []"])
    (auto simp: reports_def same_out_def calls_simps failed_def)

text \<open>Counting and reporting one observation, the common tail of both protocols' \<open>emit_unit\<close>.\<close>

definition report_obs :: "('ps, 'fs) lk_conn \<Rightarrow> lk_session \<Rightarrow> lk_query_obs \<Rightarrow> lk_proto \<Rightarrow> lk_proto" where
  "report_obs c s q p =
     (let p = upd_pst (\<lambda>s. s\<lparr>ps_queries := ps_queries s + 1\<rparr>) p;
          p = (if has_flag (o_flags q) LK_QO_ERROR
               then upd_pst (\<lambda>s. s\<lparr>ps_errors_sql := ps_errors_sql s + 1\<rparr>) p else p)
      in call_query p c s q)"

lemma report_obs_reports:
  "reports p (if p_has_query p then [OnQuery (cn_cookie c) s q] else []) (report_obs c s q p)"
  by (auto simp: reports_def report_obs_def Let_def same_out_def calls_simps failed_def)

lemma report_obs_heap [simp]: "p_heap (report_obs c s q p) = p_heap p"
  by (simp add: report_obs_def Let_def)

end
