(* ===== verification/Pg_Wire.thy ===== *)
theory Pg_Wire
  imports Lk_Types
begin

text \<open>
  The bounded read cursor of src/src/proto/pg/pg_wire.h. The cursor is the list of the bytes between
  \<open>p\<close> and \<open>end\<close>, so a read past the end cannot even be expressed; each getter gives success, the
  value (0 on overrun) and the cursor. The same code, with other integer widths, is the MySQL cursor.
\<close>

record wire =
  w_rest :: bytes
  w_overrun :: bool

definition pg_wire_init :: "bytes \<Rightarrow> wire" where
  "pg_wire_init body = \<lparr>w_rest = body, w_overrun = False\<rparr>"

definition pg_wire_ok :: "wire \<Rightarrow> bool" where
  "pg_wire_ok w \<longleftrightarrow> \<not> w_overrun w"

definition pg_wire_remaining :: "wire \<Rightarrow> nat" where
  "pg_wire_remaining w = length (w_rest w)"

definition wire_overrun :: "wire \<Rightarrow> wire" where
  "wire_overrun w = \<lparr>w_rest = [], w_overrun = True\<rparr>"

definition pg_wire_get_u8 :: "wire \<Rightarrow> bool \<times> u8 \<times> wire" where
  "pg_wire_get_u8 w =
     (if pg_wire_remaining w < 1 then (False, 0, wire_overrun w)
      else (True, w_rest w ! 0, w\<lparr>w_rest := drop 1 (w_rest w)\<rparr>))"

definition pg_wire_get_u16 :: "wire \<Rightarrow> bool \<times> u16 \<times> wire" where
  "pg_wire_get_u16 w =
     (if pg_wire_remaining w < 2 then (False, 0, wire_overrun w)
      else (True, be16 (w_rest w), w\<lparr>w_rest := drop 2 (w_rest w)\<rparr>))"

definition pg_wire_get_u32 :: "wire \<Rightarrow> bool \<times> u32 \<times> wire" where
  "pg_wire_get_u32 w =
     (if pg_wire_remaining w < 4 then (False, 0, wire_overrun w)
      else (True, be32 (w_rest w), w\<lparr>w_rest := drop 4 (w_rest w)\<rparr>))"

definition pg_wire_skip :: "nat \<Rightarrow> wire \<Rightarrow> bool \<times> wire" where
  "pg_wire_skip n w =
     (if pg_wire_remaining w < n then (False, wire_overrun w)
      else (True, w\<lparr>w_rest := drop n (w_rest w)\<rparr>))"

text \<open>\<open>memchr(w->p, 0, avail)\<close> splits the rest at the first NUL.\<close>

definition pg_wire_cstring :: "wire \<Rightarrow> bool \<times> bytes \<times> wire" where
  "pg_wire_cstring w =
     (let s = takeWhile (\<lambda>b. b \<noteq> 0) (w_rest w)
      in if length s = length (w_rest w) then (False, s, wire_overrun w)
         else (True, s, w\<lparr>w_rest := drop (length s + 1) (w_rest w)\<rparr>))"

section \<open>Reading what was written\<close>

lemma wire_cstring_encoded [simp]:
  assumes "0 \<notin> set s"
  shows "pg_wire_cstring \<lparr>w_rest = s @ 0 # r, w_overrun = ov\<rparr> = (True, s, \<lparr>w_rest = r, w_overrun = ov\<rparr>)"
proof -
  have "takeWhile (\<lambda>b. b \<noteq> 0) (s @ 0 # r) = s"
    using assms by (subst takeWhile_append2) auto
  then show ?thesis by (simp add: pg_wire_cstring_def Let_def)
qed

lemma wire_cstring_cut:
  assumes "0 \<notin> set s"
  shows "pg_wire_cstring \<lparr>w_rest = s, w_overrun = ov\<rparr> = (False, s, \<lparr>w_rest = [], w_overrun = True\<rparr>)"
proof -
  have "takeWhile (\<lambda>b. b \<noteq> 0) s = s"
    using assms by (induction s) auto
  then show ?thesis by (simp only: pg_wire_cstring_def wire_overrun_def wire.simps Let_def) simp
qed

lemma wire_cstring_nonul: "pg_wire_cstring w = (ok, s, w') \<Longrightarrow> 0 \<notin> set s"
  by (auto simp: pg_wire_cstring_def Let_def dest: set_takeWhileD split: if_splits)

lemma wire_cstring_ok: "pg_wire_cstring w = (ok, s, w') \<Longrightarrow> ok \<longleftrightarrow> 0 \<in> set (w_rest w)"
proof -
  have "length (takeWhile (\<lambda>b. b \<noteq> 0) xs) = length xs \<longleftrightarrow> 0 \<notin> set xs" for xs :: bytes
    by (induction xs) auto
  then show "pg_wire_cstring w = (ok, s, w') \<Longrightarrow> ok \<longleftrightarrow> 0 \<in> set (w_rest w)"
    by (auto simp: pg_wire_cstring_def Let_def split: if_splits)
qed

lemma wire_cstring_length: "pg_wire_cstring w = (ok, s, w') \<Longrightarrow> length s + length (w_rest w') \<le> length (w_rest w)"
  using length_takeWhile_le [of "\<lambda>b. b \<noteq> 0" "w_rest w"]
  by (auto simp: pg_wire_cstring_def Let_def wire_overrun_def split: if_splits)

lemma wire_cstring_progress:
  assumes "pg_wire_cstring w = (True, s, w')"
  shows "length (w_rest w') < length (w_rest w)"
  using assms length_takeWhile_le [of "\<lambda>b. b \<noteq> 0" "w_rest w"]
  by (auto simp: pg_wire_cstring_def Let_def split: if_splits)

lemma wire_u8_progress: "pg_wire_get_u8 w = (True, b, w') \<Longrightarrow> length (w_rest w') < length (w_rest w)"
  by (auto simp: pg_wire_get_u8_def pg_wire_remaining_def split: if_splits)

end
