(* ===== verification/Pg_State.thy ===== *)
theory Pg_State
  imports Proto_Types Pg_Wire
begin

text \<open>
  The per-connection state of the PostgreSQL handler (src/src/proto/pg/pg.h) and the parts of
  pg_query.c that own a unit's text: the ring of in-flight units, the owned text buffers and the
  rescue of cache references.

  \<^item> The ring and the cache are functions from the slot index; every access of the code is at an
    index below \<open>LK_PG_MAX_INFLIGHT\<close>, respectively \<open>LK_PG_PREP_CACHE\<close>.
  \<^item> \<open>own_text\<close>/\<open>own_len\<close> is the list of the \<open>own_len\<close> valid bytes; \<open>own_cap\<close> is 0 as long as the
    buffer is NULL. The same holds of \<open>text\<close>, \<open>text_len\<close> and \<open>text_cap\<close> of a cache entry.
  \<^item> \<open>prep_idx = -1\<close> is \<open>None\<close>, \<open>copy_kind = 0\<close> is \<open>None\<close>.
\<close>

section \<open>Types\<close>

definition LK_PG_MAX_INFLIGHT :: nat where "LK_PG_MAX_INFLIGHT = 64"
definition LK_PG_PREP_CACHE :: nat where "LK_PG_PREP_CACHE = 256"

datatype pg_phase = PG_PH_STARTUP | PG_PH_AUTH | PG_PH_READY | PG_PH_COPY_IN | PG_PH_COPY_OUT
  | PG_PH_SKIP_TO_SYNC | PG_PH_IGNORE

record pg_unit =
  u_ts_start :: u64
  u_ts_first_row :: u64
  u_ts_complete :: u64
  u_rows :: u64
  u_bytes :: u64
  u_ncomplete :: u32
  u_kind :: lk_query_kind
  u_copy_kind :: "lk_query_kind option"
  u_flags :: u16
  u_sqlstate :: bytes
  u_prep_idx :: "nat option"
  u_prep_gen :: u32
  u_own_text :: bytes
  u_own_cap :: nat

record pg_prep =
  e_used :: bool
  e_trunc :: bool
  e_gen :: u32
  e_lru :: u64
  e_name :: bytes
  e_text :: bytes
  e_text_cap :: nat

record pg_prep_cache =
  pr_e :: "nat \<Rightarrow> pg_prep"
  pr_clock :: u64
  pr_count :: nat

record pg_conn =
  pc_phase :: pg_phase
  pc_session :: lk_session
  pc_msgs :: nat
  pc_ring :: "nat \<Rightarrow> pg_unit"
  pc_head :: nat
  pc_count :: nat
  pc_nclosed :: nat
  pc_lossy :: bool
  pc_degraded :: bool
  pc_prep :: "pg_prep_cache option"
  pc_txn_status :: u8
  pc_txn_start :: u64

text \<open>Freshly zeroed memory.\<close>

definition pg_unit_zero :: pg_unit where
  "pg_unit_zero = \<lparr>u_ts_start = 0, u_ts_first_row = 0, u_ts_complete = 0, u_rows = 0, u_bytes = 0,
     u_ncomplete = 0, u_kind = LK_Q_SIMPLE, u_copy_kind = None, u_flags = 0, u_sqlstate = [],
     u_prep_idx = Some 0, u_prep_gen = 0, u_own_text = [], u_own_cap = 0\<rparr>"

definition pg_prep_zero :: pg_prep where
  "pg_prep_zero = \<lparr>e_used = False, e_trunc = False, e_gen = 0, e_lru = 0, e_name = [], e_text = [],
     e_text_cap = 0\<rparr>"

definition pg_prep_cache_zero :: pg_prep_cache where
  "pg_prep_cache_zero = \<lparr>pr_e = (\<lambda>_. pg_prep_zero), pr_clock = 0, pr_count = 0\<rparr>"

definition pg_conn_zero :: pg_conn where
  "pg_conn_zero = \<lparr>pc_phase = PG_PH_STARTUP, pc_session = lk_session_zero, pc_msgs = 0,
     pc_ring = (\<lambda>_. pg_unit_zero), pc_head = 0, pc_count = 0, pc_nclosed = 0, pc_lossy = False,
     pc_degraded = False, pc_prep = None, pc_txn_status = 0, pc_txn_start = 0\<rparr>"

section \<open>Ring\<close>

text \<open>\<open>&pc->ring[(pc->head + i) % LK_PG_MAX_INFLIGHT]\<close>, read and written.\<close>

definition slot_of :: "pg_conn \<Rightarrow> nat \<Rightarrow> nat" where
  "slot_of pc i = (pc_head pc + i) mod LK_PG_MAX_INFLIGHT"

definition unit_at :: "pg_conn \<Rightarrow> nat \<Rightarrow> pg_unit" where
  "unit_at pc i = pc_ring pc (slot_of pc i)"

definition upd_unit :: "nat \<Rightarrow> (pg_unit \<Rightarrow> pg_unit) \<Rightarrow> pg_conn \<Rightarrow> pg_conn" where
  "upd_unit i g pc = pc\<lparr>pc_ring := (pc_ring pc)(slot_of pc i := g (unit_at pc i))\<rparr>"

abbreviation or_flag :: "u16 \<Rightarrow> pg_unit \<Rightarrow> pg_unit" where
  "or_flag fl u \<equiv> u\<lparr>u_flags := u_flags u OR fl\<rparr>"

definition unit_reset :: "pg_unit \<Rightarrow> pg_unit" where
  "unit_reset u = pg_unit_zero\<lparr>u_own_cap := u_own_cap u, u_prep_idx := None\<rparr>"

definition mark_pipelined :: "pg_conn \<Rightarrow> pg_conn" where
  "mark_pipelined pc = fold (\<lambda>i. upd_unit i (or_flag LK_QO_PIPELINED)) [0..<pc_count pc] pc"

text \<open>The unit pushed is the last one of the batch: \<open>unit_at pc (pc_count pc - 1)\<close>.\<close>

definition ring_push :: "lk_proto \<Rightarrow> pg_conn \<Rightarrow> bool \<times> lk_proto \<times> pg_conn" where
  "ring_push p pc =
     (if pc_lossy pc \<or> LK_PG_MAX_INFLIGHT \<le> pc_count pc then
        (False, upd_pst (\<lambda>s. s\<lparr>ps_units_dropped_overflow := ps_units_dropped_overflow s + 1\<rparr>) p,
         pc\<lparr>pc_lossy := True\<rparr>)
      else
        (let n = pc_count pc;
             pc = upd_unit n unit_reset (pc\<lparr>pc_count := n + 1\<rparr>);
             pc = (if 1 < pc_count pc then mark_pipelined pc else pc)
         in (True, p, pc)))"

text \<open>Without the counter: \<open>counter\<close> NULL. The callers with one add \<open>pc_count\<close> themselves.\<close>

definition pg_query_drop_all :: "pg_conn \<Rightarrow> pg_conn" where
  "pg_query_drop_all pc = pc\<lparr>pc_head := 0, pc_count := 0, pc_nclosed := 0, pc_lossy := False\<rparr>"

section \<open>Unit text\<close>

definition own_grow :: "pg_unit \<Rightarrow> nat \<Rightarrow> heap \<Rightarrow> bool \<times> pg_unit \<times> heap" where
  "own_grow u n hp =
     (if u_own_cap u < n then
        (let (ok, hp) = hp_realloc (u_own_cap u = 0) hp
         in if \<not> ok then (False, or_flag LK_QO_NO_TEXT (u\<lparr>u_own_text := []\<rparr>), hp)
            else (True, u\<lparr>u_own_cap := n\<rparr>, hp))
      else (True, u, hp))"

definition set_simple_text :: "pg_unit \<Rightarrow> lk_msg \<Rightarrow> heap \<Rightarrow> pg_unit \<times> heap" where
  "set_simple_text u m hp =
     (let n = min (m_body_cap m) LK_MSG_BODY_MAX;
          (ok, u, hp) = own_grow u n hp
      in if \<not> ok then (u, hp)
         else (let t = take n (m_body m);
                   t = (if t \<noteq> [] \<and> last t = 0 then butlast t else t)
               in (u\<lparr>u_own_text := t\<rparr>, hp)))"

definition rescue_unit :: "nat \<Rightarrow> pg_prep \<Rightarrow> pg_unit \<Rightarrow> heap \<Rightarrow> pg_unit \<times> heap" where
  "rescue_unit slot e u hp =
     (if u_prep_idx u \<noteq> Some slot \<or> u_prep_gen u \<noteq> e_gen e then (u, hp)
      else
        (let (ok, u, hp) = (if e_text e \<noteq> [] then own_grow u (length (e_text e)) hp else (False, u, hp));
             u = u\<lparr>u_own_text := (if ok then e_text e else [])\<rparr>
         in (u\<lparr>u_prep_idx := None\<rparr>, hp)))"

definition rescue_step :: "nat \<Rightarrow> pg_prep \<Rightarrow> nat \<Rightarrow> pg_conn \<times> heap \<Rightarrow> pg_conn \<times> heap" where
  "rescue_step slot e i s =
     (let (pc, hp) = s; (u, hp) = rescue_unit slot e (unit_at pc i) hp
      in (upd_unit i (\<lambda>_. u) pc, hp))"

text \<open>Called with \<open>pc->prep\<close> set.\<close>

definition pg_query_rescue_refs :: "pg_conn \<Rightarrow> nat \<Rightarrow> heap \<Rightarrow> pg_conn \<times> heap" where
  "pg_query_rescue_refs pc slot hp =
     (case pc_prep pc of
        None \<Rightarrow> (pc, hp)
      | Some pr \<Rightarrow> fold (rescue_step slot (pr_e pr slot)) [0..<pc_count pc] (pc, hp))"

text \<open>\<open>fill_text\<close>: the text of the observation.\<close>

definition fill_text :: "pg_conn \<Rightarrow> pg_unit \<Rightarrow> bytes option" where
  "fill_text pc u =
     (if has_flag (u_flags u) LK_QO_NO_TEXT then None
      else (case (u_prep_idx u, pc_prep pc) of
          (Some i, Some pr) \<Rightarrow>
            (let e = pr_e pr i
             in if e_used e \<and> e_gen e = u_prep_gen u \<and> e_text e \<noteq> [] then Some (e_text e) else None)
        | _ \<Rightarrow> (if u_own_text u \<noteq> [] then Some (u_own_text u) else None)))"

section \<open>The ring as a list\<close>

text \<open>\<open>batch\<close>: the in-flight units, oldest first. The ring operations act on it as list operations.\<close>

definition batch :: "pg_conn \<Rightarrow> pg_unit list" where
  "batch pc = map (unit_at pc) [0..<pc_count pc]"

definition ring_ok :: "pg_conn \<Rightarrow> bool" where
  "ring_ok pc \<longleftrightarrow> pc_head pc < LK_PG_MAX_INFLIGHT \<and> pc_count pc \<le> LK_PG_MAX_INFLIGHT \<and> pc_nclosed pc \<le> pc_count pc"

lemma length_batch [simp]: "length (batch pc) = pc_count pc"
  by (simp add: batch_def)

lemma nth_batch [simp]: "i < pc_count pc \<Longrightarrow> batch pc ! i = unit_at pc i"
  by (simp add: batch_def)

lemma slot_of_inj:
  assumes "i < LK_PG_MAX_INFLIGHT" and "j < LK_PG_MAX_INFLIGHT"
  shows "slot_of pc i = slot_of pc j \<longleftrightarrow> i = j"
proof
  assume "slot_of pc i = slot_of pc j"
  then have "i mod LK_PG_MAX_INFLIGHT = j mod LK_PG_MAX_INFLIGHT"
    unfolding slot_of_def by (simp add: nat_mod_eq_iff)
  then show "i = j" using assms by simp
qed simp

lemma slot_of_upd [simp]: "slot_of (upd_unit i g pc) = slot_of pc"
  by (simp add: slot_of_def upd_unit_def fun_eq_iff)

lemma upd_unit_simps [simp]:
  "pc_phase (upd_unit i g pc) = pc_phase pc" "pc_session (upd_unit i g pc) = pc_session pc"
  "pc_msgs (upd_unit i g pc) = pc_msgs pc" "pc_head (upd_unit i g pc) = pc_head pc"
  "pc_count (upd_unit i g pc) = pc_count pc" "pc_nclosed (upd_unit i g pc) = pc_nclosed pc"
  "pc_lossy (upd_unit i g pc) = pc_lossy pc" "pc_degraded (upd_unit i g pc) = pc_degraded pc"
  "pc_prep (upd_unit i g pc) = pc_prep pc" "pc_txn_status (upd_unit i g pc) = pc_txn_status pc"
  "pc_txn_start (upd_unit i g pc) = pc_txn_start pc"
  by (simp_all add: upd_unit_def)

lemma unit_at_upd:
  assumes "i < LK_PG_MAX_INFLIGHT" and "j < LK_PG_MAX_INFLIGHT"
  shows "unit_at (upd_unit i g pc) j = (if j = i then g (unit_at pc i) else unit_at pc j)"
  using slot_of_inj [OF assms(2) assms(1), of pc]
  by (simp add: unit_at_def) (simp add: upd_unit_def unit_at_def)

lemma unit_at_upd_same [simp]: "unit_at (upd_unit i g pc) i = g (unit_at pc i)"
  by (simp add: unit_at_def) (simp add: upd_unit_def unit_at_def)

lemma batch_upd:
  assumes "i < pc_count pc" and "pc_count pc \<le> LK_PG_MAX_INFLIGHT"
  shows "batch (upd_unit i g pc) = (batch pc)[i := g (unit_at pc i)]"
  using assms by (intro nth_equalityI) (auto simp: unit_at_upd nth_list_update)

text \<open>Fields that do not move the ring.\<close>

definition same_ring :: "pg_conn \<Rightarrow> pg_conn \<Rightarrow> bool" where
  "same_ring pc pc' \<longleftrightarrow> pc_ring pc' = pc_ring pc \<and> pc_head pc' = pc_head pc \<and> pc_count pc' = pc_count pc"

lemma same_ring_batch: "same_ring pc pc' \<Longrightarrow> batch pc' = batch pc"
  by (simp add: same_ring_def batch_def unit_at_def slot_of_def)

lemma same_ring_unit: "same_ring pc pc' \<Longrightarrow> unit_at pc' i = unit_at pc i"
  by (simp add: same_ring_def unit_at_def slot_of_def)

lemma batch_other [simp]:
  "batch (pc\<lparr>pc_phase := ph\<rparr>) = batch pc" "batch (pc\<lparr>pc_session := se\<rparr>) = batch pc"
  "batch (pc\<lparr>pc_msgs := n\<rparr>) = batch pc" "batch (pc\<lparr>pc_nclosed := n\<rparr>) = batch pc"
  "batch (pc\<lparr>pc_lossy := b\<rparr>) = batch pc" "batch (pc\<lparr>pc_degraded := b\<rparr>) = batch pc"
  "batch (pc\<lparr>pc_prep := pr\<rparr>) = batch pc" "batch (pc\<lparr>pc_txn_status := st\<rparr>) = batch pc"
  "batch (pc\<lparr>pc_txn_start := t\<rparr>) = batch pc"
  by (rule same_ring_batch, simp add: same_ring_def)+

lemma unit_at_other [simp]:
  "unit_at (pc\<lparr>pc_phase := ph\<rparr>) i = unit_at pc i" "unit_at (pc\<lparr>pc_session := se\<rparr>) i = unit_at pc i"
  "unit_at (pc\<lparr>pc_msgs := n\<rparr>) i = unit_at pc i" "unit_at (pc\<lparr>pc_nclosed := n\<rparr>) i = unit_at pc i"
  "unit_at (pc\<lparr>pc_lossy := b\<rparr>) i = unit_at pc i" "unit_at (pc\<lparr>pc_degraded := b\<rparr>) i = unit_at pc i"
  "unit_at (pc\<lparr>pc_prep := pr\<rparr>) i = unit_at pc i" "unit_at (pc\<lparr>pc_txn_status := st\<rparr>) i = unit_at pc i"
  "unit_at (pc\<lparr>pc_txn_start := t\<rparr>) i = unit_at pc i" "unit_at (pc\<lparr>pc_count := n\<rparr>) i = unit_at pc i"
  by (simp_all add: unit_at_def slot_of_def)

text \<open>A loop that updates a range of units.\<close>

abbreviation upd_range :: "(pg_unit \<Rightarrow> pg_unit) \<Rightarrow> nat \<Rightarrow> nat \<Rightarrow> pg_conn \<Rightarrow> pg_conn" where
  "upd_range g a b pc \<equiv> fold (\<lambda>i. upd_unit i g) [a..<b] pc"

lemma upd_range_simps [simp]:
  "pc_phase (upd_range g a b pc) = pc_phase pc" "pc_session (upd_range g a b pc) = pc_session pc"
  "pc_msgs (upd_range g a b pc) = pc_msgs pc" "pc_head (upd_range g a b pc) = pc_head pc"
  "pc_count (upd_range g a b pc) = pc_count pc" "pc_nclosed (upd_range g a b pc) = pc_nclosed pc"
  "pc_lossy (upd_range g a b pc) = pc_lossy pc" "pc_degraded (upd_range g a b pc) = pc_degraded pc"
  "pc_prep (upd_range g a b pc) = pc_prep pc" "pc_txn_status (upd_range g a b pc) = pc_txn_status pc"
  "pc_txn_start (upd_range g a b pc) = pc_txn_start pc" "slot_of (upd_range g a b pc) = slot_of pc"
  by (induction b) (auto simp: slot_of_def fun_eq_iff)

lemma unit_at_upd_range:
  assumes "b \<le> LK_PG_MAX_INFLIGHT" and "j < LK_PG_MAX_INFLIGHT"
  shows "unit_at (upd_range g a b pc) j = (if a \<le> j \<and> j < b then g (unit_at pc j) else unit_at pc j)"
  using assms by (induction b) (auto simp: unit_at_upd)

lemma batch_upd_range:
  assumes "b \<le> pc_count pc" and "pc_count pc \<le> LK_PG_MAX_INFLIGHT"
  shows "batch (upd_range g a b pc) = map (\<lambda>i. if a \<le> i \<and> i < b then g (unit_at pc i) else unit_at pc i) [0..<pc_count pc]"
  using assms by (intro nth_equalityI) (auto simp: unit_at_upd_range)

text \<open>Enqueueing.\<close>

abbreviation open_unit :: "nat \<Rightarrow> pg_unit" where
  "open_unit cap \<equiv> pg_unit_zero\<lparr>u_own_cap := cap, u_prep_idx := None\<rparr>"

definition pipelined :: "pg_unit list \<Rightarrow> pg_unit list" where
  "pipelined us = (if 1 < length us then map (or_flag LK_QO_PIPELINED) us else us)"

lemma ring_push_full:
  assumes "ring_push p pc = (False, p', pc')"
  shows "pc' = pc\<lparr>pc_lossy := True\<rparr>" "pc_lossy pc \<or> LK_PG_MAX_INFLIGHT \<le> pc_count pc"
    "p' = upd_pst (\<lambda>s. s\<lparr>ps_units_dropped_overflow := ps_units_dropped_overflow s + 1\<rparr>) p"
  using assms by (auto simp: ring_push_def Let_def split: if_splits)

lemma ring_push_ok:
  assumes "ring_push p pc = (True, p', pc')"
  shows "p' = p" "\<not> pc_lossy pc" "pc_count pc < LK_PG_MAX_INFLIGHT" "pc_count pc' = pc_count pc + 1"
    "pc_head pc' = pc_head pc" "pc_nclosed pc' = pc_nclosed pc" "pc_lossy pc' = pc_lossy pc"
    "pc_degraded pc' = pc_degraded pc" "pc_prep pc' = pc_prep pc" "pc_phase pc' = pc_phase pc"
    "pc_session pc' = pc_session pc" "pc_txn_status pc' = pc_txn_status pc" "pc_txn_start pc' = pc_txn_start pc"
    "pc_msgs pc' = pc_msgs pc"
  using assms by (auto simp: ring_push_def Let_def mark_pipelined_def split: if_splits)

lemma ring_push_batch:
  assumes "ring_push p pc = (True, p', pc')"
  shows "batch pc' = pipelined (batch pc @ [open_unit (u_own_cap (unit_at pc (pc_count pc)))])"
proof -
  let ?n = "pc_count pc" let ?pc = "upd_unit ?n unit_reset (pc\<lparr>pc_count := ?n + 1\<rparr>)"
  have n: "?n < LK_PG_MAX_INFLIGHT" using ring_push_ok [OF assms] by simp
  have pc': "pc' = (if 0 < ?n then mark_pipelined ?pc else ?pc)"
    using assms by (auto simp: ring_push_def Let_def split: if_splits)
  have b: "batch ?pc = batch pc @ [open_unit (u_own_cap (unit_at pc ?n))]"
    using n by (intro nth_equalityI) (auto simp: nth_append less_Suc_eq unit_at_upd unit_reset_def)
  have "batch (mark_pipelined ?pc) = map (or_flag LK_QO_PIPELINED) (batch ?pc)"
    unfolding mark_pipelined_def using n
    by (subst batch_upd_range) (auto simp: batch_def)
  then show ?thesis using b unfolding pc' by (cases "?n = 0") (simp_all add: pipelined_def)
qed

lemma length_pipelined [simp]: "length (pipelined us) = length us"
  by (simp add: pipelined_def)

section \<open>The connection invariant\<close>

text \<open>A unit's cache reference names an occupied slot whose generation has not moved.\<close>

definition ref_ok :: "pg_prep_cache option \<Rightarrow> nat \<Rightarrow> u32 \<Rightarrow> bool" where
  "ref_ok pr i g \<longleftrightarrow> (case pr of None \<Rightarrow> False
     | Some q \<Rightarrow> i < LK_PG_PREP_CACHE \<and> e_used (pr_e q i) \<and> e_gen (pr_e q i) = g)"

definition unit_ok :: "pg_prep_cache option \<Rightarrow> pg_unit \<Rightarrow> bool" where
  "unit_ok pr u \<longleftrightarrow> length (u_own_text u) \<le> u_own_cap u
     \<and> u_kind u \<in> {LK_Q_SIMPLE, LK_Q_EXTENDED, LK_Q_FUNCTION}
     \<and> (case u_prep_idx u of None \<Rightarrow> True | Some i \<Rightarrow> ref_ok pr i (u_prep_gen u))"

definition caps_ok :: "pg_conn \<Rightarrow> bool" where
  "caps_ok pc \<longleftrightarrow> (\<forall>s. u_own_cap (pc_ring pc s) \<le> LK_MSG_BODY_MAX)"

definition entry_ok :: "pg_prep \<Rightarrow> bool" where
  "entry_ok e \<longleftrightarrow> length (e_name e) \<le> 63 \<and> length (e_text e) \<le> e_text_cap e \<and> e_text_cap e \<le> LK_MSG_BODY_MAX"

definition used_slots :: "pg_prep_cache \<Rightarrow> nat set" where
  "used_slots q = {i. i < LK_PG_PREP_CACHE \<and> e_used (pr_e q i)}"

definition cache_ok :: "pg_prep_cache \<Rightarrow> bool" where
  "cache_ok q \<longleftrightarrow> (\<forall>i. entry_ok (pr_e q i)) \<and> pr_count q = card (used_slots q)"

definition pg_inv :: "pg_conn \<Rightarrow> bool" where
  "pg_inv pc \<longleftrightarrow> ring_ok pc \<and> list_all (unit_ok (pc_prep pc)) (batch pc) \<and> caps_ok pc
     \<and> pred_option cache_ok (pc_prep pc) \<and> session_ok (pc_session pc)
     \<and> (pc_degraded pc \<longrightarrow> pc_count pc = 0 \<and> \<not> pc_lossy pc)
     \<and> (pc_lossy pc \<longrightarrow> pc_count pc = LK_PG_MAX_INFLIGHT)"

lemma pg_inv_zero: "pg_inv pg_conn_zero"
  by (simp add: pg_inv_def pg_conn_zero_def ring_ok_def LK_PG_MAX_INFLIGHT_def batch_def caps_ok_def
    session_ok_def lk_session_zero_def pg_unit_zero_def)

lemma pg_inv_unit:
  assumes "pg_inv pc" and "i < pc_count pc"
  shows "unit_ok (pc_prep pc) (unit_at pc i)"
  using assms by (auto simp: pg_inv_def list_all_length)

lemma pg_inv_cap: "pg_inv pc \<Longrightarrow> u_own_cap (unit_at pc i) \<le> LK_MSG_BODY_MAX"
  by (simp add: pg_inv_def caps_ok_def unit_at_def)

lemma caps_unit: "caps_ok pc \<Longrightarrow> u_own_cap (unit_at pc i) \<le> LK_MSG_BODY_MAX"
  by (simp add: caps_ok_def unit_at_def)

lemma caps_upd: "caps_ok pc \<Longrightarrow> u_own_cap (g (unit_at pc i)) \<le> LK_MSG_BODY_MAX \<Longrightarrow> caps_ok (upd_unit i g pc)"
  by (simp add: caps_ok_def upd_unit_def)

lemma pg_inv_upd:
  assumes inv: "pg_inv pc" and i: "i < pc_count pc"
    and ok: "unit_ok (pc_prep pc) (unit_at pc i) \<Longrightarrow> unit_ok (pc_prep pc) (g (unit_at pc i))"
    and cap: "u_own_cap (g (unit_at pc i)) \<le> LK_MSG_BODY_MAX"
  shows "pg_inv (upd_unit i g pc)"
proof -
  have n: "pc_count pc \<le> LK_PG_MAX_INFLIGHT" using inv by (simp add: pg_inv_def ring_ok_def)
  have "list_all (unit_ok (pc_prep pc)) ((batch pc)[i := g (unit_at pc i)])"
    using inv ok pg_inv_unit [OF inv i] i
    by (auto simp: pg_inv_def list_all_length nth_list_update)
  then show ?thesis
    using inv caps_upd [of pc g i] cap by (simp add: pg_inv_def batch_upd [OF i n] ring_ok_def)
qed

text \<open>Updates of a unit that its invariant does not see.\<close>

definition cosmetic :: "(pg_unit \<Rightarrow> pg_unit) \<Rightarrow> bool" where
  "cosmetic g \<longleftrightarrow> (\<forall>u. u_own_text (g u) = u_own_text u \<and> u_own_cap (g u) = u_own_cap u \<and> u_kind (g u) = u_kind u
     \<and> u_prep_idx (g u) = u_prep_idx u \<and> u_prep_gen (g u) = u_prep_gen u \<and> u_ts_start (g u) = u_ts_start u
     \<and> (bit (u_flags (g u)) 2 = bit (u_flags u) 2))"

lemma cosmetic_unit_ok: "cosmetic g \<Longrightarrow> unit_ok pr (g u) = unit_ok pr u"
  by (simp add: cosmetic_def unit_ok_def split: option.split)

lemma pg_inv_cosmetic:
  assumes "pg_inv pc" and "i < pc_count pc" and "cosmetic g"
  shows "pg_inv (upd_unit i g pc)"
  using assms(1,2)
  by (rule pg_inv_upd) (use assms pg_inv_cap [of pc i] in \<open>simp_all add: cosmetic_unit_ok cosmetic_def\<close>)

lemma pg_inv_cosmetic_range:
  assumes "pg_inv pc" and "b \<le> pc_count pc" and "cosmetic g"
  shows "pg_inv (upd_range g a b pc)"
  using assms(1,2) by (induction b) (auto intro!: pg_inv_cosmetic [OF _ _ assms(3)])

lemma pg_inv_fields [simp]:
  "pg_inv (pc\<lparr>pc_phase := ph\<rparr>) = pg_inv pc" "pg_inv (pc\<lparr>pc_msgs := n\<rparr>) = pg_inv pc"
  "pg_inv (pc\<lparr>pc_txn_status := st\<rparr>) = pg_inv pc" "pg_inv (pc\<lparr>pc_txn_start := t\<rparr>) = pg_inv pc"
  by (simp_all add: pg_inv_def ring_ok_def caps_ok_def)

lemma pg_inv_nclosed: "pg_inv pc \<Longrightarrow> n \<le> pc_count pc \<Longrightarrow> pg_inv (pc\<lparr>pc_nclosed := n\<rparr>)"
  by (simp add: pg_inv_def ring_ok_def caps_ok_def)

lemma pg_inv_session: "pg_inv pc \<Longrightarrow> session_ok s \<Longrightarrow> pg_inv (pc\<lparr>pc_session := s\<rparr>)"
  by (simp add: pg_inv_def ring_ok_def caps_ok_def)

lemma pg_inv_empty:
  assumes "pg_inv pc" and "pc_count pc' = 0" and "pc_nclosed pc' = 0" and "\<not> pc_lossy pc'"
    and "pc_head pc' = 0" and "pc_ring pc' = pc_ring pc" and "pc_prep pc' = pc_prep pc"
    and "pc_session pc' = pc_session pc"
  shows "pg_inv pc'"
  using assms by (simp add: pg_inv_def ring_ok_def caps_ok_def batch_def LK_PG_MAX_INFLIGHT_def)

lemma pg_inv_drop_all: "pg_inv pc \<Longrightarrow> pg_inv (pg_query_drop_all pc)"
  by (erule pg_inv_empty) (simp_all add: pg_query_drop_all_def)

subsection \<open>Enqueueing\<close>

lemma pipelined_nth:
  "i < length us \<Longrightarrow> pipelined us ! i = us ! i \<or> pipelined us ! i = or_flag LK_QO_PIPELINED (us ! i)"
  by (simp add: pipelined_def)

lemma unit_ok_flags [simp]: "unit_ok pr (u\<lparr>u_flags := f\<rparr>) = unit_ok pr u"
  by (simp add: unit_ok_def split: option.split)

lemma list_all_pipelined [simp]: "list_all (unit_ok pr) (pipelined us) = list_all (unit_ok pr) us"
  by (simp add: pipelined_def list_all_length)

lemma caps_range: "caps_ok pc \<Longrightarrow> (\<And>u. u_own_cap (g u) = u_own_cap u) \<Longrightarrow> caps_ok (upd_range g a b pc)"
  by (induction b) (auto intro!: caps_upd simp: caps_unit)

lemma ring_push_inv:
  assumes inv: "pg_inv pc" and push: "ring_push p pc = (ok, p', pc')" and nd: "\<not> pc_degraded pc"
  shows "pg_inv pc'"
proof (cases ok)
  case False
  then have "pc' = pc\<lparr>pc_lossy := True\<rparr>" "pc_lossy pc \<or> LK_PG_MAX_INFLIGHT \<le> pc_count pc"
    using ring_push_full [of p pc p' pc'] push by auto
  then show ?thesis using inv nd by (auto simp: pg_inv_def ring_ok_def caps_ok_def)
next
  case True
  then have push: "ring_push p pc = (True, p', pc')" using push by simp
  note f = ring_push_ok [OF push]
  have "caps_ok (pc\<lparr>pc_count := n\<rparr>)" for n
    using inv by (simp add: pg_inv_def caps_ok_def)
  then have "caps_ok (upd_unit (pc_count pc) unit_reset (pc\<lparr>pc_count := pc_count pc + 1\<rparr>))"
    using inv by (intro caps_upd) (simp_all add: unit_reset_def pg_inv_cap)
  then have "caps_ok pc'"
    using push by (auto simp: ring_push_def Let_def mark_pipelined_def simp del: upt_Suc split: if_splits
      intro!: caps_range)
  moreover have "unit_ok pr (open_unit (u_own_cap u))" for pr u
    by (simp add: unit_ok_def pg_unit_zero_def)
  ultimately show ?thesis
    using inv f nd by (simp add: pg_inv_def ring_push_batch [OF push] ring_ok_def)
qed

lemma ring_push_last:
  assumes "ring_push p pc = (True, p', pc')"
  shows "unit_at pc' (pc_count pc' - 1) = pipelined (batch pc @ [open_unit (u_own_cap (unit_at pc (pc_count pc)))]) ! pc_count pc"
proof -
  have "unit_at pc' (pc_count pc' - 1) = batch pc' ! pc_count pc"
    using ring_push_ok [OF assms] by simp
  then show ?thesis by (simp only: ring_push_batch [OF assms])
qed

subsection \<open>Rescuing references\<close>

lemma own_grow_props:
  assumes "own_grow u n hp = (ok, u', hp')"
  shows "hp_ok hp' = hp_ok hp" "u_prep_idx u' = u_prep_idx u" "u_prep_gen u' = u_prep_gen u" "u_kind u' = u_kind u"
    "u_ts_start u' = u_ts_start u" "u_own_cap u' \<le> max (u_own_cap u) n" "u_own_cap u \<le> u_own_cap u'"
    "ok \<Longrightarrow> n \<le> u_own_cap u' \<and> u_flags u' = u_flags u \<and> u_own_text u' = u_own_text u"
    "\<not> ok \<Longrightarrow> bit (u_flags u') 2 \<and> \<not> heap_never_fails hp \<and> u_own_text u' = []"
  using assms by (auto simp: own_grow_def Let_def bit_simps hp_realloc_def split: if_splits prod.splits)

lemma rescue_unit_skip: "\<not> (u_prep_idx u = Some slot \<and> u_prep_gen u = e_gen e) \<Longrightarrow> rescue_unit slot e u hp = (u, hp)"
  by (auto simp: rescue_unit_def)

lemma rescue_unit_props:
  assumes r: "rescue_unit slot e u hp = (u', hp')" and m: "u_prep_idx u = Some slot" "u_prep_gen u = e_gen e"
    and cap: "u_own_cap u \<le> LK_MSG_BODY_MAX" "entry_ok e"
  shows "hp_ok hp' = hp_ok hp" "u_prep_idx u' = None" "u_kind u' = u_kind u" "u_ts_start u' = u_ts_start u"
    "u_own_cap u' \<le> LK_MSG_BODY_MAX" "length (u_own_text u') \<le> u_own_cap u'"
    "bit (u_flags u') 2 \<or> (u_own_text u' = e_text e \<and> \<not> bit (u_flags u) 2)"
    "heap_never_fails hp \<Longrightarrow> u_own_text u' = e_text e \<and> bit (u_flags u') 2 = bit (u_flags u) 2"
proof -
  have l: "length (e_text e) \<le> LK_MSG_BODY_MAX" using cap by (simp add: entry_ok_def)
  obtain ok u1 hp1 where g: "(if e_text e \<noteq> [] then own_grow u (length (e_text e)) hp else (False, u, hp)) = (ok, u1, hp1)"
    by (cases "if e_text e \<noteq> [] then own_grow u (length (e_text e)) hp else (False, u, hp)") blast
  have u': "u' = u1\<lparr>u_own_text := (if ok then e_text e else []), u_prep_idx := None\<rparr>" "hp' = hp1"
    using r m g by (simp_all add: rescue_unit_def)
  have g1: "hp_ok hp1 = hp_ok hp \<and> u_kind u1 = u_kind u \<and> u_ts_start u1 = u_ts_start u
      \<and> u_own_cap u1 \<le> LK_MSG_BODY_MAX \<and> (ok \<longrightarrow> length (e_text e) \<le> u_own_cap u1)
      \<and> (bit (u_flags u1) 2 \<or> (ok \<or> e_text e = []) \<and> \<not> bit (u_flags u) 2)
      \<and> (heap_never_fails hp \<longrightarrow> (ok \<or> e_text e = []) \<and> bit (u_flags u1) 2 = bit (u_flags u) 2)"
  proof (cases "e_text e = []")
    case True
    then show ?thesis using g cap by auto
  next
    case False
    then have "own_grow u (length (e_text e)) hp = (ok, u1, hp1)" using g by simp
    note p = own_grow_props [OF this]
    have "u_own_cap u1 \<le> LK_MSG_BODY_MAX" using p(6) l cap(1) by simp
    then show ?thesis using p(1,4,5) p(8,9) by (cases ok) auto
  qed
  show "hp_ok hp' = hp_ok hp" "u_prep_idx u' = None" "u_kind u' = u_kind u" "u_ts_start u' = u_ts_start u"
    "u_own_cap u' \<le> LK_MSG_BODY_MAX" "length (u_own_text u') \<le> u_own_cap u'"
    using g1 by (simp_all add: u')
  show "bit (u_flags u') 2 \<or> (u_own_text u' = e_text e \<and> \<not> bit (u_flags u) 2)"
    "heap_never_fails hp \<Longrightarrow> u_own_text u' = e_text e \<and> bit (u_flags u') 2 = bit (u_flags u) 2"
    using g1 by (auto simp: u')
qed

definition ring_only :: "pg_conn \<Rightarrow> pg_conn \<Rightarrow> bool" where
  "ring_only pc pc' \<longleftrightarrow> pc' = pc\<lparr>pc_ring := pc_ring pc'\<rparr>"

lemma ring_only_simps:
  assumes "ring_only pc pc'"
  shows "pc_head pc' = pc_head pc" "pc_count pc' = pc_count pc" "pc_nclosed pc' = pc_nclosed pc"
    "pc_lossy pc' = pc_lossy pc" "pc_degraded pc' = pc_degraded pc" "pc_prep pc' = pc_prep pc"
    "pc_phase pc' = pc_phase pc" "pc_session pc' = pc_session pc" "pc_msgs pc' = pc_msgs pc"
    "pc_txn_status pc' = pc_txn_status pc" "pc_txn_start pc' = pc_txn_start pc"
  by (subst assms [unfolded ring_only_def], simp)+

lemma ring_only_upd: "ring_only pc pc' \<Longrightarrow> ring_only pc (upd_unit i g pc')"
  by (auto simp: ring_only_def upd_unit_def) (metis pg_conn.select_convs(4) pg_conn.surjective pg_conn.update_convs(4))

text \<open>What the rescue loop leaves: every unit of the batch went through \<open>rescue_unit\<close>, with some heap
  of the same outcomes.\<close>

definition rescued :: "nat \<Rightarrow> pg_prep \<Rightarrow> (nat \<Rightarrow> bool) \<Rightarrow> pg_unit \<Rightarrow> pg_unit \<Rightarrow> bool" where
  "rescued slot e outcomes u u' \<longleftrightarrow> (\<exists>hp hp'. rescue_unit slot e u hp = (u', hp') \<and> hp_ok hp = outcomes)"

lemma rescue_unit_heap: "rescue_unit slot e u hp = (u', hp') \<Longrightarrow> hp_ok hp' = hp_ok hp"
  using own_grow_props(1) [of u "length (e_text e)" hp]
  by (auto simp: rescue_unit_def Let_def split: if_splits prod.splits)

lemma rescue_unit_cap:
  assumes "rescue_unit slot e u hp = (u', hp')" "u_own_cap u \<le> LK_MSG_BODY_MAX" "entry_ok e"
  shows "u_own_cap u' \<le> LK_MSG_BODY_MAX"
  using rescue_unit_props(5) [OF assms(1) _ _ assms(2,3)] rescue_unit_skip [of u slot e hp] assms by fastforce

lemma rescue_fold:
  assumes "n \<le> LK_PG_MAX_INFLIGHT" and "caps_ok pc" and "entry_ok e"
    and "fold (rescue_step slot e) [0..<n] (pc, hp) = (pc', hp')"
  shows "ring_only pc pc' \<and> caps_ok pc' \<and> hp_ok hp' = hp_ok hp \<and>
    (\<forall>j<LK_PG_MAX_INFLIGHT. if j < n then rescued slot e (hp_ok hp) (unit_at pc j) (unit_at pc' j)
       else unit_at pc' j = unit_at pc j)"
  using assms(1,4)
proof (induction n arbitrary: pc' hp')
  case 0
  then show ?case using assms(2) by (simp add: ring_only_def)
next
  case (Suc n)
  obtain pc1 hp1 where f: "fold (rescue_step slot e) [0..<n] (pc, hp) = (pc1, hp1)" by fastforce
  obtain u hp2 where r: "rescue_unit slot e (unit_at pc1 n) hp1 = (u, hp2)" by fastforce
  have IH: "ring_only pc pc1 \<and> caps_ok pc1 \<and> hp_ok hp1 = hp_ok hp \<and>
    (\<forall>j<LK_PG_MAX_INFLIGHT. if j < n then rescued slot e (hp_ok hp) (unit_at pc j) (unit_at pc1 j)
       else unit_at pc1 j = unit_at pc j)"
    using Suc f by simp
  have "rescue_step slot e n (pc1, hp1) = (upd_unit n (\<lambda>_. u) pc1, hp2)"
    using r by (simp add: rescue_step_def)
  then have e: "pc' = upd_unit n (\<lambda>_. u) pc1" "hp' = hp2"
    using Suc.prems(2) f by simp_all
  have "rescued slot e (hp_ok hp) (unit_at pc n) u"
    unfolding rescued_def using r IH Suc.prems(1) by (intro exI [of _ hp1] exI [of _ hp2]) simp
  moreover have "caps_ok pc'"
    unfolding e using IH rescue_unit_cap [OF r _ assms(3)] by (auto intro!: caps_upd simp: caps_unit)
  ultimately show ?case
    using IH e ring_only_upd [of pc pc1] rescue_unit_heap [OF r] Suc.prems(1)
    by (simp add: unit_at_upd less_Suc_eq)
qed

text \<open>One unit, seen through the invariant: its reference to the slot is gone, its text is the same or
  reported as unknown.\<close>

lemma rescued_unit:
  assumes res: "rescued slot e outcomes u u'" and ok: "unit_ok (Some q) u" and e: "e = pr_e q slot" "entry_ok e"
    and cap: "u_own_cap u \<le> LK_MSG_BODY_MAX" and pc: "pc_prep pc = Some q" "pc_prep pc' = Some q"
  shows "unit_ok (Some q) u'" "u_prep_idx u' \<noteq> Some slot" "u_kind u' = u_kind u" "u_ts_start u' = u_ts_start u"
    "fill_text pc' u' = fill_text pc u \<or> fill_text pc' u' = None"
    "(\<forall>n. outcomes n) \<Longrightarrow> fill_text pc' u' = fill_text pc u"
proof -
  obtain hp hp' where r: "rescue_unit slot e u hp = (u', hp')" and o: "hp_ok hp = outcomes"
    using res by (auto simp: rescued_def)
  have all: "unit_ok (Some q) u' \<and> u_prep_idx u' \<noteq> Some slot \<and> u_kind u' = u_kind u \<and> u_ts_start u' = u_ts_start u
    \<and> (fill_text pc' u' = fill_text pc u \<or> fill_text pc' u' = None)
    \<and> ((\<forall>n. outcomes n) \<longrightarrow> fill_text pc' u' = fill_text pc u)"
  proof (cases "u_prep_idx u = Some slot")
    case True
    then have g: "u_prep_gen u = e_gen e" "e_used e" using ok e by (auto simp: unit_ok_def ref_ok_def)
    note p = rescue_unit_props [OF r True g(1) cap e(2)]
    have "fill_text pc u = (if bit (u_flags u) 2 \<or> e_text e = [] then None else Some (e_text e))"
      using True g e pc by (simp add: fill_text_def flag_simps Let_def)
    moreover have "fill_text pc' u' = (if bit (u_flags u') 2 \<or> u_own_text u' = [] then None else Some (u_own_text u'))"
      using p(2) by (simp add: fill_text_def flag_simps)
    moreover have "unit_ok (Some q) u'" using ok p(2,3,6) by (simp add: unit_ok_def)
    ultimately show ?thesis using p(2-4,7,8) o by auto
  next
    case False
    then have "u' = u" using r rescue_unit_skip [of u slot e hp] by auto
    then show ?thesis using False ok pc by (simp add: fill_text_def)
  qed
  then show "unit_ok (Some q) u'" "u_prep_idx u' \<noteq> Some slot" "u_kind u' = u_kind u" "u_ts_start u' = u_ts_start u"
    "fill_text pc' u' = fill_text pc u \<or> fill_text pc' u' = None"
    "(\<forall>n. outcomes n) \<Longrightarrow> fill_text pc' u' = fill_text pc u" by (elim conjE; simp)+
qed

text \<open>What a unit of the batch must keep while others come, go or change: its kind, its start time, its
  text. \<open>mem\<close> says that no allocation failed; otherwise the text may turn unknown.\<close>

definition unit_kept :: "bool \<Rightarrow> pg_conn \<Rightarrow> pg_conn \<Rightarrow> nat \<Rightarrow> bool" where
  "unit_kept mem pc pc' i \<longleftrightarrow>
     u_kind (unit_at pc' i) = u_kind (unit_at pc i) \<and> u_ts_start (unit_at pc' i) = u_ts_start (unit_at pc i) \<and>
     (fill_text pc' (unit_at pc' i) = fill_text pc (unit_at pc i) \<or>
      \<not> mem \<and> fill_text pc' (unit_at pc' i) = None)"

lemma unit_kept_refl [simp]: "unit_kept mem pc pc i"
  by (simp add: unit_kept_def)

lemma unit_kept_trans: "unit_kept mem pc pc' i \<Longrightarrow> unit_kept mem pc' pc'' i \<Longrightarrow> unit_kept mem pc pc'' i"
  by (auto simp: unit_kept_def)

lemma rescue_refs:
  assumes ok: "list_all (unit_ok (Some q)) (batch pc)" and n: "pc_count pc \<le> LK_PG_MAX_INFLIGHT" and c: "caps_ok pc"
    and e: "entry_ok (pr_e q slot)" and q: "pc_prep pc = Some q" and r: "pg_query_rescue_refs pc slot hp = (pc', hp')"
  shows "ring_only pc pc'" "hp_ok hp' = hp_ok hp" "caps_ok pc'" "list_all (unit_ok (Some q)) (batch pc')"
    "\<And>i. i < pc_count pc \<Longrightarrow> u_prep_idx (unit_at pc' i) \<noteq> Some slot \<and> unit_kept (heap_never_fails hp) pc pc' i"
proof -
  have f: "ring_only pc pc' \<and> caps_ok pc' \<and> hp_ok hp' = hp_ok hp \<and>
    (\<forall>j<LK_PG_MAX_INFLIGHT. if j < pc_count pc then rescued slot (pr_e q slot) (hp_ok hp) (unit_at pc j) (unit_at pc' j)
       else unit_at pc' j = unit_at pc j)"
    using rescue_fold [OF n c e] r q by (simp add: pg_query_rescue_refs_def)
  then show ro: "ring_only pc pc'" "hp_ok hp' = hp_ok hp" "caps_ok pc'" by auto
  note ro = ring_only_simps [OF ro(1)]
  have u: "unit_ok (Some q) (unit_at pc' i)" "u_prep_idx (unit_at pc' i) \<noteq> Some slot \<and> unit_kept (heap_never_fails hp) pc pc' i"
    if i: "i < pc_count pc" for i
  proof -
    have "rescued slot (pr_e q slot) (hp_ok hp) (unit_at pc i) (unit_at pc' i)" using f i n by simp
    note k = rescued_unit [OF this _ refl e caps_unit [OF c] q, of pc', simplified ro q]
    have "unit_ok (Some q) (unit_at pc i)" using ok i by (simp add: list_all_length)
    note k = k [OF this refl]
    show "unit_ok (Some q) (unit_at pc' i)" "u_prep_idx (unit_at pc' i) \<noteq> Some slot \<and> unit_kept (heap_never_fails hp) pc pc' i"
      using k by (auto simp: unit_kept_def)
  qed
  show "u_prep_idx (unit_at pc' i) \<noteq> Some slot \<and> unit_kept (heap_never_fails hp) pc pc' i" if "i < pc_count pc" for i
    using u(2) that .
  show "list_all (unit_ok (Some q)) (batch pc')"
    using u(1) by (simp add: list_all_length ro)
qed

text \<open>The contract of a cache operation towards the query machine: only the ring's units and the cache
  change, the invariant stays, every unit in flight keeps its text.\<close>

definition cache_step :: "bool \<Rightarrow> pg_conn \<Rightarrow> pg_conn \<Rightarrow> bool" where
  "cache_step mem pc pc' \<longleftrightarrow> pc' = pc\<lparr>pc_ring := pc_ring pc', pc_prep := pc_prep pc'\<rparr> \<and> pg_inv pc' \<and>
     (\<forall>i<pc_count pc. unit_kept mem pc pc' i)"

lemma fill_text_entries:
  "pc_prep pc = Some q \<Longrightarrow> pr_e q' = pr_e q \<Longrightarrow> fill_text (pc\<lparr>pc_prep := Some q'\<rparr>) u = fill_text pc u"
  by (simp add: fill_text_def split: option.split)

lemma unit_ok_entries: "pr_e q' = pr_e q \<Longrightarrow> unit_ok (Some q') = unit_ok (Some q)"
  by (simp add: unit_ok_def ref_ok_def fun_eq_iff split: option.split)

text \<open>Rescue a slot's references, then replace the slot. \<open>q1\<close> is the cache with its counters already moved.\<close>

lemma replace_slot:
  assumes inv: "pg_inv pc" and q: "pc_prep pc = Some q" and q1: "pr_e q1 = pr_e q"
    and r: "pg_query_rescue_refs (pc\<lparr>pc_prep := Some q1\<rparr>) slot hp = (pc2, hp2)"
    and q2: "cache_ok q2" "\<And>i. i \<noteq> slot \<Longrightarrow> pr_e q2 i = pr_e q i"
  shows "cache_step (heap_never_fails hp) pc (pc2\<lparr>pc_prep := Some q2\<rparr>)" "hp_ok hp2 = hp_ok hp"
proof -
  let ?pc1 = "pc\<lparr>pc_prep := Some q1\<rparr>" and ?mem = "heap_never_fails hp" and ?pc' = "pc2\<lparr>pc_prep := Some q2\<rparr>"
  have "list_all (unit_ok (Some q1)) (batch ?pc1)" "pc_count ?pc1 \<le> LK_PG_MAX_INFLIGHT" "caps_ok ?pc1"
    "entry_ok (pr_e q1 slot)" "pc_prep ?pc1 = Some q1"
    using inv q q1 unit_ok_entries [OF q1] by (auto simp: pg_inv_def ring_ok_def caps_ok_def cache_ok_def)
  note rr = rescue_refs [OF this r]
  show "hp_ok hp2 = hp_ok hp" by (fact rr(2))
  have ro: "pc_ring pc2 = pc_ring ?pc'" "pc2 = ?pc1\<lparr>pc_ring := pc_ring pc2\<rparr>"
    using rr(1) by (simp_all add: ring_only_def)
  note f = ring_only_simps [OF rr(1)]
  have u: "unit_ok (Some q2) (unit_at pc2 i) \<and> unit_kept ?mem pc ?pc' i" if i: "i < pc_count pc" for i
  proof -
    have no: "u_prep_idx (unit_at pc2 i) \<noteq> Some slot" and k: "unit_kept ?mem ?pc1 pc2 i" using rr(5) [of i] i by auto
    have "unit_ok (Some q1) (unit_at pc2 i)" using rr(4) i f by (simp add: list_all_length)
    then have "unit_ok (Some q2) (unit_at pc2 i)"
      using no q2(2) q1 by (auto simp: unit_ok_def ref_ok_def split: option.splits)
    moreover have "fill_text ?pc' (unit_at pc2 i) = fill_text pc2 (unit_at pc2 i)"
      using no q2(2) q1 f(6) by (auto simp: fill_text_def Let_def split: option.split)
    ultimately show ?thesis using k fill_text_entries [OF q q1] by (simp add: unit_kept_def)
  qed
  have "list_all (unit_ok (Some q2)) (batch ?pc')"
    using u f by (simp add: list_all_length)
  then have "pg_inv ?pc'"
    using inv rr(3) q2(1) f by (simp add: pg_inv_def ring_ok_def caps_ok_def)
  moreover have "?pc' = pc\<lparr>pc_ring := pc_ring ?pc', pc_prep := pc_prep ?pc'\<rparr>"
    by (subst ro(2)) simp
  ultimately show "cache_step ?mem pc ?pc'" using u by (simp add: cache_step_def)
qed

lemma cache_step_simps:
  assumes "cache_step mem pc pc'"
  shows "pc_head pc' = pc_head pc" "pc_count pc' = pc_count pc" "pc_nclosed pc' = pc_nclosed pc"
    "pc_lossy pc' = pc_lossy pc" "pc_degraded pc' = pc_degraded pc"
    "pc_phase pc' = pc_phase pc" "pc_session pc' = pc_session pc" "pc_msgs pc' = pc_msgs pc"
    "pc_txn_status pc' = pc_txn_status pc" "pc_txn_start pc' = pc_txn_start pc"
  by (subst assms [unfolded cache_step_def, THEN conjunct1], simp)+

lemma cache_step_refl: "pg_inv pc \<Longrightarrow> cache_step mem pc pc"
  by (simp add: cache_step_def)

lemma cache_step_kept: "cache_step mem pc pc' \<Longrightarrow> i < pc_count pc \<Longrightarrow> unit_kept mem pc pc' i"
  by (simp add: cache_step_def)

lemma cache_step_inv: "cache_step mem pc pc' \<Longrightarrow> pg_inv pc'"
  by (simp add: cache_step_def)

end
