(* ===== verification/Pg_Session.thy ===== *)
theory Pg_Session
  imports Pg_State
begin

text \<open>
  Startup, authentication and the session labels: src/src/proto/pg/pg_session.c. The body of a
  PasswordMessage never reaches these functions.
\<close>

section \<open>Definitions\<close>

text \<open>\<open>copy_field\<close> into a \<open>char[sz]\<close>: the C string the field then holds.\<close>

definition copy_field :: "nat \<Rightarrow> bytes \<Rightarrow> bytes" where
  "copy_field sz src = take (sz - 1) src"

definition key_is :: "bytes \<Rightarrow> string \<Rightarrow> bool" where
  "key_is key s \<longleftrightarrow> key = lit s"

definition set_param :: "bytes \<Rightarrow> bytes \<Rightarrow> lk_session \<Rightarrow> lk_session" where
  "set_param key val s =
     (if key_is key ''user'' then s\<lparr>se_user := copy_field 64 val\<rparr>
      else if key_is key ''database'' then s\<lparr>se_database := copy_field 64 val\<rparr>
      else if key_is key ''application_name'' then s\<lparr>se_app := copy_field 64 val\<rparr>
      else s)"

function parse_params :: "wire \<Rightarrow> lk_session \<Rightarrow> lk_session" where
  "parse_params w s =
     (case pg_wire_cstring w of (key_ok, key, w1) \<Rightarrow>
        if \<not> key_ok then s
        else if key = [] then s
        else (case pg_wire_cstring w1 of (val_ok, val, w2) \<Rightarrow>
          let s = set_param key val s in
          if \<not> val_ok then s else parse_params w2 s))"
  by pat_completeness auto
termination
  by (relation "measure (\<lambda>(w, s). length (w_rest w))")
    (auto dest!: wire_cstring_progress [OF sym] intro: less_trans)

declare parse_params.simps [simp del]

definition emit_cancel :: "lk_proto \<Rightarrow> ('ps, 'fs) lk_conn \<Rightarrow> pg_conn \<Rightarrow> lk_proto \<times> pg_conn" where
  "emit_cancel p c pc =
     (let obs = \<lparr>o_ts_start = 0, o_ts_first_row = 0, o_ts_complete = 0, o_ts_ready = 0, o_text = None,
                o_rows = 0, o_bytes = 0, o_sqlstate = [], o_err_code = 0, o_kind = LK_Q_CANCEL,
                o_txn_status = 0, o_flags = 0\<rparr>;
          pc = pc\<lparr>pc_phase := PG_PH_IGNORE\<rparr>;
          p = upd_pst (\<lambda>s. s\<lparr>ps_queries := ps_queries s + 1\<rparr>) p
      in (call_query p c (pc_session pc) obs, pc))"

definition pg_session_startup :: "lk_proto \<Rightarrow> ('ps, 'fs) lk_conn \<Rightarrow> pg_conn \<Rightarrow> lk_msg \<Rightarrow> lk_proto \<times> pg_conn" where
  "pg_session_startup p c pc m =
     (let (ok, code, w) = pg_wire_get_u32 (pg_wire_init (m_body m))
      in if \<not> ok then (p, pc)
         else if code = LK_PG_PROTO_V3 then
           (p, pc\<lparr>pc_session := (parse_params w (pc_session pc))\<lparr>se_complete := \<not> m_trunc m\<rparr>,
                  pc_phase := PG_PH_AUTH\<rparr>)
         else if code = LK_PG_CANCEL_REQUEST then emit_cancel p c pc
         else (p, pc))"

definition pg_session_auth :: "lk_proto \<Rightarrow> ('ps, 'fs) lk_conn \<Rightarrow> pg_conn \<Rightarrow> lk_msg \<Rightarrow> lk_proto \<times> pg_conn" where
  "pg_session_auth p c pc m =
     (if pc_phase pc \<noteq> PG_PH_AUTH then (p, pc)
      else
        (let (ok, code, w) = pg_wire_get_u32 (pg_wire_init (m_body m))
         in if \<not> ok then (p, pc)
            else if code \<noteq> 0 then (p, pc)
            else
              (let pc = pc\<lparr>pc_phase := PG_PH_READY\<rparr>;
                   p = upd_pst (\<lambda>s. s\<lparr>ps_sessions := ps_sessions s + 1\<rparr>) p
               in (call_session p c (pc_session pc), pc))))"

definition pg_session_param_status :: "pg_conn \<Rightarrow> lk_msg \<Rightarrow> pg_conn" where
  "pg_session_param_status pc m =
     (let (key_ok, key, w) = pg_wire_cstring (pg_wire_init (m_body m));
          (val_ok, val, w) = pg_wire_cstring w
      in if \<not> key_ok \<or> \<not> val_ok then pc
         else if key_is key ''server_version''
         then pc\<lparr>pc_session := (pc_session pc)\<lparr>se_server_version := copy_field 16 val\<rparr>\<rparr>
         else pc)"

end
