(* ===== verification/Pg_Prep.thy ===== *)
theory Pg_Prep
  imports Pg_State
begin

text \<open>
  The prepared-statement cache: src/src/proto/pg/pg_prep.c. The functions that only see the
  connection take the heap beside it.
\<close>

section \<open>Definitions\<close>

definition find_by_name :: "pg_prep_cache \<Rightarrow> bytes \<Rightarrow> nat option" where
  "find_by_name pr name = List.find (\<lambda>i. e_used (pr_e pr i) \<and> e_name (pr_e pr i) = name) [0..<LK_PG_PREP_CACHE]"

definition fill_slot :: "pg_prep \<Rightarrow> bytes \<Rightarrow> bytes \<Rightarrow> bool \<Rightarrow> u64 \<Rightarrow> heap \<Rightarrow> pg_prep \<times> heap" where
  "fill_slot e name txt trunc lru hp =
     (let t = min (length txt) LK_MSG_BODY_MAX;
          e = e\<lparr>e_used := True, e_trunc := trunc, e_gen := e_gen e + 1, e_lru := lru,
                e_name := take 63 name\<rparr>
      in if e_text_cap e < t then
           (let (ok, hp) = hp_realloc (e_text_cap e = 0) hp
            in if \<not> ok then (e\<lparr>e_text := []\<rparr>, hp)
               else (e\<lparr>e_text_cap := t, e_text := take t txt\<rparr>, hp))
         else (e\<lparr>e_text := take t txt\<rparr>, hp))"

definition lru_slot :: "pg_prep_cache \<Rightarrow> nat" where
  "lru_slot pr = argmin_from (\<lambda>i. e_lru (pr_e pr i)) [1..<LK_PG_PREP_CACHE] 0"

definition pick_slot :: "lk_proto \<Rightarrow> pg_prep_cache \<Rightarrow> nat \<times> lk_proto \<times> pg_prep_cache" where
  "pick_slot p pr =
     (case List.find (\<lambda>i. \<not> e_used (pr_e pr i)) [0..<LK_PG_PREP_CACHE] of
        Some i \<Rightarrow> (i, p, pr\<lparr>pr_count := pr_count pr + 1\<rparr>)
      | None \<Rightarrow> (lru_slot pr, upd_pst (\<lambda>s. s\<lparr>ps_prep_evictions := ps_prep_evictions s + 1\<rparr>) p, pr))"

text \<open>The slot a Parse of \<open>name\<close> gets.\<close>

definition claim_slot :: "lk_proto \<Rightarrow> pg_prep_cache \<Rightarrow> bytes \<Rightarrow> nat \<times> lk_proto \<times> pg_prep_cache" where
  "claim_slot p q name = (case find_by_name q name of Some i \<Rightarrow> (i, p, q) | None \<Rightarrow> pick_slot p q)"

text \<open>\<open>if (!pc->prep) pc->prep = calloc(...)\<close>: the cache, if there is one now.\<close>

definition prep_get :: "lk_proto \<Rightarrow> pg_conn \<Rightarrow> pg_prep_cache option \<times> lk_proto \<times> pg_conn" where
  "prep_get p pc =
     (case pc_prep pc of
        Some pr \<Rightarrow> (Some pr, p, pc)
      | None \<Rightarrow>
          (let (ok, hp) = hp_alloc (p_heap p); p = p\<lparr>p_heap := hp\<rparr>
           in if ok then (Some pg_prep_cache_zero, p, pc\<lparr>pc_prep := Some pg_prep_cache_zero\<rparr>)
              else (None, p, pc)))"

text \<open>Claim a slot for the name, rescue its references, fill it.\<close>

definition prep_store :: "lk_proto \<Rightarrow> pg_conn \<Rightarrow> pg_prep_cache \<Rightarrow> bytes \<Rightarrow> bytes \<Rightarrow> bool \<Rightarrow> lk_proto \<times> pg_conn" where
  "prep_store p pc pr name query trunc =
     (let (slot, p, pr) = claim_slot p pr name;
          (pc, hp) = pg_query_rescue_refs (pc\<lparr>pc_prep := Some pr\<rparr>) slot (p_heap p);
          clock = pr_clock pr + 1;
          (e, hp) = fill_slot (pr_e pr slot) name query trunc clock hp
      in (p\<lparr>p_heap := hp\<rparr>, pc\<lparr>pc_prep := Some (pr\<lparr>pr_e := (pr_e pr)(slot := e), pr_clock := clock\<rparr>)\<rparr>))"

definition pg_prep_parse :: "lk_proto \<Rightarrow> pg_conn \<Rightarrow> lk_msg \<Rightarrow> lk_proto \<times> pg_conn" where
  "pg_prep_parse p pc m =
     (let (name_ok, name, w) = pg_wire_cstring (pg_wire_init (m_body m))
      in if \<not> name_ok then (p, pc)
         else
           (let (have_query, query, w) = pg_wire_cstring w;
                trunc = (\<not> have_query \<or> m_trunc m);
                (pr, p, pc) = prep_get p pc
            in case pr of None \<Rightarrow> (p, pc) | Some pr \<Rightarrow> prep_store p pc pr name query trunc))"

definition prep_drop :: "pg_conn \<Rightarrow> pg_prep_cache \<Rightarrow> nat \<Rightarrow> heap \<Rightarrow> pg_conn \<times> heap" where
  "prep_drop pc pr slot hp =
     (let (pc, hp) = pg_query_rescue_refs pc slot hp;
          e = pr_e pr slot;
          e = e\<lparr>e_used := False, e_gen := e_gen e + 1, e_name := [], e_text := []\<rparr>
      in (pc\<lparr>pc_prep := Some (pr\<lparr>pr_e := (pr_e pr)(slot := e), pr_count := pr_count pr - 1\<rparr>)\<rparr>, hp))"

definition pg_prep_close :: "pg_conn \<Rightarrow> lk_msg \<Rightarrow> heap \<Rightarrow> pg_conn \<times> heap" where
  "pg_prep_close pc m hp =
     (let (kind_ok, kind, w) = pg_wire_get_u8 (pg_wire_init (m_body m))
      in if \<not> kind_ok \<or> kind \<noteq> ch CHR ''S'' then (pc, hp)
         else
           (let (name_ok, name, w) = pg_wire_cstring w
            in if \<not> name_ok then (pc, hp)
               else (case pc_prep pc of
                   None \<Rightarrow> (pc, hp)
                 | Some pr \<Rightarrow> (case find_by_name pr name of
                       None \<Rightarrow> (pc, hp)
                     | Some slot \<Rightarrow> prep_drop pc pr slot hp))))"

text \<open>The slot, its generation and its truncation flag.\<close>

definition pg_prep_lookup :: "pg_conn \<Rightarrow> bytes \<Rightarrow> (nat \<times> u32 \<times> bool) option \<times> pg_conn" where
  "pg_prep_lookup pc name =
     (case pc_prep pc of
        None \<Rightarrow> (None, pc)
      | Some pr \<Rightarrow>
          (case find_by_name pr name of
             None \<Rightarrow> (None, pc)
           | Some slot \<Rightarrow>
               (let clock = pr_clock pr + 1;
                    e = (pr_e pr slot)\<lparr>e_lru := clock\<rparr>
                in (Some (slot, e_gen e, e_trunc e),
                    pc\<lparr>pc_prep := Some (pr\<lparr>pr_e := (pr_e pr)(slot := e), pr_clock := clock\<rparr>)\<rparr>))))"

definition pg_prep_free :: "pg_conn \<Rightarrow> heap \<Rightarrow> pg_conn \<times> heap" where
  "pg_prep_free pc hp =
     (case pc_prep pc of
        None \<Rightarrow> (pc, hp)
      | Some pr \<Rightarrow>
          (pc\<lparr>pc_prep := None\<rparr>,
           hp_free (fold (\<lambda>i. free_text (e_text_cap (pr_e pr i))) [0..<LK_PG_PREP_CACHE] hp)))"

section \<open>Slots\<close>

lemma find_by_name_Some:
  "find_by_name q name = Some i \<longleftrightarrow> i < LK_PG_PREP_CACHE \<and> e_used (pr_e q i) \<and> e_name (pr_e q i) = name
     \<and> (\<forall>j<i. \<not> (e_used (pr_e q j) \<and> e_name (pr_e q j) = name))"
  by (simp add: find_by_name_def find_upt_Some)

lemma find_by_name_None:
  "find_by_name q name = None \<longleftrightarrow> (\<forall>i<LK_PG_PREP_CACHE. \<not> (e_used (pr_e q i) \<and> e_name (pr_e q i) = name))"
  by (simp add: find_by_name_def find_upt_None)

lemma lru_slot_less: "lru_slot q < LK_PG_PREP_CACHE"
  using argmin_from_in [of "\<lambda>i. e_lru (pr_e q i)" "[1..<LK_PG_PREP_CACHE]" 0]
  by (auto simp: lru_slot_def LK_PG_PREP_CACHE_def)

lemma lru_slot_least: "i < LK_PG_PREP_CACHE \<Longrightarrow> e_lru (pr_e q (lru_slot q)) \<le> e_lru (pr_e q i)"
  unfolding lru_slot_def by (rule argmin_from_le) auto

lemma finite_used [simp]: "finite (used_slots q)"
  by (simp add: used_slots_def)

lemma claim_slot_props:
  assumes "claim_slot p q name = (slot, p', q')" and "pr_count q = card (used_slots q)"
  shows "slot < LK_PG_PREP_CACHE" "pr_e q' = pr_e q" "pr_clock q' = pr_clock q"
    "pr_count q' = card (insert slot (used_slots q))" "p_heap p' = p_heap p" "p_calls p' = p_calls p"
    "\<forall>i<LK_PG_PREP_CACHE. i \<noteq> slot \<longrightarrow> e_used (pr_e q i) \<longrightarrow> e_name (pr_e q i) = name \<longrightarrow> slot < i"
proof -
  have "slot < LK_PG_PREP_CACHE \<and> pr_e q' = pr_e q \<and> pr_clock q' = pr_clock q \<and>
    pr_count q' = card (insert slot (used_slots q)) \<and> p_heap p' = p_heap p \<and> p_calls p' = p_calls p \<and>
    (\<forall>i<LK_PG_PREP_CACHE. i \<noteq> slot \<longrightarrow> e_used (pr_e q i) \<longrightarrow> e_name (pr_e q i) = name \<longrightarrow> slot < i)"
  proof (cases "find_by_name q name")
    case (Some i)
    then have "i \<in> used_slots q" by (simp add: find_by_name_Some used_slots_def)
    then show ?thesis using assms Some by (auto simp: claim_slot_def insert_absorb find_by_name_Some intro: linorder_neqE_nat)
  next
    case None
    show ?thesis
    proof (cases "List.find (\<lambda>i. \<not> e_used (pr_e q i)) [0..<LK_PG_PREP_CACHE]")
      case (Some i)
      then have "i \<notin> used_slots q" "i < LK_PG_PREP_CACHE" by (auto simp: find_upt_Some used_slots_def)
      then show ?thesis using assms Some None by (auto simp: claim_slot_def pick_slot_def find_by_name_None)
    next
      case F: None
      then have "lru_slot q \<in> used_slots q" using lru_slot_less [of q] by (auto simp: find_upt_None used_slots_def)
      then show ?thesis using assms F None lru_slot_less [of q]
        by (auto simp: claim_slot_def pick_slot_def insert_absorb find_by_name_None)
    qed
  qed
  then show "slot < LK_PG_PREP_CACHE" "pr_e q' = pr_e q" "pr_clock q' = pr_clock q"
    "pr_count q' = card (insert slot (used_slots q))" "p_heap p' = p_heap p" "p_calls p' = p_calls p"
    "\<forall>i<LK_PG_PREP_CACHE. i \<noteq> slot \<longrightarrow> e_used (pr_e q i) \<longrightarrow> e_name (pr_e q i) = name \<longrightarrow> slot < i" by blast+
qed

lemma fill_slot_props:
  assumes "fill_slot e name txt trunc lru hp = (e', hp')" and "entry_ok e"
  shows "entry_ok e'" "e_used e'" "e_gen e' = e_gen e + 1" "e_name e' = take 63 name" "e_trunc e' = trunc" "e_lru e' = lru"
    "hp_ok hp' = hp_ok hp" "e_text e' = take LK_MSG_BODY_MAX txt \<or> e_text e' = []"
    "heap_never_fails hp \<Longrightarrow> e_text e' = take LK_MSG_BODY_MAX txt"
  using assms
  by (auto simp: fill_slot_def Let_def entry_ok_def hp_realloc_def min_def split: if_splits prod.splits)

section \<open>Every operation keeps the units' text\<close>

lemma claim_slot_silent: "claim_slot p q name = (slot, p', q') \<Longrightarrow> silent p p'"
  by (auto simp: claim_slot_def pick_slot_def silent_upd split: option.splits)

lemma prep_store_step:
  assumes inv: "pg_inv pc" and q: "pc_prep pc = Some q" and st: "prep_store p pc q name query trunc = (p', pc')"
  shows "cache_step (heap_never_fails (p_heap p)) pc pc'" "silent p p'" "hp_ok (p_heap p') = hp_ok (p_heap p)"
proof -
  have cq: "cache_ok q" using inv q by (simp add: pg_inv_def)
  obtain slot p1 q1 where c: "claim_slot p q name = (slot, p1, q1)" by (metis prod_cases3)
  note cp = claim_slot_props [OF c cq [unfolded cache_ok_def, THEN conjunct2]]
  obtain pc2 hp2 where r: "pg_query_rescue_refs (pc\<lparr>pc_prep := Some q1\<rparr>) slot (p_heap p1) = (pc2, hp2)" by fastforce
  obtain e hp3 where f: "fill_slot (pr_e q1 slot) name query trunc (pr_clock q1 + 1) hp2 = (e, hp3)" by fastforce
  let ?q2 = "q1\<lparr>pr_e := (pr_e q1)(slot := e), pr_clock := pr_clock q1 + 1\<rparr>"
  have res: "p' = p1\<lparr>p_heap := hp3\<rparr>" "pc' = pc2\<lparr>pc_prep := Some ?q2\<rparr>"
    using st c r f by (auto simp: prep_store_def Let_def)
  have en: "entry_ok (pr_e q1 i)" for i using cq cp(2) by (simp add: cache_ok_def)
  have "used_slots ?q2 = insert slot (used_slots q)"
    using fill_slot_props(2) [OF f en] cp(1,2) by (auto simp: used_slots_def)
  then have "cache_ok ?q2"
    using fill_slot_props(1) [OF f en] en cp(4) by (simp add: cache_ok_def)
  note rs = replace_slot [OF inv q cp(2) r this]
  show "cache_step (heap_never_fails (p_heap p)) pc pc'"
    unfolding res cp(5) [symmetric] using rs(1) cp(2) by simp
  show "silent p p'" using res claim_slot_silent [OF c] by simp
  show "hp_ok (p_heap p') = hp_ok (p_heap p)"
    using res fill_slot_props(7) [OF f en] rs(2) cp(2,5) by simp
qed

lemma prep_get_step:
  assumes "pg_inv pc" and "prep_get p pc = (r, p', pc')"
  shows "cache_step mem pc pc'" "silent p p'" "hp_ok (p_heap p') = hp_ok (p_heap p)" "pc_prep pc' = r"
proof -
  have zero: "cache_ok pg_prep_cache_zero"
    by (simp add: cache_ok_def pg_prep_cache_zero_def entry_ok_def pg_prep_zero_def used_slots_def)
  have "cache_step mem pc (pc\<lparr>pc_prep := Some pg_prep_cache_zero\<rparr>)" if n: "pc_prep pc = None"
  proof -
    have u: "unit_ok None (unit_at pc i) \<and> u_prep_idx (unit_at pc i) = None" if "i < pc_count pc" for i
      using pg_inv_unit [OF assms(1) that] n by (simp add: unit_ok_def ref_ok_def split: option.splits)
    then have "list_all (unit_ok (Some pg_prep_cache_zero)) (batch pc)"
      by (simp add: list_all_length unit_ok_def)
    then have "pg_inv (pc\<lparr>pc_prep := Some pg_prep_cache_zero\<rparr>)"
      using assms(1) zero by (simp add: pg_inv_def ring_ok_def caps_ok_def)
    moreover have "fill_text (pc\<lparr>pc_prep := Some pg_prep_cache_zero\<rparr>) (unit_at pc i) = fill_text pc (unit_at pc i)"
      if "i < pc_count pc" for i
      using u [OF that] by (simp add: fill_text_def)
    ultimately show ?thesis by (simp add: cache_step_def unit_kept_def)
  qed
  then show "cache_step mem pc pc'" "silent p p'" "hp_ok (p_heap p') = hp_ok (p_heap p)" "pc_prep pc' = r"
    using assms cache_step_refl [OF assms(1)]
    by (auto simp: prep_get_def hp_alloc_def Let_def split: option.splits if_splits)
qed

lemma cache_step_trans:
  assumes "cache_step mem pc pc'" and "cache_step mem pc' pc''"
  shows "cache_step mem pc pc''"
proof -
  obtain r1 q1 r2 q2 where "pc' = pc\<lparr>pc_ring := r1, pc_prep := q1\<rparr>" "pc'' = pc'\<lparr>pc_ring := r2, pc_prep := q2\<rparr>"
    using assms unfolding cache_step_def by blast
  then have "pc'' = pc\<lparr>pc_ring := pc_ring pc'', pc_prep := pc_prep pc''\<rparr>"
    by simp
  then show ?thesis
    using assms cache_step_simps(2) [OF assms(1)] unit_kept_trans by (auto simp: cache_step_def)
qed

lemma pg_prep_parse_step:
  assumes inv: "pg_inv pc" and "pg_prep_parse p pc m = (p', pc')"
  shows "cache_step (heap_never_fails (p_heap p)) pc pc'" "silent p p'" "hp_ok (p_heap p') = hp_ok (p_heap p)"
proof -
  obtain ok name w where n: "pg_wire_cstring (pg_wire_init (m_body m)) = (ok, name, w)" by (metis prod_cases3)
  obtain have_q query w2 where y: "pg_wire_cstring w = (have_q, query, w2)" by (metis prod_cases3)
  obtain r p1 pc1 where g: "prep_get p pc = (r, p1, pc1)" by (metis prod_cases3)
  note gs = prep_get_step [OF inv g]
  have "cache_step (heap_never_fails (p_heap p)) pc pc' \<and> silent p p' \<and> hp_ok (p_heap p') = hp_ok (p_heap p)"
  proof (cases "ok \<and> r \<noteq> None")
    case True
    then obtain q where q: "r = Some q" by auto
    have "prep_store p1 pc1 q name query (\<not> have_q \<or> m_trunc m) = (p', pc')"
      using assms(2) n y g True q by (simp add: pg_prep_parse_def)
    note st = prep_store_step [OF cache_step_inv [OF gs(1)] _ this]
    show ?thesis
      using st gs q cache_step_trans silent_trans by metis
  next
    case False
    then show ?thesis
      using assms n y g gs cache_step_refl [OF inv]
      by (auto simp: pg_prep_parse_def split: if_splits)
  qed
  then show "cache_step (heap_never_fails (p_heap p)) pc pc'" "silent p p'" "hp_ok (p_heap p') = hp_ok (p_heap p)"
    by blast+
qed

lemma pg_prep_close_step:
  assumes inv: "pg_inv pc" and cl: "pg_prep_close pc m hp = (pc', hp')"
  shows "cache_step (heap_never_fails hp) pc pc'" "hp_ok hp' = hp_ok hp"
proof -
  have drop: "cache_step (heap_never_fails hp) pc pc' \<and> hp_ok hp' = hp_ok hp"
    if q: "pc_prep pc = Some q" and f: "find_by_name q name = Some slot" and d: "prep_drop pc q slot hp = (pc', hp')" for q name slot
  proof -
    let ?e = "(pr_e q slot)\<lparr>e_used := False, e_gen := e_gen (pr_e q slot) + 1, e_name := [], e_text := []\<rparr>"
    let ?q2 = "q\<lparr>pr_e := (pr_e q)(slot := ?e), pr_count := pr_count q - 1\<rparr>"
    obtain pc2 hp2 where r: "pg_query_rescue_refs (pc\<lparr>pc_prep := Some q\<rparr>) slot hp = (pc2, hp2)" by fastforce
    have "pc\<lparr>pc_prep := Some q\<rparr> = pc" using q by simp
    then have res: "pc' = pc2\<lparr>pc_prep := Some ?q2\<rparr>" "hp' = hp2"
      using d r by (simp_all add: prep_drop_def Let_def)
    have cq: "cache_ok q" using inv q by (simp add: pg_inv_def)
    have "slot \<in> used_slots q" using f by (simp add: find_by_name_Some used_slots_def)
    moreover have "used_slots ?q2 = used_slots q - {slot}" by (auto simp: used_slots_def)
    ultimately have "cache_ok ?q2"
      using cq by (auto simp: cache_ok_def entry_ok_def)
    from replace_slot [OF inv q refl r this] show ?thesis by (simp add: res)
  qed
  then have "cache_step (heap_never_fails hp) pc pc' \<and> hp_ok hp' = hp_ok hp"
    using cl cache_step_refl [OF inv]
    by (auto simp: pg_prep_close_def Let_def split: if_splits prod.splits option.splits)
  then show "cache_step (heap_never_fails hp) pc pc'" "hp_ok hp' = hp_ok hp" by blast+
qed

lemma pg_prep_lookup_step:
  assumes inv: "pg_inv pc" and l: "pg_prep_lookup pc name = (hit, pc')"
  shows "cache_step mem pc pc'" "hit = Some (i, g, t) \<Longrightarrow> ref_ok (pc_prep pc') i g"
proof -
  have "cache_step mem pc pc' \<and> (hit = Some (i, g, t) \<longrightarrow> ref_ok (pc_prep pc') i g)"
  proof (cases "\<exists>q slot. pc_prep pc = Some q \<and> find_by_name q name = Some slot")
    case True
    then obtain q slot where q: "pc_prep pc = Some q" and f: "find_by_name q name = Some slot" by auto
    let ?q2 = "q\<lparr>pr_e := (pr_e q)(slot := (pr_e q slot)\<lparr>e_lru := pr_clock q + 1\<rparr>), pr_clock := pr_clock q + 1\<rparr>"
    have res: "pc' = pc\<lparr>pc_prep := Some ?q2\<rparr>" "hit = Some (slot, e_gen (pr_e q slot), e_trunc (pr_e q slot))"
      using l q f by (auto simp: pg_prep_lookup_def Let_def)
    have ro: "ref_ok (Some ?q2) = ref_ok (Some q)"
      by (auto simp: ref_ok_def fun_eq_iff)
    then have "unit_ok (Some ?q2) = unit_ok (Some q)"
      by (simp add: unit_ok_def fun_eq_iff split: option.split)
    moreover have "used_slots ?q2 = used_slots q" by (auto simp: used_slots_def)
    then have "cache_ok ?q2" using inv q by (auto simp: pg_inv_def cache_ok_def entry_ok_def)
    ultimately have "pg_inv pc'"
      using inv q by (simp add: res pg_inv_def ring_ok_def caps_ok_def)
    moreover have "fill_text pc' u = fill_text pc u" for u
      using q by (cases "u_prep_idx u = Some slot") (auto simp: res fill_text_def Let_def split: option.split)
    ultimately show ?thesis
      using f ro by (auto simp: res cache_step_def unit_kept_def ref_ok_def find_by_name_Some)
  next
    case False
    then show ?thesis
      using l cache_step_refl [OF inv] by (auto simp: pg_prep_lookup_def split: option.splits)
  qed
  then show "cache_step mem pc pc'" "hit = Some (i, g, t) \<Longrightarrow> ref_ok (pc_prep pc') i g" by blast+
qed

end
