(* ===== verification/Pg_Query.thy ===== *)
theory Pg_Query
  imports Pg_Prep
begin

text \<open>
  The query phase machine: src/src/proto/pg/pg_query.c, on top of the ring of \<open>Pg_State\<close> and the
  cache of \<open>Pg_Prep\<close>.
\<close>

section \<open>The CommandComplete tag\<close>

definition counted :: "bytes list" where
  "counted = [lit ''SELECT'', lit ''INSERT'', lit ''UPDATE'', lit ''DELETE'', lit ''MERGE'', lit ''FETCH'',
     lit ''MOVE'', lit ''COPY'']"

text \<open>The digits of the last token; None is the \<open>return 0\<close> on a byte that is not a digit.\<close>

fun digits :: "bytes \<Rightarrow> u64 \<Rightarrow> u64 option" where
  "digits [] rows = Some rows"
| "digits (b # bs) rows =
     (if b < ch CHR ''0'' \<or> ch CHR ''9'' < b then None
      else digits bs (rows * 10 + ucast (b - ch CHR ''0'')))"

definition last_token :: "bytes \<Rightarrow> bytes" where
  "last_token tag =
     (let sp = ch CHR '' '';
          trimmed = dropWhile (\<lambda>b. b = sp) (rev tag)
      in rev (takeWhile (\<lambda>b. b \<noteq> sp) trimmed))"

definition tag_rows :: "bytes \<Rightarrow> u64" where
  "tag_rows tag =
     (if takeWhile (\<lambda>b. b \<noteq> ch CHR '' '') tag \<notin> set counted then 0
      else (case digits (last_token tag) 0 of None \<Rightarrow> 0 | Some rows \<Rightarrow> rows))"

section \<open>Corruption and emission\<close>

definition corrupt :: "lk_proto \<Rightarrow> pg_conn \<Rightarrow> lk_proto \<times> pg_conn" where
  "corrupt p pc =
     (upd_pst (\<lambda>s. s\<lparr>ps_parse_errors := ps_parse_errors s + 1\<rparr>) p,
      (pg_query_drop_all pc)\<lparr>pc_degraded := True\<rparr>)"

definition unit_obs :: "pg_conn \<Rightarrow> pg_unit \<Rightarrow> u64 \<Rightarrow> u8 \<Rightarrow> lk_query_obs" where
  "unit_obs pc u ready txn_status =
     \<lparr>o_ts_start = u_ts_start u, o_ts_first_row = u_ts_first_row u, o_ts_complete = u_ts_complete u,
      o_ts_ready = ready, o_text = fill_text pc u, o_rows = u_rows u, o_bytes = u_bytes u,
      o_sqlstate = (if has_flag (u_flags u) LK_QO_ERROR then u_sqlstate u else []), o_err_code = 0,
      o_kind = (case u_copy_kind u of None \<Rightarrow> u_kind u | Some k \<Rightarrow> k),
      o_txn_status = txn_status, o_flags = u_flags u\<rparr>"

definition emit_unit :: "lk_proto \<Rightarrow> ('ps, 'fs) lk_conn \<Rightarrow> pg_conn \<Rightarrow> pg_unit \<Rightarrow> u64 \<Rightarrow> u8 \<Rightarrow> lk_proto" where
  "emit_unit p c pc u ready txn_status =
     (let p = upd_pst (\<lambda>s. s\<lparr>ps_queries := ps_queries s + 1\<rparr>) p;
          p = (if has_flag (u_flags u) LK_QO_ERROR
               then upd_pst (\<lambda>s. s\<lparr>ps_errors_sql := ps_errors_sql s + 1\<rparr>) p else p)
      in call_query p c (pc_session pc) (unit_obs pc u ready txn_status))"

definition unit_z_closed :: "pg_unit \<Rightarrow> bool" where
  "unit_z_closed u \<longleftrightarrow> u_kind u = LK_Q_SIMPLE \<or> u_kind u = LK_Q_FUNCTION"

text \<open>\<open>current_unit\<close>: the position of the unit the next reply addresses.\<close>

definition current_unit :: "pg_conn \<Rightarrow> nat option" where
  "current_unit pc = (if pc_count pc \<le> pc_nclosed pc then None else Some (pc_nclosed pc))"

section \<open>Frontend messages\<close>

definition last_unit :: "pg_conn \<Rightarrow> nat" where
  "last_unit pc = pc_count pc - 1"

definition pg_query_simple :: "lk_proto \<Rightarrow> pg_conn \<Rightarrow> lk_msg \<Rightarrow> lk_proto \<times> pg_conn" where
  "pg_query_simple p pc m =
     (if pc_phase pc \<noteq> PG_PH_READY then (p, pc)
      else if pc_degraded pc then (p, pc)
      else
        (let (ok, p, pc) = ring_push p pc
         in if \<not> ok then (p, pc)
            else
              (let u = (unit_at pc (last_unit pc))\<lparr>u_kind := LK_Q_SIMPLE, u_ts_start := m_ts_ns m\<rparr>;
                   (u, hp) = set_simple_text u m (p_heap p);
                   u = (if m_trunc m then or_flag LK_QO_TEXT_TRUNC u else u)
               in (p\<lparr>p_heap := hp\<rparr>, upd_unit (last_unit pc) (\<lambda>_. u) pc))))"

definition pg_query_bind :: "lk_proto \<Rightarrow> pg_conn \<Rightarrow> lk_msg \<Rightarrow> lk_proto \<times> pg_conn" where
  "pg_query_bind p pc m =
     (if pc_phase pc \<noteq> PG_PH_READY then (p, pc)
      else if pc_degraded pc then (p, pc)
      else
        (let (portal_ok, portal, w) = pg_wire_cstring (pg_wire_init (m_body m));
             (have_stmt, stmt, w) = pg_wire_cstring w;
             (ok, p, pc) = ring_push p pc
         in if \<not> ok then (p, pc)
            else
              (let pc = upd_unit (last_unit pc) (\<lambda>u. u\<lparr>u_kind := LK_Q_EXTENDED, u_ts_start := m_ts_ns m\<rparr>) pc
               in if \<not> have_stmt then (p, upd_unit (last_unit pc) (or_flag LK_QO_NO_TEXT) pc)
                  else
                    (let (hit, pc) = pg_prep_lookup pc stmt
                     in case hit of
                          None \<Rightarrow> (p, upd_unit (last_unit pc) (or_flag LK_QO_NO_TEXT) pc)
                        | Some (idx, gen, trunc) \<Rightarrow>
                            (p, upd_unit (last_unit pc) (\<lambda>u.
                               let u = u\<lparr>u_prep_idx := Some idx, u_prep_gen := gen\<rparr>
                               in if trunc then or_flag LK_QO_TEXT_TRUNC u else u) pc)))))"

definition pg_query_function :: "lk_proto \<Rightarrow> pg_conn \<Rightarrow> lk_msg \<Rightarrow> lk_proto \<times> pg_conn" where
  "pg_query_function p pc m =
     (if pc_phase pc \<noteq> PG_PH_READY \<or> pc_degraded pc then (p, pc)
      else
        (let (ok, p, pc) = ring_push p pc
         in if \<not> ok then (p, pc)
            else (p, upd_unit (last_unit pc)
              (\<lambda>u. or_flag LK_QO_NO_TEXT (u\<lparr>u_kind := LK_Q_FUNCTION, u_ts_start := m_ts_ns m\<rparr>)) pc)))"

section \<open>Backend replies\<close>

text \<open>A reply that addresses the current unit, if there is one.\<close>

definition on_current :: "(pg_unit \<Rightarrow> pg_unit) \<Rightarrow> pg_conn \<Rightarrow> pg_conn" where
  "on_current g pc = (case current_unit pc of None \<Rightarrow> pc | Some i \<Rightarrow> upd_unit i g pc)"

text \<open>\<open>pc->nclosed++\<close> unless the unit waits for its Z.\<close>

definition close_unless_z :: "nat \<Rightarrow> pg_conn \<Rightarrow> pg_conn" where
  "close_unless_z i pc = (if unit_z_closed (unit_at pc i) then pc else pc\<lparr>pc_nclosed := pc_nclosed pc + 1\<rparr>)"

definition pg_query_data_row :: "pg_conn \<Rightarrow> lk_msg \<Rightarrow> pg_conn" where
  "pg_query_data_row pc m =
     on_current (\<lambda>u. if u_ts_first_row u = 0 then u\<lparr>u_ts_first_row := m_ts_ns m\<rparr> else u) pc"

definition pg_query_complete :: "lk_proto \<Rightarrow> pg_conn \<Rightarrow> lk_msg \<Rightarrow> lk_proto \<times> pg_conn" where
  "pg_query_complete p pc m =
     (case current_unit pc of
        None \<Rightarrow> (p, pc)
      | Some i \<Rightarrow>
          (let (tag_ok, tag, w) = pg_wire_cstring (pg_wire_init (m_body m))
           in if \<not> tag_ok \<and> \<not> m_trunc m then corrupt p pc
              else
                (let pc = (if tag_ok then upd_unit i (\<lambda>u. u\<lparr>u_rows := u_rows u + tag_rows tag\<rparr>) pc else pc);
                     pc = upd_unit i (\<lambda>u.
                       let u = u\<lparr>u_ts_complete := m_ts_ns m, u_ncomplete := u_ncomplete u + 1\<rparr>
                       in if 1 < u_ncomplete u then or_flag LK_QO_MULTI_STMT u else u) pc
                 in (p, close_unless_z i pc))))"

definition pg_query_empty :: "pg_conn \<Rightarrow> lk_msg \<Rightarrow> pg_conn" where
  "pg_query_empty pc m =
     (case current_unit pc of
        None \<Rightarrow> pc
      | Some i \<Rightarrow>
          close_unless_z i (upd_unit i (\<lambda>u. (or_flag LK_QO_EMPTY u)\<lparr>u_ts_complete := m_ts_ns m,
             u_ncomplete := u_ncomplete u + 1\<rparr>) pc))"

definition pg_query_suspended :: "pg_conn \<Rightarrow> lk_msg \<Rightarrow> pg_conn" where
  "pg_query_suspended pc m =
     (case current_unit pc of
        None \<Rightarrow> pc
      | Some i \<Rightarrow>
          (upd_unit i (\<lambda>u. (or_flag LK_QO_SUSPENDED u)\<lparr>u_ts_complete := m_ts_ns m,
             u_ncomplete := u_ncomplete u + 1\<rparr>) pc)\<lparr>pc_nclosed := pc_nclosed pc + 1\<rparr>)"

text \<open>The field list of an ErrorResponse: the SQLSTATE, given the one the unit had before.\<close>

function error_fields :: "wire \<Rightarrow> bytes \<Rightarrow> bytes" where
  "error_fields w state =
     (case pg_wire_get_u8 w of (field_ok, field, w1) \<Rightarrow>
        if \<not> field_ok \<or> field = 0 then state
        else (case pg_wire_cstring w1 of (val_ok, val, w2) \<Rightarrow>
          if \<not> val_ok then state
          else error_fields w2 (if field = ch CHR ''C'' then take 5 val else state)))"
  by pat_completeness auto
termination
  by (relation "measure (\<lambda>(w, s). length (w_rest w))")
    (auto dest!: wire_cstring_progress [OF sym] wire_u8_progress [OF sym] intro: less_trans)

declare error_fields.simps [simp del]

definition abort_unit :: "pg_unit \<Rightarrow> pg_unit" where
  "abort_unit u = (or_flag LK_QO_ABORTED u)\<lparr>u_ts_complete := 0, u_ts_first_row := 0\<rparr>"

text \<open>\<open>while (pc->nclosed < pc->count)\<close>\<close>

definition abort_tail :: "pg_conn \<Rightarrow> pg_conn" where
  "abort_tail pc =
     (let pc' = fold (\<lambda>i. upd_unit i abort_unit) [pc_nclosed pc..<pc_count pc] pc
      in pc'\<lparr>pc_nclosed := max (pc_nclosed pc) (pc_count pc)\<rparr>)"

definition error_unit :: "lk_msg \<Rightarrow> pg_unit \<Rightarrow> pg_unit" where
  "error_unit m u =
     (or_flag LK_QO_ERROR u)\<lparr>u_sqlstate := error_fields (pg_wire_init (m_body m)) (u_sqlstate u),
        u_ts_complete := m_ts_ns m, u_ncomplete := (if u_ncomplete u = 0 then 1 else u_ncomplete u)\<rparr>"

definition pg_query_error :: "pg_conn \<Rightarrow> lk_msg \<Rightarrow> pg_conn" where
  "pg_query_error pc m =
     (case current_unit pc of
        None \<Rightarrow> pc
      | Some i \<Rightarrow>
          (let pc = upd_unit i (error_unit m) pc
           in if unit_z_closed (unit_at pc i) then pc
              else (abort_tail (pc\<lparr>pc_nclosed := pc_nclosed pc + 1\<rparr>))\<lparr>pc_phase := PG_PH_SKIP_TO_SYNC\<rparr>))"

definition pg_query_func_response :: "pg_conn \<Rightarrow> lk_msg \<Rightarrow> pg_conn" where
  "pg_query_func_response pc m =
     on_current (\<lambda>u. u\<lparr>u_ts_complete := m_ts_ns m, u_ncomplete := u_ncomplete u + 1\<rparr>) pc"

section \<open>COPY\<close>

definition pg_query_copy_begin :: "pg_conn \<Rightarrow> lk_query_kind \<Rightarrow> pg_conn" where
  "pg_query_copy_begin pc copy_kind =
     (let i = current_unit pc;
          pc = pc\<lparr>pc_phase := (if copy_kind = LK_Q_COPY_IN then PG_PH_COPY_IN else PG_PH_COPY_OUT)\<rparr>
      in case i of None \<Rightarrow> pc | Some i \<Rightarrow> upd_unit i (\<lambda>u. u\<lparr>u_copy_kind := Some copy_kind\<rparr>) pc)"

definition pg_query_copy_data :: "pg_conn \<Rightarrow> lk_msg \<Rightarrow> pg_conn" where
  "pg_query_copy_data pc m = on_current (\<lambda>u. u\<lparr>u_bytes := u_bytes u + of_nat (m_len m)\<rparr>) pc"

definition pg_query_copy_both :: "lk_proto \<Rightarrow> ('ps, 'fs) lk_conn \<Rightarrow> pg_conn
    \<Rightarrow> lk_proto \<times> ('ps, 'fs) lk_conn \<times> pg_conn" where
  "pg_query_copy_both p c pc =
     (upd_pst (\<lambda>s. s\<lparr>ps_replication_conns := ps_replication_conns s + 1\<rparr>) p,
      c\<lparr>cn_flags := cn_flags c OR LK_CONN_REPLICATION\<rparr>,
      (pg_query_drop_all pc)\<lparr>pc_phase := PG_PH_IGNORE\<rparr>)"

section \<open>ReadyForQuery\<close>

definition ready_step :: "('ps, 'fs) lk_conn \<Rightarrow> u64 \<Rightarrow> u8 \<Rightarrow> nat \<Rightarrow> lk_proto \<times> pg_conn \<Rightarrow> lk_proto \<times> pg_conn" where
  "ready_step c ts status i s =
     (let (p, pc) = s; u = unit_at pc i
      in if \<not> (i < pc_nclosed pc \<or> unit_z_closed u) then (p, pc)
         else
           (let pc = (if unit_z_closed u \<and> u_ts_complete u = 0
                      then upd_unit i (\<lambda>u. u\<lparr>u_ts_complete := ts\<rparr>) pc else pc);
                u = unit_at pc i
            in (emit_unit p c pc u (if has_flag (u_flags u) LK_QO_ABORTED then 0 else ts) status, pc)))"

definition ready_emit :: "lk_proto \<Rightarrow> ('ps, 'fs) lk_conn \<Rightarrow> pg_conn \<Rightarrow> u64 \<Rightarrow> u8 \<Rightarrow> lk_proto \<times> pg_conn" where
  "ready_emit p c pc ts status =
     (if pc_lossy pc then (p, pc) else fold (ready_step c ts status) [0..<pc_count pc] (p, pc))"

definition ready_boundary :: "pg_conn \<Rightarrow> pg_conn" where
  "ready_boundary pc =
     pc\<lparr>pc_head := 0, pc_count := 0, pc_nclosed := 0, pc_lossy := False, pc_degraded := False,
        pc_phase := (if pc_phase pc = PG_PH_SKIP_TO_SYNC \<or> pc_phase pc = PG_PH_COPY_IN
                        \<or> pc_phase pc = PG_PH_COPY_OUT then PG_PH_READY else pc_phase pc)\<rparr>"

definition ready_txn :: "lk_proto \<Rightarrow> ('ps, 'fs) lk_conn \<Rightarrow> pg_conn \<Rightarrow> u64 \<Rightarrow> u8 \<Rightarrow> lk_proto \<times> pg_conn" where
  "ready_txn p c pc ts status =
     (if status = 0 then (p, pc)
      else
        (let prev = pc_txn_status pc;
             in_txn = (prev = ch CHR ''T'' \<or> prev = ch CHR ''E'')
         in (if status = ch CHR ''I'' \<and> in_txn then call_txn p c (pc_txn_start pc) ts prev else p,
             pc\<lparr>pc_txn_start := (if status = ch CHR ''T'' \<and> \<not> in_txn then ts else pc_txn_start pc),
                pc_txn_status := status\<rparr>)))"

definition pg_query_ready :: "lk_proto \<Rightarrow> ('ps, 'fs) lk_conn \<Rightarrow> pg_conn \<Rightarrow> lk_msg \<Rightarrow> lk_proto \<times> pg_conn" where
  "pg_query_ready p c pc m =
     (let (_, status, w) = pg_wire_get_u8 (pg_wire_init (m_body m));
          (p, pc) = ready_emit p c pc (m_ts_ns m) status;
          pc = ready_boundary pc
      in ready_txn p c pc (m_ts_ns m) status)"

end
