(* ===== verification/Pg_Query_Inv.thy ===== *)
theory Pg_Query_Inv
  imports Pg_Query Pg_Session
begin

text \<open>
  What the query machine keeps: every message handler preserves the connection invariant \<open>pg_inv\<close>,
  and a unit in flight keeps its kind, its start time and its text until the batch ends
  (\<open>live_step\<close>). The end of the batch, \<open>pg_query_ready\<close>, is described as a function of the list of
  units (\<open>batch\<close>).
\<close>

section \<open>Steps inside a batch\<close>

definition live_step :: "bool \<Rightarrow> pg_conn \<Rightarrow> pg_conn \<Rightarrow> bool" where
  "live_step mem pc pc' \<longleftrightarrow> pg_inv pc' \<and> pc_count pc \<le> pc_count pc' \<and> pc_nclosed pc \<le> pc_nclosed pc'
     \<and> pc_degraded pc' = pc_degraded pc \<and> (\<forall>i<pc_count pc. unit_kept mem pc pc' i)"

lemma live_step_refl: "pg_inv pc \<Longrightarrow> live_step mem pc pc"
  by (simp add: live_step_def)

lemma live_step_trans: "live_step mem pc pc' \<Longrightarrow> live_step mem pc' pc'' \<Longrightarrow> live_step mem pc pc''"
  unfolding live_step_def using unit_kept_trans by (meson order_less_le_trans order_trans)

lemma cache_step_live:
  assumes "cache_step mem pc pc'"
  shows "live_step mem pc pc'"
  using assms cache_step_simps [OF assms] cache_step_inv [OF assms] cache_step_kept [OF assms] by (simp add: live_step_def)

lemma unit_kept_fields:
  assumes "pc_prep pc' = pc_prep pc" and "unit_at pc' i = unit_at pc i"
  shows "unit_kept mem pc pc' i"
  using assms by (simp add: unit_kept_def fill_text_def)

lemma unit_kept_cosmetic:
  assumes "pc_prep pc' = pc_prep pc" and "unit_at pc' i = g (unit_at pc i)" and "cosmetic g"
  shows "unit_kept mem pc pc' i"
  using assms by (simp add: unit_kept_def fill_text_def cosmetic_def flag_simps split: option.split)

lemma live_cosmetic:
  assumes inv: "pg_inv pc" and i: "i < pc_count pc" and g: "cosmetic g"
  shows "live_step mem pc (upd_unit i g pc)"
proof -
  have n: "pc_count pc \<le> LK_PG_MAX_INFLIGHT" using inv by (simp add: pg_inv_def ring_ok_def)
  have "unit_kept mem pc (upd_unit i g pc) j" if "j < pc_count pc" for j
  proof (cases "j = i")
    case True
    then show ?thesis by (intro unit_kept_cosmetic [OF _ _ g]) auto
  next
    case False
    then show ?thesis using i that n by (intro unit_kept_fields) (auto simp: unit_at_upd)
  qed
  then show ?thesis using pg_inv_cosmetic [OF assms] by (simp add: live_step_def)
qed

lemma live_nclosed:
  "pg_inv pc \<Longrightarrow> pc_nclosed pc \<le> n \<Longrightarrow> n \<le> pc_count pc \<Longrightarrow> live_step mem pc (pc\<lparr>pc_nclosed := n\<rparr>)"
  by (simp add: live_step_def pg_inv_nclosed unit_kept_fields)

lemma live_phase: "pg_inv pc \<Longrightarrow> live_step mem pc (pc\<lparr>pc_phase := ph\<rparr>)"
  by (simp add: live_step_def unit_kept_fields)

lemma live_session: "pg_inv pc \<Longrightarrow> session_ok s \<Longrightarrow> live_step mem pc (pc\<lparr>pc_session := s\<rparr>)"
  by (simp add: live_step_def pg_inv_session unit_kept_fields)

lemma live_inv: "live_step mem pc pc' \<Longrightarrow> pg_inv pc'"
  by (simp add: live_step_def)

section \<open>Replies\<close>

lemma current_unit_Some: "current_unit pc = Some i \<longleftrightarrow> i = pc_nclosed pc \<and> pc_nclosed pc < pc_count pc"
  by (auto simp: current_unit_def)

lemma current_unit_None: "current_unit pc = None \<longleftrightarrow> pc_count pc \<le> pc_nclosed pc"
  by (simp add: current_unit_def)

lemma on_current_live: "pg_inv pc \<Longrightarrow> cosmetic g \<Longrightarrow> live_step mem pc (on_current g pc)"
  by (auto simp: on_current_def current_unit_Some intro: live_cosmetic live_step_refl split: option.split)

lemma close_unless_z_live:
  assumes "pg_inv pc" and "pc_nclosed pc < pc_count pc"
  shows "live_step mem pc (close_unless_z i pc)"
  using assms by (auto simp: close_unless_z_def intro: live_nclosed live_step_refl)

lemma data_row_live: "pg_inv pc \<Longrightarrow> live_step mem pc (pg_query_data_row pc m)"
  unfolding pg_query_data_row_def by (rule on_current_live) (simp_all add: cosmetic_def)

lemma func_response_live: "pg_inv pc \<Longrightarrow> live_step mem pc (pg_query_func_response pc m)"
  unfolding pg_query_func_response_def by (rule on_current_live) (simp_all add: cosmetic_def)

lemma copy_data_live: "pg_inv pc \<Longrightarrow> live_step mem pc (pg_query_copy_data pc m)"
  unfolding pg_query_copy_data_def by (rule on_current_live) (simp_all add: cosmetic_def)

lemma empty_live:
  assumes inv: "pg_inv pc"
  shows "live_step mem pc (pg_query_empty pc m)"
proof (cases "current_unit pc")
  case (Some i)
  let ?g = "\<lambda>u. (or_flag LK_QO_EMPTY u)\<lparr>u_ts_complete := m_ts_ns m, u_ncomplete := u_ncomplete u + 1\<rparr>"
  have i: "i = pc_nclosed pc" "pc_nclosed pc < pc_count pc" using Some by (simp_all add: current_unit_Some)
  have "live_step mem pc (upd_unit i ?g pc)"
    using inv i by (intro live_cosmetic) (simp_all add: cosmetic_def bit_simps)
  from live_step_trans [OF this close_unless_z_live [OF live_inv [OF this]]] show ?thesis
    using i Some by (simp add: pg_query_empty_def)
qed (simp add: pg_query_empty_def live_step_refl [OF inv])

lemma suspended_live:
  assumes inv: "pg_inv pc"
  shows "live_step mem pc (pg_query_suspended pc m)"
proof (cases "current_unit pc")
  case (Some i)
  let ?g = "\<lambda>u. (or_flag LK_QO_SUSPENDED u)\<lparr>u_ts_complete := m_ts_ns m, u_ncomplete := u_ncomplete u + 1\<rparr>"
  have i: "i = pc_nclosed pc" "pc_nclosed pc < pc_count pc" using Some by (simp_all add: current_unit_Some)
  have "live_step mem pc (upd_unit i ?g pc)"
    using inv i by (intro live_cosmetic) (simp_all add: cosmetic_def bit_simps)
  from live_step_trans [OF this live_nclosed [OF live_inv [OF this], of "pc_nclosed pc + 1"]] show ?thesis
    using i Some by (simp add: pg_query_suspended_def)
qed (simp add: pg_query_suspended_def live_step_refl [OF inv])

lemma complete_live:
  assumes inv: "pg_inv pc" and "pg_query_complete p pc m = (p', pc')"
  shows "live_step mem pc pc' \<and> p' = p \<or> (p', pc') = corrupt p pc \<and> \<not> m_trunc m \<and> 0 \<notin> set (m_body m)"
proof (cases "current_unit pc")
  case (Some i)
  have i: "i = pc_nclosed pc" "pc_nclosed pc < pc_count pc" using Some by (simp_all add: current_unit_Some)
  obtain ok tag w where w: "pg_wire_cstring (pg_wire_init (m_body m)) = (ok, tag, w)" by (metis prod_cases3)
  let ?g1 = "\<lambda>u. u\<lparr>u_rows := u_rows u + tag_rows tag\<rparr>"
  let ?g2 = "\<lambda>u. let u = u\<lparr>u_ts_complete := m_ts_ns m, u_ncomplete := u_ncomplete u + 1\<rparr>
                 in if 1 < u_ncomplete u then or_flag LK_QO_MULTI_STMT u else u"
  let ?pc1 = "if ok then upd_unit i ?g1 pc else pc"
  have c: "cosmetic ?g1" "cosmetic ?g2" by (simp_all add: cosmetic_def Let_def bit_simps)
  have l1: "live_step mem pc ?pc1" using live_cosmetic [OF inv _ c(1)] live_step_refl [OF inv] i by simp
  have l2: "live_step mem ?pc1 (upd_unit i ?g2 ?pc1)"
    using live_cosmetic [OF live_inv [OF l1] _ c(2)] i by (cases ok) simp_all
  have l3: "live_step mem (upd_unit i ?g2 ?pc1) (close_unless_z i (upd_unit i ?g2 ?pc1))"
    using close_unless_z_live [OF live_inv [OF l2]] i by (cases ok) simp_all
  show ?thesis
    using assms(2) Some w wire_cstring_ok [OF w] live_step_trans [OF l1 live_step_trans [OF l2 l3]]
    by (auto simp: pg_wire_init_def pg_query_complete_def split: if_splits)
qed (use assms in \<open>simp add: pg_query_complete_def live_step_refl\<close>)

lemma cosmetic_abort: "cosmetic abort_unit"
  by (simp add: cosmetic_def abort_unit_def bit_simps)

lemma cosmetic_error: "cosmetic (error_unit m)"
  by (simp add: cosmetic_def error_unit_def bit_simps)

lemma abort_tail_live:
  assumes inv: "pg_inv pc"
  shows "live_step mem pc (abort_tail pc)"
proof -
  have n: "pc_count pc \<le> LK_PG_MAX_INFLIGHT" "pc_nclosed pc \<le> pc_count pc" using inv by (simp_all add: pg_inv_def ring_ok_def)
  let ?pc = "upd_range abort_unit (pc_nclosed pc) (pc_count pc) pc"
  have "unit_kept mem pc ?pc i" if "i < pc_count pc" for i
  proof (cases "pc_nclosed pc \<le> i")
    case True
    then show ?thesis using that n by (intro unit_kept_cosmetic [OF _ _ cosmetic_abort]) (simp_all add: unit_at_upd_range)
  next
    case False
    then show ?thesis using that n by (intro unit_kept_fields) (simp_all add: unit_at_upd_range)
  qed
  then have "live_step mem pc ?pc"
    using pg_inv_cosmetic_range [OF inv order_refl cosmetic_abort] by (simp add: live_step_def)
  from live_step_trans [OF this live_nclosed [OF live_inv [OF this], of "pc_count pc"]] n show ?thesis
    by (simp add: abort_tail_def)
qed

lemma error_live:
  assumes inv: "pg_inv pc"
  shows "live_step mem pc (pg_query_error pc m)"
proof (cases "current_unit pc")
  case (Some i)
  have i: "i = pc_nclosed pc" "pc_nclosed pc < pc_count pc" using Some by (simp_all add: current_unit_Some)
  let ?pc1 = "upd_unit i (error_unit m) pc"
  let ?pc2 = "?pc1\<lparr>pc_nclosed := pc_nclosed pc + 1\<rparr>"
  have l1: "live_step mem pc ?pc1" using inv i cosmetic_error by (intro live_cosmetic) auto
  have l2: "live_step mem ?pc1 ?pc2" using live_inv [OF l1] i by (intro live_nclosed) auto
  have l3: "live_step mem ?pc2 (abort_tail ?pc2)" using live_inv [OF l2] by (rule abort_tail_live)
  have l4: "live_step mem (abort_tail ?pc2) ((abort_tail ?pc2)\<lparr>pc_phase := PG_PH_SKIP_TO_SYNC\<rparr>)"
    using live_inv [OF l3] by (rule live_phase)
  note l = live_step_trans [OF l1 live_step_trans [OF l2 live_step_trans [OF l3 l4]]]
  show ?thesis using Some l1 l by (simp add: pg_query_error_def Let_def)
qed (simp add: pg_query_error_def live_step_refl [OF inv])

lemma copy_begin_live:
  assumes inv: "pg_inv pc"
  shows "live_step mem pc (pg_query_copy_begin pc k)"
proof -
  let ?pc = "pc\<lparr>pc_phase := (if k = LK_Q_COPY_IN then PG_PH_COPY_IN else PG_PH_COPY_OUT)\<rparr>"
  have l: "live_step mem pc ?pc" using inv by (rule live_phase)
  have "live_step mem ?pc (upd_unit i (\<lambda>u. u\<lparr>u_copy_kind := Some k\<rparr>) ?pc)" if "i < pc_count pc" for i
    using live_inv [OF l] that by (intro live_cosmetic) (simp_all add: cosmetic_def)
  then show ?thesis using live_step_trans [OF l] l
    by (auto simp: pg_query_copy_begin_def Let_def current_unit_Some split: option.split)
qed

lemma corrupt_inv: "pg_inv pc \<Longrightarrow> pg_inv (snd (corrupt p pc))"
  unfolding corrupt_def by (erule pg_inv_empty [of pc]) (simp_all add: pg_query_drop_all_def)

lemma copy_both_inv: "pg_inv pc \<Longrightarrow> pg_inv (snd (snd (pg_query_copy_both p c pc)))"
  by (simp add: pg_query_copy_both_def pg_inv_drop_all)

section \<open>Requests\<close>

lemma ring_push_silent: "ring_push p pc = (ok, p', pc') \<Longrightarrow> silent p p' \<and> p_heap p' = p_heap p"
  by (auto simp: ring_push_def Let_def silent_upd split: if_splits)

lemma ring_push_live:
  assumes inv: "pg_inv pc" and push: "ring_push p pc = (ok, p', pc')" and nd: "\<not> pc_degraded pc"
  shows "live_step mem pc pc'"
proof (cases ok)
  case False
  then have "pc' = pc\<lparr>pc_lossy := True\<rparr>" using push ring_push_full(1) by simp
  then show ?thesis using ring_push_inv [OF assms] by (simp add: live_step_def unit_kept_fields)
next
  case True
  then have push: "ring_push p pc = (True, p', pc')" using push by simp
  note f = ring_push_ok [OF push]
  have c: "cosmetic (or_flag LK_QO_PIPELINED)" by (simp add: cosmetic_def bit_simps)
  have "unit_kept mem pc pc' i" if i: "i < pc_count pc" for i
  proof -
    let ?us = "batch pc @ [open_unit (u_own_cap (unit_at pc (pc_count pc)))]"
    have "unit_at pc' i = pipelined ?us ! i"
      using ring_push_batch [OF push] nth_batch [of i pc'] i f(4) by simp
    moreover have "?us ! i = unit_at pc i" using i by (simp add: nth_append)
    ultimately have "unit_at pc' i = unit_at pc i \<or> unit_at pc' i = or_flag LK_QO_PIPELINED (unit_at pc i)"
      using pipelined_nth [of i ?us] i by simp
    then show ?thesis using unit_kept_fields [OF f(9)] unit_kept_cosmetic [OF f(9) _ c] by blast
  qed
  then show ?thesis using ring_push_inv [OF assms(1,2) nd] f by (simp add: live_step_def)
qed

text \<open>Filling in the unit just pushed leaves the older ones alone.\<close>

lemma last_unit_live:
  assumes inv: "pg_inv pc" and n: "n + 1 = pc_count pc"
    and ok: "unit_ok (pc_prep pc) (unit_at pc n) \<Longrightarrow> unit_ok (pc_prep pc) (g (unit_at pc n))"
    and cap: "u_own_cap (g (unit_at pc n)) \<le> LK_MSG_BODY_MAX"
  shows "pg_inv (upd_unit n g pc)" "i < n \<Longrightarrow> unit_kept mem pc (upd_unit n g pc) i"
proof -
  show "pg_inv (upd_unit n g pc)" using inv n ok cap by (intro pg_inv_upd) auto
  have "pc_count pc \<le> LK_PG_MAX_INFLIGHT" using inv by (simp add: pg_inv_def ring_ok_def)
  then show "i < n \<Longrightarrow> unit_kept mem pc (upd_unit n g pc) i"
    using n by (intro unit_kept_fields) (simp_all add: unit_at_upd)
qed

lemma fill_last:
  assumes l: "live_step mem pc pc1" and n: "pc_count pc1 = pc_count pc + 1"
    and ok: "unit_ok (pc_prep pc1) (unit_at pc1 (last_unit pc1)) \<Longrightarrow> unit_ok (pc_prep pc1) (g (unit_at pc1 (last_unit pc1)))"
    and cap: "u_own_cap (g (unit_at pc1 (last_unit pc1))) \<le> LK_MSG_BODY_MAX"
  shows "live_step mem pc (upd_unit (last_unit pc1) g pc1)"
proof -
  have lu: "last_unit pc1 = pc_count pc" "last_unit pc1 + 1 = pc_count pc1" using n by (simp_all add: last_unit_def)
  note f = last_unit_live [of pc1 "last_unit pc1" g, OF live_inv [OF l] lu(2) ok cap]
  have "unit_kept mem pc (upd_unit (last_unit pc1) g pc1) i" if "i < pc_count pc" for i
    using unit_kept_trans [of mem pc pc1 i] l f(2) [of i] that lu by (simp add: live_step_def)
  then show ?thesis using f(1) l by (simp add: live_step_def)
qed

lemma set_simple_text_props:
  assumes "set_simple_text u m hp = (u', hp')" and "u_own_cap u \<le> LK_MSG_BODY_MAX" and "u_prep_idx u = None"
    and "length (u_own_text u) \<le> u_own_cap u"
  shows "u_own_cap u' \<le> LK_MSG_BODY_MAX" "length (u_own_text u') \<le> u_own_cap u'" "u_prep_idx u' = None"
    "u_kind u' = u_kind u" "hp_ok hp' = hp_ok hp"
proof -
  define n where "n = min (m_body_cap m) LK_MSG_BODY_MAX"
  define t where "t = (let t = take n (m_body m) in if t \<noteq> [] \<and> last t = 0 then butlast t else t)"
  obtain ok u1 hp1 where g: "own_grow u n hp = (ok, u1, hp1)" by (metis prod_cases3)
  note p = own_grow_props [OF g]
  have cap: "u_own_cap u1 \<le> LK_MSG_BODY_MAX" using p(6) assms(2) by (simp add: n_def)
  have len: "length t \<le> n" by (auto simp: t_def Let_def)
  have u': "u' = (if ok then u1\<lparr>u_own_text := t\<rparr> else u1)" "hp' = hp1"
    using assms(1) g by (auto simp: set_simple_text_def n_def [symmetric] t_def Let_def split: if_splits)
  show "u_own_cap u' \<le> LK_MSG_BODY_MAX" "u_prep_idx u' = None" "u_kind u' = u_kind u" "hp_ok hp' = hp_ok hp"
    using p(1-4) cap assms(3) by (simp_all add: u')
  show "length (u_own_text u') \<le> u_own_cap u'"
    using p(7-9) len assms(4) by (cases ok) (auto simp: u')
qed

lemma pushed_unit:
  assumes "pg_inv pc" and "ring_push p pc = (True, p', pc1)"
  shows "u_prep_idx (unit_at pc1 (last_unit pc1)) = None" "u_own_text (unit_at pc1 (last_unit pc1)) = []"
    "u_own_cap (unit_at pc1 (last_unit pc1)) \<le> LK_MSG_BODY_MAX"
  using ring_push_last [OF assms(2)] pg_inv_cap [OF assms(1), of "pc_count pc"]
  by (cases "pc_count pc = 0"; simp add: last_unit_def pipelined_def nth_append pg_unit_zero_def)+

lemma simple_live:
  assumes inv: "pg_inv pc" and "pg_query_simple p pc m = (p', pc')"
  shows "live_step mem pc pc'" "silent p p'" "hp_ok (p_heap p') = hp_ok (p_heap p)"
proof -
  have "live_step mem pc pc' \<and> silent p p' \<and> hp_ok (p_heap p') = hp_ok (p_heap p)"
  proof (cases "pc_phase pc \<noteq> PG_PH_READY \<or> pc_degraded pc")
    case True
    then show ?thesis using assms by (auto simp: pg_query_simple_def live_step_refl split: if_splits)
  next
    case False
    then have nd: "\<not> pc_degraded pc" by simp
    obtain ok p1 pc1 where push: "ring_push p pc = (ok, p1, pc1)" by (metis prod_cases3)
    note s = ring_push_silent [OF push]
    show ?thesis
    proof (cases ok)
      case ok: True
      have push: "ring_push p pc = (True, p1, pc1)" using push ok by simp
      let ?u = "(unit_at pc1 (last_unit pc1))\<lparr>u_kind := LK_Q_SIMPLE, u_ts_start := m_ts_ns m\<rparr>"
      obtain u2 hp2 where t: "set_simple_text ?u m (p_heap p1) = (u2, hp2)" by fastforce
      let ?u3 = "if m_trunc m then or_flag LK_QO_TEXT_TRUNC u2 else u2"
      note tp = set_simple_text_props [OF t] pushed_unit [OF inv push]
      have res: "p' = p1\<lparr>p_heap := hp2\<rparr>" "pc' = upd_unit (last_unit pc1) (\<lambda>_. ?u3) pc1"
        using assms(2) False push t by (auto simp: pg_query_simple_def Let_def)
      have "live_step mem pc pc'"
        unfolding res(2) using tp
        by (intro fill_last ring_push_live [OF inv push nd] ring_push_ok(4) [OF push]) (simp_all add: unit_ok_def)
      then show ?thesis using res s tp by simp
    next
      case no: False
      then show ?thesis using assms(2) False push s ring_push_live [OF inv push nd] by (simp add: pg_query_simple_def)
    qed
  qed
  then show "live_step mem pc pc'" "silent p p'" "hp_ok (p_heap p') = hp_ok (p_heap p)" by blast+
qed

lemma function_live:
  assumes inv: "pg_inv pc" and "pg_query_function p pc m = (p', pc')"
  shows "live_step mem pc pc'" "silent p p'" "p_heap p' = p_heap p"
proof -
  have "live_step mem pc pc' \<and> silent p p' \<and> p_heap p' = p_heap p"
  proof (cases "pc_phase pc \<noteq> PG_PH_READY \<or> pc_degraded pc")
    case True
    then show ?thesis using assms by (auto simp: pg_query_function_def live_step_refl split: if_splits)
  next
    case False
    then have nd: "\<not> pc_degraded pc" by simp
    obtain ok p1 pc1 where push: "ring_push p pc = (ok, p1, pc1)" by (metis prod_cases3)
    let ?g = "\<lambda>u. or_flag LK_QO_NO_TEXT (u\<lparr>u_kind := LK_Q_FUNCTION, u_ts_start := m_ts_ns m\<rparr>)"
    have "live_step mem pc (upd_unit (last_unit pc1) ?g pc1)" if ok
      using push pushed_unit [OF inv, of p p1 pc1] ring_push_ok(4) [of p pc p1 pc1] that
      by (intro fill_last ring_push_live [OF inv push nd]) (simp_all add: unit_ok_def)
    then show ?thesis
      using assms(2) False push ring_push_live [OF inv push nd] ring_push_silent [OF push]
      by (auto simp: pg_query_function_def split: if_splits)
  qed
  then show "live_step mem pc pc'" "silent p p'" "p_heap p' = p_heap p" by blast+
qed

lemma bind_live:
  assumes inv: "pg_inv pc" and "pg_query_bind p pc m = (p', pc')"
  shows "live_step mem pc pc'" "silent p p'" "p_heap p' = p_heap p"
proof -
  have "live_step mem pc pc' \<and> silent p p' \<and> p_heap p' = p_heap p"
  proof (cases "pc_phase pc \<noteq> PG_PH_READY \<or> pc_degraded pc")
    case True
    then show ?thesis using assms by (auto simp: pg_query_bind_def live_step_refl split: if_splits)
  next
    case False
    then have nd: "\<not> pc_degraded pc" by simp
    obtain pok portal w where c1: "pg_wire_cstring (pg_wire_init (m_body m)) = (pok, portal, w)" by (metis prod_cases3)
    obtain have_stmt stmt w2 where c2: "pg_wire_cstring w = (have_stmt, stmt, w2)" by (metis prod_cases3)
    obtain ok p1 pc1 where push: "ring_push p pc = (ok, p1, pc1)" by (metis prod_cases3)
    note s = ring_push_silent [OF push] ring_push_live [OF inv push nd, of mem]
    show ?thesis
    proof (cases ok)
      case no: False
      then show ?thesis using assms(2) False c1 c2 push s by (simp add: pg_query_bind_def)
    next
      case True
      then have push: "ring_push p pc = (True, p1, pc1)" using push by simp
      let ?pc2 = "upd_unit (last_unit pc1) (\<lambda>u. u\<lparr>u_kind := LK_Q_EXTENDED, u_ts_start := m_ts_ns m\<rparr>) pc1"
      note pu = pushed_unit [OF inv push]
      have n1: "pc_count pc1 = pc_count pc + 1" using ring_push_ok(4) [OF push] .
      have l2: "live_step mem pc ?pc2"
        using s(2) n1 pu by (intro fill_last) (simp_all add: unit_ok_def)
      have n2: "pc_count ?pc2 = pc_count pc + 1" using n1 by simp
      have no_text: "live_step mem pc (upd_unit (last_unit pcx) (or_flag LK_QO_NO_TEXT) pcx)"
        if "live_step mem pc pcx" "pc_count pcx = pc_count pc + 1" for pcx
        using that pg_inv_cap [OF live_inv [OF that(1)]] by (intro fill_last) simp_all
      obtain hit pc3 where look: "pg_prep_lookup ?pc2 stmt = (hit, pc3)" by fastforce
      note ls = pg_prep_lookup_step [OF live_inv [OF l2] look]
      have l3: "live_step mem pc pc3" using live_step_trans [OF l2 cache_step_live [OF ls(1)]] .
      have n3: "pc_count pc3 = pc_count pc + 1" using cache_step_simps(2) [OF ls(1)] n1 by simp
      have hit: "live_step mem pc (upd_unit (last_unit pc3) (\<lambda>u.
          let u = u\<lparr>u_prep_idx := Some idx, u_prep_gen := gen\<rparr> in if t then or_flag LK_QO_TEXT_TRUNC u else u) pc3)"
        if "hit = Some (idx, gen, t)" for idx gen t
        using ls(2) [OF that] l3 n3 pg_inv_cap [OF live_inv [OF l3]]
        by (intro fill_last) (simp_all add: unit_ok_def Let_def)
      have "pg_query_bind p pc m = (if \<not> have_stmt then (p1, upd_unit (last_unit ?pc2) (or_flag LK_QO_NO_TEXT) ?pc2)
        else case hit of None \<Rightarrow> (p1, upd_unit (last_unit pc3) (or_flag LK_QO_NO_TEXT) pc3)
          | Some (idx, gen, t) \<Rightarrow> (p1, upd_unit (last_unit pc3) (\<lambda>u.
              let u = u\<lparr>u_prep_idx := Some idx, u_prep_gen := gen\<rparr> in if t then or_flag LK_QO_TEXT_TRUNC u else u) pc3))"
        using False c1 c2 push look by (simp only: pg_query_bind_def Let_def split) simp
      then show ?thesis
        using assms(2) no_text [OF l2 n2] no_text [OF l3 n3] hit s(1)
        by (auto split: if_splits option.splits simp del: upd_unit_simps)
    qed
  qed
  then show "live_step mem pc pc'" "silent p p'" "p_heap p' = p_heap p" by blast+
qed

end
