(* ===== verification/Pg_Ready.thy ===== *)
theory Pg_Ready
  imports Pg_Query_Inv
begin

text \<open>
  ReadyForQuery as a function of the batch: which units are reported, in which order, with which
  observation. \<open>batch_obs\<close> is the specification, written on the list of units; the loop of
  \<open>pg_query_ready\<close> over the ring implements it.
\<close>

section \<open>Specification\<close>

text \<open>The units a Z reports: the closed ones, and the ones that only a Z closes.\<close>

definition emitted :: "nat \<Rightarrow> pg_unit list \<Rightarrow> pg_unit list" where
  "emitted ncl us = map snd (filter (\<lambda>(i, u). i < ncl \<or> unit_z_closed u) (enumerate 0 us))"

definition finish_unit :: "u64 \<Rightarrow> pg_unit \<Rightarrow> pg_unit" where
  "finish_unit ts u = (if unit_z_closed u \<and> u_ts_complete u = 0 then u\<lparr>u_ts_complete := ts\<rparr> else u)"

definition batch_obs :: "pg_conn \<Rightarrow> u64 \<Rightarrow> u8 \<Rightarrow> lk_query_obs list" where
  "batch_obs pc ts status =
     map (\<lambda>u. unit_obs pc (finish_unit ts u) (if has_flag (u_flags u) LK_QO_ABORTED then 0 else ts) status)
       (emitted (pc_nclosed pc) (batch pc))"

section \<open>The loop\<close>

lemma emitted_take:
  assumes "n < length us"
  shows "emitted ncl (take (Suc n) us) = emitted ncl (take n us) @ (if n < ncl \<or> unit_z_closed (us ! n) then [us ! n] else [])"
  using assms by (simp add: emitted_def take_Suc_conv_app_nth enumerate_append_eq)

lemma emit_unit_report: "emit_unit p c pc u ready st = report_obs c (pc_session pc) (unit_obs pc u ready st) p"
  by (simp add: emit_unit_def report_obs_def Let_def unit_obs_def)

lemma unit_obs_prep: "pc_prep pc' = pc_prep pc \<Longrightarrow> unit_obs pc' u r st = unit_obs pc u r st"
  by (simp add: unit_obs_def fill_text_def)

lemma unit_obs_upd [simp]: "unit_obs (upd_unit i g pc) = unit_obs pc"
  by (intro ext unit_obs_prep) simp

lemma finish_unit_simps [simp]: "u_flags (finish_unit ts u) = u_flags u" "u_own_cap (finish_unit ts u) = u_own_cap u"
  by (simp_all add: finish_unit_def)

lemma ready_step_eq:
  "ready_step c ts status i (p, pc) =
     (if i < pc_nclosed pc \<or> unit_z_closed (unit_at pc i)
      then (report_obs c (pc_session pc) (unit_obs pc (finish_unit ts (unit_at pc i))
              (if has_flag (u_flags (unit_at pc i)) LK_QO_ABORTED then 0 else ts) status) p,
            if unit_z_closed (unit_at pc i) \<and> u_ts_complete (unit_at pc i) = 0
            then upd_unit i (\<lambda>u. u\<lparr>u_ts_complete := ts\<rparr>) pc else pc)
      else (p, pc))"
  by (simp add: ready_step_def Let_def emit_unit_report finish_unit_def)

lemma ready_fold:
  assumes "pc_count pc \<le> LK_PG_MAX_INFLIGHT" and "caps_ok pc" and "n \<le> pc_count pc"
    and "fold (ready_step c ts status) [0..<n] (p, pc) = (p', pc')"
  shows "ring_only pc pc' \<and> caps_ok pc' \<and> (\<forall>j<LK_PG_MAX_INFLIGHT. n \<le> j \<longrightarrow> unit_at pc' j = unit_at pc j) \<and>
    p' = fold (report_obs c (pc_session pc))
      (map (\<lambda>u. unit_obs pc (finish_unit ts u) (if has_flag (u_flags u) LK_QO_ABORTED then 0 else ts) status)
         (emitted (pc_nclosed pc) (take n (batch pc)))) p"
  using assms(3,4)
proof (induction n arbitrary: p' pc')
  case 0
  then show ?case using assms(2) by (simp add: ring_only_def emitted_def)
next
  case (Suc n)
  obtain p1 pc1 where f: "fold (ready_step c ts status) [0..<n] (p, pc) = (p1, pc1)" by fastforce
  note IH = Suc.IH [OF _ f]
  have ro: "ring_only pc pc1" and caps: "caps_ok pc1"
    and p1: "p1 = fold (report_obs c (pc_session pc))
      (map (\<lambda>u. unit_obs pc (finish_unit ts u) (if has_flag (u_flags u) LK_QO_ABORTED then 0 else ts) status)
         (emitted (pc_nclosed pc) (take n (batch pc)))) p"
    and rest: "\<forall>j<LK_PG_MAX_INFLIGHT. n \<le> j \<longrightarrow> unit_at pc1 j = unit_at pc j"
    using IH Suc.prems(1) by auto
  have u: "unit_at pc1 n = unit_at pc n" using rest Suc.prems(1) assms(1) by simp
  have step: "ready_step c ts status n (p1, pc1) = (p', pc')" using Suc.prems(2) f by simp
  have ts: "caps_ok (upd_unit n (\<lambda>u. u\<lparr>u_ts_complete := ts\<rparr>) pc1)"
    using caps by (intro caps_upd) (simp_all add: caps_unit)
  have pc': "ring_only pc pc'" "caps_ok pc'" "\<forall>j<LK_PG_MAX_INFLIGHT. Suc n \<le> j \<longrightarrow> unit_at pc' j = unit_at pc j"
    using step ro caps ts ring_only_upd [OF ro] rest Suc.prems(1) assms(1)
    by (auto simp: ready_step_eq unit_at_upd split: if_splits)
  note f = ring_only_simps [OF ro]
  have "p' = fold (report_obs c (pc_session pc))
      (map (\<lambda>u. unit_obs pc (finish_unit ts u) (if has_flag (u_flags u) LK_QO_ABORTED then 0 else ts) status)
         (emitted (pc_nclosed pc) (take (Suc n) (batch pc)))) p"
    using step p1 Suc.prems(1) unit_obs_prep [OF f(6)] f
    by (auto simp: ready_step_eq u emitted_take split: if_splits)
  then show ?case using pc' by blast
qed

lemma ready_emit_spec:
  assumes inv: "pg_inv pc" and r: "ready_emit p c pc ts status = (p', pc')"
  shows "ring_only pc pc'" "caps_ok pc'"
    "p' = (if pc_lossy pc then p else fold (report_obs c (pc_session pc)) (batch_obs pc ts status) p)"
proof -
  have n: "pc_count pc \<le> LK_PG_MAX_INFLIGHT" "caps_ok pc" using inv by (simp_all add: pg_inv_def ring_ok_def)
  have "ring_only pc pc' \<and> caps_ok pc' \<and>
    p' = (if pc_lossy pc then p else fold (report_obs c (pc_session pc)) (batch_obs pc ts status) p)"
  proof (cases "pc_lossy pc")
    case True
    then show ?thesis using r n by (simp add: ready_emit_def ring_only_def)
  next
    case False
    then have "fold (ready_step c ts status) [0..<pc_count pc] (p, pc) = (p', pc')"
      using r by (simp add: ready_emit_def)
    note f = ready_fold [OF n order_refl this]
    have "take (pc_count pc) (batch pc) = batch pc" by simp
    then show ?thesis using f False by (simp add: batch_obs_def)
  qed
  then show "ring_only pc pc'" "caps_ok pc'"
    "p' = (if pc_lossy pc then p else fold (report_obs c (pc_session pc)) (batch_obs pc ts status) p)" by blast+
qed

section \<open>What is reported\<close>

lemma report_all:
  "reports p (if p_has_query p then map (OnQuery (cn_cookie c) s) qs else []) (fold (report_obs c s) qs p)
   \<and> p_heap (fold (report_obs c s) qs p) = p_heap p"
proof (induction qs arbitrary: p)
  case Nil
  then show ?case using silent_reports [of p p] by simp
next
  case (Cons q qs)
  note r = report_obs_reports [of p c s q]
  have "p_has_query (report_obs c s q p) = p_has_query p" using r by (simp add: reports_def same_out_def)
  then show ?case using reports_append [OF r conjunct1 [OF Cons.IH [of "report_obs c s q p"]]] Cons.IH [of "report_obs c s q p"]
    by (cases "p_has_query p") simp_all
qed

lemma pg_inv_blank:
  assumes "pg_inv pc" and "caps_ok pc'" and "pc_count pc' = 0" and "pc_nclosed pc' = 0" and "\<not> pc_lossy pc'"
    and "pc_head pc' = 0" and "pc_prep pc' = pc_prep pc" and "pc_session pc' = pc_session pc"
  shows "pg_inv pc'"
  using assms by (simp add: pg_inv_def ring_ok_def batch_def LK_PG_MAX_INFLIGHT_def)

text \<open>The transaction edge a Z reports.\<close>

definition txn_call :: "pg_conn \<Rightarrow> ('ps, 'fs) lk_conn \<Rightarrow> u64 \<Rightarrow> u8 \<Rightarrow> lk_out_call list" where
  "txn_call pc c ts status =
     (if status = ch CHR ''I'' \<and> (pc_txn_status pc = ch CHR ''T'' \<or> pc_txn_status pc = ch CHR ''E'')
      then [OnTxn (cn_cookie c) (pc_txn_start pc) ts (pc_txn_status pc)] else [])"

definition z_status :: "lk_msg \<Rightarrow> u8" where
  "z_status m = (case m_body m of [] \<Rightarrow> 0 | b # _ \<Rightarrow> b)"

lemma z_status_wire: "pg_wire_get_u8 (pg_wire_init (m_body m)) = (ok, sb, w) \<Longrightarrow> sb = z_status m"
  by (cases "m_body m") (auto simp: pg_wire_get_u8_def pg_wire_init_def pg_wire_remaining_def z_status_def)

lemma ready_txn_spec:
  "reports p (if p_has_txn p then txn_call pc c ts status else []) (fst (ready_txn p c pc ts status))"
  "p_heap (fst (ready_txn p c pc ts status)) = p_heap p"
  "snd (ready_txn p c pc ts status) = pc\<lparr>pc_txn_start := pc_txn_start (snd (ready_txn p c pc ts status)),
      pc_txn_status := (if status = 0 then pc_txn_status pc else status)\<rparr>"
  by (auto simp: ready_txn_def Let_def txn_call_def reports_def same_out_def calls_simps failed_def call_txn_def)

theorem ready_spec:
  assumes inv: "pg_inv pc" and r: "pg_query_ready p c pc m = (p', pc')"
  defines "ts \<equiv> m_ts_ns m" and "st \<equiv> z_status m"
  shows "reports p ((if p_has_query p \<and> \<not> pc_lossy pc then map (OnQuery (cn_cookie c) (pc_session pc)) (batch_obs pc ts st) else [])
           @ (if p_has_txn p then txn_call pc c ts st else [])) p'"
    "pg_inv pc'" "batch pc' = []" "\<not> pc_degraded pc'" "\<not> pc_lossy pc'" "p_heap p' = p_heap p"
    "pc_phase pc' = (if pc_phase pc \<in> {PG_PH_SKIP_TO_SYNC, PG_PH_COPY_IN, PG_PH_COPY_OUT} then PG_PH_READY else pc_phase pc)"
proof -
  obtain p1 pc1 where e: "ready_emit p c pc ts st = (p1, pc1)" by fastforce
  note es = ready_emit_spec [OF inv e] 
  note f = ring_only_simps [OF es(1)]
  let ?pc2 = "ready_boundary pc1"
  have t: "ready_txn p1 c ?pc2 ts st = (p', pc')"
    using r e unfolding pg_query_ready_def ts_def st_def
    by (auto simp: Let_def dest: z_status_wire split: prod.splits)
  have rep1: "reports p (if p_has_query p \<and> \<not> pc_lossy pc then map (OnQuery (cn_cookie c) (pc_session pc)) (batch_obs pc ts st) else []) p1"
    and heap: "p_heap p1 = p_heap p"
    using es(3) report_all [of p c "pc_session pc" "batch_obs pc ts st"] silent_reports [of p p] by (auto split: if_splits)
  have same: "p_has_txn p1 = p_has_txn p" using rep1 by (simp add: reports_def same_out_def)
  have tc: "txn_call ?pc2 c ts st = txn_call pc c ts st" by (simp add: txn_call_def ready_boundary_def f)
  note tx = ready_txn_spec [where p = p1 and pc = ?pc2 and c = c and ts = ts and status = st, unfolded t fst_conv snd_conv tc same]
  show "reports p ((if p_has_query p \<and> \<not> pc_lossy pc then map (OnQuery (cn_cookie c) (pc_session pc)) (batch_obs pc ts st) else [])
           @ (if p_has_txn p then txn_call pc c ts st else [])) p'"
    using reports_append [OF rep1 tx(1)] .
  show "p_heap p' = p_heap p" using tx(2) heap by simp
  show "batch pc' = []" "\<not> pc_degraded pc'" "\<not> pc_lossy pc'"
    by (subst tx(3), simp add: ready_boundary_def batch_def)+
  show "pc_phase pc' = (if pc_phase pc \<in> {PG_PH_SKIP_TO_SYNC, PG_PH_COPY_IN, PG_PH_COPY_OUT} then PG_PH_READY else pc_phase pc)"
    by (subst tx(3)) (simp add: ready_boundary_def f)
  have "caps_ok pc'" by (subst tx(3)) (use es(2) in \<open>simp add: ready_boundary_def caps_ok_def\<close>)
  then show "pg_inv pc'"
    by (rule pg_inv_blank [OF inv]) (subst tx(3), simp add: ready_boundary_def f)+
qed

end
