(* ===== verification/Proto_Handler.thy ===== *)
theory Proto_Handler
  imports Framer_Chunks Proto_Types
begin

text \<open>
  The contract between the framer and a protocol handler. A handler is the three callbacks of
  \<open>lk_msg_sink\<close> (src/src/agent/reassembly.h) over the shared handler object. \<open>proto_handler\<close> holds
  what every handler owes the core: it keeps its per-connection state well-formed, it touches nothing
  of the connection but flags and its own state, and its counters agree with what it reports.
  \<open>plain_handler\<close> adds that it never looks at the framer's fields and never blinds the connection.
\<close>

datatype handler_ev = HMsg lk_dir lk_msg | HResync lk_dir | HClose

locale proto_handler =
  fixes on_msg :: "lk_proto \<Rightarrow> ('ps, 'fs) lk_conn \<Rightarrow> lk_dir \<Rightarrow> lk_msg \<Rightarrow> lk_proto \<times> ('ps, 'fs) lk_conn"
    and on_resync :: "lk_proto \<Rightarrow> ('ps, 'fs) lk_conn \<Rightarrow> lk_dir \<Rightarrow> lk_proto \<times> ('ps, 'fs) lk_conn"
    and on_close :: "lk_proto \<Rightarrow> ('ps, 'fs) lk_conn \<Rightarrow> lk_proto \<times> ('ps, 'fs) lk_conn"
    and ok :: "'ps \<Rightarrow> bool"
  assumes msg_ok: "pred_option ok (cn_proto_state c) \<Longrightarrow> on_msg p c d m = (p', c') \<Longrightarrow> pred_option ok (cn_proto_state c')"
    and msg_accounts: "pred_option ok (cn_proto_state c) \<Longrightarrow> on_msg p c d m = (p', c') \<Longrightarrow> accounts p p'"
    and msg_keeps: "keeps_core c (snd (on_msg p c d m))"
    and resync_ok: "pred_option ok (cn_proto_state c) \<Longrightarrow> on_resync p c d = (p', c') \<Longrightarrow> pred_option ok (cn_proto_state c')"
    and resync_silent: "on_resync p c d = (p', c') \<Longrightarrow> silent p p'"
    and resync_keeps: "keeps_core c (snd (on_resync p c d))"
    and close_silent: "on_close p c = (p', c') \<Longrightarrow> silent p p'"
    and close_state: "on_close p c = (p', c') \<Longrightarrow> cn_proto_state c' = None"
begin

primrec handle :: "handler_ev \<Rightarrow> lk_proto \<times> ('ps, 'fs) lk_conn \<Rightarrow> lk_proto \<times> ('ps, 'fs) lk_conn" where
  "handle (HMsg d m) s = on_msg (fst s) (snd s) d m"
| "handle (HResync d) s = on_resync (fst s) (snd s) d"
| "handle HClose s = on_close (fst s) (snd s)"

lemma handle_step:
  assumes "pred_option ok (cn_proto_state (snd s))"
  shows "pred_option ok (cn_proto_state (snd (handle ev s)))" "accounts (fst s) (fst (handle ev s))"
proof -
  obtain p' c' where h: "handle ev s = (p', c')" by fastforce
  have "pred_option ok (cn_proto_state c') \<and> accounts (fst s) p'"
  proof (cases ev)
    case (HMsg d m)
    then show ?thesis using h msg_ok [OF assms] msg_accounts [OF assms] by simp
  next
    case (HResync d)
    then show ?thesis using h resync_ok [OF assms] silent_accounts [OF resync_silent] by simp
  next
    case HClose
    then show ?thesis using h close_state silent_accounts [OF close_silent] by simp
  qed
  then show "pred_option ok (cn_proto_state (snd (handle ev s)))" "accounts (fst s) (fst (handle ev s))"
    by (simp_all add: h)
qed

lemma run_ok:
  assumes "pred_option ok (cn_proto_state (snd s))"
  shows "pred_option ok (cn_proto_state (snd (fold handle evs s)))" "accounts (fst s) (fst (fold handle evs s))"
proof -
  have "pred_option ok (cn_proto_state (snd (fold handle evs s))) \<and> accounts (fst s) (fst (fold handle evs s))"
    using assms
  proof (induction evs arbitrary: s)
    case (Cons ev evs)
    note h = handle_step [OF Cons.prems, of ev]
    show ?case using Cons.IH [OF h(1)] accounts_trans [OF h(2)] by simp
  qed simp
  then show "pred_option ok (cn_proto_state (snd (fold handle evs s)))" "accounts (fst s) (fst (fold handle evs s))" by blast+
qed

lemma handler_sink_ok: "sink_ok \<lparr>sk_ctx = p, sk_on_msg = Some on_msg, sk_on_conn_open = cb, sk_on_conn_close = cb',
    sk_on_resync = Some on_resync\<rparr>"
  by (simp add: sink_ok_def msg_keeps resync_keeps)

end

locale plain_handler = proto_handler +
  assumes msg_frame: "on_msg p (c\<lparr>cn_frame := F\<rparr>) d m = (case on_msg p c d m of (p', c') \<Rightarrow> (p', c'\<lparr>cn_frame := F\<rparr>))"
    and msg_calm: "blind_bits (snd (on_msg p c d m)) = blind_bits c" "reply_due (snd (on_msg p c d m)) = reply_due c"
    and resync_calm: "blind_bits (snd (on_resync p c d)) = blind_bits c" "reply_due (snd (on_resync p c d)) = reply_due c"
begin

lemma handler_sink_plain: "sink_plain \<lparr>sk_ctx = p, sk_on_msg = Some on_msg, sk_on_conn_open = cb, sk_on_conn_close = cb',
    sk_on_resync = Some on_resync\<rparr>"
  using handler_sink_ok by (simp add: sink_plain_def msg_frame msg_calm resync_calm)

end

end
