(* ===== verification/Pg_Handler.thy ===== *)
theory Pg_Handler
  imports Pg_Session Pg_Ready Proto_Handler
begin

text \<open>
  The PostgreSQL handler, src/src/proto/pg/pg.c: lazy per-connection state, the dispatch of each
  message by direction and type, and the three callbacks it installs as the framer's sink. The
  pointer \<open>pc\<close> aliases \<open>c->proto_state\<close>: the callbacks store the updated state back.
\<close>

section \<open>Definitions\<close>

type_synonym 'fs pg_lk_conn = "(pg_conn, 'fs) lk_conn"

definition pg_conn_get :: "lk_proto \<Rightarrow> 'fs pg_lk_conn \<Rightarrow> pg_conn option \<times> lk_proto \<times> 'fs pg_lk_conn" where
  "pg_conn_get p c =
     (case cn_proto_state c of
        Some pc \<Rightarrow> (Some pc, p, c)
      | None \<Rightarrow>
          (let (ok, hp) = hp_alloc (p_heap p); p = p\<lparr>p_heap := hp\<rparr>
           in if \<not> ok then (None, p, c)
              else
                (let pc = (if has_flag (cn_flags c) LK_CONN_SYNTHETIC
                           then pg_conn_zero\<lparr>pc_phase := PG_PH_READY, pc_degraded := True\<rparr>
                           else pg_conn_zero\<lparr>pc_phase := PG_PH_STARTUP\<rparr>)
                 in (Some pc, upd_pst (\<lambda>s. s\<lparr>ps_conns := ps_conns s + 1\<rparr>) p,
                     c\<lparr>cn_proto_state := Some pc\<rparr>))))"

definition inc_unknown :: "lk_proto \<Rightarrow> lk_proto" where
  "inc_unknown p = upd_pst (\<lambda>s. s\<lparr>ps_unknown_msgs := ps_unknown_msgs s + 1\<rparr>) p"

definition pg_frontend_msg :: "lk_proto \<Rightarrow> 'fs pg_lk_conn \<Rightarrow> pg_conn \<Rightarrow> lk_msg \<Rightarrow> lk_proto \<times> pg_conn" where
  "pg_frontend_msg p c pc m =
     (if pc_phase pc = PG_PH_IGNORE then (p, pc)
      else if has_flag (m_flags m) LK_MSG_STARTUP then pg_session_startup p c pc m
      else if m_type m = ch CHR ''Q'' then pg_query_simple p pc m
      else if m_type m = ch CHR ''P'' then pg_prep_parse p pc m
      else if m_type m = ch CHR ''B'' then pg_query_bind p pc m
      else if m_type m = ch CHR ''F'' then pg_query_function p pc m
      else if m_type m = ch CHR ''C'' then
        (let (pc, hp) = pg_prep_close pc m (p_heap p) in (p\<lparr>p_heap := hp\<rparr>, pc))
      else if m_type m = ch CHR ''p'' then (p, pc)
      else if m_type m = ch CHR ''E'' then (p, pc)
      else if m_type m \<in> {ch CHR ''D'', ch CHR ''S'', ch CHR ''H'', ch CHR ''X''} then (p, pc)
      else if m_type m = ch CHR ''d'' then (p, pg_query_copy_data pc m)
      else if m_type m \<in> {ch CHR ''c'', ch CHR ''f''} then (p, pc)
      else (inc_unknown p, pc))"

definition pg_backend_msg :: "lk_proto \<Rightarrow> 'fs pg_lk_conn \<Rightarrow> pg_conn \<Rightarrow> lk_msg
    \<Rightarrow> lk_proto \<times> 'fs pg_lk_conn \<times> pg_conn" where
  "pg_backend_msg p c pc m =
     (if pc_phase pc = PG_PH_IGNORE then (p, c, pc)
      else if m_type m = ch CHR ''R'' then (let (p, pc) = pg_session_auth p c pc m in (p, c, pc))
      else if m_type m = ch CHR ''S'' then (p, c, pg_session_param_status pc m)
      else if m_type m = ch CHR ''D'' then (p, c, pg_query_data_row pc m)
      else if m_type m = ch CHR ''C'' then (let (p, pc) = pg_query_complete p pc m in (p, c, pc))
      else if m_type m = ch CHR ''I'' then (p, c, pg_query_empty pc m)
      else if m_type m = ch CHR ''s'' then (p, c, pg_query_suspended pc m)
      else if m_type m = ch CHR ''E'' then (p, c, pg_query_error pc m)
      else if m_type m = ch CHR ''V'' then (p, c, pg_query_func_response pc m)
      else if m_type m = ch CHR ''Z'' then (let (p, pc) = pg_query_ready p c pc m in (p, c, pc))
      else if m_type m \<in> {ch CHR ''T'', ch CHR ''t'', ch CHR ''n'', ch CHR ''1'', ch CHR ''2'',
                          ch CHR ''3'', ch CHR ''N'', ch CHR ''A'', ch CHR ''K''} then (p, c, pc)
      else if m_type m = ch CHR ''G'' then (p, c, pg_query_copy_begin pc LK_Q_COPY_IN)
      else if m_type m = ch CHR ''H'' then (p, c, pg_query_copy_begin pc LK_Q_COPY_OUT)
      else if m_type m = ch CHR ''d'' then (p, c, pg_query_copy_data pc m)
      else if m_type m = ch CHR ''c'' then (p, c, pc)
      else if m_type m = ch CHR ''W'' then pg_query_copy_both p c pc
      else (inc_unknown p, c, pc))"

definition count_msg :: "lk_dir \<Rightarrow> lk_msg \<Rightarrow> lk_proto_stats \<Rightarrow> lk_proto_stats" where
  "count_msg dir m s =
     (let s = s\<lparr>ps_msgs := ps_msgs s + 1\<rparr>;
          s = (if has_flag (m_flags m) LK_MSG_STARTUP then s\<lparr>ps_startup_msgs := ps_startup_msgs s + 1\<rparr> else s)
      in s\<lparr>ps_by_type := (ps_by_type s)(dir := (ps_by_type s dir)(m_type m := ps_by_type s dir (m_type m) + 1))\<rparr>)"

definition pg_on_msg :: "lk_proto \<Rightarrow> 'fs pg_lk_conn \<Rightarrow> lk_dir \<Rightarrow> lk_msg \<Rightarrow> lk_proto \<times> 'fs pg_lk_conn" where
  "pg_on_msg p c dir m =
     (let (pc, p, c) = pg_conn_get p c;
          p = upd_pst (count_msg dir m) p
      in case pc of
           None \<Rightarrow> (p, c)
         | Some pc \<Rightarrow>
             (let pc = pc\<lparr>pc_msgs := pc_msgs pc + 1\<rparr>;
                  (p, c, pc) = (if dir = LK_DIR_RECV
                                then (let (p, pc) = pg_frontend_msg p c pc m in (p, c, pc))
                                else pg_backend_msg p c pc m)
              in (p, c\<lparr>cn_proto_state := Some pc\<rparr>)))"

definition resync_state :: "pg_conn \<Rightarrow> pg_conn" where
  "resync_state pc =
     (pg_query_drop_all pc)\<lparr>pc_degraded := True, pc_txn_status := 0,
        pc_phase := (if pc_phase pc = PG_PH_SKIP_TO_SYNC \<or> pc_phase pc = PG_PH_COPY_IN
                        \<or> pc_phase pc = PG_PH_COPY_OUT then PG_PH_READY else pc_phase pc)\<rparr>"

definition pg_on_resync :: "lk_proto \<Rightarrow> 'fs pg_lk_conn \<Rightarrow> lk_dir \<Rightarrow> lk_proto \<times> 'fs pg_lk_conn" where
  "pg_on_resync p c dir =
     (let (pc, p, c) = pg_conn_get p c;
          p = upd_pst (\<lambda>s. s\<lparr>ps_resyncs := ps_resyncs s + 1\<rparr>) p
      in case pc of
           None \<Rightarrow> (p, c)
         | Some pc \<Rightarrow>
             (upd_pst (\<lambda>s. s\<lparr>ps_units_dropped_resync := ps_units_dropped_resync s + pc_count pc\<rparr>) p,
              c\<lparr>cn_proto_state := Some (resync_state pc)\<rparr>))"

definition pg_on_conn_close :: "lk_proto \<Rightarrow> 'fs pg_lk_conn \<Rightarrow> lk_proto \<times> 'fs pg_lk_conn" where
  "pg_on_conn_close p c =
     (case cn_proto_state c of
        None \<Rightarrow> (p, c)
      | Some pc \<Rightarrow>
          (let p = upd_pst (\<lambda>s. s\<lparr>ps_units_dropped_close := ps_units_dropped_close s + pc_count pc\<rparr>) p;
               pc = pg_query_drop_all pc;
               hp = fold (\<lambda>i. free_text (u_own_cap (pc_ring pc i))) [0..<LK_PG_MAX_INFLIGHT] (p_heap p);
               (pc, hp) = pg_prep_free pc hp
           in (p\<lparr>p_heap := hp_free hp\<rparr>, c\<lparr>cn_proto_state := None\<rparr>)))"

text \<open>\<open>lk_proto_pg_new\<close>: the handler with its callbacks and the sink that has it as its context. None
  is a failed allocation.\<close>

definition pg_msink :: "lk_proto \<Rightarrow> (lk_proto, pg_conn, 'fs) lk_msg_sink" where
  "pg_msink p = \<lparr>sk_ctx = p, sk_on_msg = Some pg_on_msg, sk_on_conn_open = None,
     sk_on_conn_close = Some pg_on_conn_close, sk_on_resync = Some pg_on_resync\<rparr>"

definition lk_proto_pg_new :: "bool \<Rightarrow> bool \<Rightarrow> bool \<Rightarrow> heap \<Rightarrow> (lk_proto, pg_conn, 'fs) lk_msg_sink option \<times> heap" where
  "lk_proto_pg_new has_query has_session has_txn hp =
     (let (ok, hp) = hp_alloc hp
      in if \<not> ok then (None, hp)
         else (Some (pg_msink \<lparr>p_has_query = has_query, p_has_session = has_session, p_has_txn = has_txn,
           p_calls = [], p_st = lk_proto_stats_zero, p_heap = hp\<rparr>), hp))"

section \<open>Session messages\<close>

lemma set_param_ok: "session_ok s \<Longrightarrow> session_ok (set_param key val s)"
  by (simp add: set_param_def copy_field_def session_ok_def)

lemma parse_params_ok: "session_ok s \<Longrightarrow> session_ok (parse_params w s)"
proof (induction w s rule: parse_params.induct)
  case (1 w s)
  show ?case
    by (subst parse_params.simps)
      (auto split: prod.split simp: Let_def set_param_ok [OF "1.prems"] "1.prems" intro!: "1.IH" set_param_ok)
qed

lemma session_complete_ok [simp]: "session_ok (s\<lparr>se_complete := b\<rparr>) = session_ok s"
  by (simp add: session_ok_def)

lemma pg_inv_session_ok: "pg_inv pc \<Longrightarrow> session_ok (pc_session pc)"
  by (simp add: pg_inv_def)

lemma startup_live:
  assumes inv: "pg_inv pc" and "pg_session_startup p c pc m = (p', pc')"
  shows "live_step mem pc pc'" "accounts p p'" "p_heap p' = p_heap p"
proof -
  have "live_step mem pc (pc\<lparr>pc_session := s, pc_phase := ph\<rparr>)" if "session_ok s" for s ph
    using live_step_trans [OF live_session [OF inv that] live_phase [OF live_inv [OF live_session [OF inv that]]]] by simp
  moreover have "accounts p (fst (emit_cancel p c pc))" "p_heap (fst (emit_cancel p c pc)) = p_heap p"
    unfolding accounts_def emit_cancel_def
    by (auto simp: Let_def reports_def same_out_def calls_simps failed_def)
  ultimately show "live_step mem pc pc'" "accounts p p'" "p_heap p' = p_heap p"
    using assms parse_params_ok [OF pg_inv_session_ok [OF inv]] live_step_refl [OF inv] live_phase [OF inv]
    by (auto simp: pg_session_startup_def emit_cancel_def Let_def split: prod.splits if_splits)
qed

lemma auth_live:
  assumes inv: "pg_inv pc" and "pg_session_auth p c pc m = (p', pc')"
  shows "live_step mem pc pc'" "accounts p p'" "p_heap p' = p_heap p"
proof -
  let ?p = "upd_pst (\<lambda>s. s\<lparr>ps_sessions := ps_sessions s + 1\<rparr>) p"
  have "accounts p ?p" by (rule silent_accounts, rule silent_upd) simp_all
  from accounts_trans [OF this call_session_reports] have "accounts p (call_session ?p c s)" for s .
  then show "live_step mem pc pc'" "accounts p p'" "p_heap p' = p_heap p"
    using assms live_step_refl [OF inv] live_phase [OF inv]
    by (auto simp: pg_session_auth_def Let_def split: prod.splits if_splits)
qed

lemma param_status_live:
  assumes inv: "pg_inv pc"
  shows "live_step mem pc (pg_session_param_status pc m)"
proof -
  have "session_ok ((pc_session pc)\<lparr>se_server_version := copy_field 16 v\<rparr>)" for v
    using pg_inv_session_ok [OF inv] by (simp add: session_ok_def copy_field_def)
  then show ?thesis using live_session [OF inv] live_step_refl [OF inv]
    by (simp add: pg_session_param_status_def Let_def split: prod.split)
qed

section \<open>Dispatch\<close>

lemma inc_unknown_silent: "silent p (inc_unknown p)" "p_heap (inc_unknown p) = p_heap p"
  unfolding inc_unknown_def by (rule silent_upd) simp_all

definition close_stmt :: "lk_proto \<Rightarrow> pg_conn \<Rightarrow> lk_msg \<Rightarrow> lk_proto \<times> pg_conn" where
  "close_stmt p pc m = (let (pc, hp) = pg_prep_close pc m (p_heap p) in (p\<lparr>p_heap := hp\<rparr>, pc))"

lemma frontend_cases:
  "pg_frontend_msg p c pc m \<in> {(p, pc), pg_session_startup p c pc m, pg_query_simple p pc m, pg_prep_parse p pc m,
     pg_query_bind p pc m, pg_query_function p pc m, close_stmt p pc m, (p, pg_query_copy_data pc m), (inc_unknown p, pc)}"
  by (simp add: pg_frontend_msg_def close_stmt_def)

lemma close_stmt_live:
  assumes "pg_inv pc" and "close_stmt p pc m = (p', pc')"
  shows "live_step (heap_never_fails (p_heap p)) pc pc'" "silent p p'"
  using assms cache_step_live [OF pg_prep_close_step(1) [OF assms(1)]] by (auto simp: close_stmt_def split: prod.splits)

lemma frontend_live:
  assumes inv: "pg_inv pc" and f: "pg_frontend_msg p c pc m = (p', pc')"
  shows "live_step (heap_never_fails (p_heap p)) pc pc'" "accounts p p'"
proof -
  let ?mem = "heap_never_fails (p_heap p)"
  have "live_step ?mem pc pc' \<and> accounts p p'"
    using frontend_cases [of p c pc m] unfolding f insert_iff empty_iff
  proof (elim disjE)
    assume "(p', pc') = (p, pc)"
    then show ?thesis using live_step_refl [OF inv] by simp
  next
    assume "(p', pc') = pg_session_startup p c pc m"
    then show ?thesis using startup_live(1,2) [OF inv, of p c m p' pc'] by simp
  next
    assume "(p', pc') = pg_query_simple p pc m"
    then show ?thesis using simple_live(1,2) [OF inv, of p m p' pc'] by (simp add: silent_accounts)
  next
    assume "(p', pc') = pg_prep_parse p pc m"
    then show ?thesis using pg_prep_parse_step(1,2) [OF inv, of p m p' pc'] by (simp add: silent_accounts cache_step_live)
  next
    assume "(p', pc') = pg_query_bind p pc m"
    then show ?thesis using bind_live(1,2) [OF inv, of p m p' pc'] by (simp add: silent_accounts)
  next
    assume "(p', pc') = pg_query_function p pc m"
    then show ?thesis using function_live(1,2) [OF inv, of p m p' pc'] by (simp add: silent_accounts)
  next
    assume "(p', pc') = close_stmt p pc m"
    then show ?thesis using close_stmt_live [OF inv, of p m p' pc'] by (simp add: silent_accounts)
  next
    assume "(p', pc') = (p, pg_query_copy_data pc m)"
    then show ?thesis using copy_data_live [OF inv] by simp
  next
    assume "(p', pc') = (inc_unknown p, pc)"
    then show ?thesis using live_step_refl [OF inv] inc_unknown_silent(1) by (simp add: silent_accounts)
  qed simp
  then show "live_step ?mem pc pc'" "accounts p p'" by blast+
qed

text \<open>A reply other than the three that end a batch: ReadyForQuery, CopyBothResponse, and a
  CommandComplete whose content is corrupt.\<close>

definition ends_batch :: "pg_conn \<Rightarrow> lk_msg \<Rightarrow> bool" where
  "ends_batch pc m \<longleftrightarrow> m_type m = ch CHR ''Z'' \<or> m_type m = ch CHR ''W''
     \<or> m_type m = ch CHR ''C'' \<and> \<not> m_trunc m \<and> 0 \<notin> set (m_body m)"

definition on_pc :: "'c \<Rightarrow> lk_proto \<times> pg_conn \<Rightarrow> lk_proto \<times> 'c \<times> pg_conn" where
  "on_pc c r = (fst r, c, snd r)"

definition live_replies :: "lk_proto \<Rightarrow> 'fs pg_lk_conn \<Rightarrow> pg_conn \<Rightarrow> lk_msg \<Rightarrow> (lk_proto \<times> pg_conn) set" where
  "live_replies p c pc m = {(p, pc), pg_session_auth p c pc m, (p, pg_session_param_status pc m),
     (p, pg_query_data_row pc m), (p, pg_query_empty pc m), (p, pg_query_suspended pc m),
     (p, pg_query_error pc m), (p, pg_query_func_response pc m), (p, pg_query_copy_begin pc LK_Q_COPY_IN),
     (p, pg_query_copy_begin pc LK_Q_COPY_OUT), (p, pg_query_copy_data pc m), (inc_unknown p, pc)}"

lemma backend_cases:
  "pg_backend_msg p c pc m \<in> on_pc c ` live_replies p c pc m
   \<or> m_type m = ch CHR ''C'' \<and> pg_backend_msg p c pc m = on_pc c (pg_query_complete p pc m)
   \<or> m_type m = ch CHR ''Z'' \<and> pg_backend_msg p c pc m = on_pc c (pg_query_ready p c pc m)
   \<or> m_type m = ch CHR ''W'' \<and> pg_backend_msg p c pc m = pg_query_copy_both p c pc"
  by (simp add: pg_backend_msg_def live_replies_def on_pc_def split_def Let_def)

lemma live_replies_live:
  assumes inv: "pg_inv pc" and r: "(p', pc') \<in> live_replies p c pc m"
  shows "live_step mem pc pc'" "accounts p p'"
proof -
  obtain pa pca where a: "pg_session_auth p c pc m = (pa, pca)" by fastforce
  note al = auth_live(1) [OF inv a, of mem] auth_live(2) [OF inv a]
  have "live_step mem pc pc' \<and> accounts p p'"
    using r live_step_refl [OF inv] al param_status_live [OF inv] data_row_live [OF inv] empty_live [OF inv]
      suspended_live [OF inv] error_live [OF inv] func_response_live [OF inv] copy_begin_live [OF inv]
      copy_data_live [OF inv] silent_accounts [OF inc_unknown_silent(1)]
    unfolding live_replies_def a by auto
  then show "live_step mem pc pc'" "accounts p p'" by blast+
qed

lemma corrupt_silent: "silent p (fst (corrupt p pc))"
  unfolding corrupt_def fst_conv by (rule silent_upd) simp_all

lemma copy_both_silent: "silent p (fst (pg_query_copy_both p c pc))"
  unfolding pg_query_copy_both_def fst_conv by (rule silent_upd) simp_all

lemma backend_step:
  assumes inv: "pg_inv pc" and b: "pg_backend_msg p c pc m = (p', c', pc')"
  shows "pg_inv pc'" "accounts p p'" "\<not> ends_batch pc m \<Longrightarrow> live_step mem pc pc'"
    "c' = c \<or> c' = c\<lparr>cn_flags := cn_flags c OR LK_CONN_REPLICATION\<rparr>"
proof -
  let ?P = "pg_inv pc' \<and> accounts p p' \<and> (\<not> ends_batch pc m \<longrightarrow> live_step mem pc pc')
    \<and> (c' = c \<or> c' = c\<lparr>cn_flags := cn_flags c OR LK_CONN_REPLICATION\<rparr>)"
  have live: ?P if "c' = c" "live_step mem pc pc'" "accounts p p'"
    using that live_inv [OF that(2)] by simp
  have "?P"
    using backend_cases [of p c pc m] unfolding b
  proof (elim disjE conjE)
    assume "(p', c', pc') \<in> on_pc c ` live_replies p c pc m"
    then have "c' = c" "(p', pc') \<in> live_replies p c pc m" by (auto simp: on_pc_def)
    then show ?thesis using live live_replies_live [OF inv] by blast
  next
    assume t: "m_type m = ch CHR ''C''" "(p', c', pc') = on_pc c (pg_query_complete p pc m)"
    then have "c' = c" "pg_query_complete p pc m = (p', pc')" by (auto simp: on_pc_def)
    with complete_live [OF inv this(2), of mem] show ?thesis
      using live t(1) corrupt_inv [OF inv, of p] corrupt_silent [of p pc]
      by (cases "corrupt p pc") (auto simp: ends_batch_def silent_accounts)
  next
    assume z: "m_type m = ch CHR ''Z''" "(p', c', pc') = on_pc c (pg_query_ready p c pc m)"
    then have "c' = c" "pg_query_ready p c pc m = (p', pc')" by (auto simp: on_pc_def)
    then show ?thesis using ready_spec(1,2) [OF inv, of p c m p' pc'] z(1) by (auto simp: ends_batch_def accounts_def)
  next
    assume w: "m_type m = ch CHR ''W''" "(p', c', pc') = pg_query_copy_both p c pc"
    then show ?thesis using copy_both_inv [OF inv, of p c] copy_both_silent [of p c pc]
      by (auto simp: ends_batch_def silent_accounts pg_query_copy_both_def)
  qed
  then show "pg_inv pc'" "accounts p p'" "\<not> ends_batch pc m \<Longrightarrow> live_step mem pc pc'"
    "c' = c \<or> c' = c\<lparr>cn_flags := cn_flags c OR LK_CONN_REPLICATION\<rparr>" by blast+
qed

section \<open>The callbacks\<close>

lemma pg_conn_get_props:
  assumes "pg_conn_get p c = (r, p', c')" and "pred_option pg_inv (cn_proto_state c)"
  shows "silent p p'" "pred_option pg_inv r" "cn_proto_state c' = r"
    "c' = c\<lparr>cn_proto_state := r\<rparr>" "hp_ok (p_heap p') = hp_ok (p_heap p)"
proof -
  have fresh: "pg_inv (pg_conn_zero\<lparr>pc_phase := ph\<rparr>)" "pg_inv (pg_conn_zero\<lparr>pc_phase := ph, pc_degraded := True\<rparr>)" for ph
    using pg_inv_zero by (simp_all add: pg_inv_def ring_ok_def caps_ok_def) (simp_all add: pg_conn_zero_def)
  have sil: "silent p (upd_pst (\<lambda>s. s\<lparr>ps_conns := ps_conns s + 1\<rparr>) (p\<lparr>p_heap := h\<rparr>))" for h
    by (simp add: silent_def same_out_def)
  have "silent p p' \<and> pred_option pg_inv r \<and> c' = c\<lparr>cn_proto_state := r\<rparr> \<and> hp_ok (p_heap p') = hp_ok (p_heap p)"
  proof (cases "cn_proto_state c")
    case None
    then show ?thesis using assms fresh sil by (auto simp: pg_conn_get_def hp_alloc_def Let_def split: if_splits)
  next
    case (Some pc)
    then have "r = Some pc" "p' = p" "c' = c" "c\<lparr>cn_proto_state := Some pc\<rparr> = c" using assms(1) by (simp_all add: pg_conn_get_def)
    then show ?thesis using Some assms(2) by simp
  qed
  then show "silent p p'" "pred_option pg_inv r" "cn_proto_state c' = r" "c' = c\<lparr>cn_proto_state := r\<rparr>"
    "hp_ok (p_heap p') = hp_ok (p_heap p)" by auto
qed

lemma count_msg_silent: "silent p (upd_pst (count_msg d m) p)"
  by (rule silent_upd) (simp_all add: count_msg_def Let_def)

lemma pg_on_msg_step:
  assumes inv: "pred_option pg_inv (cn_proto_state c)" and r: "pg_on_msg p c d m = (p', c')"
  shows "pred_option pg_inv (cn_proto_state c')" "accounts p p'"
proof -
  obtain x p1 c1 where g: "pg_conn_get p c = (x, p1, c1)" by (metis prod_cases3)
  note gp = pg_conn_get_props [OF g inv]
  let ?p2 = "upd_pst (count_msg d m) p1"
  have s2: "accounts p ?p2" using silent_accounts [OF silent_trans [OF gp(1) count_msg_silent]] .
  have "pred_option pg_inv (cn_proto_state c') \<and> accounts p p'"
  proof (cases x)
    case None
    then show ?thesis using r g gp(2,3) s2 by (simp add: pg_on_msg_def)
  next
    case (Some pc)
    let ?pc = "pc\<lparr>pc_msgs := pc_msgs pc + 1\<rparr>"
    have inv': "pg_inv ?pc" using gp(2) Some by simp
    show ?thesis
    proof (cases "d = LK_DIR_RECV")
      case True
      obtain p3 pc3 where f: "pg_frontend_msg ?p2 c1 ?pc m = (p3, pc3)" by fastforce
      have "p' = p3" "cn_proto_state c' = Some pc3" using r g Some True f by (auto simp: pg_on_msg_def)
      then show ?thesis using live_inv [OF frontend_live(1) [OF inv' f]] accounts_trans [OF s2 frontend_live(2) [OF inv' f]] by simp
    next
      case False
      obtain p3 c3 pc3 where f: "pg_backend_msg ?p2 c1 ?pc m = (p3, c3, pc3)" by (metis prod_cases3)
      have "p' = p3" "cn_proto_state c' = Some pc3" using r g Some False f by (auto simp: pg_on_msg_def)
      then show ?thesis using backend_step(1) [OF inv' f] accounts_trans [OF s2 backend_step(2) [OF inv' f]] by simp
    qed
  qed
  then show "pred_option pg_inv (cn_proto_state c')" "accounts p p'" by blast+
qed

lemma resync_state_inv: "pg_inv pc \<Longrightarrow> pg_inv (resync_state pc)"
  unfolding resync_state_def by (erule pg_inv_empty [of pc]) (simp_all add: pg_query_drop_all_def)

lemma pg_on_resync_step:
  assumes r: "pg_on_resync p c d = (p', c')"
  shows "pred_option pg_inv (cn_proto_state c) \<Longrightarrow> pred_option pg_inv (cn_proto_state c')" "silent p p'"
proof -
  obtain x p1 c1 where g: "pg_conn_get p c = (x, p1, c1)" by (metis prod_cases3)
  have s: "silent p p1"
    using g by (auto simp: pg_conn_get_def hp_alloc_def Let_def silent_def same_out_def split: option.splits if_splits)
  have "silent p1 p'"
    using r g by (auto simp: pg_on_resync_def Let_def silent_def same_out_def split: option.splits)
  then show "silent p p'" using silent_trans [OF s] by simp
  show "pred_option pg_inv (cn_proto_state c')" if "pred_option pg_inv (cn_proto_state c)"
    using r g pg_conn_get_props(2,3) [OF g that] resync_state_inv by (cases x) (auto simp: pg_on_resync_def)
qed

text \<open>What the callbacks leave of the connection.\<close>

lemma backend_conn:
  "fst (snd (pg_backend_msg p c pc m)) = c
   \<or> fst (snd (pg_backend_msg p c pc m)) = c\<lparr>cn_flags := cn_flags c OR LK_CONN_REPLICATION\<rparr>"
  using backend_cases [of p c pc m] by (auto simp: on_pc_def pg_query_copy_both_def)

lemma pg_conn_get_conn: "\<exists>st. snd (snd (pg_conn_get p c)) = c\<lparr>cn_proto_state := st\<rparr>"
  by (auto simp: pg_conn_get_def Let_def split: option.split prod.split intro: exI [of _ "cn_proto_state c"])

lemma pg_on_msg_conn:
  "\<exists>st. snd (pg_on_msg p c d m) \<in> {c\<lparr>cn_proto_state := st\<rparr>,
      c\<lparr>cn_flags := cn_flags c OR LK_CONN_REPLICATION, cn_proto_state := st\<rparr>}"
proof -
  obtain x p1 c1 where g: "pg_conn_get p c = (x, p1, c1)" by (metis prod_cases3)
  obtain st where st: "c1 = c\<lparr>cn_proto_state := st\<rparr>" using pg_conn_get_conn [of p c] g by auto
  show ?thesis
  proof (cases x)
    case None
    then show ?thesis using g st by (auto simp: pg_on_msg_def)
  next
    case (Some pc)
    let ?b = "pg_backend_msg (upd_pst (count_msg d m) p1) c1 (pc\<lparr>pc_msgs := pc_msgs pc + 1\<rparr>) m"
    have "snd (pg_on_msg p c d m) = (if d = LK_DIR_RECV
      then c1\<lparr>cn_proto_state := Some (snd (pg_frontend_msg (upd_pst (count_msg d m) p1) c1 (pc\<lparr>pc_msgs := pc_msgs pc + 1\<rparr>) m))\<rparr>
      else (fst (snd ?b))\<lparr>cn_proto_state := Some (snd (snd ?b))\<rparr>)"
      using g Some by (simp add: pg_on_msg_def split_def Let_def)
    then show ?thesis
      using backend_conn [of "upd_pst (count_msg d m) p1" c1 "pc\<lparr>pc_msgs := pc_msgs pc + 1\<rparr>" m] st by auto
  qed
qed

lemma pg_on_resync_conn: "\<exists>st. snd (pg_on_resync p c d) = c\<lparr>cn_proto_state := st\<rparr>"
  using pg_conn_get_conn [of p c] by (auto simp: pg_on_resync_def split_def Let_def split: option.split)

lemma pg_on_msg_keeps: "keeps_core c (snd (pg_on_msg p c d m))"
  using pg_on_msg_conn [of p c d m] by (auto simp: keeps_core_def)

lemma pg_on_resync_keeps: "keeps_core c (snd (pg_on_resync p c d))"
  using pg_on_resync_conn [of p c d] by (auto simp: keeps_core_def)

lemma pg_on_close_step:
  assumes "pg_on_conn_close p c = (p', c')"
  shows "silent p p'" "cn_proto_state c' = None"
  using assms
  by (auto simp: pg_on_conn_close_def Let_def silent_def same_out_def split: option.splits prod.splits)

interpretation pg_hd: proto_handler pg_on_msg pg_on_resync pg_on_conn_close pg_inv
  by unfold_locales
    (auto dest: pg_on_msg_step pg_on_resync_step pg_on_close_step simp: pg_on_msg_keeps pg_on_resync_keeps)

text \<open>The handler never looks at the framer's fields.\<close>

lemma call_frame [simp]:
  "call_query p (c\<lparr>cn_frame := F\<rparr>) s q = call_query p c s q"
  "call_session p (c\<lparr>cn_frame := F\<rparr>) s = call_session p c s"
  "call_txn p (c\<lparr>cn_frame := F\<rparr>) a b st = call_txn p c a b st"
  by (simp_all add: call_query_def call_session_def call_txn_def)

lemma report_frame: "report_obs (c\<lparr>cn_frame := F\<rparr>) = report_obs c"
  by (intro ext) (simp add: report_obs_def Let_def)

lemma ready_emit_frame: "ready_emit p (c\<lparr>cn_frame := F\<rparr>) pc ts st = ready_emit p c pc ts st"
proof -
  have "ready_step (c\<lparr>cn_frame := F\<rparr>) ts st i s = ready_step c ts st i s" for i s
    by (cases s) (simp only: ready_step_eq report_frame)
  then have "ready_step (c\<lparr>cn_frame := F\<rparr>) ts st = ready_step c ts st" by blast
  then show ?thesis by (simp only: ready_emit_def)
qed

lemma ready_txn_frame: "ready_txn p (c\<lparr>cn_frame := F\<rparr>) pc ts st = ready_txn p c pc ts st"
  by (simp only: ready_txn_def call_frame Let_def)

lemma ready_frame [simp]: "pg_query_ready p (c\<lparr>cn_frame := F\<rparr>) pc m = pg_query_ready p c pc m"
  by (simp only: pg_query_ready_def ready_emit_frame ready_txn_frame)

lemma session_frame [simp]:
  "pg_session_startup p (c\<lparr>cn_frame := F\<rparr>) pc m = pg_session_startup p c pc m"
  "pg_session_auth p (c\<lparr>cn_frame := F\<rparr>) pc m = pg_session_auth p c pc m"
  by (simp_all add: pg_session_startup_def pg_session_auth_def emit_cancel_def Let_def split_def)

lemma frontend_frame [simp]: "pg_frontend_msg p (c\<lparr>cn_frame := F\<rparr>) pc m = pg_frontend_msg p c pc m"
  by (simp add: pg_frontend_msg_def)

lemma backend_frame:
  "pg_backend_msg p (c\<lparr>cn_frame := F\<rparr>) pc m = (case pg_backend_msg p c pc m of (p', c', pc') \<Rightarrow> (p', c'\<lparr>cn_frame := F\<rparr>, pc'))"
  by (simp add: pg_backend_msg_def pg_query_copy_both_def Let_def split_def)

lemma pg_conn_get_frame:
  "pg_conn_get p (c\<lparr>cn_frame := F\<rparr>) = (case pg_conn_get p c of (r, p', c') \<Rightarrow> (r, p', c'\<lparr>cn_frame := F\<rparr>))"
  by (simp add: pg_conn_get_def Let_def split: option.split prod.split)

lemma pg_on_msg_frame:
  "pg_on_msg p (c\<lparr>cn_frame := F\<rparr>) d m = (case pg_on_msg p c d m of (p', c') \<Rightarrow> (p', c'\<lparr>cn_frame := F\<rparr>))"
proof -
  obtain x p1 c1 where g: "pg_conn_get p c = (x, p1, c1)" by (metis prod_cases3)
  have g': "pg_conn_get p (c\<lparr>cn_frame := F\<rparr>) = (x, p1, c1\<lparr>cn_frame := F\<rparr>)" by (simp add: pg_conn_get_frame g)
  show ?thesis
  proof (cases x)
    case None
    then show ?thesis by (simp add: pg_on_msg_def g g')
  next
    case (Some pc)
    let ?p = "upd_pst (count_msg d m) p1" and ?pc = "pc\<lparr>pc_msgs := pc_msgs pc + 1\<rparr>"
    obtain p3 pc3 where f: "pg_frontend_msg ?p c1 ?pc m = (p3, pc3)" by fastforce
    obtain p4 c4 pc4 where b: "pg_backend_msg ?p c1 ?pc m = (p4, c4, pc4)" by (metis prod_cases3)
    have b': "pg_backend_msg ?p (c1\<lparr>cn_frame := F\<rparr>) ?pc m = (p4, c4\<lparr>cn_frame := F\<rparr>, pc4)" by (simp only: backend_frame b prod.case)
    show ?thesis
      using Some f b b' by (cases d) (simp_all add: pg_on_msg_def g g')
  qed
qed

lemma replication_bits:
  "blind_bits (c\<lparr>cn_flags := cn_flags c OR LK_CONN_REPLICATION\<rparr>) = blind_bits c"
  "reply_due (c\<lparr>cn_flags := cn_flags c OR LK_CONN_REPLICATION\<rparr>) = reply_due c"
  unfolding blind_bits_def reply_due_def has_flag_or_mask has_flag_numeral by (simp_all add: bit_simps)

lemma state_bits [simp]:
  "blind_bits (c\<lparr>cn_proto_state := st\<rparr>) = blind_bits c" "reply_due (c\<lparr>cn_proto_state := st\<rparr>) = reply_due c"
  by (simp_all add: blind_bits_def reply_due_def)

lemma pg_on_msg_calm:
  "blind_bits (snd (pg_on_msg p c d m)) = blind_bits c" "reply_due (snd (pg_on_msg p c d m)) = reply_due c"
  using pg_on_msg_conn [of p c d m] replication_bits [of c] by auto

lemma pg_on_resync_calm:
  "blind_bits (snd (pg_on_resync p c d)) = blind_bits c" "reply_due (snd (pg_on_resync p c d)) = reply_due c"
  using pg_on_resync_conn [of p c d] by auto

interpretation pg_hd: plain_handler pg_on_msg pg_on_resync pg_on_conn_close pg_inv
  by unfold_locales (simp_all add: pg_on_msg_frame pg_on_msg_calm pg_on_resync_calm)

lemma pg_msink_plain: "sink_plain (pg_msink p)"
  unfolding pg_msink_def by (rule pg_hd.handler_sink_plain)

end
