(* ===== verification/Stmt_Cache.thy ===== *)
theory Stmt_Cache
  imports Latkit_Prelude
begin

text \<open>
  The interface of a bounded statement cache: what a protocol handler relies on when it looks up the
  text of a prepared statement. As long as there is room the cache is a finite map; the lemma for a
  whole history of operations is proved once here.
\<close>

datatype ('k, 'v) cache_op = Put 'k 'v | Del 'k

primrec map_op :: "('k, 'v) cache_op \<Rightarrow> ('k \<rightharpoonup> 'v) \<Rightarrow> ('k \<rightharpoonup> 'v)" where
  "map_op (Put k v) mp = mp(k \<mapsto> v)"
| "map_op (Del k) mp = mp(k := None)"

text \<open>A history that never needs more than \<open>cap\<close> entries at once.\<close>

primrec fits :: "nat \<Rightarrow> ('k, 'v) cache_op list \<Rightarrow> ('k \<rightharpoonup> 'v) \<Rightarrow> bool" where
  "fits cap [] mp \<longleftrightarrow> True"
| "fits cap (x # xs) mp \<longleftrightarrow> card (dom (map_op x mp)) \<le> cap \<and> fits cap xs (map_op x mp)"

locale stmt_cache =
  fixes inv :: "'s \<Rightarrow> bool" and find :: "'s \<Rightarrow> 'k \<rightharpoonup> 'v" and put :: "'k \<Rightarrow> 'v \<Rightarrow> 's \<Rightarrow> 's" and del :: "'k \<Rightarrow> 's \<Rightarrow> 's"
    and key :: "'k \<Rightarrow> bool" and val :: "'v \<Rightarrow> bool" and cap :: nat
  assumes finite_dom: "inv s \<Longrightarrow> finite (dom (find s))"
    and inv_put: "inv s \<Longrightarrow> key k \<Longrightarrow> val v \<Longrightarrow> inv (put k v s)"
    and inv_del: "inv s \<Longrightarrow> key k \<Longrightarrow> inv (del k s)"
    and find_put: "inv s \<Longrightarrow> key k \<Longrightarrow> val v \<Longrightarrow> k \<in> dom (find s) \<or> card (dom (find s)) < cap
      \<Longrightarrow> find (put k v s) = (find s)(k \<mapsto> v)"
    and find_del: "inv s \<Longrightarrow> key k \<Longrightarrow> find (del k s) = (find s)(k := None)"
begin

primrec apply_op :: "('k, 'v) cache_op \<Rightarrow> 's \<Rightarrow> 's" where
  "apply_op (Put k v) s = put k v s"
| "apply_op (Del k) s = del k s"

primrec op_ok :: "('k, 'v) cache_op \<Rightarrow> bool" where
  "op_ok (Put k v) \<longleftrightarrow> key k \<and> val v"
| "op_ok (Del k) \<longleftrightarrow> key k"

lemma apply_op_find:
  assumes "inv s" and "op_ok x" and "card (dom (map_op x (find s))) \<le> cap"
  shows "find (apply_op x s) = map_op x (find s)" and "inv (apply_op x s)"
proof -
  have "k \<in> dom (find s) \<or> card (dom (find s)) < cap" if "x = Put k v" for k v
    using assms(3) finite_dom [OF assms(1)] that by (cases "k \<in> dom (find s)") (simp_all add: card_insert_if)
  then show "find (apply_op x s) = map_op x (find s)"
    using assms by (cases x) (auto simp: find_put find_del)
  show "inv (apply_op x s)"
    using assms by (cases x) (auto simp: inv_put inv_del)
qed

lemma history_refines:
  assumes "inv s" and "list_all op_ok xs" and "fits cap xs (find s)"
  shows "find (fold apply_op xs s) = fold map_op xs (find s) \<and> inv (fold apply_op xs s)"
  using assms
proof (induction xs arbitrary: s)
  case (Cons x xs)
  have "find (apply_op x s) = map_op x (find s)" "inv (apply_op x s)"
    using apply_op_find [of s x] Cons.prems by auto
  then show ?case
    using Cons.IH [of "apply_op x s"] Cons.prems by simp
qed simp

end

end
