(* ===== verification/Pg_Prep_Map.thy ===== *)
theory Pg_Prep_Map
  imports Pg_Prep Stmt_Cache
begin

text \<open>
  What the prepared-statement cache promises to the query machine: with statement names that fit a
  slot, Parse and Close act on the cache as insertion and deletion act on a finite map of capacity
  \<open>LK_PG_PREP_CACHE\<close>. The contract is the locale \<open>stmt_cache\<close>.
\<close>

section \<open>The cache is a map from names to texts\<close>

text \<open>Names of at most 63 bytes, without NUL: those that fit a slot. Texts of at most
  \<open>LK_MSG_BODY_MAX\<close> bytes. The messages are built as the client sends them.\<close>

definition name_fits :: "bytes \<Rightarrow> bool" where
  "name_fits name \<longleftrightarrow> length name \<le> 63 \<and> 0 \<notin> set name"

definition text_fits :: "bytes \<Rightarrow> bool" where
  "text_fits txt \<longleftrightarrow> length txt \<le> LK_MSG_BODY_MAX \<and> 0 \<notin> set txt"

definition parse_msg :: "bytes \<Rightarrow> bytes \<Rightarrow> lk_msg" where
  "parse_msg name query = \<lparr>m_ts_ns = 0, m_type = ch CHR ''P'', m_flags = 0, m_len = length name + length query + 8,
     m_body = name @ 0 # query @ [0, 0, 0]\<rparr>"

definition close_stmt_msg :: "bytes \<Rightarrow> lk_msg" where
  "close_stmt_msg name = \<lparr>m_ts_ns = 0, m_type = ch CHR ''C'', m_flags = 0, m_len = length name + 6,
     m_body = ch CHR ''S'' # name @ [0]\<rparr>"

definition do_parse :: "bytes \<Rightarrow> bytes \<Rightarrow> lk_proto \<times> pg_conn \<Rightarrow> lk_proto \<times> pg_conn" where
  "do_parse name query s = pg_prep_parse (fst s) (snd s) (parse_msg name query)"

definition do_close :: "bytes \<Rightarrow> lk_proto \<times> pg_conn \<Rightarrow> lk_proto \<times> pg_conn" where
  "do_close name s = (case pg_prep_close (snd s) (close_stmt_msg name) (p_heap (fst s)) of (pc, hp) \<Rightarrow> ((fst s)\<lparr>p_heap := hp\<rparr>, pc))"

definition cached_text :: "pg_conn \<Rightarrow> bytes \<Rightarrow> bytes option" where
  "cached_text pc name = (case pc_prep pc of None \<Rightarrow> None
     | Some q \<Rightarrow> (case find_by_name q name of None \<Rightarrow> None | Some i \<Rightarrow> Some (e_text (pr_e q i))))"

text \<open>With names that fit, no two slots hold the same name.\<close>

definition names_unique :: "pg_conn \<Rightarrow> bool" where
  "names_unique pc \<longleftrightarrow> (case pc_prep pc of None \<Rightarrow> True
     | Some q \<Rightarrow> (\<forall>i\<in>used_slots q. \<forall>j\<in>used_slots q. e_name (pr_e q i) = e_name (pr_e q j) \<longrightarrow> i = j))"

definition prep_map_inv :: "lk_proto \<times> pg_conn \<Rightarrow> bool" where
  "prep_map_inv s \<longleftrightarrow> pg_inv (snd s) \<and> names_unique (snd s) \<and> heap_never_fails (p_heap (fst s))"

lemma find_unique:
  assumes "\<forall>i\<in>used_slots q. \<forall>j\<in>used_slots q. e_name (pr_e q i) = e_name (pr_e q j) \<longrightarrow> i = j" and "i \<in> used_slots q"
  shows "find_by_name q (e_name (pr_e q i)) = Some i"
  using assms by (auto simp: find_by_name_Some used_slots_def)
    (metis (mono_tags, lifting) mem_Collect_eq nat_neq_iff order_less_trans)

lemma cached_iff:
  assumes "pc_prep pc = Some q" and "names_unique pc"
  shows "cached_text pc name = Some t \<longleftrightarrow> (\<exists>i\<in>used_slots q. e_name (pr_e q i) = name \<and> e_text (pr_e q i) = t)"
proof -
  have u: "\<forall>i\<in>used_slots q. \<forall>j\<in>used_slots q. e_name (pr_e q i) = e_name (pr_e q j) \<longrightarrow> i = j"
    using assms by (simp add: names_unique_def)
  have "cached_text pc name = Some t \<Longrightarrow> \<exists>i\<in>used_slots q. e_name (pr_e q i) = name \<and> e_text (pr_e q i) = t"
    using assms(1) by (auto simp: cached_text_def find_by_name_Some used_slots_def split: option.splits)
  moreover have "cached_text pc name = Some t" if "i \<in> used_slots q" "e_name (pr_e q i) = name" "e_text (pr_e q i) = t" for i
    using assms(1) find_unique [OF u that(1)] that by (simp add: cached_text_def)
  ultimately show ?thesis by blast
qed

lemma dom_cached:
  assumes "pc_prep pc = Some q" and "names_unique pc"
  shows "dom (cached_text pc) = (\<lambda>i. e_name (pr_e q i)) ` used_slots q" "card (dom (cached_text pc)) = card (used_slots q)"
proof -
  show d: "dom (cached_text pc) = (\<lambda>i. e_name (pr_e q i)) ` used_slots q"
    using cached_iff [OF assms] by (auto simp: dom_def)
  have "inj_on (\<lambda>i. e_name (pr_e q i)) (used_slots q)"
    using assms by (auto simp: names_unique_def inj_on_def)
  then show "card (dom (cached_text pc)) = card (used_slots q)"
    by (simp add: d card_image)
qed

lemma cached_None: "pc_prep pc = None \<Longrightarrow> cached_text pc = Map.empty"
  by (simp add: cached_text_def fun_eq_iff)

lemma map_eqI: "(\<And>k v. f k = Some v \<longleftrightarrow> g k = Some v) \<Longrightarrow> f = g"
  by (rule ext) (metis option.exhaust)

text \<open>Which slots and entries a store leaves.\<close>

lemma prep_store_entries:
  assumes inv: "pg_inv pc" and q: "pc_prep pc = Some q" and mem: "heap_never_fails (p_heap p)"
    and st: "prep_store p pc q name query trunc = (p', pc')"
  obtains slot q' e where "pc_prep pc' = Some q'" "pr_e q' = (pr_e q)(slot := e)" "slot < LK_PG_PREP_CACHE"
    "e_used e" "e_name e = take 63 name" "e_text e = take LK_MSG_BODY_MAX query"
    "find_by_name q name = Some slot \<or> find_by_name q name = None \<and>
       (slot \<notin> used_slots q \<or> card (used_slots q) = LK_PG_PREP_CACHE)"
proof -
  have cq: "cache_ok q" using inv q by (simp add: pg_inv_def)
  obtain slot p1 q1 where c: "claim_slot p q name = (slot, p1, q1)" by (metis prod_cases3)
  note cp = claim_slot_props [OF c cq [unfolded cache_ok_def, THEN conjunct2]]
  obtain pc2 hp2 where r: "pg_query_rescue_refs (pc\<lparr>pc_prep := Some q1\<rparr>) slot (p_heap p1) = (pc2, hp2)" by fastforce
  obtain e hp3 where f: "fill_slot (pr_e q1 slot) name query trunc (pr_clock q1 + 1) hp2 = (e, hp3)" by fastforce
  have en: "entry_ok (pr_e q1 i)" for i using cq cp(2) by (simp add: cache_ok_def)
  have lst: "list_all (unit_ok (Some q1)) (batch (pc\<lparr>pc_prep := Some q1\<rparr>))"
    using inv q unit_ok_entries [OF cp(2)] by (simp add: pg_inv_def)
  have "hp_ok hp2 = hp_ok (p_heap p1)"
    using rescue_refs(2) [OF lst _ _ en _ r] inv by (simp add: pg_inv_def ring_ok_def caps_ok_def)
  then have t: "e_text e = take LK_MSG_BODY_MAX query"
    using fill_slot_props(9) [OF f en] mem cp(5) by simp
  have full: "card (used_slots q) = LK_PG_PREP_CACHE" if "\<forall>i<LK_PG_PREP_CACHE. e_used (pr_e q i)"
    using that by (simp add: used_slots_def cong: conj_cong)
  have w: "find_by_name q name = Some slot \<or> find_by_name q name = None \<and>
       (slot \<notin> used_slots q \<or> card (used_slots q) = LK_PG_PREP_CACHE)"
    using c full
    by (auto simp: claim_slot_def pick_slot_def find_upt_Some find_upt_None used_slots_def split: option.splits)
  show thesis
    using that [of "q1\<lparr>pr_e := (pr_e q1)(slot := e), pr_clock := pr_clock q1 + 1\<rparr>" slot e]
      st c r f cp(1,2) t w fill_slot_props(2,4) [OF f en] by (auto simp: prep_store_def Let_def)
qed

lemma prep_store_map:
  assumes inv: "pg_inv pc" and q: "pc_prep pc = Some q" and mem: "heap_never_fails (p_heap p)" and u: "names_unique pc"
    and n: "name_fits name" and t: "text_fits query" and st: "prep_store p pc q name query trunc = (p', pc')"
  shows "names_unique pc'"
    "name \<in> dom (cached_text pc) \<or> card (dom (cached_text pc)) < LK_PG_PREP_CACHE
       \<Longrightarrow> cached_text pc' = (cached_text pc)(name \<mapsto> query)"
proof -
  obtain slot q' e where q': "pc_prep pc' = Some q'" "pr_e q' = (pr_e q)(slot := e)" and slot: "slot < LK_PG_PREP_CACHE"
    and e: "e_used e" "e_name e = take 63 name" "e_text e = take LK_MSG_BODY_MAX query"
    and w: "find_by_name q name = Some slot \<or> find_by_name q name = None \<and>
       (slot \<notin> used_slots q \<or> card (used_slots q) = LK_PG_PREP_CACHE)"
    using prep_store_entries [OF inv q mem st] by metis
  have e: "e_used e" "e_name e = name" "e_text e = query"
    using e n t by (simp_all add: name_fits_def text_fits_def)
  have used: "used_slots q' = insert slot (used_slots q)"
    using q'(2) slot e(1) by (auto simp: used_slots_def)
  have uq: "\<And>i j. i \<in> used_slots q \<Longrightarrow> j \<in> used_slots q \<Longrightarrow> e_name (pr_e q i) = e_name (pr_e q j) \<Longrightarrow> i = j"
    using u q by (simp add: names_unique_def)
  have other: "e_name (pr_e q j) \<noteq> name" if "j \<in> used_slots q" "j \<noteq> slot" for j
    using w
  proof
    assume "find_by_name q name = Some slot"
    then show ?thesis using that uq [of j slot] by (auto simp: find_by_name_Some used_slots_def)
  next
    assume "find_by_name q name = None \<and> (slot \<notin> used_slots q \<or> card (used_slots q) = LK_PG_PREP_CACHE)"
    then show ?thesis using that by (auto simp: find_by_name_None used_slots_def)
  qed
  show u': "names_unique pc'"
    unfolding names_unique_def q'(1) option.case used
  proof (intro ballI impI)
    fix i j assume "i \<in> insert slot (used_slots q)" "j \<in> insert slot (used_slots q)" "e_name (pr_e q' i) = e_name (pr_e q' j)"
    then show "i = j" using other uq [of i j] e(2) q'(2) by (cases "i = slot"; cases "j = slot") auto
  qed
  assume room: "name \<in> dom (cached_text pc) \<or> card (dom (cached_text pc)) < LK_PG_PREP_CACHE"
  have own: "e_name (pr_e q slot) = name" if "slot \<in> used_slots q"
  proof -
    have "name \<notin> dom (cached_text pc)" if "find_by_name q name = None"
      using q that by (simp add: cached_text_def domIff)
    then have "find_by_name q name = Some slot" using w room that dom_cached(2) [OF q u] by linarith
    then show ?thesis by (simp add: find_by_name_Some)
  qed
  show "cached_text pc' = (cached_text pc)(name \<mapsto> query)"
  proof (rule map_eqI)
    fix k v
    have "cached_text pc' k = Some v \<longleftrightarrow> (\<exists>i\<in>insert slot (used_slots q). e_name (pr_e q' i) = k \<and> e_text (pr_e q' i) = v)"
      by (simp add: cached_iff [OF q'(1) u'] used)
    also have "\<dots> \<longleftrightarrow> (name = k \<and> query = v) \<or> (\<exists>i\<in>used_slots q - {slot}. e_name (pr_e q i) = k \<and> e_text (pr_e q i) = v)"
      using q'(2) e by auto
    also have "\<dots> \<longleftrightarrow> ((cached_text pc)(name \<mapsto> query)) k = Some v"
      using other own by (auto simp: cached_iff [OF q u])
    finally show "cached_text pc' k = Some v \<longleftrightarrow> ((cached_text pc)(name \<mapsto> query)) k = Some v" .
  qed
qed

lemma prep_drop_map:
  assumes q: "pc_prep pc = Some q" and u: "names_unique pc" and f: "find_by_name q name = Some slot"
    and d: "prep_drop pc q slot hp = (pc', hp')"
  shows "names_unique pc'" "cached_text pc' = (cached_text pc)(name := None)"
proof -
  let ?e = "(pr_e q slot)\<lparr>e_used := False, e_gen := e_gen (pr_e q slot) + 1, e_name := [], e_text := []\<rparr>"
  obtain q' where q': "pc_prep pc' = Some q'" "pr_e q' = (pr_e q)(slot := ?e)"
    using d by (auto simp: prep_drop_def Let_def split: prod.splits)
  have used: "used_slots q' = used_slots q - {slot}" using q'(2) by (auto simp: used_slots_def)
  show u': "names_unique pc'" using u q q' used by (auto simp: names_unique_def)
  have slot: "slot \<in> used_slots q" "e_name (pr_e q slot) = name"
    using f by (simp_all add: find_by_name_Some used_slots_def)
  have only: "i = slot" if "i \<in> used_slots q" "e_name (pr_e q i) = name" for i
    using u q that slot by (simp add: names_unique_def)
  show "cached_text pc' = (cached_text pc)(name := None)"
  proof (rule map_eqI)
    fix k v
    have "cached_text pc' k = Some v \<longleftrightarrow> (\<exists>i\<in>used_slots q - {slot}. e_name (pr_e q i) = k \<and> e_text (pr_e q i) = v)"
      unfolding cached_iff [OF q'(1) u'] used q'(2) by (intro bex_cong) auto
    also have "\<dots> \<longleftrightarrow> k \<noteq> name \<and> (\<exists>i\<in>used_slots q. e_name (pr_e q i) = k \<and> e_text (pr_e q i) = v)"
      using slot(2) only by blast
    finally show "cached_text pc' k = Some v \<longleftrightarrow> ((cached_text pc)(name := None)) k = Some v"
      by (simp add: cached_iff [OF q u])
  qed
qed

lemma pg_prep_parse_msg:
  assumes "name_fits name" and "text_fits query"
  shows "pg_prep_parse p pc (parse_msg name query) =
     (case prep_get p pc of (r, p, pc) \<Rightarrow> case r of None \<Rightarrow> (p, pc) | Some q \<Rightarrow> prep_store p pc q name query False)"
proof -
  have b: "(\<not> True \<or> has_flag 0 LK_MSG_BODY_TRUNC) = False" by simp
  show ?thesis
    using assms by (simp add: pg_prep_parse_def parse_msg_def pg_wire_init_def name_fits_def text_fits_def b split: prod.split option.split)
qed

lemma pg_prep_close_msg:
  assumes "name_fits name"
  shows "pg_prep_close pc (close_stmt_msg name) hp = (case pc_prep pc of None \<Rightarrow> (pc, hp)
     | Some q \<Rightarrow> (case find_by_name q name of None \<Rightarrow> (pc, hp) | Some slot \<Rightarrow> prep_drop pc q slot hp))"
  using assms by (simp add: pg_prep_close_def close_stmt_msg_def pg_wire_init_def pg_wire_get_u8_def
    pg_wire_remaining_def name_fits_def)

lemma prep_get_map:
  assumes "prep_get p pc = (r, p', pc')" and "heap_never_fails (p_heap p)"
  obtains q where "r = Some q" "pc_prep pc' = Some q" "cached_text pc' = cached_text pc" "names_unique pc' = names_unique pc"
proof (cases "pc_prep pc")
  case None
  have z: "cached_text (pc\<lparr>pc_prep := Some pg_prep_cache_zero\<rparr>) = Map.empty" "names_unique (pc\<lparr>pc_prep := Some pg_prep_cache_zero\<rparr>)"
    by (simp_all add: cached_text_def names_unique_def find_by_name_def used_slots_def pg_prep_cache_zero_def
      pg_prep_zero_def fun_eq_iff find_upt_None [THEN iffD2])
  have "r = Some pg_prep_cache_zero" "pc' = pc\<lparr>pc_prep := Some pg_prep_cache_zero\<rparr>"
    using assms None by (auto simp: prep_get_def hp_alloc_def Let_def)
  then show thesis using that [of pg_prep_cache_zero] None z cached_None [OF None] by (simp add: names_unique_def)
next
  case (Some q)
  then show thesis using assms that [of q] by (simp add: prep_get_def)
qed

lemma do_parse_map:
  assumes inv: "prep_map_inv s" and n: "name_fits name" and t: "text_fits query"
  shows "prep_map_inv (do_parse name query s)"
    "name \<in> dom (cached_text (snd s)) \<or> card (dom (cached_text (snd s))) < LK_PG_PREP_CACHE
       \<Longrightarrow> cached_text (snd (do_parse name query s)) = (cached_text (snd s))(name \<mapsto> query)"
proof -
  obtain p pc where s: "s = (p, pc)" by fastforce
  have i: "pg_inv pc" "names_unique pc" "heap_never_fails (p_heap p)" using inv s by (simp_all add: prep_map_inv_def)
  obtain r p1 pc1 where g: "prep_get p pc = (r, p1, pc1)" by (metis prod_cases3)
  note gs = prep_get_step [OF i(1) g]
  obtain q where q: "r = Some q" "pc_prep pc1 = Some q" "cached_text pc1 = cached_text pc" "names_unique pc1 = names_unique pc"
    using prep_get_map [OF g i(3)] by metis
  obtain p2 pc2 where st: "prep_store p1 pc1 q name query False = (p2, pc2)" by fastforce
  have res: "do_parse name query s = (p2, pc2)"
    using g q(1) st by (simp add: do_parse_def s pg_prep_parse_msg [OF n t])
  have mem: "heap_never_fails (p_heap p1)" using gs(3) i(3) by simp
  note m = prep_store_map [OF cache_step_inv [OF gs(1)] q(2) mem _ n t st]
  note ss = prep_store_step [OF cache_step_inv [OF gs(1)] q(2) st]
  show "prep_map_inv (do_parse name query s)"
    using m(1) ss gs(3) i q(4) cache_step_inv [OF ss(1)] by (simp add: prep_map_inv_def res)
  show "cached_text (snd (do_parse name query s)) = (cached_text (snd s))(name \<mapsto> query)"
    if "name \<in> dom (cached_text (snd s)) \<or> card (dom (cached_text (snd s))) < LK_PG_PREP_CACHE"
    unfolding res using m(2) that i(2) q(3,4) by (simp add: s)
qed

lemma do_close_map:
  assumes inv: "prep_map_inv s" and n: "name_fits name"
  shows "prep_map_inv (do_close name s)" "cached_text (snd (do_close name s)) = (cached_text (snd s))(name := None)"
proof -
  obtain p pc where s: "s = (p, pc)" by fastforce
  have i: "pg_inv pc" "names_unique pc" "heap_never_fails (p_heap p)" using inv s by (simp_all add: prep_map_inv_def)
  obtain pc' hp' where c: "pg_prep_close pc (close_stmt_msg name) (p_heap p) = (pc', hp')" by fastforce
  have res: "do_close name s = (p\<lparr>p_heap := hp'\<rparr>, pc')" using c by (simp add: do_close_def s)
  note cs = pg_prep_close_step [OF i(1) c]
  have "names_unique pc' \<and> cached_text pc' = (cached_text pc)(name := None)"
  proof (cases "\<exists>q slot. pc_prep pc = Some q \<and> find_by_name q name = Some slot")
    case True
    then show ?thesis using c prep_drop_map [OF _ i(2)] by (auto simp: pg_prep_close_msg [OF n])
  next
    case False
    then have "pc' = pc" "cached_text pc name = None"
      using c by (auto simp: pg_prep_close_msg [OF n] cached_text_def split: option.splits)
    then show ?thesis using i(2) by (auto simp: fun_eq_iff)
  qed
  then show "prep_map_inv (do_close name s)" "cached_text (snd (do_close name s)) = (cached_text (snd s))(name := None)"
    unfolding res using i cs cache_step_inv [OF cs(1)] by (simp_all add: prep_map_inv_def s)
qed

interpretation pg_cache: stmt_cache prep_map_inv "\<lambda>s. cached_text (snd s)" do_parse do_close name_fits text_fits LK_PG_PREP_CACHE
proof unfold_locales
  fix s assume "prep_map_inv s"
  then show "finite (dom (cached_text (snd s)))"
    using dom_cached(1) [of "snd s"] cached_None [of "snd s"] by (cases "pc_prep (snd s)") (auto simp: prep_map_inv_def)
qed (use do_parse_map do_close_map in auto)

end
