(* ===== verification/Pg_Props.thy ===== *)
theory Pg_Props
  imports Pg_Handler Pg_Prep_Map
begin

text \<open>
  The properties of the PostgreSQL handler over whole histories of messages, resyncs and closes:
  the state invariant, the agreement of counters and observations, what a ReadyForQuery reports, what
  a unit keeps while it is in flight, and the honesty rules after a loss or an overflow.
\<close>

section \<open>Histories\<close>

primrec pg_handle :: "handler_ev \<Rightarrow> lk_proto \<times> 'fs pg_lk_conn \<Rightarrow> lk_proto \<times> 'fs pg_lk_conn" where
  "pg_handle (HMsg d m) s = pg_on_msg (fst s) (snd s) d m"
| "pg_handle (HResync d) s = pg_on_resync (fst s) (snd s) d"
| "pg_handle HClose s = pg_on_conn_close (fst s) (snd s)"

lemma pg_handle_locale: "pg_handle = pg_hd.handle"
proof (intro ext)
  fix ev and s :: "lk_proto \<times> 'fs pg_lk_conn"
  show "pg_handle ev s = pg_hd.handle ev s" by (cases ev) simp_all
qed

definition pg_feed :: "(lk_dir \<times> lk_msg) list \<Rightarrow> lk_proto \<times> 'fs pg_lk_conn \<Rightarrow> lk_proto \<times> 'fs pg_lk_conn" where
  "pg_feed ms s = fold pg_handle (map (\<lambda>(d, m). HMsg d m) ms) s"

lemma pg_feed_simps [simp]:
  "pg_feed [] s = s" "pg_feed ((d, m) # ms) s = pg_feed ms (pg_on_msg (fst s) (snd s) d m)"
  by (simp_all add: pg_feed_def)

definition proto0 :: "heap \<Rightarrow> lk_proto" where
  "proto0 hp = \<lparr>p_has_query = True, p_has_session = True, p_has_txn = True, p_calls = [], p_st = lk_proto_stats_zero, p_heap = hp\<rparr>"

definition heap0 :: heap where
  "heap0 = \<lparr>hp_calls = 0, hp_ok = (\<lambda>_. True), hp_live = 0\<rparr>"

definition conn0 :: "'fs pg_lk_conn" where
  "conn0 = lk_conn_zero\<lparr>cn_cookie := 7\<rparr>"

definition mk_msg :: "nat \<Rightarrow> string \<Rightarrow> bytes \<Rightarrow> lk_msg" where
  "mk_msg ts ty body = \<lparr>m_ts_ns = of_nat ts, m_type = ch (hd ty), m_flags = 0, m_len = length body + 4, m_body = body\<rparr>"

text \<open>C6. Every history of messages, resyncs and closes leaves a connection state in which the ring
  indices are in range, every cache reference of a unit in flight names an occupied slot of the
  generation it was bound to, no buffer exceeds its cap, the slot counter is the number of occupied
  slots, a degraded connection has nothing in flight and a lossy one a full ring.\<close>

theorem pg_state_invariant:
  assumes "pred_option pg_inv (cn_proto_state c)"
  shows "pred_option pg_inv (cn_proto_state (snd (fold pg_handle evs (p, c))))"
  unfolding pg_handle_locale by (rule pg_hd.run_ok(1)) (simp add: assms)

text \<open>C7. The counters tell the truth: over every history, the number of queries and of failed queries
  the handler counted is the number of observations, and of observations with the error flag, it
  delivered.\<close>

theorem pg_counters_match_reports:
  assumes "pred_option pg_inv (cn_proto_state c)" and "p_has_query p"
    and "p_calls p = []" and "ps_queries (p_st p) = 0" and "ps_errors_sql (p_st p) = 0"
    and "fold pg_handle evs (p, c) = (p', c')"
  shows "ps_queries (p_st p') = length (queries_of (p_calls p'))
    \<and> ps_errors_sql (p_st p') = length (filter (\<lambda>q. has_flag (o_flags q) LK_QO_ERROR) (queries_of (p_calls p')))"
proof -
  have "accounts p p'"
    using pg_hd.run_ok(2) [of "(p, c)" evs] assms(1,6) by (simp add: pg_handle_locale)
  then show ?thesis
    using assms(2-5) by (auto simp: accounts_def reports_def failed_def)
qed

section \<open>ReadyForQuery\<close>

text \<open>C8. A ReadyForQuery reports, in the order the requests were opened, exactly the units a reply has
  closed and the simple queries and function calls, each with the time of this message as its ready
  time (0 when it was aborted), then at most one transaction; a lossy batch reports no query. After it
  nothing is in flight and the connection is neither degraded nor lossy.\<close>

theorem pg_ready_reports_batch:
  assumes "pg_inv pc" and "pg_query_ready p c pc m = (p', pc')" and "p_has_query p" and "p_has_txn p"
  shows "p_calls p' = p_calls p
      @ (if pc_lossy pc then [] else map (OnQuery (cn_cookie c) (pc_session pc)) (batch_obs pc (m_ts_ns m) (z_status m)))
      @ txn_call pc c (m_ts_ns m) (z_status m)
    \<and> batch pc' = [] \<and> \<not> pc_degraded pc' \<and> \<not> pc_lossy pc'"
  using ready_spec [OF assms(1,2)] assms(3,4) by (auto simp: reports_def)

section \<open>Units in flight\<close>

text \<open>C9. A message that does not end the batch changes neither the kind, nor the start time, nor the
  text of any unit in flight, whatever it does to the statement cache (re-Parse of the name, Close,
  eviction), as long as allocations succeed.\<close>

theorem pg_units_keep_text:
  assumes st: "cn_proto_state c = Some pc" and inv: "pg_inv pc" and mem: "heap_never_fails (p_heap p)"
    and d: "d = LK_DIR_RECV \<or> \<not> ends_batch pc m" and r: "pg_on_msg p c d m = (p', c')"
  shows "\<exists>pc'. cn_proto_state c' = Some pc' \<and> pc_count pc \<le> pc_count pc' \<and>
    (\<forall>i<pc_count pc. u_kind (unit_at pc' i) = u_kind (unit_at pc i) \<and> u_ts_start (unit_at pc' i) = u_ts_start (unit_at pc i)
       \<and> fill_text pc' (unit_at pc' i) = fill_text pc (unit_at pc i))"
proof -
  let ?p = "upd_pst (count_msg d m) p" and ?pc = "pc\<lparr>pc_msgs := pc_msgs pc + 1\<rparr>"
  have inv': "pg_inv ?pc" using inv by simp
  have e: "ends_batch ?pc m = ends_batch pc m" by (simp add: ends_batch_def)
  have "\<exists>pc'. cn_proto_state c' = Some pc' \<and> live_step True ?pc pc'"
  proof (cases "d = LK_DIR_RECV")
    case True
    obtain p3 pc3 where f: "pg_frontend_msg ?p c ?pc m = (p3, pc3)" by fastforce
    have "live_step True ?pc pc3" using frontend_live(1) [OF inv' f] mem by simp
    moreover have "cn_proto_state c' = Some pc3" using r st True f by (auto simp: pg_on_msg_def pg_conn_get_def)
    ultimately show ?thesis by blast
  next
    case False
    obtain p3 c3 pc3 where f: "pg_backend_msg ?p c ?pc m = (p3, c3, pc3)" by (metis prod_cases3)
    have "live_step True ?pc pc3" using backend_step(3) [OF inv' f] d False e by simp
    moreover have "cn_proto_state c' = Some pc3" using r st False f by (auto simp: pg_on_msg_def pg_conn_get_def)
    ultimately show ?thesis by blast
  qed
  then obtain pc' where "cn_proto_state c' = Some pc'" and l: "live_step True ?pc pc'" by blast
  moreover have "fill_text ?pc u = fill_text pc u" for u by (simp add: fill_text_def)
  ultimately show ?thesis by (auto simp: live_step_def unit_kept_def)
qed


section \<open>After a loss\<close>

text \<open>Messages other than a ReadyForQuery and the startup packets report no query.\<close>

definition no_boundary :: "lk_dir \<Rightarrow> lk_msg \<Rightarrow> bool" where
  "no_boundary d m \<longleftrightarrow> (if d = LK_DIR_RECV then \<not> has_flag (m_flags m) LK_MSG_STARTUP else m_type m \<noteq> ch CHR ''Z'')"

definition same_queries :: "lk_proto \<Rightarrow> lk_proto \<Rightarrow> bool" where
  "same_queries p p' \<longleftrightarrow> queries_of (p_calls p') = queries_of (p_calls p)"

lemma silent_same_queries: "silent p p' \<Longrightarrow> same_queries p p'"
  by (simp add: silent_def same_queries_def)

lemma same_queries_trans: "same_queries p p' \<Longrightarrow> same_queries p' p'' \<Longrightarrow> same_queries p p''"
  by (simp add: same_queries_def)

lemma frontend_same_queries:
  assumes inv: "pg_inv pc" and m: "\<not> has_flag (m_flags m) LK_MSG_STARTUP" and f: "pg_frontend_msg p c pc m = (p', pc')"
  shows "same_queries p p'"
proof -
  have "pg_frontend_msg p c pc m \<in> {(p, pc), pg_query_simple p pc m, pg_prep_parse p pc m,
     pg_query_bind p pc m, pg_query_function p pc m, close_stmt p pc m, (p, pg_query_copy_data pc m), (inc_unknown p, pc)}"
    using m by (simp add: pg_frontend_msg_def close_stmt_def)
  then have "silent p p'"
    unfolding f
    using simple_live(2) [OF inv, of p m p' pc'] pg_prep_parse_step(2) [OF inv, of p m p' pc']
      bind_live(2) [OF inv, of p m p' pc'] function_live(2) [OF inv, of p m p' pc'] close_stmt_live(2) [OF inv, of p m p' pc']
      inc_unknown_silent(1) [of p]
    by (simp only: insert_iff empty_iff prod.inject simp_thms) (elim disjE; simp)
  then show ?thesis by (rule silent_same_queries)
qed

lemma auth_same_queries: "same_queries p (fst (pg_session_auth p c pc m))"
  by (simp add: pg_session_auth_def same_queries_def Let_def calls_simps split: prod.split)

lemma backend_same_queries:
  assumes inv: "pg_inv pc" and m: "m_type m \<noteq> ch CHR ''Z''" and b: "pg_backend_msg p c pc m = (p', c', pc')"
  shows "same_queries p p'" "pc_degraded pc \<Longrightarrow> pc_degraded pc'"
proof -
  have "same_queries p p' \<and> (pc_degraded pc \<longrightarrow> pc_degraded pc')"
    using backend_cases [of p c pc m] unfolding b
  proof (elim disjE conjE)
    assume "(p', c', pc') \<in> on_pc c ` live_replies p c pc m"
    then have r: "(p', pc') \<in> live_replies p c pc m" by (auto simp: on_pc_def)
    moreover have "pc_degraded pc' = pc_degraded pc" using live_replies_live(1) [OF inv r] by (simp add: live_step_def)
    ultimately show ?thesis
      using auth_same_queries [of p c pc m] silent_same_queries [OF inc_unknown_silent(1) [of p]]
      by (auto simp: live_replies_def same_queries_def) (metis fst_conv)+
  next
    assume "(p', c', pc') = on_pc c (pg_query_complete p pc m)"
    then have "pg_query_complete p pc m = (p', pc')" by (auto simp: on_pc_def)
    from complete_live [OF inv this, of True] show ?thesis
      using corrupt_silent [of p pc]
      by (cases "corrupt p pc") (auto simp: live_step_def corrupt_def same_queries_def silent_def)
  next
    assume "(p', c', pc') = pg_query_copy_both p c pc"
    then show ?thesis using copy_both_silent [of p c pc]
      by (auto simp: pg_query_copy_both_def silent_same_queries pg_query_drop_all_def)
  qed (use m in simp)
  then show "same_queries p p'" "pc_degraded pc \<Longrightarrow> pc_degraded pc'" by blast+
qed

lemma degraded_msg:
  assumes st: "cn_proto_state c = Some pc" and inv: "pg_inv pc" and deg: "pc_degraded pc"
    and m: "no_boundary d m" and r: "pg_on_msg p c d m = (p', c')"
  shows "\<exists>pc'. cn_proto_state c' = Some pc' \<and> pg_inv pc' \<and> pc_degraded pc' \<and> same_queries p p'"
proof -
  let ?p = "upd_pst (count_msg d m) p" and ?pc = "pc\<lparr>pc_msgs := pc_msgs pc + 1\<rparr>"
  have inv': "pg_inv ?pc" and deg': "pc_degraded ?pc" using inv deg by simp_all
  have s: "same_queries p ?p" using silent_same_queries [OF count_msg_silent] .
  show ?thesis
  proof (cases "d = LK_DIR_RECV")
    case True
    obtain p3 pc3 where f: "pg_frontend_msg ?p c ?pc m = (p3, pc3)" by fastforce
    have "p' = p3" "cn_proto_state c' = Some pc3" using r st True f by (auto simp: pg_on_msg_def pg_conn_get_def)
    moreover have "pg_inv pc3" "pc_degraded pc3" using frontend_live(1) [OF inv' f] deg by (simp_all add: live_step_def)
    ultimately show ?thesis
      using same_queries_trans [OF s frontend_same_queries [OF inv' _ f]] m True by (simp add: no_boundary_def)
  next
    case False
    obtain p3 c3 pc3 where f: "pg_backend_msg ?p c ?pc m = (p3, c3, pc3)" by (metis prod_cases3)
    have "p' = p3" "cn_proto_state c' = Some pc3" using r st False f by (auto simp: pg_on_msg_def pg_conn_get_def)
    moreover have "m_type m \<noteq> ch CHR ''Z''" using m False by (simp add: no_boundary_def)
    ultimately show ?thesis
      using same_queries_trans [OF s backend_same_queries(1) [OF inv' _ f]] backend_same_queries(2) [OF inv' _ f] deg
        backend_step(1) [OF inv' f] by simp
  qed
qed

lemma degraded_run:
  assumes "cn_proto_state c = Some pc" and "pg_inv pc" and "pc_degraded pc"
    and "list_all (\<lambda>(d, m). no_boundary d m) ms" and "pg_feed ms (p, c) = (p', c')"
  shows "\<exists>pc'. cn_proto_state c' = Some pc' \<and> pg_inv pc' \<and> pc_degraded pc' \<and> same_queries p p'"
  using assms
proof (induction ms arbitrary: p c pc)
  case Nil
  then show ?case by (simp add: same_queries_def)
next
  case (Cons x ms)
  obtain d m where x: "x = (d, m)" by fastforce
  obtain p1 c1 where r: "pg_on_msg p c d m = (p1, c1)" by fastforce
  have m: "no_boundary d m" "list_all (\<lambda>(d, m). no_boundary d m) ms" using Cons.prems(4) x by simp_all
  obtain pc1 where c1: "cn_proto_state c1 = Some pc1" "pg_inv pc1" "pc_degraded pc1" and s: "same_queries p p1"
    using degraded_msg [OF Cons.prems(1-3) m(1) r] by blast
  have "pg_feed ms (p1, c1) = (p', c')" using Cons.prems(5) x r by simp
  from Cons.IH [OF c1 m(2) this] show ?case using same_queries_trans [OF s] by blast
qed

text \<open>C11. No observation spans a gap: from a resync up to the next ReadyForQuery (or a new startup packet)
  no query is reported and none is in flight, whatever messages arrive.\<close>

theorem pg_no_observation_across_loss:
  assumes "cn_proto_state c = Some pc" and "pg_inv pc" and "pg_on_resync p c d = (p1, c1)"
    and "list_all (\<lambda>(d, m). no_boundary d m) ms" and "pg_feed ms (p1, c1) = (p', c')"
  shows "queries_of (p_calls p') = queries_of (p_calls p)
    \<and> (\<exists>pc'. cn_proto_state c' = Some pc' \<and> batch pc' = [] \<and> pc_degraded pc')"
proof -
  have "cn_proto_state c1 = Some (resync_state pc)" "silent p p1"
    using assms(1,3) pg_on_resync_step(2) [OF assms(3)] by (auto simp: pg_on_resync_def pg_conn_get_def)
  moreover have "pc_degraded (resync_state pc)" by (simp add: resync_state_def)
  ultimately obtain pc' where pc': "cn_proto_state c' = Some pc'" "pg_inv pc'" "pc_degraded pc'" "same_queries p1 p'"
    using degraded_run [OF _ resync_state_inv [OF assms(2)] _ assms(4,5)] by blast
  then have "queries_of (p_calls p') = queries_of (p_calls p)"
    using \<open>silent p p1\<close> by (simp add: same_queries_def silent_def)
  moreover have "batch pc' = []" using pc'(2,3) by (simp add: pg_inv_def batch_def)
  ultimately show ?thesis using pc' by blast
qed

section \<open>Secrecy\<close>

definition hide_password :: "handler_ev \<Rightarrow> handler_ev" where
  "hide_password ev = (case ev of
     HMsg d m \<Rightarrow> (if d = LK_DIR_RECV \<and> m_type m = ch CHR ''p'' \<and> \<not> has_flag (m_flags m) LK_MSG_STARTUP
                  then HMsg d (m\<lparr>m_body := [], m_len := 0\<rparr>) else ev)
   | _ \<Rightarrow> ev)"

lemma password_msg:
  fixes c :: "'fs pg_lk_conn"
  assumes "m_type m = ch CHR ''p''" and "\<not> has_flag (m_flags m) LK_MSG_STARTUP"
  shows "pg_on_msg p c LK_DIR_RECV (m\<lparr>m_body := [], m_len := 0\<rparr>) = pg_on_msg p c LK_DIR_RECV m"
proof -
  have "pg_frontend_msg q c pc m = (q, pc)" "pg_frontend_msg q c pc (m\<lparr>m_body := [], m_len := 0\<rparr>) = (q, pc)" for q pc and c :: "'fs pg_lk_conn"
    using assms by (simp_all add: pg_frontend_msg_def)
  moreover have "count_msg d (m\<lparr>m_body := [], m_len := 0\<rparr>) = count_msg d m" for d
    by (intro ext) (simp add: count_msg_def Let_def)
  ultimately show ?thesis by (simp add: pg_on_msg_def Let_def split: prod.split option.split)
qed

text \<open>C12. A password never matters: replacing the body of every PasswordMessage (type p from the client)
  by nothing changes neither what the handler reports nor any state it keeps, over every history.\<close>

theorem pg_password_irrelevant:
  "fold pg_handle (map hide_password evs) s = fold pg_handle evs s"
proof -
  have "pg_handle (hide_password ev) s = pg_handle ev s" for ev and s :: "lk_proto \<times> 'a pg_lk_conn"
    by (cases ev) (simp_all add: hide_password_def password_msg)
  then show ?thesis by (induction evs arbitrary: s) simp_all
qed

section \<open>Overflow\<close>


section \<open>Statement texts\<close>

primrec prep_op :: "(bytes, bytes) cache_op \<Rightarrow> lk_proto \<times> pg_conn \<Rightarrow> lk_proto \<times> pg_conn" where
  "prep_op (Put name query) s = do_parse name query s"
| "prep_op (Del name) s = do_close name s"

primrec prep_op_fits :: "(bytes, bytes) cache_op \<Rightarrow> bool" where
  "prep_op_fits (Put name query) \<longleftrightarrow> name_fits name \<and> text_fits query"
| "prep_op_fits (Del name) \<longleftrightarrow> name_fits name"

lemma prep_op_locale: "prep_op = pg_cache.apply_op" "prep_op_fits = pg_cache.op_ok"
proof -
  have "prep_op x s = pg_cache.apply_op x s" "prep_op_fits x = pg_cache.op_ok x" for x s
    by (cases x; simp)+
  then show "prep_op = pg_cache.apply_op" "prep_op_fits = pg_cache.op_ok" by blast+
qed

text \<open>C14. The statement cache is a map: over every history of Parse and Close messages with names that
  fit a slot and at most \<open>LK_PG_PREP_CACHE\<close> statements alive at once, looking up a name gives the text
  of the last Parse of that name that has not been closed.\<close>

theorem pg_cache_refines_map:
  assumes "prep_map_inv s" and "list_all prep_op_fits xs" and "fits LK_PG_PREP_CACHE xs (cached_text (snd s))"
  shows "cached_text (snd (fold prep_op xs s)) = fold map_op xs (cached_text (snd s))"
  using pg_cache.history_refines [OF assms(1), of xs] assms(2,3) by (simp add: prep_op_locale)

definition bind_body :: "bytes \<Rightarrow> bytes \<Rightarrow> bytes \<Rightarrow> bytes" where
  "bind_body portal stmt rest = portal @ 0 # stmt @ 0 # rest"

lemma lookup_cached:
  assumes "pg_prep_lookup pc name = (hit, pc')"
  shows "cached_text pc name = (case hit of None \<Rightarrow> None | Some (i, g, t) \<Rightarrow> (case pc_prep pc' of None \<Rightarrow> None
      | Some q \<Rightarrow> Some (e_text (pr_e q i))))"
    and "hit = Some (i, g, t) \<Longrightarrow> \<exists>q. pc_prep pc' = Some q \<and> e_used (pr_e q i) \<and> e_gen (pr_e q i) = g"
    and "pc' = pc\<lparr>pc_prep := pc_prep pc'\<rparr>"
proof -
  have u: "find_by_name q name = Some j \<Longrightarrow> e_used (pr_e q j)" for q j by (simp add: find_by_name_Some)
  show "cached_text pc name = (case hit of None \<Rightarrow> None | Some (i, g, t) \<Rightarrow> (case pc_prep pc' of None \<Rightarrow> None
      | Some q \<Rightarrow> Some (e_text (pr_e q i))))"
    "hit = Some (i, g, t) \<Longrightarrow> \<exists>q. pc_prep pc' = Some q \<and> e_used (pr_e q i) \<and> e_gen (pr_e q i) = g"
    "pc' = pc\<lparr>pc_prep := pc_prep pc'\<rparr>"
    using assms by (auto simp: pg_prep_lookup_def cached_text_def Let_def split: option.splits dest: u)
qed

text \<open>C15. A Bind of a cached statement opens a unit that reports the cached text; a Bind of a name that is
  not cached opens one that reports no text and says so.\<close>

theorem pg_bind_text:
  assumes inv: "pg_inv pc" and rdy: "pc_phase pc = PG_PH_READY" "\<not> pc_degraded pc" "\<not> pc_lossy pc"
    and room: "pc_count pc < LK_PG_MAX_INFLIGHT"
    and body: "m_body m = bind_body portal stmt rest" "0 \<notin> set portal" "0 \<notin> set stmt"
    and b: "pg_query_bind p pc m = (p', pc')"
  shows "pc_count pc' = pc_count pc + 1 \<and> u_ts_start (unit_at pc' (pc_count pc)) = m_ts_ns m
    \<and> (case cached_text pc stmt of
         Some t \<Rightarrow> fill_text pc' (unit_at pc' (pc_count pc)) = (if t = [] then None else Some t)
       | None \<Rightarrow> has_flag (u_flags (unit_at pc' (pc_count pc))) LK_QO_NO_TEXT)"
proof -
  have c: "pg_wire_cstring (pg_wire_init (m_body m)) = (True, portal, \<lparr>w_rest = stmt @ 0 # rest, w_overrun = False\<rparr>)"
    "pg_wire_cstring \<lparr>w_rest = stmt @ 0 # rest, w_overrun = False\<rparr> = (True, stmt, \<lparr>w_rest = rest, w_overrun = False\<rparr>)"
    using body by (simp_all add: bind_body_def pg_wire_init_def)
  obtain pc1 where push: "ring_push p pc = (True, p, pc1)"
    using rdy room by (simp add: ring_push_def Let_def)
  note rp = ring_push_ok [OF push]
  have nf: "\<not> bit (u_flags (unit_at pc1 (pc_count pc))) 2"
    using ring_push_last [OF push] rp(4)
    by (cases "pc_count pc = 0") (simp_all add: pipelined_def nth_append pg_unit_zero_def bit_simps)
  let ?pc2 = "upd_unit (last_unit pc1) (\<lambda>u. u\<lparr>u_kind := LK_Q_EXTENDED, u_ts_start := m_ts_ns m\<rparr>) pc1"
  obtain hit pc3 where look: "pg_prep_lookup ?pc2 stmt = (hit, pc3)" by fastforce
  note lk = lookup_cached [OF look]
  have u3: "unit_at pc3 i = unit_at ?pc2 i" "pc_count pc3 = pc_count pc + 1" "last_unit pc3 = pc_count pc" for i
    using rp(4) by (subst lk(3), simp add: last_unit_def)+
  have lu: "last_unit pc1 = pc_count pc" using rp(4) by (simp add: last_unit_def)
  have ct: "cached_text ?pc2 stmt = cached_text pc stmt" using rp(9) by (simp add: cached_text_def)
  have res: "(p', pc') = (case hit of None \<Rightarrow> (p, upd_unit (last_unit pc3) (or_flag LK_QO_NO_TEXT) pc3)
          | Some (idx, gen, t) \<Rightarrow> (p, upd_unit (last_unit pc3) (\<lambda>u.
              let u = u\<lparr>u_prep_idx := Some idx, u_prep_gen := gen\<rparr> in if t then or_flag LK_QO_TEXT_TRUNC u else u) pc3))"
    using b rdy c push look by (simp only: pg_query_bind_def Let_def split) simp
  have "pc_count pc' = pc_count pc + 1" "u_ts_start (unit_at pc' (pc_count pc)) = m_ts_ns m"
    using res by (auto simp: u3 lu Let_def split: option.splits)
  moreover have "has_flag (u_flags (unit_at pc' (pc_count pc))) LK_QO_NO_TEXT" if "cached_text pc stmt = None"
  proof -
    have "hit = None" using that ct lk(1,2) by (cases hit) (auto split: option.splits)
    then show ?thesis using res by (simp add: u3 flag_simps bit_simps)
  qed
  moreover have "fill_text pc' (unit_at pc' (pc_count pc)) = (if t = [] then None else Some t)" if "cached_text pc stmt = Some t" for t
  proof -
    have "hit \<noteq> None" using that(1) ct lk(1) by (metis option.distinct(1) option.simps(4))
    then obtain i g tr where h: "hit = Some (i, g, tr)" by auto
    obtain q where q: "pc_prep pc3 = Some q" "e_used (pr_e q i)" "e_gen (pr_e q i) = g" using lk(2) [OF h] by blast
    have t: "e_text (pr_e q i) = t" using lk(1) that ct h q(1) by simp
    have "u_flags (unit_at pc3 (pc_count pc)) = u_flags (unit_at pc1 (pc_count pc))" by (simp add: u3 lu)
    then show ?thesis using res h q t nf
      by (simp add: u3 fill_text_def Let_def flag_simps bit_simps)
  qed
  ultimately show ?thesis by (simp split: option.split)
qed

section \<open>Row counts\<close>

text \<open>The decimal digits of a number, as the server prints them.\<close>

fun decimal :: "nat \<Rightarrow> bytes" where
  "decimal n = (if n < 10 then [] else decimal (n div 10)) @ [of_nat (48 + n mod 10)]"

declare decimal.simps [simp del]

lemma digits_append: "digits (xs @ ys) a = (case digits xs a of None \<Rightarrow> None | Some b \<Rightarrow> digits ys b)"
  by (induction xs arbitrary: a) simp_all

lemma digit_range:
  assumes "d < 10"
  shows "\<not> (of_nat (48 + d) < (48 :: u8)) \<and> \<not> ((57 :: u8) < of_nat (48 + d)) \<and> unat (of_nat (48 + d) :: u8) = 48 + d"
proof -
  have "unat (of_nat (48 + d) :: u8) = 48 + d"
    using assms by (subst unat_of_nat) simp
  then show ?thesis using assms by (simp add: word_less_nat_alt)
qed

lemma digits_one: "d < 10 \<Longrightarrow> digits [of_nat (48 + d)] a = Some (a * 10 + of_nat d)"
proof -
  assume d: "d < 10"
  have "(of_nat (48 + d) :: u8) - 48 = of_nat d" by simp
  moreover have "ucast (of_nat d :: u8) = (of_nat d :: u64)"
    using d by (simp add: unsigned_of_nat take_bit_nat_eq_self)
  ultimately show ?thesis using digit_range [OF d] by simp
qed

lemma digits_decimal: "digits (decimal n) 0 = Some (of_nat n)"
proof (induction n rule: decimal.induct)
  case (1 n)
  have q: "digits (if n < 10 then [] else decimal (n div 10)) 0 = Some (of_nat (n div 10))"
    using 1 by simp
  have "digits (decimal n) 0 = Some (of_nat (n div 10) * 10 + of_nat (n mod 10))"
    by (subst decimal.simps) (simp only: digits_append q option.case digits_one [OF mod_less_divisor] zero_less_numeral)
  also have "(of_nat (n div 10) * 10 + of_nat (n mod 10) :: u64) = of_nat (n div 10 * 10 + n mod 10)"
    by (simp only: of_nat_add of_nat_mult of_nat_numeral)
  finally show ?case by (simp only: div_mult_mod_eq)
qed

lemma decimal_nospace: "b \<in> set (decimal n) \<Longrightarrow> b \<noteq> 32"
proof (induction n rule: decimal.induct)
  case (1 n)
  have "of_nat (48 + n mod 10) \<noteq> (32 :: u8)"
  proof
    assume h: "of_nat (48 + n mod 10) = (32 :: u8)"
    have "unat (of_nat (48 + n mod 10) :: u8) = 48 + n mod 10" using digit_range [of "n mod 10"] by (metis mod_less_divisor zero_less_numeral)
    then have "unat (32 :: u8) = 48 + n mod 10" unfolding h .
    then show False by simp
  qed
  moreover have "b \<in> set (if n < 10 then [] else decimal (n div 10)) \<or> b = of_nat (48 + n mod 10)"
    using 1(2) by (subst (asm) decimal.simps) auto
  ultimately show ?case using 1(1) by (auto split: if_splits)
qed

lemma decimal_nonempty: "decimal n \<noteq> []"
  by (subst decimal.simps) simp

lemma last_token_spec:
  assumes "\<And>b. b \<in> set w \<Longrightarrow> b \<noteq> 32" and "w \<noteq> []"
  shows "last_token (pre @ 32 # w) = w"
proof -
  obtain x v where rv: "rev w = x # v" using assms(2) by (cases "rev w") auto
  then have x: "x \<noteq> 32" using assms(1) [of x] by (metis list.set_intros(1) set_rev)
  have all: "\<forall>b\<in>set (rev w). b \<noteq> 32" using assms(1) by auto
  have "dropWhile (\<lambda>b. b = 32) (rev w @ 32 # rev pre) = rev w @ 32 # rev pre" using rv x by simp
  moreover have "takeWhile (\<lambda>b. b \<noteq> 32) (rev w @ 32 # rev pre) = rev w"
    using all by (subst takeWhile_append2) auto
  ultimately show ?thesis by (simp add: last_token_def Let_def)
qed

text \<open>C16. The row count of a CommandComplete tag: for every counted command, the number printed as its last
  word, whatever words stand between (the OID of an INSERT), comes back modulo \<open>2 ^ 64\<close>.\<close>

theorem pg_tag_rows_roundtrip:
  assumes "verb \<in> set counted" and "mid = [] \<or> hd mid = 32"
  shows "tag_rows (verb @ mid @ 32 # decimal n) = of_nat n"
proof -
  have v: "\<forall>b\<in>set verb. b \<noteq> 32" using assms(1) by (auto simp: counted_def)
  have "takeWhile (\<lambda>b. b \<noteq> 32) (verb @ mid @ 32 # decimal n) = verb"
    using v assms(2) by (subst takeWhile_append2) (auto simp: takeWhile_eq_Nil_iff hd_append)
  moreover have "last_token (verb @ mid @ 32 # decimal n) = decimal n"
    using last_token_spec [of "decimal n" "verb @ mid"] decimal_nospace decimal_nonempty by simp
  ultimately show ?thesis using assms(1) by (simp add: tag_rows_def digits_decimal)
qed

theorem pg_tag_rows_roundtrip_witness: "tag_rows (lit ''INSERT'' @ lit '' 0'' @ 32 # decimal 5) = 5"
  using pg_tag_rows_roundtrip [of "lit ''INSERT''" "lit '' 0''" 5] by (simp add: counted_def)

end
