(* ===== verification/Pg_Memory.thy ===== *)
theory Pg_Memory
  imports Pg_Props
begin

text \<open>
  Every block the PostgreSQL handler allocates is accounted for: the connection state, the statement
  cache, and the text buffers of ring units and cache slots, which are kept across reuse and grow by
  \<open>realloc\<close>. Closing the connection returns them all, whatever allocation failed on the way.
\<close>

section \<open>Blocks\<close>

definition own_blocks :: "pg_conn \<Rightarrow> nat" where
  "own_blocks pc = (\<Sum>i<LK_PG_MAX_INFLIGHT. blk (u_own_cap (pc_ring pc i)))"

definition text_blocks :: "pg_prep_cache \<Rightarrow> nat" where
  "text_blocks q = (\<Sum>i<LK_PG_PREP_CACHE. blk (e_text_cap (pr_e q i)))"

definition cache_blocks :: "pg_prep_cache option \<Rightarrow> nat" where
  "cache_blocks pr = (case pr of None \<Rightarrow> 0 | Some q \<Rightarrow> 1 + text_blocks q)"

definition pg_blocks :: "pg_conn \<Rightarrow> nat" where
  "pg_blocks pc = 1 + own_blocks pc + cache_blocks (pc_prep pc)"

definition state_blocks :: "pg_conn option \<Rightarrow> nat" where
  "state_blocks st = (case st of None \<Rightarrow> 0 | Some pc \<Rightarrow> pg_blocks pc)"

text \<open>What was allocated is what the state holds more.\<close>

definition balanced :: "heap \<Rightarrow> pg_conn \<Rightarrow> heap \<Rightarrow> pg_conn \<Rightarrow> bool" where
  "balanced hp pc hp' pc' \<longleftrightarrow> hp_live hp' + pg_blocks pc = hp_live hp + pg_blocks pc'"

lemma balanced_refl [simp]: "balanced hp pc hp pc"
  by (simp add: balanced_def)

lemma balanced_live: "hp_live hp' = hp_live hp \<Longrightarrow> balanced hp pc hp' pc"
  by (simp add: balanced_def)

lemma balanced_trans: "balanced hp pc hp' pc' \<Longrightarrow> balanced hp' pc' hp'' pc'' \<Longrightarrow> balanced hp pc hp'' pc''"
  by (simp add: balanced_def)

lemma own_blocks_upd:
  "own_blocks (upd_unit i g pc) + blk (u_own_cap (unit_at pc i)) = own_blocks pc + blk (u_own_cap (g (unit_at pc i)))"
proof -
  let ?f = "\<lambda>s. blk (u_own_cap (pc_ring pc s))"
  have "slot_of pc i < LK_PG_MAX_INFLIGHT" by (simp add: slot_of_def LK_PG_MAX_INFLIGHT_def)
  from sum_upd [OF this, of ?f "blk (u_own_cap (g (unit_at pc i)))"]
  show ?thesis
    by (simp add: own_blocks_def upd_unit_def unit_at_def fun_upd_def if_distrib [of u_own_cap] if_distrib [of blk] cong: if_cong)
qed

lemma text_blocks_upd:
  assumes "slot < LK_PG_PREP_CACHE" and "pr_e q' = (pr_e q)(slot := e)"
  shows "text_blocks q' + blk (e_text_cap (pr_e q slot)) = text_blocks q + blk (e_text_cap e)"
  using sum_upd [OF assms(1), of "\<lambda>i. blk (e_text_cap (pr_e q i))" "blk (e_text_cap e)"] assms(2)
  by (simp add: text_blocks_def fun_upd_def if_distrib [of e_text_cap] if_distrib [of blk] cong: if_cong)

text \<open>Steps that allocate nothing.\<close>

definition same_caps :: "pg_conn \<Rightarrow> pg_conn \<Rightarrow> bool" where
  "same_caps pc pc' \<longleftrightarrow> own_blocks pc' = own_blocks pc \<and> cache_blocks (pc_prep pc') = cache_blocks (pc_prep pc)"

lemma same_caps_balanced: "same_caps pc pc' \<Longrightarrow> balanced hp pc hp pc'"
  by (simp add: same_caps_def balanced_def pg_blocks_def)

lemma same_caps_refl [simp]: "same_caps pc pc"
  by (simp add: same_caps_def)

lemma same_caps_trans: "same_caps pc pc' \<Longrightarrow> same_caps pc' pc'' \<Longrightarrow> same_caps pc pc''"
  by (simp add: same_caps_def)

lemma same_caps_upd: "u_own_cap (g (unit_at pc i)) = u_own_cap (unit_at pc i) \<Longrightarrow> same_caps pc (upd_unit i g pc)"
  using own_blocks_upd [of i g pc] by (simp add: same_caps_def)

lemma same_caps_range: "(\<And>u. u_own_cap (g u) = u_own_cap u) \<Longrightarrow> same_caps pc (upd_range g a b pc)"
  by (induction b) (auto intro: same_caps_trans same_caps_upd)

lemma same_caps_fields [simp]:
  "same_caps pc (pc'\<lparr>pc_phase := ph\<rparr>) = same_caps pc pc'" "same_caps pc (pc'\<lparr>pc_session := se\<rparr>) = same_caps pc pc'"
  "same_caps pc (pc'\<lparr>pc_msgs := n\<rparr>) = same_caps pc pc'" "same_caps pc (pc'\<lparr>pc_nclosed := n\<rparr>) = same_caps pc pc'"
  "same_caps pc (pc'\<lparr>pc_lossy := b\<rparr>) = same_caps pc pc'" "same_caps pc (pc'\<lparr>pc_degraded := b\<rparr>) = same_caps pc pc'"
  "same_caps pc (pc'\<lparr>pc_count := n\<rparr>) = same_caps pc pc'" "same_caps pc (pc'\<lparr>pc_head := n\<rparr>) = same_caps pc pc'"
  "same_caps pc (pc'\<lparr>pc_txn_status := st\<rparr>) = same_caps pc pc'" "same_caps pc (pc'\<lparr>pc_txn_start := t\<rparr>) = same_caps pc pc'"
  by (simp_all add: same_caps_def own_blocks_def)

lemma same_caps_on_current: "(\<And>u. u_own_cap (g u) = u_own_cap u) \<Longrightarrow> same_caps pc (on_current g pc)"
  by (auto simp: on_current_def intro: same_caps_upd split: option.split)

lemma ring_push_caps: "ring_push p pc = (ok, p', pc') \<Longrightarrow> same_caps pc pc'"
proof -
  have u: "same_caps pc (upd_unit n unit_reset (pc\<lparr>pc_count := k\<rparr>))" for n k
    using same_caps_upd [of unit_reset "pc\<lparr>pc_count := k\<rparr>" n] same_caps_trans [of pc "pc\<lparr>pc_count := k\<rparr>"]
    by (simp add: unit_reset_def)
  have r: "same_caps pc (upd_range (or_flag f) a b (upd_unit n unit_reset (pc\<lparr>pc_count := k\<rparr>)))" for f a b n k
    by (rule same_caps_trans [OF u same_caps_range]) simp
  show "ring_push p pc = (ok, p', pc') \<Longrightarrow> same_caps pc pc'"
    by (auto simp: ring_push_def Let_def mark_pipelined_def u r simp del: upt_Suc split: if_splits)
qed

section \<open>Steps that allocate\<close>

lemma own_grow_live: "own_grow u n hp = (ok, u', hp') \<Longrightarrow> hp_live hp' + blk (u_own_cap u) = hp_live hp + blk (u_own_cap u')"
  by (auto simp: own_grow_def blk_def Let_def dest!: hp_realloc_live split: if_splits prod.splits)

lemma set_simple_text_live:
  "set_simple_text u m hp = (u', hp') \<Longrightarrow> hp_live hp' + blk (u_own_cap u) = hp_live hp + blk (u_own_cap u')"
  by (auto simp: set_simple_text_def Let_def dest!: own_grow_live split: if_splits prod.splits)

lemma rescue_unit_live:
  "rescue_unit slot e u hp = (u', hp') \<Longrightarrow> hp_live hp' + blk (u_own_cap u) = hp_live hp + blk (u_own_cap u')"
  by (auto simp: rescue_unit_def Let_def dest!: own_grow_live split: if_splits prod.splits)

lemma upd_unit_balanced:
  assumes "hp_live hp' + blk (u_own_cap (unit_at pc i)) = hp_live hp + blk (u_own_cap u)"
  shows "balanced hp pc hp' (upd_unit i (\<lambda>_. u) pc)"
  using assms own_blocks_upd [of i "\<lambda>_. u" pc] by (simp add: balanced_def pg_blocks_def)

lemma rescue_step_balanced: "rescue_step slot e i (pc, hp) = (pc', hp') \<Longrightarrow> balanced hp pc hp' pc'"
  by (auto simp: rescue_step_def intro: upd_unit_balanced dest: rescue_unit_live split: prod.splits)

lemma rescue_fold_balanced: "fold (rescue_step slot e) xs (pc, hp) = (pc', hp') \<Longrightarrow> balanced hp pc hp' pc'"
proof (induction xs arbitrary: pc hp)
  case (Cons i xs)
  obtain pc1 hp1 where r: "rescue_step slot e i (pc, hp) = (pc1, hp1)" by fastforce
  then show ?case using Cons rescue_step_balanced balanced_trans by fastforce
qed simp

lemma rescue_refs_balanced: "pg_query_rescue_refs pc slot hp = (pc', hp') \<Longrightarrow> balanced hp pc hp' pc'"
  by (auto simp: pg_query_rescue_refs_def intro: rescue_fold_balanced split: option.splits)

lemma rescue_refs_prep: "pg_query_rescue_refs pc slot hp = (pc', hp') \<Longrightarrow> pc_prep pc' = pc_prep pc"
proof -
  have "fold (rescue_step slot e) xs (pc, hp) = (pc', hp') \<Longrightarrow> pc_prep pc' = pc_prep pc" for e xs pc hp
    by (induction xs arbitrary: pc hp) (auto simp: rescue_step_def split: prod.splits)
  then show "pg_query_rescue_refs pc slot hp = (pc', hp') \<Longrightarrow> pc_prep pc' = pc_prep pc"
    by (auto simp: pg_query_rescue_refs_def split: option.splits)
qed

lemma fill_slot_live:
  "fill_slot e name txt trunc lru hp = (e', hp') \<Longrightarrow> hp_live hp' + blk (e_text_cap e) = hp_live hp + blk (e_text_cap e')"
  by (auto simp: fill_slot_def blk_def Let_def LK_MSG_BODY_MAX_def min_def dest!: hp_realloc_live split: if_splits prod.splits)

lemma claim_slot_less: "claim_slot p q name = (slot, p', q') \<Longrightarrow> slot < LK_PG_PREP_CACHE \<and> pr_e q' = pr_e q \<and> p_heap p' = p_heap p"
  using lru_slot_less by (auto simp: claim_slot_def pick_slot_def find_by_name_Some find_upt_Some split: option.splits)

lemma prep_balanced:
  assumes "hp_live hp' + cache_blocks (pc_prep pc) = hp_live hp + cache_blocks (Some q)"
  shows "balanced hp pc hp' (pc\<lparr>pc_prep := Some q\<rparr>)"
  using assms by (simp add: balanced_def pg_blocks_def own_blocks_def)

lemma prep_slot_balanced:
  fixes q :: pg_prep_cache
  assumes "pc_prep pc = Some q0" and "pr_e q0 = pr_e q" and "slot < LK_PG_PREP_CACHE"
    and "hp_live hp' + blk (e_text_cap (pr_e q slot)) = hp_live hp + blk (e_text_cap e)"
    and "pr_e q' = (pr_e q)(slot := e)"
  shows "balanced hp pc hp' (pc\<lparr>pc_prep := Some q'\<rparr>)"
proof (rule prep_balanced)
  have "text_blocks q0 = text_blocks q" using assms(2) by (simp add: text_blocks_def)
  then show "hp_live hp' + cache_blocks (pc_prep pc) = hp_live hp + cache_blocks (Some q')"
    using assms(1,4) text_blocks_upd [OF assms(3,5)] by (simp add: cache_blocks_def)
qed

lemma prep_get_balanced: "prep_get p pc = (pr, p', pc') \<Longrightarrow> balanced (p_heap p) pc (p_heap p') pc' \<and> pr = pc_prep pc'"
  by (auto simp: prep_get_def hp_alloc_def Let_def cache_blocks_def text_blocks_def pg_prep_cache_zero_def pg_prep_zero_def blk_def
      intro!: prep_balanced balanced_live split: option.splits if_splits)

lemma prep_store_balanced:
  assumes "pc_prep pc = Some q" and "prep_store p pc q name query trunc = (p', pc')"
  shows "balanced (p_heap p) pc (p_heap p') pc'"
proof -
  obtain slot p1 q1 where c: "claim_slot p q name = (slot, p1, q1)" by (metis prod_cases3)
  obtain pc1 hp1 where r: "pg_query_rescue_refs (pc\<lparr>pc_prep := Some q1\<rparr>) slot (p_heap p1) = (pc1, hp1)" by fastforce
  obtain e hp2 where f: "fill_slot (pr_e q1 slot) name query trunc (pr_clock q1 + 1) hp1 = (e, hp2)" by fastforce
  have sl: "slot < LK_PG_PREP_CACHE" "pr_e q1 = pr_e q" "p_heap p1 = p_heap p" using claim_slot_less [OF c] by auto
  have "balanced (p_heap p) pc (p_heap p1) (pc\<lparr>pc_prep := Some q1\<rparr>)"
    using assms(1) sl by (intro prep_balanced) (simp add: cache_blocks_def text_blocks_def)
  then have "balanced (p_heap p) pc hp1 pc1" using rescue_refs_balanced [OF r] by (rule balanced_trans)
  moreover have "pc_prep pc1 = Some q1" using rescue_refs_prep [OF r] by simp
  then have "balanced hp1 pc1 hp2 (pc1\<lparr>pc_prep := Some (q1\<lparr>pr_e := (pr_e q1)(slot := e), pr_clock := pr_clock q1 + 1\<rparr>)\<rparr>)"
    by (rule prep_slot_balanced [OF _ refl sl(1) fill_slot_live [OF f]]) simp
  ultimately have "balanced (p_heap p) pc hp2 (pc1\<lparr>pc_prep := Some (q1\<lparr>pr_e := (pr_e q1)(slot := e), pr_clock := pr_clock q1 + 1\<rparr>)\<rparr>)"
    by (rule balanced_trans)
  then show ?thesis using assms(2) c r f by (auto simp: prep_store_def Let_def)
qed

lemma pg_prep_parse_balanced:
  assumes "pg_prep_parse p pc m = (p', pc')"
  shows "balanced (p_heap p) pc (p_heap p') pc'"
proof -
  obtain pr p1 pc1 where g: "prep_get p pc = (pr, p1, pc1)" by (metis prod_cases3)
  note b = conjunct1 [OF prep_get_balanced [OF g]]
  have "balanced (p_heap p) pc (p_heap p2) pc2" if "pr = Some q" "prep_store p1 pc1 q n t tr = (p2, pc2)" for q n t tr p2 pc2
    using balanced_trans [OF b prep_store_balanced [OF _ that(2)]] prep_get_balanced [OF g] that(1) by simp
  then show ?thesis
    using assms b by (auto simp: pg_prep_parse_def g Let_def split: prod.splits if_splits option.splits)
qed

lemma prep_drop_balanced:
  assumes "pc_prep pc = Some q" and "slot < LK_PG_PREP_CACHE" and "prep_drop pc q slot hp = (pc', hp')"
  shows "balanced hp pc hp' pc'"
proof -
  obtain pc1 hp1 where r: "pg_query_rescue_refs pc slot hp = (pc1, hp1)" by fastforce
  have "pc_prep pc1 = Some q" using rescue_refs_prep [OF r] assms(1) by simp
  then have "balanced hp1 pc1 hp1 (pc1\<lparr>pc_prep := Some (q\<lparr>pr_e := (pr_e q)(slot :=
      (pr_e q slot)\<lparr>e_used := False, e_gen := e_gen (pr_e q slot) + 1, e_name := [], e_text := []\<rparr>),
      pr_count := pr_count q - 1\<rparr>)\<rparr>)"
    by (rule prep_slot_balanced [OF _ refl assms(2)]) simp_all
  then show ?thesis using balanced_trans [OF rescue_refs_balanced [OF r]] r assms(3)
    by (auto simp: prep_drop_def Let_def)
qed

lemma pg_prep_close_balanced: "pg_prep_close pc m hp = (pc', hp') \<Longrightarrow> balanced hp pc hp' pc'"
  by (auto simp: pg_prep_close_def Let_def find_by_name_Some intro: prep_drop_balanced split: prod.splits if_splits option.splits)

lemma pg_prep_lookup_caps: "pg_prep_lookup pc name = (hit, pc') \<Longrightarrow> same_caps pc pc'"
proof -
  have "same_caps pc (pc\<lparr>pc_prep := Some (q\<lparr>pr_e := (pr_e q)(slot := (pr_e q slot)\<lparr>e_lru := k\<rparr>), pr_clock := k\<rparr>)\<rparr>)"
    if "pc_prep pc = Some q" for q slot k
    using that by (simp add: same_caps_def own_blocks_def cache_blocks_def text_blocks_def fun_upd_def) (rule sum.cong, auto)
  then show "pg_prep_lookup pc name = (hit, pc') \<Longrightarrow> same_caps pc pc'"
    by (auto simp: pg_prep_lookup_def Let_def split: option.splits)
qed

section \<open>The handler\<close>

lemma ring_push_heap: "ring_push p pc = (ok, p', pc') \<Longrightarrow> p_heap p' = p_heap p"
  by (auto simp: ring_push_def Let_def split: if_splits)

lemma pg_query_simple_balanced:
  assumes "pg_query_simple p pc m = (p', pc')"
  shows "balanced (p_heap p) pc (p_heap p') pc'"
proof -
  obtain ok p1 pc1 where r: "ring_push p pc = (ok, p1, pc1)" by (metis prod_cases3)
  let ?i = "last_unit pc1"
  obtain u hp where t: "set_simple_text ((unit_at pc1 ?i)\<lparr>u_kind := LK_Q_SIMPLE, u_ts_start := m_ts_ns m\<rparr>) m (p_heap p1) = (u, hp)"
    by fastforce
  have b: "balanced (p_heap p) pc (p_heap p1) pc1"
    using same_caps_balanced [OF ring_push_caps [OF r]] ring_push_heap [OF r] by simp
  have "balanced (p_heap p1) pc1 hp (upd_unit ?i (\<lambda>_. v) pc1)" if "u_own_cap v = u_own_cap u" for v
    using set_simple_text_live [OF t] that by (intro upd_unit_balanced) simp
  from balanced_trans [OF b this] show ?thesis
    using assms r t b by (auto simp: pg_query_simple_def Let_def split: if_splits)
qed

lemma pg_query_bind_balanced:
  assumes "pg_query_bind p pc m = (p', pc')"
  shows "balanced (p_heap p) pc (p_heap p') pc'"
proof -
  obtain ok p1 pc1 where r: "ring_push p pc = (ok, p1, pc1)" by (metis prod_cases3)
  let ?pc2 = "upd_unit (last_unit pc1) (\<lambda>u. u\<lparr>u_kind := LK_Q_EXTENDED, u_ts_start := m_ts_ns m\<rparr>) pc1"
  have c1: "same_caps pc pc1" by (rule ring_push_caps [OF r])
  have c2: "same_caps pc ?pc2" by (rule same_caps_trans [OF c1 same_caps_upd]) simp
  have c3: "same_caps pc (upd_unit i g pc3)" if "pg_prep_lookup ?pc2 n = (hit, pc3)" "\<And>u. u_own_cap (g u) = u_own_cap u" for n hit pc3 i g
    using same_caps_trans [OF same_caps_trans [OF c2 pg_prep_lookup_caps [OF that(1)]] same_caps_upd] that(2) by simp
  have c4: "same_caps pc (upd_unit i g ?pc2)" if "\<And>u. u_own_cap (g u) = u_own_cap u" for i g
    using same_caps_trans [OF c2 same_caps_upd] that by simp
  have "same_caps pc pc' \<and> p_heap p' = p_heap p"
    using assms r ring_push_heap [OF r] c1 c2
    by (auto simp: pg_query_bind_def Let_def intro!: c3 c4 split: prod.splits if_splits option.splits)
  then show ?thesis using same_caps_balanced by simp
qed

lemma pg_query_function_balanced:
  assumes "pg_query_function p pc m = (p', pc')"
  shows "balanced (p_heap p) pc (p_heap p') pc'"
proof -
  obtain ok p1 pc1 where r: "ring_push p pc = (ok, p1, pc1)" by (metis prod_cases3)
  have "same_caps pc pc' \<and> p_heap p' = p_heap p"
    using assms r ring_push_heap [OF r] ring_push_caps [OF r]
    by (auto simp: pg_query_function_def intro!: same_caps_trans [OF ring_push_caps [OF r] same_caps_upd] split: if_splits)
  then show ?thesis using same_caps_balanced by simp
qed

lemma calls_heap [simp]:
  "p_heap (upd_pst f p) = p_heap p" "p_heap (call_query p c s q) = p_heap p"
  "p_heap (call_session p c s) = p_heap p" "p_heap (call_txn p c a b st) = p_heap p"
  by (simp_all add: upd_pst_def call_query_def call_session_def call_txn_def)

lemma session_caps:
  "pg_session_startup p c pc m = (p', pc') \<Longrightarrow> same_caps pc pc' \<and> p_heap p' = p_heap p"
  "pg_session_auth p c pc m = (p', pc') \<Longrightarrow> same_caps pc pc' \<and> p_heap p' = p_heap p"
  "same_caps pc (pg_session_param_status pc m)"
  by (auto simp: pg_session_startup_def pg_session_auth_def pg_session_param_status_def emit_cancel_def Let_def
      split: prod.splits if_splits)

lemma frontend_balanced:
  assumes "pg_frontend_msg p c pc m = (p', pc')"
  shows "balanced (p_heap p) pc (p_heap p') pc'"
proof -
  have "same_caps pc (pg_query_copy_data pc m)" by (simp add: pg_query_copy_data_def same_caps_on_current)
  with assms show ?thesis
    using session_caps(1) [of p c pc m p' pc'] same_caps_balanced pg_query_simple_balanced [of p pc m p' pc']
      pg_prep_parse_balanced [of p pc m p' pc'] pg_query_bind_balanced [of p pc m p' pc']
      pg_query_function_balanced [of p pc m p' pc'] pg_prep_close_balanced [of pc m "p_heap p"]
    by (auto simp: pg_frontend_msg_def inc_unknown_def split: if_splits prod.splits)
qed

lemma close_unless_caps: "same_caps pc (close_unless_z i pc') = same_caps pc pc'"
  by (simp add: close_unless_z_def)

lemma drop_all_caps: "same_caps pc (pg_query_drop_all pc') = same_caps pc pc'"
  by (simp add: pg_query_drop_all_def)

lemma pg_query_complete_caps: "pg_query_complete p pc m = (p', pc') \<Longrightarrow> same_caps pc pc' \<and> p_heap p' = p_heap p"
  by (auto simp: pg_query_complete_def corrupt_def Let_def close_unless_caps drop_all_caps
      intro!: same_caps_upd same_caps_trans [OF same_caps_upd same_caps_upd] split: prod.splits option.splits if_splits)

lemma reply_caps:
  "same_caps pc (pg_query_data_row pc m)" "same_caps pc (pg_query_empty pc m)" "same_caps pc (pg_query_suspended pc m)"
  "same_caps pc (pg_query_func_response pc m)" "same_caps pc (pg_query_copy_data pc m)"
  by (auto simp: pg_query_data_row_def pg_query_empty_def pg_query_suspended_def pg_query_func_response_def
      pg_query_copy_data_def close_unless_caps intro!: same_caps_on_current same_caps_upd split: option.split)

lemma copy_begin_caps: "same_caps pc (pg_query_copy_begin pc k)"
proof -
  have "same_caps pc (upd_unit i (\<lambda>u. u\<lparr>u_copy_kind := Some k\<rparr>) (pc\<lparr>pc_phase := ph\<rparr>))" for i ph k
    by (rule same_caps_trans [OF _ same_caps_upd]) simp_all
  then show ?thesis by (simp add: pg_query_copy_begin_def Let_def split: option.split)
qed

lemma pg_query_error_caps: "same_caps pc (pg_query_error pc m)"
proof -
  have "same_caps pc (abort_tail pc')" if "same_caps pc pc'" for pc'
    using same_caps_trans [OF that same_caps_range] by (simp add: abort_tail_def Let_def abort_unit_def)
  moreover have "same_caps pc (upd_unit i (error_unit m) pc)" for i
    by (rule same_caps_upd) (simp add: error_unit_def)
  ultimately show ?thesis by (simp add: pg_query_error_def Let_def split: option.split)
qed

lemma ready_step_caps: "ready_step c ts st i (p, pc) = (p', pc') \<Longrightarrow> same_caps pc pc' \<and> p_heap p' = p_heap p"
  by (auto simp: ready_step_def Let_def emit_unit_def intro!: same_caps_upd split: if_splits)

lemma pg_query_ready_caps: "pg_query_ready p c pc m = (p', pc') \<Longrightarrow> same_caps pc pc' \<and> p_heap p' = p_heap p"
proof -
  have fold: "fold (ready_step c ts st) is (p, pc) = (p', pc') \<Longrightarrow> same_caps pc pc' \<and> p_heap p' = p_heap p" for ts st "is" p pc p' pc'
  proof (induction "is" arbitrary: p pc)
    case (Cons i "is")
    obtain p1 pc1 where r: "ready_step c ts st i (p, pc) = (p1, pc1)" by fastforce
    then show ?case using Cons ready_step_caps [OF r] same_caps_trans by fastforce
  qed simp
  assume "pg_query_ready p c pc m = (p', pc')"
  then show ?thesis
    by (auto simp: pg_query_ready_def ready_emit_def ready_boundary_def ready_txn_def Let_def dest!: fold
        split: prod.splits if_splits)
qed

lemma backend_caps: "pg_backend_msg p c pc m = (p', c', pc') \<Longrightarrow> same_caps pc pc' \<and> p_heap p' = p_heap p"
  by (auto simp: pg_backend_msg_def inc_unknown_def pg_query_copy_both_def drop_all_caps reply_caps copy_begin_caps
      pg_query_error_caps session_caps(3) dest: session_caps(2) pg_query_complete_caps pg_query_ready_caps
      split: if_splits prod.splits)

lemma pg_conn_get_blocks:
  "pg_conn_get p c = (st, p', c') \<Longrightarrow>
     hp_live (p_heap p') + state_blocks (cn_proto_state c) = hp_live (p_heap p) + state_blocks (cn_proto_state c') \<and> st = cn_proto_state c'"
  by (auto simp: pg_conn_get_def hp_alloc_def Let_def state_blocks_def pg_blocks_def own_blocks_def cache_blocks_def
      pg_conn_zero_def pg_unit_zero_def blk_def split: option.splits if_splits)

lemma pg_on_msg_blocks:
  assumes "pg_on_msg p c d m = (p', c')"
  shows "hp_live (p_heap p') + state_blocks (cn_proto_state c) = hp_live (p_heap p) + state_blocks (cn_proto_state c')"
proof -
  obtain st p1 c1 where g: "pg_conn_get p c = (st, p1, c1)" by (metis prod_cases3)
  note b = pg_conn_get_blocks [OF g]
  show ?thesis
  proof (cases st)
    case None
    then show ?thesis using assms b by (auto simp: pg_on_msg_def g Let_def)
  next
    case (Some pc)
    let ?p = "upd_pst (count_msg d m) p1" and ?pc = "pc\<lparr>pc_msgs := pc_msgs pc + 1\<rparr>"
    obtain p2 c2 pc2 where h: "(if d = LK_DIR_RECV then (let (p, pc) = pg_frontend_msg ?p c1 ?pc m in (p, c1, pc))
        else pg_backend_msg ?p c1 ?pc m) = (p2, c2, pc2)" by (metis prod_cases3)
    have "balanced (p_heap ?p) ?pc (p_heap p2) pc2"
      using h frontend_balanced [of ?p c1 ?pc m] backend_caps [of ?p c1 ?pc m] same_caps_balanced
      by (fastforce split: if_splits prod.splits)
    moreover have "pg_blocks ?pc = pg_blocks pc" by (simp add: pg_blocks_def own_blocks_def)
    moreover have "pg_on_msg p c d m = (p2, c2\<lparr>cn_proto_state := Some pc2\<rparr>)"
      by (simp only: pg_on_msg_def g Some Let_def prod.case option.case h [unfolded Let_def])
    moreover have "cn_proto_state c1 = Some pc" using b Some by simp
    ultimately show ?thesis
      using assms b by (auto simp: balanced_def state_blocks_def)
  qed
qed

lemma pg_on_resync_blocks:
  assumes "pg_on_resync p c d = (p', c')"
  shows "hp_live (p_heap p') + state_blocks (cn_proto_state c) = hp_live (p_heap p) + state_blocks (cn_proto_state c')"
proof -
  obtain st p1 c1 where g: "pg_conn_get p c = (st, p1, c1)" by (metis prod_cases3)
  have "pg_blocks (resync_state pc) = pg_blocks pc" for pc
    by (simp add: resync_state_def pg_query_drop_all_def pg_blocks_def own_blocks_def)
  then show ?thesis
    using assms pg_conn_get_blocks [OF g]
    by (auto simp: pg_on_resync_def g Let_def state_blocks_def split: option.splits)
qed

lemma pg_on_conn_close_blocks:
  assumes "pg_on_conn_close p c = (p', c')" and "state_blocks (cn_proto_state c) \<le> hp_live (p_heap p)"
  shows "hp_live (p_heap p') + state_blocks (cn_proto_state c) = hp_live (p_heap p) \<and> cn_proto_state c' = None"
proof (cases "cn_proto_state c")
  case None
  then show ?thesis using assms by (auto simp: pg_on_conn_close_def state_blocks_def)
next
  case (Some pc)
  let ?hp = "fold (\<lambda>i. free_text (u_own_cap (pc_ring pc i))) [0..<LK_PG_MAX_INFLIGHT] (p_heap p)"
  have o: "hp_live ?hp = hp_live (p_heap p) - own_blocks pc"
    using assms(2) Some free_fold_live [where f = "\<lambda>i. u_own_cap (pc_ring pc i)" and xs = "[0..<LK_PG_MAX_INFLIGHT]" and hp = "p_heap p"]
    by (simp add: own_blocks_def sum_upt_blk state_blocks_def pg_blocks_def)
  obtain pc1 hp1 where f: "pg_prep_free (pg_query_drop_all pc) ?hp = (pc1, hp1)" by fastforce
  have "hp_live hp1 = hp_live ?hp - cache_blocks (pc_prep pc)"
    using assms(2) Some o f free_fold_live [where f = "\<lambda>i. e_text_cap (pr_e (the (pc_prep pc)) i)" and xs = "[0..<LK_PG_PREP_CACHE]" and hp = ?hp]
    by (auto simp: pg_prep_free_def pg_query_drop_all_def cache_blocks_def text_blocks_def sum_upt_blk hp_free_def
        state_blocks_def pg_blocks_def split: option.splits)
  then show ?thesis
    using assms Some o f
    by (auto simp: pg_on_conn_close_def Let_def pg_query_drop_all_def state_blocks_def pg_blocks_def hp_free_def)
qed

text \<open>C17. Memory is accounted for over every history of messages, resyncs and closes, whichever
  allocations fail: the blocks live are those live at the start plus exactly the blocks the
  connection's state still holds, so a close leaves none behind.\<close>

theorem pg_memory_accounted:
  assumes "cn_proto_state c = None" and "fold pg_handle evs (p, c) = (p', c')"
  shows "hp_live (p_heap p') = hp_live (p_heap p) + state_blocks (cn_proto_state c')
    \<and> hp_live (p_heap (fst (pg_handle HClose (p', c')))) = hp_live (p_heap p)"
proof -
  have step: "hp_live (p_heap q') = n + state_blocks (cn_proto_state d')"
    if "hp_live (p_heap q) = n + state_blocks (cn_proto_state d)" "pg_handle ev (q, d) = (q', d')" for ev q d q' d' n
    using that pg_on_msg_blocks [of q d _ _ q' d'] pg_on_resync_blocks [of q d _ q' d'] pg_on_conn_close_blocks [of q d q' d']
    by (cases ev) (fastforce simp: state_blocks_def)+
  have run: "fold pg_handle evs (q, d) = (p', c') \<Longrightarrow> hp_live (p_heap q) = n + state_blocks (cn_proto_state d)
      \<Longrightarrow> hp_live (p_heap p') = n + state_blocks (cn_proto_state c')" for q d n
  proof (induction evs arbitrary: q d)
    case (Cons ev evs)
    obtain q1 d1 where h: "pg_handle ev (q, d) = (q1, d1)" by fastforce
    show ?case using Cons.prems by (intro Cons.IH [OF _ step [OF _ h]]) (simp_all add: h)
  qed simp
  have live: "hp_live (p_heap p') = hp_live (p_heap p) + state_blocks (cn_proto_state c')"
    using run [OF assms(2)] assms(1) by (simp add: state_blocks_def)
  moreover obtain p'' c'' where h: "pg_handle HClose (p', c') = (p'', c'')" by fastforce
  ultimately show ?thesis using pg_on_conn_close_blocks [of p' c' p'' c''] by auto
qed

end
