(* ===== verification/Pg_Examples.thy ===== *)
theory Pg_Examples
  imports Pg_Memory
begin

text \<open>
  Concrete sessions for the PostgreSQL handler: each property of \<open>Pg_Props\<close> and \<open>Pg_Memory\<close> applied where its
  hypotheses hold, and two sessions in which the handler departs from its comments.
\<close>

type_synonym plain_conn = "unit pg_lk_conn"

definition startup_msg :: lk_msg where
  "startup_msg = \<lparr>m_ts_ns = 1, m_type = 0, m_flags = LK_MSG_STARTUP, m_len = 20,
     m_body = [0, 3, 0, 0] @ lit ''user'' @ [0] @ lit ''bob'' @ [0, 0]\<rparr>"

definition auth_ok :: lk_msg where
  "auth_ok = mk_msg 2 ''R'' [0, 0, 0, 0]"

definition q_msg :: lk_msg where
  "q_msg = mk_msg 10 ''Q'' (lit ''SELECT 1'' @ [0])"

definition z_msg :: lk_msg where
  "z_msg = mk_msg 30 ''Z'' (lit ''I'')"

definition ready_pc :: pg_conn where
  "ready_pc = pg_conn_zero\<lparr>pc_phase := PG_PH_READY\<rparr>"

lemma ready_pc_inv: "pg_inv ready_pc"
  using pg_inv_zero by (simp add: ready_pc_def)

definition one_pc :: pg_conn where
  "one_pc = snd (pg_query_simple (proto0 heap0) ready_pc q_msg)"

lemma one_pc_inv: "pg_inv one_pc"
  unfolding one_pc_def by (rule live_inv [OF simple_live(1) [OF ready_pc_inv prod.collapse [symmetric]]])

lemmas eval_simps = proto0_def heap0_def conn0_def lk_conn_zero_def lk_session_zero_def lk_proto_stats_zero_def
  ready_pc_def pg_conn_zero_def pg_unit_zero_def q_msg_def z_msg_def mk_msg_def

lemma one_pc_eval: "one_pc = ready_pc\<lparr>pc_count := 1, pc_ring := (pc_ring ready_pc)(0 := (open_unit 9)\<lparr>u_ts_start := 10,
    u_own_text := lit ''SELECT 1''\<rparr>)\<rparr>"
  by (simp add: one_pc_def pg_query_simple_def ring_push_def upd_unit_def unit_at_def slot_of_def unit_reset_def
    set_simple_text_def own_grow_def hp_realloc_def last_unit_def Let_def eval_simps LK_PG_MAX_INFLIGHT_def LK_MSG_BODY_MAX_def)
    (simp add: eval_nat_numeral)

theorem pg_state_invariant_witness:
  "pred_option pg_inv (cn_proto_state (snd (fold pg_handle
     [HMsg LK_DIR_RECV startup_msg, HMsg LK_DIR_SEND auth_ok, HMsg LK_DIR_RECV q_msg, HResync LK_DIR_SEND, HMsg LK_DIR_SEND z_msg]
     (proto0 heap0, conn0 :: plain_conn))))"
  by (rule pg_state_invariant) (simp add: conn0_def lk_conn_zero_def)

theorem pg_memory_accounted_witness:
  "case fold pg_handle [HMsg LK_DIR_RECV startup_msg, HMsg LK_DIR_SEND auth_ok, HMsg LK_DIR_RECV q_msg]
      (proto0 heap0, conn0 :: plain_conn) of (p', c') \<Rightarrow>
   hp_live (p_heap p') = state_blocks (cn_proto_state c') \<and> hp_live (p_heap (fst (pg_handle HClose (p', c')))) = 0"
  using pg_memory_accounted [of "conn0 :: plain_conn"
    "[HMsg LK_DIR_RECV startup_msg, HMsg LK_DIR_SEND auth_ok, HMsg LK_DIR_RECV q_msg]" "proto0 heap0"]
  by (simp add: conn0_def lk_conn_zero_def proto0_def heap0_def split: prod.split)

theorem pg_counters_match_reports_witness:
  "case fold pg_handle [HMsg LK_DIR_RECV startup_msg, HMsg LK_DIR_SEND auth_ok, HMsg LK_DIR_RECV q_msg, HMsg LK_DIR_SEND z_msg]
      (proto0 heap0, conn0 :: plain_conn) of (p', c') \<Rightarrow>
   ps_queries (p_st p') = length (queries_of (p_calls p'))
   \<and> ps_errors_sql (p_st p') = length (filter (\<lambda>q. has_flag (o_flags q) LK_QO_ERROR) (queries_of (p_calls p')))"
  using pg_counters_match_reports [of "conn0 :: plain_conn" "proto0 heap0"
    "[HMsg LK_DIR_RECV startup_msg, HMsg LK_DIR_SEND auth_ok, HMsg LK_DIR_RECV q_msg, HMsg LK_DIR_SEND z_msg]"]
  by (simp add: conn0_def lk_conn_zero_def proto0_def lk_proto_stats_zero_def split: prod.split)

lemma one_pc_obs: "batch_obs one_pc 30 73 = [\<lparr>o_ts_start = 10, o_ts_first_row = 0, o_ts_complete = 30, o_ts_ready = 30,
    o_text = Some (lit ''SELECT 1''), o_rows = 0, o_bytes = 0, o_sqlstate = [], o_err_code = 0, o_kind = LK_Q_SIMPLE,
    o_txn_status = 73, o_flags = 0\<rparr>]"
  by (simp add: batch_obs_def emitted_def batch_def one_pc_eval unit_at_def slot_of_def LK_PG_MAX_INFLIGHT_def eval_simps
    unit_z_closed_def finish_unit_def unit_obs_def fill_text_def)

theorem pg_ready_reports_batch_witness:
  "p_calls (fst (pg_query_ready (proto0 heap0) (conn0 :: plain_conn) one_pc z_msg)) =
     [OnQuery 7 lk_session_zero \<lparr>o_ts_start = 10, o_ts_first_row = 0, o_ts_complete = 30, o_ts_ready = 30,
        o_text = Some (lit ''SELECT 1''), o_rows = 0, o_bytes = 0, o_sqlstate = [], o_err_code = 0, o_kind = LK_Q_SIMPLE,
        o_txn_status = 73, o_flags = 0\<rparr>]"
proof -
  have z: "m_ts_ns z_msg = 30" "z_status z_msg = 73" by (simp_all add: z_msg_def mk_msg_def z_status_def)
  have pc: "\<not> pc_lossy one_pc" "pc_session one_pc = lk_session_zero" "pc_txn_status one_pc = 0"
    by (simp_all add: one_pc_eval ready_pc_def pg_conn_zero_def)
  show ?thesis
    using pg_ready_reports_batch [OF one_pc_inv prod.collapse [symmetric], of "proto0 heap0" "conn0 :: plain_conn" z_msg]
    by (simp add: z pc one_pc_obs txn_call_def) (simp add: proto0_def conn0_def)
qed

definition one_conn :: plain_conn where
  "one_conn = conn0\<lparr>cn_proto_state := Some one_pc\<rparr>"

theorem pg_units_keep_text_witness:
  "\<exists>pc'. cn_proto_state (snd (pg_on_msg (proto0 heap0) one_conn LK_DIR_RECV (parse_msg [] (lit ''SELECT 2'')))) = Some pc'
     \<and> fill_text pc' (unit_at pc' 0) = Some (lit ''SELECT 1'')"
proof -
  have "pc_count one_pc = 1" "fill_text one_pc (unit_at one_pc 0) = Some (lit ''SELECT 1'')"
    by (simp_all add: one_pc_eval unit_at_def slot_of_def fill_text_def eval_simps LK_PG_MAX_INFLIGHT_def)
  then show ?thesis
    using pg_units_keep_text [of one_conn one_pc "proto0 heap0" LK_DIR_RECV "parse_msg [] (lit ''SELECT 2'')", OF _ one_pc_inv _ _ prod.collapse [symmetric]]
    by (auto simp: one_conn_def proto0_def heap0_def)
qed






theorem pg_no_observation_across_loss_witness:
  "queries_of (p_calls (fst (pg_feed [(LK_DIR_RECV, q_msg), (LK_DIR_SEND, mk_msg 12 ''C'' (lit ''SELECT 1'' @ [0]))]
     (pg_on_resync (proto0 heap0) one_conn LK_DIR_SEND)))) = []"
proof -
  let ?ms = "[(LK_DIR_RECV, q_msg), (LK_DIR_SEND, mk_msg 12 ''C'' (lit ''SELECT 1'' @ [0]))]"
  obtain p1 c1 where r: "pg_on_resync (proto0 heap0) one_conn LK_DIR_SEND = (p1, c1)" by fastforce
  obtain p2 c2 where f: "pg_feed ?ms (p1, c1) = (p2, c2)" by fastforce
  have st: "cn_proto_state one_conn = Some one_pc" by (simp add: one_conn_def)
  have "list_all (\<lambda>(d, m). no_boundary d m) ?ms" by (simp add: no_boundary_def q_msg_def mk_msg_def)
  from pg_no_observation_across_loss [OF st one_pc_inv r this f]
  have "queries_of (p_calls p2) = queries_of (p_calls (proto0 heap0))" by (rule conjunct1)
  then show ?thesis unfolding r f by (simp add: proto0_def)
qed




definition prep_start :: "lk_proto \<times> pg_conn" where
  "prep_start = (proto0 heap0, ready_pc)"

lemma prep_start_inv: "prep_map_inv prep_start"
  using ready_pc_inv by (simp add: prep_start_def prep_map_inv_def names_unique_def proto0_def heap0_def ready_pc_def pg_conn_zero_def)

theorem pg_cache_refines_map_witness:
  "cached_text (snd (fold prep_op [Put (lit ''a'') (lit ''SELECT 1''), Put (lit ''b'') (lit ''SELECT 2''), Del (lit ''a'')] prep_start))
     = [lit ''b'' \<mapsto> lit ''SELECT 2'']"
proof -
  have e: "cached_text (snd prep_start) = Map.empty"
    by (simp add: prep_start_def cached_text_def ready_pc_def pg_conn_zero_def fun_eq_iff)
  show ?thesis
    using pg_cache_refines_map [OF prep_start_inv,
      of "[Put (lit ''a'') (lit ''SELECT 1''), Put (lit ''b'') (lit ''SELECT 2''), Del (lit ''a'')]"]
    by (auto simp: e name_fits_def text_fits_def LK_MSG_BODY_MAX_def LK_PG_PREP_CACHE_def card_insert_if)
qed

definition parsed :: "lk_proto \<times> pg_conn" where
  "parsed = do_parse (lit ''s'') (lit ''SELECT 1'') prep_start"

lemma parsed_facts:
  "pg_inv (snd parsed)" "cached_text (snd parsed) (lit ''s'') = Some (lit ''SELECT 1'')" "pc_phase (snd parsed) = PG_PH_READY"
  "\<not> pc_degraded (snd parsed)" "\<not> pc_lossy (snd parsed)" "pc_count (snd parsed) = 0"
proof -
  have n: "name_fits (lit ''s'')" "text_fits (lit ''SELECT 1'')" by (simp_all add: name_fits_def text_fits_def LK_MSG_BODY_MAX_def)
  have e: "cached_text (snd prep_start) = Map.empty"
    by (simp add: prep_start_def cached_text_def ready_pc_def pg_conn_zero_def fun_eq_iff)
  note m = do_parse_map [OF prep_start_inv n]
  show "pg_inv (snd parsed)" using m(1) by (simp add: parsed_def prep_map_inv_def)
  show "cached_text (snd parsed) (lit ''s'') = Some (lit ''SELECT 1'')"
    using m(2) by (simp add: parsed_def e LK_PG_PREP_CACHE_def)
  have "cache_step (heap_never_fails (p_heap (proto0 heap0))) ready_pc (snd parsed)"
    unfolding parsed_def do_parse_def prep_start_def fst_conv snd_conv
    by (rule pg_prep_parse_step(1) [OF ready_pc_inv prod.collapse [symmetric]])
  from cache_step_simps [OF this] show "pc_phase (snd parsed) = PG_PH_READY"
    "\<not> pc_degraded (snd parsed)" "\<not> pc_lossy (snd parsed)" "pc_count (snd parsed) = 0"
    by (simp_all add: ready_pc_def pg_conn_zero_def)
qed

theorem pg_bind_text_witness:
  "case pg_query_bind (fst parsed) (snd parsed) (mk_msg 5 ''B'' (bind_body [] (lit ''s'') [0, 0])) of
     (p', pc') \<Rightarrow> fill_text pc' (unit_at pc' 0) = Some (lit ''SELECT 1'')"
  using pg_bind_text [OF parsed_facts(1,3-5), of "mk_msg 5 ''B'' (bind_body [] (lit ''s'') [0, 0])" "[]" "lit ''s''" "[0, 0]" "fst parsed"]
    parsed_facts(2) [simplified]
  by (simp add: parsed_facts(6) LK_PG_MAX_INFLIGHT_def mk_msg_def split: prod.split)

section \<open>Departures from the comments\<close>




end
