(* ===== verification/Conn_Table.thy ===== *)
theory Conn_Table
  imports Lk_Types "HOL-Library.Monad_Syntax"
begin

text \<open>
  The connection table: src/src/agent/conn_table.c. Entries live in an explicit store, and the hash
  chains and the LRU list are the pointers of the code. The store holds what is allocated: a read or
  write through a NULL or dangling pointer is None, and so is a loop that does not end. Addresses are
  never handed out twice, so a pointer that was freed stays dangling.

  \<open>ct_ctx\<close> is what the \<open>on_destroy\<close> context points to; the hook gives it back updated together with the
  entry. \<open>ct_heap\<close> is the allocator of the entries and of what they own.
\<close>

section \<open>The table\<close>

record lk_conn_table_stats =
  cs_created :: nat
  cs_closed :: nat
  cs_evicted_lru :: nat
  cs_evicted_idle :: nat
  cs_seq_gaps :: nat
  cs_lost_events :: nat
  cs_tls_socket_dropped :: nat
  cs_tls_opened :: nat
  cs_tls_active :: u32
  cs_active :: nat

definition lk_conn_table_stats_zero :: lk_conn_table_stats where
  "lk_conn_table_stats_zero = \<lparr>cs_created = 0, cs_closed = 0, cs_evicted_lru = 0, cs_evicted_idle = 0,
     cs_seq_gaps = 0, cs_lost_events = 0, cs_tls_socket_dropped = 0, cs_tls_opened = 0, cs_tls_active = 0,
     cs_active = 0\<rparr>"

type_synonym ('x, 'ps, 'fs) destroy_hook = "'x \<Rightarrow> ('ps, 'fs) lk_conn \<Rightarrow> 'x \<times> ('ps, 'fs) lk_conn"

record ('x, 'ps, 'fs) lk_conn_table =
  ct_bucket :: "addr option list"
  ct_nbuckets :: nat
  ct_max_conns :: nat
  ct_idle_timeout_ns :: u64
  ct_lru_head :: "addr option"
  ct_lru_tail :: "addr option"
  ct_on_destroy :: "('x, 'ps, 'fs) destroy_hook option"
  ct_ctx :: 'x
  ct_protos :: "(u16 \<times> lk_proto_id) list"
  ct_proto_dflt :: "lk_proto_id option"
  ct_st :: lk_conn_table_stats
  ct_mem :: "addr \<Rightarrow> ('ps, 'fs) lk_conn option"
  ct_brk :: addr
  ct_heap :: heap

definition upd_cst :: "(lk_conn_table_stats \<Rightarrow> lk_conn_table_stats) \<Rightarrow> ('x, 'ps, 'fs) lk_conn_table \<Rightarrow> ('x, 'ps, 'fs) lk_conn_table" where
  "upd_cst g t = t\<lparr>ct_st := g (ct_st t)\<rparr>"

text \<open>Assignment to fields of the entry a pointer leads to.\<close>

definition poke :: "addr \<Rightarrow> (('ps, 'fs) lk_conn \<Rightarrow> ('ps, 'fs) lk_conn) \<Rightarrow> ('x, 'ps, 'fs) lk_conn_table
    \<Rightarrow> ('x, 'ps, 'fs) lk_conn_table option" where
  "poke a g t = (case ct_mem t a of None \<Rightarrow> None | Some c \<Rightarrow> Some (t\<lparr>ct_mem := (ct_mem t)(a \<mapsto> g c)\<rparr>))"

section \<open>Hash chains and LRU list\<close>

definition resolve_proto :: "('x, 'ps, 'fs) lk_conn_table \<Rightarrow> lk_tuple option \<Rightarrow> lk_proto_id option" where
  "resolve_proto t tuple =
     (case tuple of
        None \<Rightarrow> ct_proto_dflt t
      | Some tu \<Rightarrow> (case List.find (\<lambda>(port, ops). port = tp_sport tu) (ct_protos t) of
            Some (port, ops) \<Rightarrow> Some ops
          | None \<Rightarrow> ct_proto_dflt t))"

definition hash_bucket :: "('x, 'ps, 'fs) lk_conn_table \<Rightarrow> u64 \<Rightarrow> nat" where
  "hash_bucket t cookie = unat (drop_bit 32 (cookie * 0x9E3779B97F4A7C15) AND (of_nat (ct_nbuckets t) - 1))"

definition lru_unlink :: "addr \<Rightarrow> ('x, 'ps, 'fs) lk_conn_table \<Rightarrow> ('x, 'ps, 'fs) lk_conn_table option" where
  "lru_unlink a t = do {
     c \<leftarrow> ct_mem t a;
     t \<leftarrow> (case cn_lru_prev c of
            Some p \<Rightarrow> poke p (\<lambda>x. x\<lparr>cn_lru_next := cn_lru_next c\<rparr>) t
          | None \<Rightarrow> Some (t\<lparr>ct_lru_head := cn_lru_next c\<rparr>));
     c \<leftarrow> ct_mem t a;
     t \<leftarrow> (case cn_lru_next c of
            Some n \<Rightarrow> poke n (\<lambda>x. x\<lparr>cn_lru_prev := cn_lru_prev c\<rparr>) t
          | None \<Rightarrow> Some (t\<lparr>ct_lru_tail := cn_lru_prev c\<rparr>));
     poke a (\<lambda>x. x\<lparr>cn_lru_prev := None, cn_lru_next := None\<rparr>) t
   }"

definition lru_push_front :: "addr \<Rightarrow> ('x, 'ps, 'fs) lk_conn_table \<Rightarrow> ('x, 'ps, 'fs) lk_conn_table option" where
  "lru_push_front a t = do {
     t \<leftarrow> poke a (\<lambda>x. x\<lparr>cn_lru_prev := None, cn_lru_next := ct_lru_head t\<rparr>) t;
     t \<leftarrow> (case ct_lru_head t of None \<Rightarrow> Some t | Some h \<Rightarrow> poke h (\<lambda>x. x\<lparr>cn_lru_prev := Some a\<rparr>) t);
     Some (let t = t\<lparr>ct_lru_head := Some a\<rparr>
           in if ct_lru_tail t = None then t\<lparr>ct_lru_tail := Some a\<rparr> else t)
   }"

partial_function (option) chain_find :: "(addr \<Rightarrow> ('ps, 'fs) lk_conn option) \<Rightarrow> u64 \<Rightarrow> addr option \<Rightarrow> addr option option" where
  "chain_find mem cookie p =
     (case p of
        None \<Rightarrow> Some None
      | Some a \<Rightarrow> (case mem a of
            None \<Rightarrow> None
          | Some c \<Rightarrow> if cn_cookie c = cookie then Some (Some a) else chain_find mem cookie (cn_hnext c)))"

definition lookup :: "u64 \<Rightarrow> ('x, 'ps, 'fs) lk_conn_table \<Rightarrow> addr option option" where
  "lookup cookie t = chain_find (ct_mem t) cookie (ct_bucket t ! hash_bucket t cookie)"

text \<open>\<open>struct lk_conn **slot\<close>: a bucket head or the \<open>hnext\<close> of an entry.\<close>

datatype slot = BucketSlot nat | NextSlot addr

definition slot_get :: "('x, 'ps, 'fs) lk_conn_table \<Rightarrow> slot \<Rightarrow> addr option option" where
  "slot_get t s = (case s of
     BucketSlot i \<Rightarrow> (if i < length (ct_bucket t) then Some (ct_bucket t ! i) else None)
   | NextSlot a \<Rightarrow> map_option cn_hnext (ct_mem t a))"

definition slot_set :: "slot \<Rightarrow> addr option \<Rightarrow> ('x, 'ps, 'fs) lk_conn_table \<Rightarrow> ('x, 'ps, 'fs) lk_conn_table option" where
  "slot_set s v t = (case s of
     BucketSlot i \<Rightarrow> (if i < length (ct_bucket t) then Some (t\<lparr>ct_bucket := (ct_bucket t)[i := v]\<rparr>) else None)
   | NextSlot a \<Rightarrow> poke a (\<lambda>x. x\<lparr>cn_hnext := v\<rparr>) t)"

text \<open>\<open>for (slot = ...; *slot != c; slot = &(*slot)->hnext)\<close>\<close>

partial_function (option) find_slot :: "('x, 'ps, 'fs) lk_conn_table \<Rightarrow> addr \<Rightarrow> slot \<Rightarrow> slot option" where
  "find_slot t a s =
     (case slot_get t s of
        None \<Rightarrow> None
      | Some p \<Rightarrow> if p = Some a then Some s
                 else (case p of None \<Rightarrow> None | Some b \<Rightarrow> find_slot t a (NextSlot b)))"

definition free_opt :: "'a option \<Rightarrow> heap \<Rightarrow> heap" where
  "free_opt p hp = (case p of None \<Rightarrow> hp | Some _ \<Rightarrow> hp_free hp)"

definition run_hook :: "addr \<Rightarrow> ('x, 'ps, 'fs) lk_conn_table \<Rightarrow> ('x, 'ps, 'fs) lk_conn_table option" where
  "run_hook a t =
     (case ct_on_destroy t of
        None \<Rightarrow> Some t
      | Some f \<Rightarrow> (case ct_mem t a of
            None \<Rightarrow> None
          | Some c \<Rightarrow> (let (x, c) = f (ct_ctx t) c in Some (t\<lparr>ct_ctx := x, ct_mem := (ct_mem t)(a \<mapsto> c)\<rparr>))))"

text \<open>The tail of \<open>destroy\<close>: the TLS gauge, the buffers, the entry.\<close>

definition free_entry :: "addr \<Rightarrow> ('ps, 'fs) lk_conn \<Rightarrow> ('x, 'ps, 'fs) lk_conn_table \<Rightarrow> ('x, 'ps, 'fs) lk_conn_table" where
  "free_entry a c t =
     (let t = (if has_flag (cn_flags c) LK_CONN_TLS then upd_cst (\<lambda>s. s\<lparr>cs_tls_active := cs_tls_active s - 1\<rparr>) t else t);
          hp = free_opt (fr_buf (cn_frame c LK_DIR_SEND)) (ct_heap t);
          hp = free_opt (fr_buf (cn_frame c LK_DIR_RECV)) hp;
          hp = free_opt (cn_frame_state c) hp;
          t = t\<lparr>ct_heap := hp_free hp, ct_mem := (ct_mem t)(a := None)\<rparr>
      in upd_cst (\<lambda>s. s\<lparr>cs_active := cs_active s - 1\<rparr>) t)"

definition destroy :: "addr \<Rightarrow> ('x, 'ps, 'fs) lk_conn_table \<Rightarrow> ('x, 'ps, 'fs) lk_conn_table option" where
  "destroy a t = do {
     t \<leftarrow> run_hook a t;
     c \<leftarrow> ct_mem t a;
     slot \<leftarrow> find_slot t a (BucketSlot (hash_bucket t (cn_cookie c)));
     t \<leftarrow> slot_set slot (cn_hnext c) t;
     t \<leftarrow> lru_unlink a t;
     c \<leftarrow> ct_mem t a;
     Some (free_entry a c t)
   }"

section \<open>Sequence holes\<close>

definition dirty_frame :: "lk_frame \<Rightarrow> lk_frame" where
  "dirty_frame f = f\<lparr>fr_st := LK_FR_DIRTY, fr_resync_matched := 0\<rparr>"

definition mark_dirty :: "('ps, 'fs) lk_conn \<Rightarrow> ('ps, 'fs) lk_conn" where
  "mark_dirty c = c\<lparr>cn_frame := (\<lambda>d. dirty_frame (cn_frame c d))\<rparr>"

text \<open>The part of \<open>touch\<close> that works on the entry: the events lost and the updated entry.\<close>

definition seq_step :: "u32 \<Rightarrow> u64 \<Rightarrow> ('ps, 'fs) lk_conn \<Rightarrow> u32 \<times> ('ps, 'fs) lk_conn" where
  "seq_step seq ts c =
     (let (lost, c) = (if cn_last_seq c + 1 < seq
                       then (let lost = seq - (cn_last_seq c + 1)
                             in (lost, mark_dirty (c\<lparr>cn_dropped := cn_dropped c + lost\<rparr>)))
                       else (0, c))
      in (lost, c\<lparr>cn_last_seq := (if cn_last_seq c < seq then seq else cn_last_seq c), cn_last_activity_ns := ts\<rparr>))"

definition tls_seq_step :: "u32 \<Rightarrow> u64 \<Rightarrow> ('ps, 'fs) lk_conn \<Rightarrow> u32 \<times> ('ps, 'fs) lk_conn" where
  "tls_seq_step seq ts c =
     (let (lost, c) = (if \<not> cn_tls_seq_seen c
                       then (0, c\<lparr>cn_tls_seq_seen := True, cn_tls_last_seq := seq\<rparr>)
                       else if cn_tls_last_seq c + 1 < seq
                       then (let lost = seq - (cn_tls_last_seq c + 1)
                             in (lost, mark_dirty (c\<lparr>cn_tls_dropped := cn_tls_dropped c + lost\<rparr>)))
                       else (0, c))
      in (lost, c\<lparr>cn_tls_last_seq := (if cn_tls_last_seq c < seq then seq else cn_tls_last_seq c),
                  cn_last_activity_ns := ts\<rparr>))"

text \<open>\<open>seq_gaps\<close> and \<open>lost_events\<close>: counted when there is a gap, which is when \<open>lost\<close> is not 0.\<close>

definition count_lost :: "u32 \<Rightarrow> lk_conn_table_stats \<Rightarrow> lk_conn_table_stats" where
  "count_lost lost s =
     (if lost = 0 then s else s\<lparr>cs_seq_gaps := cs_seq_gaps s + 1, cs_lost_events := cs_lost_events s + unat lost\<rparr>)"

definition touch_with :: "(('ps, 'fs) lk_conn \<Rightarrow> u32 \<times> ('ps, 'fs) lk_conn) \<Rightarrow> addr \<Rightarrow> ('x, 'ps, 'fs) lk_conn_table
    \<Rightarrow> (u32 \<times> ('x, 'ps, 'fs) lk_conn_table) option" where
  "touch_with step a t = do {
     c \<leftarrow> ct_mem t a;
     let (lost, c) = step c;
     let t = upd_cst (count_lost lost) (t\<lparr>ct_mem := (ct_mem t)(a \<mapsto> c)\<rparr>);
     t \<leftarrow> lru_unlink a t;
     t \<leftarrow> lru_push_front a t;
     Some (lost, t)
   }"

definition touch :: "addr \<Rightarrow> u32 \<Rightarrow> u64 \<Rightarrow> ('x, 'ps, 'fs) lk_conn_table \<Rightarrow> (u32 \<times> ('x, 'ps, 'fs) lk_conn_table) option" where
  "touch a seq ts t = touch_with (seq_step seq ts) a t"

definition touch_tls :: "addr \<Rightarrow> u32 \<Rightarrow> u64 \<Rightarrow> ('x, 'ps, 'fs) lk_conn_table \<Rightarrow> (u32 \<times> ('x, 'ps, 'fs) lk_conn_table) option" where
  "touch_tls a seq ts t = touch_with (tls_seq_step seq ts) a t"

section \<open>Creation\<close>

definition evict_coldest :: "('x, 'ps, 'fs) lk_conn_table \<Rightarrow> ('x, 'ps, 'fs) lk_conn_table option" where
  "evict_coldest t =
     (case ct_lru_tail t of
        Some a \<Rightarrow> if ct_max_conns t \<le> cs_active (ct_st t)
                  then map_option (upd_cst (\<lambda>s. s\<lparr>cs_evicted_lru := cs_evicted_lru s + 1\<rparr>)) (destroy a t)
                  else Some t
      | None \<Rightarrow> Some t)"

definition create :: "u64 \<Rightarrow> u32 \<Rightarrow> u64 \<Rightarrow> ('x, 'ps, 'fs) lk_conn_table \<Rightarrow> (addr option \<times> ('x, 'ps, 'fs) lk_conn_table) option" where
  "create cookie seq ts t = do {
     t \<leftarrow> evict_coldest t;
     let (ok, hp) = hp_alloc (ct_heap t);
     let t = t\<lparr>ct_heap := hp\<rparr>;
     if \<not> ok then Some (None, t)
     else do {
       let a = ct_brk t;
       let slot = hash_bucket t cookie;
       let c = lk_conn_zero\<lparr>cn_cookie := cookie, cn_last_seq := seq, cn_last_activity_ns := ts,
                 cn_hnext := ct_bucket t ! slot\<rparr>;
       t \<leftarrow> lru_push_front a (t\<lparr>ct_brk := a + 1, ct_mem := (ct_mem t)(a \<mapsto> c),
              ct_bucket := (ct_bucket t)[slot := Some a]\<rparr>);
       Some (Some a, upd_cst (\<lambda>s. s\<lparr>cs_created := cs_created s + 1, cs_active := cs_active s + 1\<rparr>) t)
     }
   }"

section \<open>Entry points\<close>

type_synonym ('x, 'ps, 'fs) table_result = "(addr option \<times> u32 \<times> ('x, 'ps, 'fs) lk_conn_table) option"

text \<open>A new entry and what its caller sets in it, or NULL.\<close>

definition create_with :: "(('ps, 'fs) lk_conn \<Rightarrow> ('ps, 'fs) lk_conn) \<Rightarrow> u64 \<Rightarrow> u32 \<Rightarrow> u64
    \<Rightarrow> ('x, 'ps, 'fs) lk_conn_table \<Rightarrow> ('x, 'ps, 'fs) table_result" where
  "create_with g cookie seq ts t = do {
     (p, t) \<leftarrow> create cookie seq ts t;
     case p of
       None \<Rightarrow> Some (None, 0, t)
     | Some a \<Rightarrow> map_option (\<lambda>t. (Some a, 0, t)) (poke a g t)
   }"

definition lk_conn_table_open :: "u64 \<Rightarrow> u32 \<Rightarrow> u64 \<Rightarrow> lk_tuple \<Rightarrow> bool \<Rightarrow> ('x, 'ps, 'fs) lk_conn_table
    \<Rightarrow> ('x, 'ps, 'fs) table_result" where
  "lk_conn_table_open cookie seq ts tuple synthetic t = do {
     p \<leftarrow> lookup cookie t;
     case p of
       Some a \<Rightarrow> map_option (\<lambda>(lost, t). (Some a, lost, t)) (touch a seq ts t)
     | None \<Rightarrow> create_with (\<lambda>c.
         let c = c\<lparr>cn_tuple := Some tuple, cn_ops := resolve_proto t (Some tuple)\<rparr>
         in if synthetic then mark_dirty (c\<lparr>cn_flags := cn_flags c OR LK_CONN_SYNTHETIC\<rparr>) else c) cookie seq ts t
   }"

definition lk_conn_table_data :: "u64 \<Rightarrow> u32 \<Rightarrow> u64 \<Rightarrow> ('x, 'ps, 'fs) lk_conn_table \<Rightarrow> ('x, 'ps, 'fs) table_result" where
  "lk_conn_table_data cookie seq ts t = do {
     p \<leftarrow> lookup cookie t;
     case p of
       Some a \<Rightarrow> map_option (\<lambda>(lost, t). (Some a, lost, t)) (touch a seq ts t)
     | None \<Rightarrow> create_with (\<lambda>c. mark_dirty (c\<lparr>cn_ops := ct_proto_dflt t\<rparr>)) cookie seq ts t
   }"

definition lk_conn_table_peek :: "u64 \<Rightarrow> ('x, 'ps, 'fs) lk_conn_table \<Rightarrow> addr option option" where
  "lk_conn_table_peek cookie t = lookup cookie t"

definition lk_conn_table_data_decrypted :: "u64 \<Rightarrow> u32 \<Rightarrow> u64 \<Rightarrow> ('x, 'ps, 'fs) lk_conn_table
    \<Rightarrow> ('x, 'ps, 'fs) table_result" where
  "lk_conn_table_data_decrypted cookie seq ts t = do {
     p \<leftarrow> lookup cookie t;
     case p of
       Some a \<Rightarrow> map_option (\<lambda>(lost, t). (Some a, lost, t)) (touch_tls a seq ts t)
     | None \<Rightarrow> create_with (\<lambda>c. mark_dirty (c\<lparr>cn_ops := ct_proto_dflt t, cn_tls_seq_seen := True, cn_tls_last_seq := seq\<rparr>)) cookie seq ts t
   }"

text \<open>The entry's part of \<open>lk_conn_table_note_tls_drop\<close>: it moves the baseline and reports no loss.\<close>

definition drop_step :: "u32 \<Rightarrow> u64 \<Rightarrow> ('ps, 'fs) lk_conn \<Rightarrow> u32 \<times> ('ps, 'fs) lk_conn" where
  "drop_step seq ts c = (0, c\<lparr>cn_last_seq := (if cn_last_seq c < seq then seq else cn_last_seq c), cn_last_activity_ns := ts\<rparr>)"

definition lk_conn_table_note_tls_drop :: "addr \<Rightarrow> u32 \<Rightarrow> u64 \<Rightarrow> ('x, 'ps, 'fs) lk_conn_table \<Rightarrow> ('x, 'ps, 'fs) lk_conn_table option" where
  "lk_conn_table_note_tls_drop a seq ts t =
     map_option snd (touch_with (drop_step seq ts) a (upd_cst (\<lambda>s. s\<lparr>cs_tls_socket_dropped := cs_tls_socket_dropped s + 1\<rparr>) t))"

definition lk_conn_table_note_tls_open :: "('x, 'ps, 'fs) lk_conn_table \<Rightarrow> ('x, 'ps, 'fs) lk_conn_table" where
  "lk_conn_table_note_tls_open t = upd_cst (\<lambda>s. s\<lparr>cs_tls_opened := cs_tls_opened s + 1, cs_tls_active := cs_tls_active s + 1\<rparr>) t"

definition lk_conn_tls_reset_framing :: "bool \<Rightarrow> ('ps, 'fs) lk_conn \<Rightarrow> heap \<Rightarrow> ('ps, 'fs) lk_conn \<times> heap" where
  "lk_conn_tls_reset_framing midstream c hp =
     (let hp = free_opt (cn_frame_state c) hp;
          hp = free_opt (fr_buf (cn_frame c LK_DIR_SEND)) hp;
          hp = free_opt (fr_buf (cn_frame c LK_DIR_RECV)) hp;
          c = c\<lparr>cn_frame_state := None, cn_frame := (\<lambda>_. lk_frame_zero)\<rparr>
      in (if midstream then mark_dirty c else c, hp))"

definition lk_conn_table_close :: "u64 \<Rightarrow> u32 \<Rightarrow> u64 \<Rightarrow> ('x, 'ps, 'fs) lk_conn_table
    \<Rightarrow> (u32 \<times> ('x, 'ps, 'fs) lk_conn_table) option" where
  "lk_conn_table_close cookie seq ts t = do {
     p \<leftarrow> lookup cookie t;
     case p of
       None \<Rightarrow> Some (0, t)
     | Some a \<Rightarrow> do {
         (lost, t) \<leftarrow> touch a seq ts t;
         t \<leftarrow> destroy a t;
         Some (lost, upd_cst (\<lambda>s. s\<lparr>cs_closed := cs_closed s + 1\<rparr>) t)
       }
   }"

partial_function (option) sweep_loop :: "u64 \<Rightarrow> nat \<Rightarrow> ('x, 'ps, 'fs) lk_conn_table \<Rightarrow> (nat \<times> ('x, 'ps, 'fs) lk_conn_table) option" where
  "sweep_loop now evicted t =
     (case ct_lru_tail t of
        None \<Rightarrow> Some (evicted, t)
      | Some a \<Rightarrow> (case ct_mem t a of
            None \<Rightarrow> None
          | Some c \<Rightarrow>
              if cn_last_activity_ns c + ct_idle_timeout_ns t \<le> now
              then do {
                t \<leftarrow> destroy a t;
                sweep_loop now (evicted + 1) (upd_cst (\<lambda>s. s\<lparr>cs_evicted_idle := cs_evicted_idle s + 1\<rparr>) t)
              }
              else Some (evicted, t)))"

definition lk_conn_table_sweep :: "u64 \<Rightarrow> ('x, 'ps, 'fs) lk_conn_table \<Rightarrow> (nat \<times> ('x, 'ps, 'fs) lk_conn_table) option" where
  "lk_conn_table_sweep now t = sweep_loop now 0 t"

section \<open>Set-up and teardown\<close>

text \<open>\<open>while (t->nbuckets < t->max_conns / 16) t->nbuckets <<= 1\<close>, after \<open>k\<close> doublings of 64.\<close>

function bucket_count :: "nat \<Rightarrow> nat \<Rightarrow> nat" where
  "bucket_count k target = (if 64 * 2 ^ k < target then bucket_count (k + 1) target else 64 * 2 ^ k)"
  by pat_completeness auto
termination
proof (relation "measure (\<lambda>(k, target). target - k)")
  fix k target :: nat
  assume *: "64 * 2 ^ k < target"
  have "k < 2 ^ k" by (rule less_exp)
  with * have "k < target" by linarith
  then show "((k + 1, target), k, target) \<in> measure (\<lambda>(k, target). target - k)" by simp
qed simp

declare bucket_count.simps [simp del]

definition lk_conn_table_new :: "nat \<Rightarrow> u64 \<Rightarrow> 'x \<Rightarrow> heap \<Rightarrow> ('x, 'ps, 'fs) lk_conn_table option \<times> heap" where
  "lk_conn_table_new max_conns idle_timeout_ns ctx hp =
     (let (ok, hp) = hp_alloc hp
      in if \<not> ok then (None, hp)
         else
           (let max_conns = (if max_conns = 0 then 1 else max_conns);
                n = bucket_count 0 (max_conns div 16);
                (ok, hp) = hp_alloc hp
            in if \<not> ok then (None, hp_free hp)
               else (Some \<lparr>ct_bucket = replicate n None, ct_nbuckets = n, ct_max_conns = max_conns,
                       ct_idle_timeout_ns = idle_timeout_ns, ct_lru_head = None, ct_lru_tail = None,
                       ct_on_destroy = None, ct_ctx = ctx, ct_protos = [], ct_proto_dflt = None,
                       ct_st = lk_conn_table_stats_zero, ct_mem = (\<lambda>_. None), ct_brk = 0, ct_heap = hp\<rparr>, hp)))"

definition lk_conn_table_on_destroy :: "('x, 'ps, 'fs) destroy_hook option \<Rightarrow> 'x \<Rightarrow> ('x, 'ps, 'fs) lk_conn_table
    \<Rightarrow> ('x, 'ps, 'fs) lk_conn_table" where
  "lk_conn_table_on_destroy f ctx t = t\<lparr>ct_on_destroy := f, ct_ctx := ctx\<rparr>"

definition lk_conn_table_set_protos :: "(u16 \<times> lk_proto_id) list \<Rightarrow> lk_proto_id option \<Rightarrow> ('x, 'ps, 'fs) lk_conn_table
    \<Rightarrow> ('x, 'ps, 'fs) lk_conn_table" where
  "lk_conn_table_set_protos protos dflt t = t\<lparr>ct_protos := protos, ct_proto_dflt := dflt\<rparr>"

partial_function (option) destroy_all :: "('x, 'ps, 'fs) lk_conn_table \<Rightarrow> ('x, 'ps, 'fs) lk_conn_table option" where
  "destroy_all t = (case ct_lru_head t of None \<Rightarrow> Some t | Some a \<Rightarrow> do { t \<leftarrow> destroy a t; destroy_all t })"

text \<open>The context and the allocator are what is left of a freed table.\<close>

definition lk_conn_table_free :: "('x, 'ps, 'fs) lk_conn_table \<Rightarrow> ('x \<times> heap) option" where
  "lk_conn_table_free t = do { t \<leftarrow> destroy_all t; Some (ct_ctx t, hp_free (hp_free (ct_heap t))) }"

end
