(* ===== verification/Conn_Links.thy ===== *)
theory Conn_Links
  imports Conn_Table
begin

text \<open>
  The pointer structures of the connection table: the doubly linked LRU list and the hash chains, as
  lists of addresses, and the effect of the pointer operations on them. A store is looked at through
  three projections: the chain links, the list links and the payload.
\<close>

section \<open>Projections of the store\<close>

definition hn :: "(addr \<Rightarrow> ('ps, 'fs) lk_conn option) \<Rightarrow> addr \<Rightarrow> addr option option" where
  "hn m a = map_option cn_hnext (m a)"

definition lks :: "(addr \<Rightarrow> ('ps, 'fs) lk_conn option) \<Rightarrow> addr \<Rightarrow> (addr option \<times> addr option) option" where
  "lks m a = map_option (\<lambda>c. (cn_lru_prev c, cn_lru_next c)) (m a)"

definition strip :: "('ps, 'fs) lk_conn \<Rightarrow> ('ps, 'fs) lk_conn" where
  "strip c = c\<lparr>cn_hnext := None, cn_lru_prev := None, cn_lru_next := None\<rparr>"

definition pay :: "(addr \<Rightarrow> ('ps, 'fs) lk_conn option) \<Rightarrow> addr \<Rightarrow> ('ps, 'fs) lk_conn option" where
  "pay m a = map_option strip (m a)"

lemma proj_upd:
  "hn (m(a \<mapsto> c)) = (hn m)(a \<mapsto> cn_hnext c)" "lks (m(a \<mapsto> c)) = (lks m)(a \<mapsto> (cn_lru_prev c, cn_lru_next c))"
  "pay (m(a \<mapsto> c)) = (pay m)(a \<mapsto> strip c)" "hn (m(a := None)) = (hn m)(a := None)" "lks (m(a := None)) = (lks m)(a := None)"
  "pay (m(a := None)) = (pay m)(a := None)"
  by (auto simp: hn_def lks_def pay_def)

lemma strip_simps [simp]:
  "cn_cookie (strip c) = cn_cookie c" "cn_flags (strip c) = cn_flags c" "cn_frame (strip c) = cn_frame c"
  "cn_frame_state (strip c) = cn_frame_state c" "cn_last_activity_ns (strip c) = cn_last_activity_ns c"
  "cn_last_seq (strip c) = cn_last_seq c" "strip (strip c) = strip c"
  "strip (c\<lparr>cn_lru_prev := p\<rparr>) = strip c" "strip (c\<lparr>cn_lru_next := n\<rparr>) = strip c" "strip (c\<lparr>cn_hnext := h\<rparr>) = strip c"
  "cn_hnext (strip c) = None" "cn_lru_prev (strip c) = None" "cn_lru_next (strip c) = None"
  by (simp_all add: strip_def)

lemma mem_proj:
  assumes "m a = Some c"
  shows "hn m a = Some (cn_hnext c)" "lks m a = Some (cn_lru_prev c, cn_lru_next c)" "pay m a = Some (strip c)"
  using assms by (simp_all add: hn_def lks_def pay_def)

lemma pay_None [simp]: "(pay m a = None) = (m a = None)"
  by (simp add: pay_def)

lemma pay_SomeE: "pay m a = Some e \<Longrightarrow> (\<And>c. m a = Some c \<Longrightarrow> e = strip c \<Longrightarrow> P) \<Longrightarrow> P"
  by (auto simp: pay_def)

section \<open>Doubly linked lists\<close>

primrec fst_of :: "addr list \<Rightarrow> addr option \<Rightarrow> addr option" where
  "fst_of [] q = q"
| "fst_of (a # as) q = Some a"

definition lst_of :: "addr list \<Rightarrow> addr option \<Rightarrow> addr option" where
  "lst_of as p = (if as = [] then p else Some (last as))"

lemma lst_of_simps [simp]: "lst_of [] p = p" "lst_of (as @ [a]) p = Some a" "lst_of (a # as) p = lst_of as (Some a)"
  by (simp_all add: lst_of_def)

lemma fst_of_append: "fst_of (as @ bs) q = fst_of as (fst_of bs q)"
  by (cases as) simp_all

lemma lst_of_append: "lst_of (as @ bs) p = lst_of bs (lst_of as p)"
  by (simp add: lst_of_def)

primrec dseg :: "(addr \<Rightarrow> (addr option \<times> addr option) option) \<Rightarrow> addr option \<Rightarrow> addr list \<Rightarrow> addr option \<Rightarrow> bool" where
  "dseg l p [] q \<longleftrightarrow> True"
| "dseg l p (a # as) q \<longleftrightarrow> l a = Some (p, fst_of as q) \<and> dseg l (Some a) as q"

lemma dseg_append: "dseg l p (as @ bs) q \<longleftrightarrow> dseg l p as (fst_of bs q) \<and> dseg l (lst_of as p) bs q"
  by (induction as arbitrary: p) (auto simp: fst_of_append)

lemma dseg_other: "a \<notin> set as \<Longrightarrow> dseg (l(a := v)) p as q = dseg l p as q"
  by (induction as arbitrary: p) auto

lemma dseg_dom: "dseg l p as q \<Longrightarrow> a \<in> set as \<Longrightarrow> l a \<noteq> None"
  by (induction as arbitrary: p) auto

lemma dseg_set_last:
  assumes "dseg l p (as @ [a]) q" and "a \<notin> set as"
  shows "dseg (l(a \<mapsto> (fst (the (l a)), q'))) p (as @ [a]) q'"
  using assms by (simp add: dseg_append dseg_other)

lemma dseg_set_first:
  assumes "dseg l p (a # as) q" and "a \<notin> set as"
  shows "dseg (l(a \<mapsto> (p', snd (the (l a))))) p' (a # as) q"
  using assms by (simp add: dseg_other)

definition lru_ok :: "('x, 'ps, 'fs) lk_conn_table \<Rightarrow> addr list \<Rightarrow> bool" where
  "lru_ok t as \<longleftrightarrow> dseg (lks (ct_mem t)) None as None \<and> distinct as
     \<and> ct_lru_head t = fst_of as None \<and> ct_lru_tail t = lst_of as None"

text \<open>The table with other list pointers: what the LRU operations change.\<close>

definition relinked :: "('x, 'ps, 'fs) lk_conn_table \<Rightarrow> ('x, 'ps, 'fs) lk_conn_table \<Rightarrow> bool" where
  "relinked t t' \<longleftrightarrow> t' = t\<lparr>ct_mem := ct_mem t', ct_lru_head := ct_lru_head t', ct_lru_tail := ct_lru_tail t'\<rparr>
     \<and> hn (ct_mem t') = hn (ct_mem t) \<and> pay (ct_mem t') = pay (ct_mem t)"

lemma relinked_refl [simp]: "relinked t t"
  by (simp add: relinked_def)

lemma relinked_trans: "relinked t t' \<Longrightarrow> relinked t' t'' \<Longrightarrow> relinked t t''"
  by (cases t; cases t'; cases t'') (simp add: relinked_def)

lemma relinked_heads:
  assumes "relinked t t'"
  shows "relinked t (t'\<lparr>ct_lru_head := h\<rparr>)" "relinked t (t'\<lparr>ct_lru_tail := l\<rparr>)"
proof -
  obtain m h' l' where "t' = t\<lparr>ct_mem := m, ct_lru_head := h', ct_lru_tail := l'\<rparr>" "hn m = hn (ct_mem t)" "pay m = pay (ct_mem t)"
    using assms by (auto simp: relinked_def)
  then show "relinked t (t'\<lparr>ct_lru_head := h\<rparr>)" "relinked t (t'\<lparr>ct_lru_tail := l\<rparr>)"
    by (simp_all add: relinked_def)
qed

lemma poke_lru:
  assumes "lks (ct_mem t) a = Some l" and "\<And>c. cn_hnext (g c) = cn_hnext c" and "\<And>c. strip (g c) = strip c"
    and "\<And>c. (cn_lru_prev (g c), cn_lru_next (g c)) = k (cn_lru_prev c, cn_lru_next c)"
  shows "\<exists>t'. poke a g t = Some t' \<and> relinked t t' \<and> lks (ct_mem t') = (lks (ct_mem t))(a \<mapsto> k l)
    \<and> ct_lru_head t' = ct_lru_head t \<and> ct_lru_tail t' = ct_lru_tail t"
proof -
  obtain c where c: "ct_mem t a = Some c" "l = (cn_lru_prev c, cn_lru_next c)" using assms(1) by (auto simp: lks_def)
  have "(hn (ct_mem t))(a \<mapsto> cn_hnext (g c)) = hn (ct_mem t)" "(pay (ct_mem t))(a \<mapsto> strip (g c)) = pay (ct_mem t)"
    using c assms(2,3) by (auto simp: fun_eq_iff hn_def pay_def)
  then show ?thesis using c assms(4) by (simp add: poke_def relinked_def proj_upd)
qed

lemma lru_unlink_prev:
  assumes "dseg (lks (ct_mem t)) None (xs @ a # ys) None" and "distinct (xs @ a # ys)" and "ct_lru_head t = fst_of (xs @ a # ys) None"
  shows "\<exists>t'. (case lst_of xs None of Some p \<Rightarrow> poke p (\<lambda>x. x\<lparr>cn_lru_next := fst_of ys None\<rparr>) t
        | None \<Rightarrow> Some (t\<lparr>ct_lru_head := fst_of ys None\<rparr>)) = Some t' \<and> relinked t t'
     \<and> dseg (lks (ct_mem t')) None xs (fst_of ys None) \<and> dseg (lks (ct_mem t')) (Some a) ys None
     \<and> lks (ct_mem t') a = lks (ct_mem t) a \<and> ct_lru_head t' = fst_of (xs @ ys) None \<and> ct_lru_tail t' = ct_lru_tail t"
proof (cases xs rule: rev_cases)
  case Nil
  then show ?thesis using assms by (simp add: relinked_def)
next
  case (snoc xs' x)
  have d: "dseg (lks (ct_mem t)) None (xs' @ [x]) (Some a)" "dseg (lks (ct_mem t)) (Some a) ys None" "x \<notin> set xs'" "x \<notin> set ys" "x \<noteq> a"
    using assms(1,2) snoc by (simp_all add: dseg_append)
  then obtain l where l: "lks (ct_mem t) x = Some l" by (auto simp: dseg_append)
  obtain t' where t': "poke x (\<lambda>c. c\<lparr>cn_lru_next := fst_of ys None\<rparr>) t = Some t'" "relinked t t'"
    "lks (ct_mem t') = (lks (ct_mem t))(x \<mapsto> (fst l, fst_of ys None))" "ct_lru_head t' = ct_lru_head t" "ct_lru_tail t' = ct_lru_tail t"
    using poke_lru [OF l, of "\<lambda>c. c\<lparr>cn_lru_next := fst_of ys None\<rparr>" "\<lambda>l. (fst l, fst_of ys None)"] by auto
  have "dseg (lks (ct_mem t')) None (xs' @ [x]) (fst_of ys None)"
    using dseg_set_last [OF d(1,3), of "fst_of ys None"] by (simp add: t'(3) l)
  then show ?thesis using snoc t' d assms(3) by (simp add: dseg_other fst_of_append)
qed

lemma lru_unlink_next:
  assumes "dseg (lks (ct_mem t)) None xs (fst_of ys None)" and "dseg (lks (ct_mem t)) (Some a) ys None" and "distinct (xs @ a # ys)"
    and "ct_lru_tail t = lst_of (xs @ a # ys) None"
  shows "\<exists>t'. (case fst_of ys None of Some n \<Rightarrow> poke n (\<lambda>x. x\<lparr>cn_lru_prev := lst_of xs None\<rparr>) t
        | None \<Rightarrow> Some (t\<lparr>ct_lru_tail := lst_of xs None\<rparr>)) = Some t' \<and> relinked t t'
     \<and> dseg (lks (ct_mem t')) None xs (fst_of ys None) \<and> dseg (lks (ct_mem t')) (lst_of xs None) ys None
     \<and> lks (ct_mem t') a = lks (ct_mem t) a \<and> ct_lru_head t' = ct_lru_head t \<and> ct_lru_tail t' = lst_of (xs @ ys) None"
proof (cases ys)
  case Nil
  then show ?thesis using assms by (simp add: relinked_def)
next
  case (Cons y ys')
  have d: "y \<notin> set xs" "y \<notin> set ys'" "y \<noteq> a" using assms(3) Cons by auto
  obtain l where l: "lks (ct_mem t) y = Some l" using assms(2) Cons by auto
  obtain t' where t': "poke y (\<lambda>c. c\<lparr>cn_lru_prev := lst_of xs None\<rparr>) t = Some t'" "relinked t t'"
    "lks (ct_mem t') = (lks (ct_mem t))(y \<mapsto> (lst_of xs None, snd l))" "ct_lru_head t' = ct_lru_head t" "ct_lru_tail t' = ct_lru_tail t"
    using poke_lru [OF l, of "\<lambda>c. c\<lparr>cn_lru_prev := lst_of xs None\<rparr>" "\<lambda>l. (lst_of xs None, snd l)"] by auto
  have "dseg (lks (ct_mem t')) (lst_of xs None) ys None"
    using dseg_set_first [of "lks (ct_mem t)" "Some a" y ys' None "lst_of xs None"] assms(2) d(2) Cons by (simp add: t'(3) l)
  moreover have "lst_of (xs @ a # ys) None = lst_of (xs @ ys) None" using Cons by (simp add: lst_of_append)
  ultimately show ?thesis using Cons t' d assms(1,4) by (simp add: dseg_other)
qed

lemma lru_unlink_ok:
  assumes "lru_ok t (xs @ a # ys)"
  shows "\<exists>t'. lru_unlink a t = Some t' \<and> relinked t t' \<and> lru_ok t' (xs @ ys) \<and> lks (ct_mem t') a = Some (None, None)"
proof -
  have o: "dseg (lks (ct_mem t)) None (xs @ a # ys) None" "distinct (xs @ a # ys)" "ct_lru_head t = fst_of (xs @ a # ys) None"
    "ct_lru_tail t = lst_of (xs @ a # ys) None" using assms by (simp_all add: lru_ok_def)
  have la: "lks (ct_mem t) a = Some (lst_of xs None, fst_of ys None)" using o(1) by (simp add: dseg_append)
  obtain c where c: "ct_mem t a = Some c" "cn_lru_prev c = lst_of xs None" "cn_lru_next c = fst_of ys None"
    using la by (auto simp: lks_def)
  obtain t1 where t1: "(case lst_of xs None of Some p \<Rightarrow> poke p (\<lambda>x. x\<lparr>cn_lru_next := fst_of ys None\<rparr>) t
      | None \<Rightarrow> Some (t\<lparr>ct_lru_head := fst_of ys None\<rparr>)) = Some t1" "relinked t t1"
    "dseg (lks (ct_mem t1)) None xs (fst_of ys None)" "dseg (lks (ct_mem t1)) (Some a) ys None"
    "lks (ct_mem t1) a = lks (ct_mem t) a" "ct_lru_head t1 = fst_of (xs @ ys) None" "ct_lru_tail t1 = ct_lru_tail t"
    using lru_unlink_prev [OF o(1-3)] by blast
  obtain c1 where c1: "ct_mem t1 a = Some c1" "cn_lru_prev c1 = lst_of xs None" "cn_lru_next c1 = fst_of ys None"
    using la t1(5) by (auto simp: lks_def)
  obtain t2 where t2: "(case fst_of ys None of Some n \<Rightarrow> poke n (\<lambda>x. x\<lparr>cn_lru_prev := lst_of xs None\<rparr>) t1
      | None \<Rightarrow> Some (t1\<lparr>ct_lru_tail := lst_of xs None\<rparr>)) = Some t2" "relinked t1 t2"
    "dseg (lks (ct_mem t2)) None xs (fst_of ys None)" "dseg (lks (ct_mem t2)) (lst_of xs None) ys None"
    "lks (ct_mem t2) a = lks (ct_mem t1) a" "ct_lru_head t2 = ct_lru_head t1" "ct_lru_tail t2 = lst_of (xs @ ys) None"
    using lru_unlink_next [OF t1(3,4) o(2)] t1(7) o(4) by auto
  obtain t3 where t3: "poke a (\<lambda>x. x\<lparr>cn_lru_prev := None, cn_lru_next := None\<rparr>) t2 = Some t3" "relinked t2 t3"
    "lks (ct_mem t3) = (lks (ct_mem t2))(a \<mapsto> (None, None))" "ct_lru_head t3 = ct_lru_head t2" "ct_lru_tail t3 = ct_lru_tail t2"
    using poke_lru [of t2 a _ "\<lambda>x. x\<lparr>cn_lru_prev := None, cn_lru_next := None\<rparr>" "\<lambda>_. (None, None)"] t2(5) t1(5) la by fastforce
  have "lru_unlink a t = Some t3"
    using c c1 t1(1) t2(1) t3(1) by (simp add: lru_unlink_def cong: option.case_cong)
  moreover have "lru_ok t3 (xs @ ys)"
    using t3 t2 t1(6) o(2) by (simp add: lru_ok_def dseg_append dseg_other)
  moreover have "relinked t t3" using relinked_trans [OF relinked_trans [OF t1(2) t2(2)] t3(2)] .
  ultimately show ?thesis using t3(3) by auto
qed

lemma lru_push_ok:
  assumes "lru_ok t as" and "lks (ct_mem t) a \<noteq> None" and "a \<notin> set as"
  shows "\<exists>t'. lru_push_front a t = Some t' \<and> relinked t t' \<and> lru_ok t' (a # as)"
proof -
  have o: "dseg (lks (ct_mem t)) None as None" "distinct as" "ct_lru_head t = fst_of as None" "ct_lru_tail t = lst_of as None"
    using assms(1) by (simp_all add: lru_ok_def)
  obtain t1 where t1: "poke a (\<lambda>x. x\<lparr>cn_lru_prev := None, cn_lru_next := ct_lru_head t\<rparr>) t = Some t1" "relinked t t1"
    "lks (ct_mem t1) = (lks (ct_mem t))(a \<mapsto> (None, fst_of as None))" "ct_lru_head t1 = ct_lru_head t" "ct_lru_tail t1 = ct_lru_tail t"
    using poke_lru [of t a _ "\<lambda>x. x\<lparr>cn_lru_prev := None, cn_lru_next := ct_lru_head t\<rparr>" "\<lambda>_. (None, fst_of as None)"] assms(2) o(3) by fastforce
  show ?thesis
  proof (cases as)
    case Nil
    then show ?thesis
      using t1 o relinked_heads(2) [OF relinked_heads(1) [OF t1(2)]] by (auto simp: lru_push_front_def lru_ok_def Let_def)
  next
    case (Cons h hs)
    have d: "h \<noteq> a" "a \<notin> set hs" "h \<notin> set hs" using assms(3) o(2) Cons by auto
    have lh: "lks (ct_mem t1) h = Some (None, fst_of hs None)" using o(1) Cons d by (simp add: t1(3))
    obtain t2 where t2: "poke h (\<lambda>x. x\<lparr>cn_lru_prev := Some a\<rparr>) t1 = Some t2" "relinked t1 t2"
      "lks (ct_mem t2) = (lks (ct_mem t1))(h \<mapsto> (Some a, fst_of hs None))" "ct_lru_head t2 = ct_lru_head t1" "ct_lru_tail t2 = ct_lru_tail t1"
      using poke_lru [OF lh, of "\<lambda>x. x\<lparr>cn_lru_prev := Some a\<rparr>" "\<lambda>l. (Some a, snd l)"] by auto
    let ?t = "t2\<lparr>ct_lru_head := Some a\<rparr>"
    have "lst_of as None \<noteq> None" using Cons by (simp add: lst_of_def)
    then have "lru_push_front a t = Some ?t"
      using t1 t2 o Cons by (simp add: lru_push_front_def Let_def)
    moreover have "relinked t ?t"
      using relinked_heads(1) [OF relinked_trans [OF t1(2) t2(2)]] .
    moreover have "lru_ok ?t (a # as)"
      using o Cons d t1 t2 by (simp add: lru_ok_def dseg_other lst_of_def)
    ultimately show ?thesis by blast
  qed
qed

end
