(* ===== verification/Conn_Chains.thy ===== *)
theory Conn_Chains
  imports Conn_Links
begin

text \<open>
  The hash chains of the connection table: every entry is on the chain of its cookie's bucket, once.
  Chain walks end, find what is there, and unlinking removes exactly one entry.
\<close>

section \<open>Chains\<close>

primrec hpath :: "(addr \<Rightarrow> addr option option) \<Rightarrow> addr option \<Rightarrow> addr list \<Rightarrow> bool" where
  "hpath h p [] \<longleftrightarrow> p = None"
| "hpath h p (a # as) \<longleftrightarrow> p = Some a \<and> (\<exists>q. h a = Some q \<and> hpath h q as)"

lemma hpath_other: "a \<notin> set as \<Longrightarrow> hpath (h(a := v)) p as = hpath h p as"
  by (induction as arbitrary: p) auto

lemma hpath_drop_tail:
  assumes "hpath h p (xs @ x # a # ys)" and "distinct (xs @ x # a # ys)" and "h a = Some q"
  shows "hpath (h(x \<mapsto> q)) p (xs @ x # ys)"
  using assms by (induction xs arbitrary: p) (auto simp: hpath_other)

lemma hpath_mem: "hpath h p xs \<Longrightarrow> a \<in> set xs \<Longrightarrow> \<exists>q. h a = Some q"
  by (induction xs arbitrary: p) auto

lemma hn_Some: "hn m a = Some q \<longleftrightarrow> (\<exists>c. m a = Some c \<and> q = cn_hnext c)"
  by (auto simp: hn_def)

lemma chain_find_ok:
  "hpath (hn m) p xs \<Longrightarrow> chain_find m k p = Some (List.find (\<lambda>a. map_option cn_cookie (m a) = Some k) xs)"
proof (induction xs arbitrary: p)
  case Nil
  then show ?case by (simp add: chain_find.simps)
next
  case (Cons a xs)
  then obtain c where "m a = Some c" "p = Some a" "hpath (hn m) (cn_hnext c) xs" by (auto simp: hn_Some)
  then show ?case using Cons.IH by (subst chain_find.simps) auto
qed

lemma find_slot_ok:
  assumes "slot_get t s = Some p" and "hpath (hn (ct_mem t)) p (xs @ a # ys)" and "distinct (xs @ a # ys)"
  shows "find_slot t a s = Some (if xs = [] then s else NextSlot (last xs))"
  using assms
proof (induction xs arbitrary: s p)
  case Nil
  then show ?case by (subst find_slot.simps) simp
next
  case (Cons x xs)
  then obtain q where q: "p = Some x" "slot_get t (NextSlot x) = Some q" "hpath (hn (ct_mem t)) q (xs @ a # ys)" "x \<noteq> a"
    by (auto simp: hn_Some slot_get_def)
  then show ?case using Cons.IH [OF q(2,3)] Cons.prems by (subst find_slot.simps) simp
qed

definition members :: "('x, 'ps, 'fs) lk_conn_table \<Rightarrow> nat \<Rightarrow> addr set" where
  "members t b = {a. \<exists>c. ct_mem t a = Some c \<and> hash_bucket t (cn_cookie c) = b}"

definition chains_for :: "(nat \<Rightarrow> addr set) \<Rightarrow> ('x, 'ps, 'fs) lk_conn_table \<Rightarrow> bool" where
  "chains_for M t \<longleftrightarrow> length (ct_bucket t) = ct_nbuckets t \<and> 0 < ct_nbuckets t \<and> ct_nbuckets t < 2 ^ 64
     \<and> (\<forall>b<ct_nbuckets t. \<exists>xs. hpath (hn (ct_mem t)) (ct_bucket t ! b) xs \<and> distinct xs \<and> set xs = M b)"

definition chains_ok :: "('x, 'ps, 'fs) lk_conn_table \<Rightarrow> bool" where
  "chains_ok t \<longleftrightarrow> chains_for (members t) t"

lemma hash_bucket_cong: "ct_nbuckets t' = ct_nbuckets t \<Longrightarrow> hash_bucket t' = hash_bucket t"
  by (simp add: hash_bucket_def fun_eq_iff)

lemma hash_bucket_less: "chains_for M t \<Longrightarrow> hash_bucket t k < ct_nbuckets t"
proof -
  assume c: "chains_for M t"
  have "unat (x AND (of_nat (ct_nbuckets t) - 1 :: u64)) \<le> unat (of_nat (ct_nbuckets t) - 1 :: u64)" for x
    by (simp only: word_le_nat_alt [symmetric] word_and_le1)
  moreover have "unat (of_nat (ct_nbuckets t) - 1 :: u64) = ct_nbuckets t - 1"
  proof -
    have "(1 :: u64) \<le> of_nat (ct_nbuckets t)" "unat (of_nat (ct_nbuckets t) :: u64) = ct_nbuckets t"
      using c by (simp_all add: chains_for_def word_le_nat_alt unat_of_nat)
    then show ?thesis by (simp add: unat_sub)
  qed
  ultimately show ?thesis using c by (simp add: hash_bucket_def chains_for_def) (metis Suc_pred le_imp_less_Suc)
qed

lemma lookup_ok:
  assumes "chains_ok t"
  shows "\<exists>p. lookup k t = Some p \<and> (case p of
      None \<Rightarrow> (\<forall>a c. ct_mem t a = Some c \<longrightarrow> cn_cookie c \<noteq> k)
    | Some a \<Rightarrow> (\<exists>c. ct_mem t a = Some c \<and> cn_cookie c = k))"
proof -
  have "hash_bucket t k < ct_nbuckets t" using assms hash_bucket_less unfolding chains_ok_def by blast
  then obtain xs where xs: "hpath (hn (ct_mem t)) (ct_bucket t ! hash_bucket t k) xs" "set xs = members t (hash_bucket t k)"
    using assms by (auto simp: chains_ok_def chains_for_def)
  let ?P = "\<lambda>a. map_option cn_cookie (ct_mem t a) = Some k"
  have "lookup k t = Some (List.find ?P xs)" by (simp add: lookup_def chain_find_ok [OF xs(1)])
  moreover have "case List.find ?P xs of None \<Rightarrow> (\<forall>a c. ct_mem t a = Some c \<longrightarrow> cn_cookie c \<noteq> k)
      | Some a \<Rightarrow> (\<exists>c. ct_mem t a = Some c \<and> cn_cookie c = k)"
    using xs(2) by (auto simp: find_None_iff find_Some_iff members_def split: option.split)
  ultimately show ?thesis by blast
qed

section \<open>Changes\<close>

text \<open>Another store and other buckets, with the same list links and payload.\<close>

definition rechained :: "('x, 'ps, 'fs) lk_conn_table \<Rightarrow> ('x, 'ps, 'fs) lk_conn_table \<Rightarrow> bool" where
  "rechained t t' \<longleftrightarrow> t' = t\<lparr>ct_mem := ct_mem t', ct_bucket := ct_bucket t'\<rparr>
     \<and> lks (ct_mem t') = lks (ct_mem t) \<and> pay (ct_mem t') = pay (ct_mem t)"

lemma members_pay: "pay (ct_mem t') = pay (ct_mem t) \<Longrightarrow> ct_nbuckets t' = ct_nbuckets t \<Longrightarrow> members t' = members t"
proof -
  have m: "members t b = {a. \<exists>e. pay (ct_mem t) a = Some e \<and> hash_bucket t (cn_cookie e) = b}" for t :: "('x, 'ps, 'fs) lk_conn_table" and b
    by (auto simp: members_def pay_def)
  assume "pay (ct_mem t') = pay (ct_mem t)" "ct_nbuckets t' = ct_nbuckets t"
  then show "members t' = members t" using hash_bucket_cong [of t' t] by (auto simp: m fun_eq_iff)
qed

lemma relinked_fields:
  assumes "relinked t t'"
  shows "ct_bucket t' = ct_bucket t" "ct_nbuckets t' = ct_nbuckets t" "ct_max_conns t' = ct_max_conns t" "ct_idle_timeout_ns t' = ct_idle_timeout_ns t"
    "ct_on_destroy t' = ct_on_destroy t" "ct_ctx t' = ct_ctx t" "ct_protos t' = ct_protos t" "ct_proto_dflt t' = ct_proto_dflt t"
    "ct_st t' = ct_st t" "ct_brk t' = ct_brk t" "ct_heap t' = ct_heap t" "hn (ct_mem t') = hn (ct_mem t)" "pay (ct_mem t') = pay (ct_mem t)"
proof -
  obtain m h l where "t' = t\<lparr>ct_mem := m, ct_lru_head := h, ct_lru_tail := l\<rparr>" using assms by (auto simp: relinked_def)
  then show "ct_bucket t' = ct_bucket t" "ct_nbuckets t' = ct_nbuckets t" "ct_max_conns t' = ct_max_conns t" "ct_idle_timeout_ns t' = ct_idle_timeout_ns t"
    "ct_on_destroy t' = ct_on_destroy t" "ct_ctx t' = ct_ctx t" "ct_protos t' = ct_protos t" "ct_proto_dflt t' = ct_proto_dflt t"
    "ct_st t' = ct_st t" "ct_brk t' = ct_brk t" "ct_heap t' = ct_heap t" by simp_all
  show "hn (ct_mem t') = hn (ct_mem t)" "pay (ct_mem t') = pay (ct_mem t)" using assms by (simp_all add: relinked_def)
qed

lemma rechained_fields:
  assumes "rechained t t'"
  shows "ct_lru_head t' = ct_lru_head t" "ct_lru_tail t' = ct_lru_tail t" "ct_nbuckets t' = ct_nbuckets t" "ct_max_conns t' = ct_max_conns t"
    "ct_idle_timeout_ns t' = ct_idle_timeout_ns t" "ct_on_destroy t' = ct_on_destroy t" "ct_ctx t' = ct_ctx t" "ct_protos t' = ct_protos t"
    "ct_proto_dflt t' = ct_proto_dflt t" "ct_st t' = ct_st t" "ct_brk t' = ct_brk t" "ct_heap t' = ct_heap t"
    "lks (ct_mem t') = lks (ct_mem t)" "pay (ct_mem t') = pay (ct_mem t)"
proof -
  obtain m b where "t' = t\<lparr>ct_mem := m, ct_bucket := b\<rparr>" using assms by (auto simp: rechained_def)
  then show "ct_lru_head t' = ct_lru_head t" "ct_lru_tail t' = ct_lru_tail t" "ct_nbuckets t' = ct_nbuckets t" "ct_max_conns t' = ct_max_conns t"
    "ct_idle_timeout_ns t' = ct_idle_timeout_ns t" "ct_on_destroy t' = ct_on_destroy t" "ct_ctx t' = ct_ctx t" "ct_protos t' = ct_protos t"
    "ct_proto_dflt t' = ct_proto_dflt t" "ct_st t' = ct_st t" "ct_brk t' = ct_brk t" "ct_heap t' = ct_heap t" by simp_all
  show "lks (ct_mem t') = lks (ct_mem t)" "pay (ct_mem t') = pay (ct_mem t)" using assms by (simp_all add: rechained_def)
qed

lemma relinked_chains:
  assumes "relinked t t'"
  shows "chains_for M t' = chains_for M t" "chains_ok t' = chains_ok t" "members t' = members t"
proof -
  note f = relinked_fields [OF assms]
  show "chains_for M t' = chains_for M t" for M by (simp add: chains_for_def f)
  moreover show "members t' = members t" using members_pay f by metis
  ultimately show "chains_ok t' = chains_ok t" by (simp add: chains_ok_def)
qed

lemma chains_forI:
  assumes "chains_for M0 t0" and "length (ct_bucket t) = length (ct_bucket t0)" and "ct_nbuckets t = ct_nbuckets t0"
    and "\<And>b xs. b < ct_nbuckets t0 \<Longrightarrow> hpath (hn (ct_mem t0)) (ct_bucket t0 ! b) xs \<Longrightarrow> distinct xs \<Longrightarrow> set xs = M0 b
      \<Longrightarrow> \<exists>ys. hpath (hn (ct_mem t)) (ct_bucket t ! b) ys \<and> distinct ys \<and> set ys = M b"
  shows "chains_for M t"
  using assms unfolding chains_for_def by metis

lemma chains_unlink_one:
  assumes ok: "chains_for M t" and b: "b < ct_nbuckets t" and p: "hpath (hn (ct_mem t)) (ct_bucket t ! b) (xs @ a # ys)"
    and d: "distinct (xs @ a # ys)" "set (xs @ a # ys) = M b" and h: "hn (ct_mem t) a = Some q"
    and disj: "\<And>b'. b' \<noteq> b \<Longrightarrow> M b' \<inter> M b = {}"
  shows "\<exists>t'. slot_set (if xs = [] then BucketSlot b else NextSlot (last xs)) q t = Some t' \<and> rechained t t'
     \<and> chains_for (\<lambda>b'. M b' - {a}) t' \<and> hn (ct_mem t') a = Some q"
proof (cases xs rule: rev_cases)
  case Nil
  let ?t = "t\<lparr>ct_bucket := (ct_bucket t)[b := q]\<rparr>"
  have len: "b < length (ct_bucket t)" using ok b by (simp add: chains_for_def)
  have y: "hpath (hn (ct_mem t)) q ys" "distinct ys" "set ys = M b - {a}" using p Nil h d by auto
  have "chains_for (\<lambda>b'. M b' - {a}) ?t"
  proof (rule chains_forI [OF ok])
    fix b' zs
    assume z: "hpath (hn (ct_mem t)) (ct_bucket t ! b') zs" "distinct zs" "set zs = M b'"
    show "\<exists>us. hpath (hn (ct_mem ?t)) (ct_bucket ?t ! b') us \<and> distinct us \<and> set us = M b' - {a}"
    proof (cases "b' = b")
      case True
      then show ?thesis using y len by auto
    next
      case False
      then have "a \<notin> M b'" using disj d(2) by fastforce
      then show ?thesis using z False by (intro exI [of _ zs]) simp
    qed
  qed simp_all
  then show ?thesis using Nil h len by (simp add: slot_set_def rechained_def)
next
  case (snoc zs x)
  obtain c where c: "ct_mem t x = Some c" using hpath_mem [OF p, of x] snoc by (auto simp: hn_Some)
  let ?t = "t\<lparr>ct_mem := (ct_mem t)(x \<mapsto> c\<lparr>cn_hnext := q\<rparr>)\<rparr>"
  have hn: "hn (ct_mem ?t) = (hn (ct_mem t))(x \<mapsto> q)" and x: "x \<noteq> a" "x \<in> M b" using d snoc by (auto simp: proj_upd)
  have "hpath (hn (ct_mem ?t)) (ct_bucket t ! b) (xs @ ys)"
    using hpath_drop_tail [of "hn (ct_mem t)" "ct_bucket t ! b" zs x a ys q] p d(1) h snoc by (simp add: proj_upd)
  then have y: "hpath (hn (ct_mem ?t)) (ct_bucket t ! b) (xs @ ys)" "distinct (xs @ ys)" "set (xs @ ys) = M b - {a}" using d by auto
  have "chains_for (\<lambda>b'. M b' - {a}) ?t"
  proof (rule chains_forI [OF ok])
    fix b' zs
    assume z: "hpath (hn (ct_mem t)) (ct_bucket t ! b') zs" "distinct zs" "set zs = M b'"
    show "\<exists>us. hpath (hn (ct_mem ?t)) (ct_bucket ?t ! b') us \<and> distinct us \<and> set us = M b' - {a}"
    proof (cases "b' = b")
      case True
      then show ?thesis using y by (intro exI [of _ "xs @ ys"]) simp
    next
      case False
      then have "a \<notin> M b'" "x \<notin> M b'" using disj [of b'] d(2) x(2) by fastforce+
      then show ?thesis using z by (intro exI [of _ zs]) (simp add: proj_upd hpath_other)
    qed
  qed simp_all
  moreover have "rechained t ?t" using c by (auto simp: rechained_def proj_upd fun_eq_iff mem_proj)
  ultimately show ?thesis using snoc c x h by (simp add: slot_set_def poke_def proj_upd)
qed

lemma chain_unlink_ok:
  assumes ok: "chains_ok t" and c: "ct_mem t a = Some c"
  shows "\<exists>s t'. find_slot t a (BucketSlot (hash_bucket t (cn_cookie c))) = Some s \<and> slot_set s (cn_hnext c) t = Some t'
     \<and> rechained t t' \<and> chains_for (\<lambda>b. members t b - {a}) t'"
proof -
  let ?b = "hash_bucket t (cn_cookie c)"
  have ok': "chains_for (members t) t" using ok by (simp add: chains_ok_def)
  have b: "?b < ct_nbuckets t" "?b < length (ct_bucket t)" using hash_bucket_less [OF ok'] ok' by (auto simp: chains_for_def)
  then obtain zs where z: "hpath (hn (ct_mem t)) (ct_bucket t ! ?b) zs" "distinct zs" "set zs = members t ?b"
    using ok' by (auto simp: chains_for_def)
  have "a \<in> set zs" using z(3) c by (simp add: members_def)
  then obtain xs ys where zs: "zs = xs @ a # ys" by (auto dest: split_list)
  have disj: "members t b' \<inter> members t ?b = {}" if "b' \<noteq> ?b" for b' using that by (auto simp: members_def)
  obtain t' where "slot_set (if xs = [] then BucketSlot ?b else NextSlot (last xs)) (cn_hnext c) t = Some t'" "rechained t t'"
    "chains_for (\<lambda>b. members t b - {a}) t'"
    using chains_unlink_one [OF ok' b(1) z(1) [unfolded zs] z(2) [unfolded zs] z(3) [unfolded zs] _ disj, of "cn_hnext c"] c by (auto simp: hn_def)
  moreover have "find_slot t a (BucketSlot ?b) = Some (if xs = [] then BucketSlot ?b else NextSlot (last xs))"
    using find_slot_ok [OF _ z(1) [unfolded zs] z(2) [unfolded zs]] b(2) by (simp add: slot_get_def)
  ultimately show ?thesis by blast
qed

lemma chain_push_ok:
  assumes ok: "chains_ok t" and new: "ct_mem t a = None" and c: "cn_hnext c = ct_bucket t ! hash_bucket t (cn_cookie c)"
  shows "chains_ok (t\<lparr>ct_mem := (ct_mem t)(a \<mapsto> c), ct_bucket := (ct_bucket t)[hash_bucket t (cn_cookie c) := Some a]\<rparr>)" (is "chains_ok ?t")
proof -
  let ?b = "hash_bucket t (cn_cookie c)"
  have ok': "chains_for (members t) t" using ok by (simp add: chains_ok_def)
  have len: "?b < length (ct_bucket t)" using hash_bucket_less [OF ok'] ok' by (simp add: chains_for_def)
  have hb: "hash_bucket ?t = hash_bucket t" by (rule hash_bucket_cong) simp
  have mem: "members ?t b = (if b = ?b then insert a (members t b) else members t b)" for b
    using new by (auto simp: members_def hb)
  have a: "a \<notin> members t b" for b using new by (simp add: members_def)
  show ?thesis
    unfolding chains_ok_def
  proof (rule chains_forI [OF ok'])
    fix b zs
    assume z: "hpath (hn (ct_mem t)) (ct_bucket t ! b) zs" "distinct zs" "set zs = members t b"
    have za: "a \<notin> set zs" using a z(3) by simp
    show "\<exists>us. hpath (hn (ct_mem ?t)) (ct_bucket ?t ! b) us \<and> distinct us \<and> set us = members ?t b"
    proof (cases "b = ?b")
      case True
      then show ?thesis using z za c len by (intro exI [of _ "a # zs"]) (simp add: mem proj_upd hpath_other)
    next
      case False
      then show ?thesis using z za by (intro exI [of _ zs]) (simp add: mem proj_upd hpath_other)
    qed
  qed simp_all
qed

end
