(* ===== verification/Conn_Lru.thy ===== *)
theory Conn_Lru
  imports Conn_Links
begin

text \<open>
  What the connection table promises, without pointers: a list of entries, most recently touched
  first, with distinct cookies. Each operation of conn_table.c has its counterpart here.
\<close>

section \<open>The abstract table\<close>

record ('x, 'ps, 'fs) lru =
  lu_entries :: "(addr \<times> ('ps, 'fs) lk_conn) list"
  lu_max :: nat
  lu_timeout :: u64
  lu_hook :: "('x, 'ps, 'fs) destroy_hook option"
  lu_ctx :: 'x
  lu_protos :: "(u16 \<times> lk_proto_id) list"
  lu_dflt :: "lk_proto_id option"
  lu_st :: lk_conn_table_stats
  lu_brk :: addr
  lu_heap :: heap

definition upd_lst :: "(lk_conn_table_stats \<Rightarrow> lk_conn_table_stats) \<Rightarrow> ('x, 'ps, 'fs) lru \<Rightarrow> ('x, 'ps, 'fs) lru" where
  "upd_lst g u = u\<lparr>lu_st := g (lu_st u)\<rparr>"

definition lru_find :: "u64 \<Rightarrow> ('x, 'ps, 'fs) lru \<Rightarrow> addr option" where
  "lru_find k u = map_option fst (List.find (\<lambda>(a, c). cn_cookie c = k) (lu_entries u))"

definition entry_at :: "addr \<Rightarrow> ('x, 'ps, 'fs) lru \<Rightarrow> ('ps, 'fs) lk_conn" where
  "entry_at a u = the (map_of (lu_entries u) a)"

definition without :: "addr \<Rightarrow> (addr \<times> 'e) list \<Rightarrow> (addr \<times> 'e) list" where
  "without a xs = filter (\<lambda>(b, e). b \<noteq> a) xs"

definition hooked :: "addr \<Rightarrow> ('x, 'ps, 'fs) lru \<Rightarrow> 'x \<times> ('ps, 'fs) lk_conn" where
  "hooked a u = (case lu_hook u of None \<Rightarrow> (lu_ctx u, entry_at a u) | Some f \<Rightarrow> f (lu_ctx u) (entry_at a u))"

definition free_parts :: "('ps, 'fs) lk_conn \<Rightarrow> heap \<Rightarrow> heap" where
  "free_parts c hp = free_opt (cn_frame_state c) (free_opt (fr_buf (cn_frame c LK_DIR_RECV)) (free_opt (fr_buf (cn_frame c LK_DIR_SEND)) hp))"

definition gone_stats :: "('ps, 'fs) lk_conn \<Rightarrow> lk_conn_table_stats \<Rightarrow> lk_conn_table_stats" where
  "gone_stats c s =
     (let s = (if has_flag (cn_flags c) LK_CONN_TLS then s\<lparr>cs_tls_active := cs_tls_active s - 1\<rparr> else s)
      in s\<lparr>cs_active := cs_active s - 1\<rparr>)"

definition lru_destroy :: "addr \<Rightarrow> ('x, 'ps, 'fs) lru \<Rightarrow> ('x, 'ps, 'fs) lru" where
  "lru_destroy a u =
     (let (x, c) = hooked a u
      in u\<lparr>lu_entries := without a (lu_entries u), lu_ctx := x, lu_st := gone_stats c (lu_st u),
           lu_heap := hp_free (free_parts c (lu_heap u))\<rparr>)"

definition lru_touch :: "(('ps, 'fs) lk_conn \<Rightarrow> u32 \<times> ('ps, 'fs) lk_conn) \<Rightarrow> addr \<Rightarrow> ('x, 'ps, 'fs) lru \<Rightarrow> u32 \<times> ('x, 'ps, 'fs) lru" where
  "lru_touch step a u =
     (let (lost, c) = step (entry_at a u)
      in (lost, u\<lparr>lu_entries := (a, c) # without a (lu_entries u), lu_st := count_lost lost (lu_st u)\<rparr>))"

definition lru_evict :: "('x, 'ps, 'fs) lru \<Rightarrow> ('x, 'ps, 'fs) lru" where
  "lru_evict u =
     (if lu_entries u \<noteq> [] \<and> lu_max u \<le> length (lu_entries u)
      then upd_lst (\<lambda>s. s\<lparr>cs_evicted_lru := cs_evicted_lru s + 1\<rparr>) (lru_destroy (fst (last (lu_entries u))) u)
      else u)"

definition fresh_entry :: "u64 \<Rightarrow> u32 \<Rightarrow> u64 \<Rightarrow> ('ps, 'fs) lk_conn" where
  "fresh_entry cookie seq ts = lk_conn_zero\<lparr>cn_cookie := cookie, cn_last_seq := seq, cn_last_activity_ns := ts\<rparr>"

definition lru_create :: "(('ps, 'fs) lk_conn \<Rightarrow> ('ps, 'fs) lk_conn) \<Rightarrow> u64 \<Rightarrow> u32 \<Rightarrow> u64 \<Rightarrow> ('x, 'ps, 'fs) lru
    \<Rightarrow> addr option \<times> ('x, 'ps, 'fs) lru" where
  "lru_create g cookie seq ts u =
     (let u = lru_evict u;
          (ok, hp) = hp_alloc (lu_heap u);
          u = u\<lparr>lu_heap := hp\<rparr>
      in if \<not> ok then (None, u)
         else (Some (lu_brk u),
               u\<lparr>lu_entries := (lu_brk u, g (fresh_entry cookie seq ts)) # lu_entries u, lu_brk := lu_brk u + 1,
                 lu_st := (lu_st u)\<lparr>cs_created := cs_created (lu_st u) + 1, cs_active := cs_active (lu_st u) + 1\<rparr>\<rparr>))"

section \<open>Operations\<close>

definition lru_resolve :: "('x, 'ps, 'fs) lru \<Rightarrow> lk_tuple \<Rightarrow> lk_proto_id option" where
  "lru_resolve u tu = (case map_of (lu_protos u) (tp_sport tu) of Some ops \<Rightarrow> Some ops | None \<Rightarrow> lu_dflt u)"

text \<open>Touch the entry of a cookie, or make one.\<close>

definition lru_touch_or_create :: "(('ps, 'fs) lk_conn \<Rightarrow> u32 \<times> ('ps, 'fs) lk_conn) \<Rightarrow> (('ps, 'fs) lk_conn \<Rightarrow> ('ps, 'fs) lk_conn)
    \<Rightarrow> u64 \<Rightarrow> u32 \<Rightarrow> u64 \<Rightarrow> ('x, 'ps, 'fs) lru \<Rightarrow> (addr option \<times> u32) \<times> ('x, 'ps, 'fs) lru" where
  "lru_touch_or_create step g cookie seq ts u =
     (case lru_find cookie u of
        Some a \<Rightarrow> (let (lost, u) = lru_touch step a u in ((Some a, lost), u))
      | None \<Rightarrow> (let (p, u) = lru_create g cookie seq ts u in ((p, 0), u)))"

definition open_entry :: "lk_proto_id option \<Rightarrow> lk_tuple \<Rightarrow> bool \<Rightarrow> ('ps, 'fs) lk_conn \<Rightarrow> ('ps, 'fs) lk_conn" where
  "open_entry ops tuple synthetic c =
     (let c = c\<lparr>cn_tuple := Some tuple, cn_ops := ops\<rparr>
      in if synthetic then mark_dirty (c\<lparr>cn_flags := cn_flags c OR LK_CONN_SYNTHETIC\<rparr>) else c)"

definition lru_close :: "u64 \<Rightarrow> u32 \<Rightarrow> u64 \<Rightarrow> ('x, 'ps, 'fs) lru \<Rightarrow> (addr option \<times> u32) \<times> ('x, 'ps, 'fs) lru" where
  "lru_close cookie seq ts u =
     (case lru_find cookie u of
        None \<Rightarrow> ((None, 0), u)
      | Some a \<Rightarrow>
          (let (lost, u) = lru_touch (seq_step seq ts) a u
           in ((None, lost), upd_lst (\<lambda>s. s\<lparr>cs_closed := cs_closed s + 1\<rparr>) (lru_destroy a u))))"

definition idle :: "u64 \<Rightarrow> ('x, 'ps, 'fs) lru \<Rightarrow> addr \<times> ('ps, 'fs) lk_conn \<Rightarrow> bool" where
  "idle now u e \<longleftrightarrow> cn_last_activity_ns (snd e) + lu_timeout u \<le> now"

lemma length_without: "a \<in> fst ` set xs \<Longrightarrow> length (without a xs) < length xs"
  by (auto simp: without_def intro: length_filter_less)

lemma lru_destroy_entries: "lu_entries (lru_destroy a u) = without a (lu_entries u)"
  by (simp add: lru_destroy_def split: prod.split)

function lru_sweep :: "u64 \<Rightarrow> nat \<Rightarrow> ('x, 'ps, 'fs) lru \<Rightarrow> nat \<times> ('x, 'ps, 'fs) lru" where
  "lru_sweep now evicted u =
     (if lu_entries u \<noteq> [] \<and> idle now u (last (lu_entries u))
      then lru_sweep now (evicted + 1)
             (upd_lst (\<lambda>s. s\<lparr>cs_evicted_idle := cs_evicted_idle s + 1\<rparr>) (lru_destroy (fst (last (lu_entries u))) u))
      else (evicted, u))"
  by pat_completeness auto
termination
  by (relation "measure (\<lambda>(now, evicted, u). length (lu_entries u))")
    (auto simp: upd_lst_def lru_destroy_entries intro!: length_without image_eqI)

declare lru_sweep.simps [simp del]

section \<open>Histories\<close>

datatype table_op =
    TOpen u64 u32 u64 lk_tuple bool
  | TData u64 u32 u64
  | TDecrypted u64 u32 u64
  | TDropped u64 u32 u64
  | TClose u64 u32 u64
  | TSweep u64

fun lru_op :: "table_op \<Rightarrow> ('x, 'ps, 'fs) lru \<Rightarrow> (addr option \<times> u32) \<times> ('x, 'ps, 'fs) lru" where
  "lru_op (TOpen k seq ts tuple syn) u =
     lru_touch_or_create (seq_step seq ts) (open_entry (lru_resolve u tuple) tuple syn) k seq ts u"
| "lru_op (TData k seq ts) u =
     lru_touch_or_create (seq_step seq ts) (\<lambda>c. mark_dirty (c\<lparr>cn_ops := lu_dflt u\<rparr>)) k seq ts u"
| "lru_op (TDecrypted k seq ts) u =
     lru_touch_or_create (tls_seq_step seq ts)
       (\<lambda>c. mark_dirty (c\<lparr>cn_ops := lu_dflt u, cn_tls_seq_seen := True, cn_tls_last_seq := seq\<rparr>)) k seq ts u"
| "lru_op (TDropped k seq ts) u =
     (case lru_find k u of
        None \<Rightarrow> ((None, 0), u)
      | Some a \<Rightarrow> ((Some a, 0), snd (lru_touch (drop_step seq ts) a
          (upd_lst (\<lambda>s. s\<lparr>cs_tls_socket_dropped := cs_tls_socket_dropped s + 1\<rparr>) u))))"
| "lru_op (TClose k seq ts) u = lru_close k seq ts u"
| "lru_op (TSweep now) u = (let (n, u) = lru_sweep now 0 u in ((None, of_nat n), u))"

text \<open>The same history on the table itself.\<close>

fun run_table_op :: "table_op \<Rightarrow> ('x, 'ps, 'fs) lk_conn_table \<Rightarrow> ((addr option \<times> u32) \<times> ('x, 'ps, 'fs) lk_conn_table) option" where
  "run_table_op (TOpen k seq ts tuple syn) t = map_option (\<lambda>(p, lost, t). ((p, lost), t)) (lk_conn_table_open k seq ts tuple syn t)"
| "run_table_op (TData k seq ts) t = map_option (\<lambda>(p, lost, t). ((p, lost), t)) (lk_conn_table_data k seq ts t)"
| "run_table_op (TDecrypted k seq ts) t = map_option (\<lambda>(p, lost, t). ((p, lost), t)) (lk_conn_table_data_decrypted k seq ts t)"
| "run_table_op (TDropped k seq ts) t = do {
     p \<leftarrow> lk_conn_table_peek k t;
     case p of
       None \<Rightarrow> Some ((None, 0), t)
     | Some a \<Rightarrow> map_option (\<lambda>t. ((Some a, 0), t)) (lk_conn_table_note_tls_drop a seq ts t)
   }"
| "run_table_op (TClose k seq ts) t = map_option (\<lambda>(lost, t). ((None, lost), t)) (lk_conn_table_close k seq ts t)"
| "run_table_op (TSweep now) t = map_option (\<lambda>(n, t). ((None, of_nat n), t)) (lk_conn_table_sweep now t)"

end
