(* ===== verification/Simulation.thy ===== *)
theory Simulation
  imports Main
begin

text \<open>
  Functional refinement over histories: a concrete component whose steps may fail (None) simulates an
  abstract one if every step from related states succeeds, gives the same result and leads to related
  states. Then so does every history.
\<close>

locale simulation =
  fixes R :: "'c \<Rightarrow> 'a \<Rightarrow> bool"
    and cstep :: "'op \<Rightarrow> 'c \<Rightarrow> ('r \<times> 'c) option"
    and astep :: "'op \<Rightarrow> 'a \<Rightarrow> 'r \<times> 'a"
  assumes step_sim: "R c a \<Longrightarrow> \<exists>c'. cstep x c = Some (fst (astep x a), c') \<and> R c' (snd (astep x a))"
begin

primrec crun :: "'op list \<Rightarrow> 'c \<Rightarrow> ('r list \<times> 'c) option" where
  "crun [] c = Some ([], c)"
| "crun (x # xs) c = (case cstep x c of None \<Rightarrow> None
     | Some (r, c) \<Rightarrow> (case crun xs c of None \<Rightarrow> None | Some (rs, c) \<Rightarrow> Some (r # rs, c)))"

primrec arun :: "'op list \<Rightarrow> 'a \<Rightarrow> 'r list \<times> 'a" where
  "arun [] a = ([], a)"
| "arun (x # xs) a = (let (r, a) = astep x a; (rs, a) = arun xs a in (r # rs, a))"

lemma run_sim: "R c a \<Longrightarrow> \<exists>c'. crun xs c = Some (fst (arun xs a), c') \<and> R c' (snd (arun xs a))"
proof (induction xs arbitrary: c a)
  case (Cons x xs)
  obtain r a1 where a1: "astep x a = (r, a1)" by fastforce
  obtain c1 where c1: "cstep x c = Some (r, c1)" "R c1 a1" using step_sim [OF Cons.prems, of x] a1 by auto
  obtain rs a2 where a2: "arun xs a1 = (rs, a2)" by fastforce
  then show ?case using Cons.IH [OF c1(2)] a1 c1(1) by auto
qed simp

end

end
