(* ===== verification/Conn_Refine.thy ===== *)
theory Conn_Refine
  imports Conn_Chains Conn_Lru Simulation
begin

text \<open>
  The pointer table implements the abstract one: the representation relation, and that every operation
  of conn_table.c returns, touches only allocated entries and does what its counterpart does.
\<close>

section \<open>Edits of an entry\<close>

definition relink :: "addr option \<Rightarrow> addr option \<Rightarrow> addr option \<Rightarrow> ('ps, 'fs) lk_conn \<Rightarrow> ('ps, 'fs) lk_conn" where
  "relink h p n c = c\<lparr>cn_hnext := h, cn_lru_prev := p, cn_lru_next := n\<rparr>"

lemma relink_simps [simp]:
  "cn_cookie (relink h p n c) = cn_cookie c" "cn_hnext (relink h p n c) = h" "cn_lru_prev (relink h p n c) = p" "cn_lru_next (relink h p n c) = n"
  "strip (relink h p n c) = strip c" "relink h p n (relink h' p' n' c) = relink h p n c" "relink None None None c = strip c"
  "relink h p n (strip c) = relink h p n c"
  by (simp_all add: relink_def strip_def)

lemma relink_id: "relink (cn_hnext c) (cn_lru_prev c) (cn_lru_next c) c = c"
  by (simp add: relink_def)

text \<open>A function on entries that does not look at or change the links and keeps the cookie, with a
  result beside the entry.\<close>

definition plain_edit :: "(('ps, 'fs) lk_conn \<Rightarrow> 'r \<times> ('ps, 'fs) lk_conn) \<Rightarrow> bool" where
  "plain_edit f \<longleftrightarrow> (\<forall>c h p n. f (relink h p n c) = (fst (f c), relink h p n (snd (f c)))) \<and> (\<forall>c. cn_cookie (snd (f c)) = cn_cookie c)"

lemma plain_editD:
  assumes "plain_edit f"
  shows "fst (f (strip c)) = fst (f c)" "snd (f (strip c)) = strip (snd (f c))" "cn_cookie (snd (f c)) = cn_cookie c"
    "cn_hnext (snd (f c)) = cn_hnext c" "cn_lru_prev (snd (f c)) = cn_lru_prev c" "cn_lru_next (snd (f c)) = cn_lru_next c"
proof -
  have r: "f (relink h p n c) = (fst (f c), relink h p n (snd (f c)))" for h p n c
    using assms by (simp add: plain_edit_def)
  show "cn_cookie (snd (f c)) = cn_cookie c" using assms by (simp add: plain_edit_def)
  show "fst (f (strip c)) = fst (f c)" "snd (f (strip c)) = strip (snd (f c))" using r [of None None None c] by simp_all
  have "snd (f c) = relink (cn_hnext c) (cn_lru_prev c) (cn_lru_next c) (snd (f c))"
    using r [of "cn_hnext c" "cn_lru_prev c" "cn_lru_next c" c] by (simp add: relink_id prod_eq_iff)
  then show "cn_hnext (snd (f c)) = cn_hnext c" "cn_lru_prev (snd (f c)) = cn_lru_prev c" "cn_lru_next (snd (f c)) = cn_lru_next c"
    by (metis relink_simps(2-4))+
qed

lemma mark_dirty_relink: "mark_dirty (relink h p n c) = relink h p n (mark_dirty c)" "cn_cookie (mark_dirty c) = cn_cookie c"
  by (simp_all add: mark_dirty_def relink_def)

lemma plain_steps [simp]: "plain_edit (seq_step seq ts)" "plain_edit (tls_seq_step seq ts)" "plain_edit (drop_step seq ts)"
  by (simp_all add: plain_edit_def seq_step_def tls_seq_step_def drop_step_def relink_def mark_dirty_def Let_def)

lemma edit_store:
  assumes "plain_edit f" and "ct_mem t a = Some c"
  defines "t' \<equiv> t\<lparr>ct_mem := (ct_mem t)(a \<mapsto> snd (f c))\<rparr>"
  shows "hn (ct_mem t') = hn (ct_mem t)" "lks (ct_mem t') = lks (ct_mem t)" "pay (ct_mem t') = (pay (ct_mem t))(a \<mapsto> snd (f (strip c)))"
    "members t' = members t"
proof -
  note d = plain_editD [OF assms(1), of c]
  show "hn (ct_mem t') = hn (ct_mem t)" "lks (ct_mem t') = lks (ct_mem t)" "pay (ct_mem t') = (pay (ct_mem t))(a \<mapsto> snd (f (strip c)))"
    using d assms(2) by (auto simp: t'_def proj_upd fun_eq_iff mem_proj)
  have "hash_bucket t' = hash_bucket t" by (rule hash_bucket_cong) (simp add: t'_def)
  then show "members t' = members t" using d assms(2) by (auto simp: members_def t'_def fun_eq_iff split: if_splits)
qed

section \<open>Representation\<close>

text \<open>What the table asks of its removal hook and of the context the hook starts from: every call, in
  whatever state earlier calls left the context, leaves the entry's links and cookie alone.\<close>

definition hook_plain :: "('x, 'ps, 'fs) destroy_hook option \<Rightarrow> 'x \<Rightarrow> bool" where
  "hook_plain hk x \<longleftrightarrow> (\<forall>f. hk = Some f \<longrightarrow> (\<exists>X. X x \<and> (\<forall>y c. X y \<longrightarrow> plain_edit (f y) \<and> X (fst (f y c)))))"

lemma hook_plainD:
  assumes "hook_plain (Some f) x"
  shows "plain_edit (f x)" "hook_plain (Some f) (fst (f x c))"
  using assms by (auto simp: hook_plain_def)

definition same_config :: "('x, 'ps, 'fs) lk_conn_table \<Rightarrow> ('x, 'ps, 'fs) lru \<Rightarrow> bool" where
  "same_config t u \<longleftrightarrow> lu_max u = ct_max_conns t \<and> lu_timeout u = ct_idle_timeout_ns t \<and> lu_hook u = ct_on_destroy t
     \<and> lu_protos u = ct_protos t \<and> lu_dflt u = ct_proto_dflt t \<and> hook_plain (ct_on_destroy t) (ct_ctx t) \<and> 0 < ct_max_conns t"

definition same_vars :: "('x, 'ps, 'fs) lk_conn_table \<Rightarrow> ('x, 'ps, 'fs) lru \<Rightarrow> bool" where
  "same_vars t u \<longleftrightarrow> lu_ctx u = ct_ctx t \<and> lu_st u = ct_st t \<and> lu_brk u = ct_brk t \<and> lu_heap u = ct_heap t"

definition entries_ok :: "(addr \<times> ('ps, 'fs) lk_conn) list \<Rightarrow> addr \<Rightarrow> bool" where
  "entries_ok E brk \<longleftrightarrow> distinct (map fst E) \<and> distinct (map (cn_cookie \<circ> snd) E) \<and> (\<forall>a \<in> fst ` set E. a < brk)"

definition conn_rep :: "('x, 'ps, 'fs) lk_conn_table \<Rightarrow> ('x, 'ps, 'fs) lru \<Rightarrow> bool" where
  "conn_rep t u \<longleftrightarrow> lru_ok t (map fst (lu_entries u)) \<and> chains_ok t \<and> pay (ct_mem t) = map_of (lu_entries u)
     \<and> entries_ok (lu_entries u) (ct_brk t) \<and> cs_active (ct_st t) = length (lu_entries u)
     \<and> length (lu_entries u) \<le> lu_max u \<and> same_config t u \<and> same_vars t u"

lemma repD:
  assumes "conn_rep t u"
  shows "lru_ok t (map fst (lu_entries u))" "chains_ok t" "pay (ct_mem t) = map_of (lu_entries u)"
    "entries_ok (lu_entries u) (ct_brk t)" "cs_active (ct_st t) = length (lu_entries u)"
    "length (lu_entries u) \<le> lu_max u" "same_config t u" "same_vars t u"
  using assms by (simp_all add: conn_rep_def)

lemma without_id: "a \<notin> fst ` set xs \<Longrightarrow> without a xs = xs"
  by (induction xs) (auto simp: without_def)

lemma without_append: "without a (xs @ ys) = without a xs @ without a ys"
  by (simp add: without_def)

lemma without_Cons: "without a ((a, e) # xs) = without a xs"
  by (simp add: without_def)

lemma map_of_middle: "a \<notin> fst ` set xs \<Longrightarrow> map_of (xs @ (a, e) # ys) = (map_of (xs @ ys))(a \<mapsto> e)"
  by (induction xs) (auto simp: fun_upd_twist)

lemma map_of_absent: "a \<notin> fst ` set xs \<Longrightarrow> (map_of xs)(a := None) = map_of xs"
  by (simp add: fun_upd_idem map_of_eq_None_iff)

lemma lru_find_Some: "lru_find k u = Some a \<Longrightarrow> \<exists>e. (a, e) \<in> set (lu_entries u) \<and> cn_cookie e = k"
  by (auto simp: lru_find_def find_Some_iff) (metis nth_mem)

lemma rep_entry:
  assumes "conn_rep t u" and "a \<in> fst ` set (lu_entries u)"
  obtains c xs ys where "ct_mem t a = Some c" "entry_at a u = strip c" "lu_entries u = xs @ (a, strip c) # ys"
    "without a (lu_entries u) = xs @ ys" "a \<notin> fst ` set (xs @ ys)"
proof -
  have d: "distinct (map fst (lu_entries u))" and p: "pay (ct_mem t) = map_of (lu_entries u)"
    using repD [OF assms(1)] by (simp_all add: entries_ok_def)
  obtain e where e: "(a, e) \<in> set (lu_entries u)" using assms(2) by auto
  then have m: "map_of (lu_entries u) a = Some e" using d by simp
  then have "pay (ct_mem t) a = Some e" using p by simp
  then obtain c where c: "ct_mem t a = Some c" "e = strip c" by (rule pay_SomeE)
  obtain xs ys where E: "lu_entries u = xs @ (a, e) # ys" using e by (auto dest: split_list)
  have n: "a \<notin> fst ` set (xs @ ys)" using d E by auto
  then have "without a (lu_entries u) = xs @ ys" using E by (simp add: without_append without_Cons without_id image_Un)
  then show thesis using that c E n m by (simp add: entry_at_def)
qed

lemma rep_lookup:
  assumes "conn_rep t u"
  shows "lookup k t = Some (lru_find k u)" "lru_find k u = Some a \<Longrightarrow> a \<in> fst ` set (lu_entries u)"
proof -
  note r = repD [OF assms]
  show i: "a \<in> fst ` set (lu_entries u)" if "lru_find k u = Some a" for a
    using lru_find_Some [OF that] by force
  obtain p where p: "lookup k t = Some p" "case p of None \<Rightarrow> (\<forall>a c. ct_mem t a = Some c \<longrightarrow> cn_cookie c \<noteq> k)
      | Some a \<Rightarrow> (\<exists>c. ct_mem t a = Some c \<and> cn_cookie c = k)" using lookup_ok [OF r(2)] by blast
  have "p = lru_find k u"
  proof (cases p)
    case None
    have "cn_cookie (snd e) \<noteq> k" if "e \<in> set (lu_entries u)" for e
    proof -
      have "pay (ct_mem t) (fst e) = Some (snd e)" using that r(3,4) by (simp add: entries_ok_def)
      then obtain c where "ct_mem t (fst e) = Some c" "snd e = strip c" by (rule pay_SomeE)
      then show ?thesis using p(2) None by auto
    qed
    then show ?thesis using None by (fastforce simp: lru_find_def find_None_iff)
  next
    case (Some a)
    then obtain c where c: "ct_mem t a = Some c" "cn_cookie c = k" using p(2) by auto
    then have a: "(a, strip c) \<in> set (lu_entries u)" using r(3) mem_proj(3) [of "ct_mem t" a c] by (simp add: map_of_SomeD)
    then have "lru_find k u \<noteq> None" using c(2) by (auto simp: lru_find_def find_None_iff intro!: exI [of _ a] exI [of _ "strip c"])
    then obtain b where b: "lru_find k u = Some b" by blast
    obtain e where e: "(b, e) \<in> set (lu_entries u)" "cn_cookie e = k"
      using lru_find_Some [OF b] by blast
    have "(b, e) = (a, strip c)"
      using inj_onD [of "cn_cookie \<circ> snd" "set (lu_entries u)" "(b, e)" "(a, strip c)"] r(4) a e c(2)
      by (simp add: entries_ok_def distinct_map)
    then show ?thesis using Some b by simp
  qed
  then show "lookup k t = Some (lru_find k u)" using p(1) by simp
qed

section \<open>Touch\<close>

lemma count_lost_active [simp]: "cs_active (count_lost l s) = cs_active s"
  by (simp add: count_lost_def)

lemma rep_touch:
  assumes rep: "conn_rep t u" and a: "a \<in> fst ` set (lu_entries u)" and f: "plain_edit f"
  shows "\<exists>t'. touch_with f a t = Some (fst (lru_touch f a u), t') \<and> conn_rep t' (snd (lru_touch f a u))"
proof -
  note r = repD [OF rep]
  obtain c xs ys where c: "ct_mem t a = Some c" "entry_at a u = strip c" "lu_entries u = xs @ (a, strip c) # ys"
    "without a (lu_entries u) = xs @ ys" "a \<notin> fst ` set (xs @ ys)" by (rule rep_entry [OF rep a])
  let ?l = "fst (f c)" and ?e = "snd (f (strip c))"
  let ?t = "upd_cst (count_lost ?l) (t\<lparr>ct_mem := (ct_mem t)(a \<mapsto> snd (f c))\<rparr>)"
  have es: "hn (ct_mem ?t) = hn (ct_mem t)" "lks (ct_mem ?t) = lks (ct_mem t)" "pay (ct_mem ?t) = (pay (ct_mem t))(a \<mapsto> ?e)"
    using edit_store(1-3) [OF f c(1)] by (simp_all add: upd_cst_def)
  have "members ?t = members (t\<lparr>ct_mem := (ct_mem t)(a \<mapsto> snd (f c))\<rparr>)" by (rule members_pay) (simp_all add: upd_cst_def)
  then have "members ?t = members t" using edit_store(4) [OF f c(1)] by simp
  then have ch: "chains_ok ?t" using r(2) es(1) by (simp add: chains_ok_def chains_for_def upd_cst_def)
  have "lru_ok ?t (map fst xs @ a # map fst ys)" using r(1) c(3) es(2) by (simp add: lru_ok_def upd_cst_def)
  then obtain t1 where t1: "lru_unlink a ?t = Some t1" "relinked ?t t1" "lru_ok t1 (map fst xs @ map fst ys)" "lks (ct_mem t1) a = Some (None, None)"
    using lru_unlink_ok by blast
  obtain t2 where t2: "lru_push_front a t1 = Some t2" "relinked t1 t2" "lru_ok t2 (a # map fst xs @ map fst ys)"
    using lru_push_ok [OF t1(3)] t1(4) c(5) by auto
  have rl: "relinked ?t t2" using relinked_trans [OF t1(2) t2(2)] .
  note rf = relinked_fields [OF rl]
  have "touch_with f a t = Some (?l, t2)"
    using c(1) t1(1) t2(1) by (simp add: touch_with_def split_beta)
  moreover have lt: "lru_touch f a u = (?l, u\<lparr>lu_entries := (a, ?e) # xs @ ys, lu_st := count_lost ?l (lu_st u)\<rparr>)"
    using plain_editD(1) [OF f, of c] c(2,4) by (simp add: lru_touch_def split_beta)
  moreover have "conn_rep t2 (snd (lru_touch f a u))"
  proof -
    have "cn_cookie ?e = cn_cookie c" using plain_editD [OF f, of c] by simp
    then have "entries_ok ((a, ?e) # xs @ ys) (ct_brk t)" using r(4) c(3,5) by (auto simp: entries_ok_def)
    moreover have "(map_of (lu_entries u))(a \<mapsto> ?e) = map_of ((a, ?e) # xs @ ys)"
      using c(3,5) by (auto simp: fun_eq_iff map_add_def split: option.splits)
    ultimately show ?thesis
      unfolding lt using r(3,5-8) t2(3) ch relinked_chains(2) [OF rl] rf es(3) c(3)
      by (simp add: conn_rep_def same_config_def same_vars_def upd_cst_def)
  qed
  ultimately show ?thesis by simp
qed

section \<open>Removal\<close>

lemma free_entry_eq:
  "free_entry a c t = t\<lparr>ct_st := gone_stats c (ct_st t), ct_heap := hp_free (free_parts c (ct_heap t)), ct_mem := (ct_mem t)(a := None)\<rparr>"
  by (simp add: free_entry_def upd_cst_def gone_stats_def free_parts_def Let_def)

lemma gone_stats_strip [simp]: "gone_stats (strip c) = gone_stats c" "free_parts (strip c) = free_parts c"
  by (simp_all add: gone_stats_def free_parts_def fun_eq_iff)

lemma gone_stats_active [simp]: "cs_active (gone_stats c s) = cs_active s - 1"
  by (simp add: gone_stats_def Let_def)

lemma run_hook_ok:
  assumes rep: "conn_rep t u" and a: "a \<in> fst ` set (lu_entries u)" and c: "ct_mem t a = Some c"
  obtains x c1 where "run_hook a t = Some (t\<lparr>ct_ctx := x, ct_mem := (ct_mem t)(a \<mapsto> c1)\<rparr>)" "hooked a u = (x, strip c1)"
    "cn_cookie c1 = cn_cookie c" "cn_hnext c1 = cn_hnext c" "cn_lru_prev c1 = cn_lru_prev c" "cn_lru_next c1 = cn_lru_next c"
    "hook_plain (ct_on_destroy t) x"
proof -
  obtain c' where "ct_mem t a = Some c'" "entry_at a u = strip c'" by (rule rep_entry [OF rep a])
  then have e: "entry_at a u = strip c" using c by simp
  have cf: "lu_hook u = ct_on_destroy t" "lu_ctx u = ct_ctx t" "hook_plain (ct_on_destroy t) (ct_ctx t)"
    using repD(7,8) [OF rep] by (simp_all add: same_config_def same_vars_def)
  show thesis
  proof (cases "ct_on_destroy t")
    case None
    have "t\<lparr>ct_ctx := ct_ctx t, ct_mem := (ct_mem t)(a \<mapsto> c)\<rparr> = t" using c by (simp add: fun_upd_idem)
    then show thesis using None cf e by (intro that [where x = "ct_ctx t" and ?c1.0 = c]) (simp_all add: run_hook_def hooked_def)
  next
    case (Some f)
    note h = hook_plainD [OF cf(3) [unfolded Some]]
    note f = h(1)
    note d = plain_editD [OF f, of c]
    have "f (ct_ctx t) (strip c) = (fst (f (ct_ctx t) c), strip (snd (f (ct_ctx t) c)))" using d by (simp add: prod_eq_iff)
    then show thesis using Some c cf e d h(2) [of c]
      by (intro that [where x = "fst (f (ct_ctx t) c)" and ?c1.0 = "snd (f (ct_ctx t) c)"]) (simp_all add: run_hook_def hooked_def split_beta Let_def)
  qed
qed

lemma rep_destroy:
  assumes rep: "conn_rep t u" and a: "a \<in> fst ` set (lu_entries u)"
  shows "\<exists>t'. destroy a t = Some t' \<and> conn_rep t' (lru_destroy a u)"
proof -
  note r = repD [OF rep]
  obtain c xs ys where c: "ct_mem t a = Some c" "lu_entries u = xs @ (a, strip c) # ys"
    "without a (lu_entries u) = xs @ ys" "a \<notin> fst ` set (xs @ ys)" by (rule rep_entry [OF rep a])
  obtain x c1 where h: "run_hook a t = Some (t\<lparr>ct_ctx := x, ct_mem := (ct_mem t)(a \<mapsto> c1)\<rparr>)" "hooked a u = (x, strip c1)"
    "cn_cookie c1 = cn_cookie c" "cn_hnext c1 = cn_hnext c" "cn_lru_prev c1 = cn_lru_prev c" "cn_lru_next c1 = cn_lru_next c"
    "hook_plain (ct_on_destroy t) x"
    by (rule run_hook_ok [OF rep a c(1)])
  let ?t = "t\<lparr>ct_ctx := x, ct_mem := (ct_mem t)(a \<mapsto> c1)\<rparr>"
  have p: "hn (ct_mem ?t) = hn (ct_mem t)" "lks (ct_mem ?t) = lks (ct_mem t)" "pay (ct_mem ?t) = (pay (ct_mem t))(a \<mapsto> strip c1)"
    using h(4-6) c(1) by (auto simp: proj_upd fun_eq_iff mem_proj)
  have hb: "hash_bucket ?t = hash_bucket t" by (rule hash_bucket_cong) simp
  have mem: "members ?t = members t" using h(3) c(1) by (auto simp: members_def hb fun_eq_iff split: if_splits)
  then have ch: "chains_ok ?t" using r(2) p(1) by (simp add: chains_ok_def chains_for_def)
  have m: "ct_mem ?t a = Some c1" by simp
  obtain s t1 where t1: "find_slot ?t a (BucketSlot (hash_bucket ?t (cn_cookie c1))) = Some s" "slot_set s (cn_hnext c1) ?t = Some t1"
    "rechained ?t t1" "chains_for (\<lambda>b. members ?t b - {a}) t1"
    using chain_unlink_ok [OF ch m] by blast
  note f1 = rechained_fields [OF t1(3)]
  have "lru_ok t1 (map fst xs @ a # map fst ys)" using r(1) c(2) p(2) f1 by (simp add: lru_ok_def)
  then obtain t2 where t2: "lru_unlink a t1 = Some t2" "relinked t1 t2" "lru_ok t2 (map fst xs @ map fst ys)"
    using lru_unlink_ok by blast
  note f2 = relinked_fields [OF t2(2)]
  have pay2: "pay (ct_mem t2) = (pay (ct_mem t))(a \<mapsto> strip c1)" using f2(13) f1(14) p(3) by simp
  then have "pay (ct_mem t2) a = Some (strip c1)" by simp
  then obtain c2 where c2: "ct_mem t2 a = Some c2" "strip c1 = strip c2" by (rule pay_SomeE)
  let ?t3 = "free_entry a c2 t2"
  have "destroy a t = Some ?t3" using h(1) t1(1,2) t2(1) c2(1) by (simp add: destroy_def)
  moreover have d: "lru_destroy a u = u\<lparr>lu_entries := xs @ ys, lu_ctx := x, lu_st := gone_stats c2 (lu_st u), lu_heap := hp_free (free_parts c2 (lu_heap u))\<rparr>"
    using h(2) c(3) c2(2) by (simp add: lru_destroy_def)
  moreover have "conn_rep ?t3 (lru_destroy a u)"
  proof -
    have pay3: "pay (ct_mem ?t3) = map_of (xs @ ys)"
      using pay2 r(3) c(2) c(4) map_of_middle [of a xs "strip c" ys] map_of_absent [OF c(4)]
      by (simp add: free_entry_eq proj_upd image_Un)
    have mm: "members ?t3 = (\<lambda>b. members ?t b - {a})"
    proof
      fix b
      have "members t2 = members ?t" using members_pay [of t2 ?t] f2(13) f1(14) f2(2) f1(3) by simp
      moreover have "members ?t3 b = members t2 b - {a}" by (auto simp: members_def free_entry_eq hash_bucket_def)
      ultimately show "members ?t3 b = members ?t b - {a}" by simp
    qed
    have "chains_for (\<lambda>b. members ?t b - {a}) ?t3"
    proof (rule chains_forI)
      show "chains_for (\<lambda>b. members ?t b - {a}) t2" using t1(4) relinked_chains(1) [OF t2(2)] by simp
    next
      fix b zs
      assume z: "hpath (hn (ct_mem t2)) (ct_bucket t2 ! b) zs" "distinct zs" "set zs = members ?t b - {a}"
      then show "\<exists>us. hpath (hn (ct_mem ?t3)) (ct_bucket ?t3 ! b) us \<and> distinct us \<and> set us = members ?t b - {a}"
        by (intro exI [of _ zs]) (simp add: free_entry_eq proj_upd hpath_other)
    qed (simp_all add: free_entry_eq)
    then have "chains_ok ?t3" unfolding chains_ok_def mm .
    moreover have "lru_ok ?t3 (map fst (xs @ ys))" using t2(3) c(4) by (simp add: lru_ok_def free_entry_eq proj_upd dseg_other image_Un)
    moreover have "entries_ok (xs @ ys) (ct_brk t)" using r(4) c(2) by (auto simp: entries_ok_def)
    ultimately show ?thesis
      unfolding d using pay3 r(5-8) c(2) f2 f1 h(7)
      by (simp add: conn_rep_def same_config_def same_vars_def free_entry_eq)
  qed
  ultimately show ?thesis by blast
qed

section \<open>Creation\<close>

lemma rep_upd:
  assumes "\<And>s. cs_active (g s) = cs_active s" and "conn_rep t u"
  shows "conn_rep (upd_cst g t) (upd_lst g u)"
proof -
  have "members (upd_cst g t) = members t" by (rule members_pay) (simp_all add: upd_cst_def)
  then have "chains_ok (upd_cst g t) = chains_ok t" by (simp add: chains_ok_def chains_for_def upd_cst_def)
  then show ?thesis using assms
    by (simp add: conn_rep_def lru_ok_def upd_cst_def upd_lst_def same_config_def same_vars_def)
qed

lemma rep_tail: "conn_rep t u \<Longrightarrow> ct_lru_tail t = (if lu_entries u = [] then None else Some (fst (last (lu_entries u))))"
  using repD(1) [of t u] by (auto simp: lru_ok_def lst_of_def last_map)

lemma rep_evict:
  assumes rep: "conn_rep t u"
  shows "\<exists>t'. evict_coldest t = Some t' \<and> conn_rep t' (lru_evict u) \<and> length (lu_entries (lru_evict u)) < lu_max u
     \<and> set (lu_entries (lru_evict u)) \<subseteq> set (lu_entries u) \<and> lu_max (lru_evict u) = lu_max u"
proof (cases "lu_entries u \<noteq> [] \<and> lu_max u \<le> length (lu_entries u)")
  case True
  let ?a = "fst (last (lu_entries u))"
  have a: "?a \<in> fst ` set (lu_entries u)" using True by simp
  obtain t' where t': "destroy ?a t = Some t'" "conn_rep t' (lru_destroy ?a u)" using rep_destroy [OF rep a] by blast
  let ?g = "\<lambda>s. s\<lparr>cs_evicted_lru := cs_evicted_lru s + 1\<rparr>"
  have "evict_coldest t = Some (upd_cst ?g t')"
    using True t'(1) rep_tail [OF rep] repD [OF rep] by (simp add: evict_coldest_def same_config_def)
  moreover have "conn_rep (upd_cst ?g t') (upd_lst ?g (lru_destroy ?a u))" by (rule rep_upd [OF _ t'(2)]) simp
  moreover have "length (without ?a (lu_entries u)) < lu_max u" using length_without [OF a] repD(6) [OF rep] by simp
  moreover have "set (without ?a (lu_entries u)) \<subseteq> set (lu_entries u)" by (auto simp: without_def)
  moreover have "lu_max (lru_destroy ?a u) = lu_max u" by (simp add: lru_destroy_def split: prod.split)
  ultimately show ?thesis using True by (simp add: lru_evict_def lru_destroy_entries upd_lst_def)
next
  case False
  then have "evict_coldest t = Some t" using rep_tail [OF rep] repD(5,7) [OF rep] by (auto simp: evict_coldest_def same_config_def)
  then show ?thesis using False rep repD(6,7) [OF rep] by (auto simp: lru_evict_def same_config_def)
qed

lemma strip_fresh: "strip (fresh_entry k seq ts) = fresh_entry k seq ts"
  by (simp add: strip_def fresh_entry_def lk_conn_zero_def)

lemma rep_insert:
  fixes seq :: u32 and ts :: u64
  assumes rep: "conn_rep t u" and new: "\<forall>e \<in> set (lu_entries u). cn_cookie (snd e) \<noteq> k" and room: "length (lu_entries u) < lu_max u"
    and hp: "hp_alloc (ct_heap t) = (True, hp)" and g: "plain_edit (\<lambda>c. ((), g c))"
  defines "a \<equiv> ct_brk t" and "slot \<equiv> hash_bucket t k"
  defines "c \<equiv> (fresh_entry k seq ts)\<lparr>cn_hnext := ct_bucket t ! slot\<rparr>"
  shows "\<exists>t1 t2. lru_push_front a (t\<lparr>ct_heap := hp, ct_brk := a + 1, ct_mem := (ct_mem t)(a \<mapsto> c), ct_bucket := (ct_bucket t)[slot := Some a]\<rparr>) = Some t1
     \<and> poke a g (upd_cst (\<lambda>s. s\<lparr>cs_created := cs_created s + 1, cs_active := cs_active s + 1\<rparr>) t1) = Some t2
     \<and> conn_rep t2 (u\<lparr>lu_heap := hp, lu_entries := (a, g (fresh_entry k seq ts)) # lu_entries u, lu_brk := a + 1,
          lu_st := (lu_st u)\<lparr>cs_created := cs_created (lu_st u) + 1, cs_active := cs_active (lu_st u) + 1\<rparr>\<rparr>)"
proof -
  note r = repD [OF rep]
  let ?t = "t\<lparr>ct_mem := (ct_mem t)(a \<mapsto> c), ct_bucket := (ct_bucket t)[slot := Some a]\<rparr>"
  let ?tn = "t\<lparr>ct_heap := hp, ct_brk := a + 1, ct_mem := (ct_mem t)(a \<mapsto> c), ct_bucket := (ct_bucket t)[slot := Some a]\<rparr>"
  have ck: "cn_cookie c = k" "cn_hnext c = ct_bucket t ! slot" "strip c = fresh_entry k seq ts"
    using strip_fresh [of k seq ts] by (simp_all add: c_def fresh_entry_def)
  have na: "a \<notin> fst ` set (lu_entries u)" using r(4) by (auto simp: entries_ok_def a_def)
  then have "map_of (lu_entries u) a = None" by (simp add: map_of_eq_None_iff)
  then have none: "ct_mem t a = None" using r(3) pay_None by metis
  have "chains_ok ?t" using chain_push_ok [OF r(2) none, of c] ck by (simp add: slot_def)
  moreover have "members ?tn = members ?t" by (rule members_pay) simp_all
  ultimately have ch: "chains_ok ?tn" by (simp add: chains_ok_def chains_for_def)
  have "lru_ok ?tn (map fst (lu_entries u))" using r(1) na by (simp add: lru_ok_def proj_upd dseg_other)
  then obtain t1 where t1: "lru_push_front a ?tn = Some t1" "relinked ?tn t1" "lru_ok t1 (a # map fst (lu_entries u))"
    using lru_push_ok [of ?tn "map fst (lu_entries u)" a] na by (auto simp: proj_upd)
  note f1 = relinked_fields [OF t1(2)]
  let ?st = "\<lambda>s. s\<lparr>cs_created := cs_created s + 1, cs_active := cs_active s + 1\<rparr>"
  let ?t1 = "upd_cst ?st t1"
  have p1: "pay (ct_mem ?t1) = (map_of (lu_entries u))(a \<mapsto> fresh_entry k seq ts)" using f1(13) r(3) ck by (simp add: upd_cst_def proj_upd)
  then obtain c1 where c1: "ct_mem ?t1 a = Some c1" "fresh_entry k seq ts = strip c1" using pay_SomeE [of "ct_mem ?t1" a] by force
  let ?t2 = "?t1\<lparr>ct_mem := (ct_mem ?t1)(a \<mapsto> g c1)\<rparr>"
  note es = edit_store [OF g c1(1), unfolded snd_conv]
  have "poke a g ?t1 = Some ?t2" using c1(1) by (simp add: poke_def)
  moreover have "conn_rep ?t2 (u\<lparr>lu_heap := hp, lu_entries := (a, g (fresh_entry k seq ts)) # lu_entries u, lu_brk := a + 1, lu_st := ?st (lu_st u)\<rparr>)"
  proof -
    have "members ?t1 = members t1" by (rule members_pay) (simp_all add: upd_cst_def)
    then have "chains_ok ?t2" using ch relinked_chains(2) [OF t1(2)] es(1,4) by (simp add: chains_ok_def chains_for_def upd_cst_def)
    moreover have "lru_ok ?t2 (a # map fst (lu_entries u))" using t1(3) es(2) by (simp add: lru_ok_def upd_cst_def)
    moreover have "pay (ct_mem ?t2) = map_of ((a, g (fresh_entry k seq ts)) # lu_entries u)" using es(3) p1 c1(2) by simp
    moreover have "cn_cookie (g (fresh_entry k seq ts)) = k" using plain_editD(3) [OF g, of "fresh_entry k seq ts"] by (simp add: fresh_entry_def)
    then have "entries_ok ((a, g (fresh_entry k seq ts)) # lu_entries u) (a + 1)"
      using r(4) na new by (auto simp: entries_ok_def a_def less_Suc_eq)
    ultimately show ?thesis using r(5-8) room f1
      by (simp add: conn_rep_def same_config_def same_vars_def upd_cst_def)
  qed
  ultimately show ?thesis using t1(1) by blast
qed

lemma rep_heap: "conn_rep t u \<Longrightarrow> conn_rep (t\<lparr>ct_heap := hp\<rparr>) (u\<lparr>lu_heap := hp\<rparr>)"
proof -
  have "members (t\<lparr>ct_heap := hp\<rparr>) = members t" by (rule members_pay) simp_all
  then show "conn_rep t u \<Longrightarrow> conn_rep (t\<lparr>ct_heap := hp\<rparr>) (u\<lparr>lu_heap := hp\<rparr>)"
    by (simp add: conn_rep_def lru_ok_def same_config_def same_vars_def chains_ok_def chains_for_def)
qed

lemma rep_create:
  assumes rep: "conn_rep t u" and new: "lru_find k u = None" and g: "plain_edit (\<lambda>c. ((), g c))"
  shows "\<exists>t'. create_with g k seq ts t = Some (fst (lru_create g k seq ts u), 0, t') \<and> conn_rep t' (snd (lru_create g k seq ts u))"
proof -
  obtain t1 where t1: "evict_coldest t = Some t1" "conn_rep t1 (lru_evict u)" "length (lu_entries (lru_evict u)) < lu_max (lru_evict u)"
    "set (lu_entries (lru_evict u)) \<subseteq> set (lu_entries u)" using rep_evict [OF rep] by auto
  let ?u = "lru_evict u"
  obtain ok hp where hp: "hp_alloc (ct_heap t1) = (ok, hp)" by fastforce
  have v: "lu_heap ?u = ct_heap t1" "lu_brk ?u = ct_brk t1" using repD(8) [OF t1(2)] by (simp_all add: same_vars_def)
  show ?thesis
  proof (cases ok)
    case False
    then show ?thesis using t1(1) rep_heap [OF t1(2), of hp] hp v
      by (simp add: create_with_def create_def lru_create_def Let_def)
  next
    case True
    have "\<forall>e \<in> set (lu_entries u). cn_cookie (snd e) \<noteq> k" using new by (fastforce simp: lru_find_def find_None_iff)
    then have n: "\<forall>e \<in> set (lu_entries ?u). cn_cookie (snd e) \<noteq> k" using t1(4) by blast
    have f: "(fresh_entry k seq ts)\<lparr>cn_hnext := h\<rparr> = lk_conn_zero\<lparr>cn_cookie := k, cn_last_seq := seq, cn_last_activity_ns := ts, cn_hnext := h\<rparr>" for h
      by (simp add: fresh_entry_def)
    have hb: "hash_bucket (t1\<lparr>ct_heap := hp\<rparr>) k = hash_bucket t1 k" by (simp add: hash_bucket_def)
    show ?thesis
      using rep_insert [OF t1(2) n t1(3) hp [unfolded eqTrueI [OF True]] g, of seq ts] t1(1) hp v True
      by (auto simp: create_with_def create_def lru_create_def Let_def f hb)
  qed
qed

section \<open>Entry points\<close>

lemma rep_touch_or_create:
  assumes rep: "conn_rep t u" and f: "plain_edit f" and g: "plain_edit (\<lambda>c. ((), g c))"
  shows "\<exists>t'. (case lru_find k u of Some a \<Rightarrow> map_option (\<lambda>(lost, t). (Some a, lost, t)) (touch_with f a t)
       | None \<Rightarrow> create_with g k seq ts t) = Some (fst (fst (lru_touch_or_create f g k seq ts u)), snd (fst (lru_touch_or_create f g k seq ts u)), t')
     \<and> conn_rep t' (snd (lru_touch_or_create f g k seq ts u))"
proof (cases "lru_find k u")
  case None
  then show ?thesis using rep_create [OF rep None g, of seq ts] by (auto simp: lru_touch_or_create_def split_beta)
next
  case (Some a)
  then show ?thesis using rep_touch [OF rep rep_lookup(2) [OF rep Some] f] by (auto simp: lru_touch_or_create_def split_beta)
qed

lemma plain_news [simp]:
  "plain_edit (\<lambda>c. ((), open_entry ops tuple syn c))" "plain_edit (\<lambda>c. ((), mark_dirty (c\<lparr>cn_ops := o'\<rparr>)))"
  "plain_edit (\<lambda>c. ((), mark_dirty (c\<lparr>cn_ops := o', cn_tls_seq_seen := b, cn_tls_last_seq := s\<rparr>)))"
  by (simp_all add: plain_edit_def open_entry_def relink_def mark_dirty_def Let_def)

lemma find_port: "(case List.find (\<lambda>(port, ops). port = p) xs of Some (port, ops) \<Rightarrow> Some ops | None \<Rightarrow> d)
    = (case map_of xs p of Some ops \<Rightarrow> Some ops | None \<Rightarrow> d)"
  by (induction xs) auto

lemma rep_resolve: "conn_rep t u \<Longrightarrow> resolve_proto t (Some tuple) = lru_resolve u tuple"
  using repD(7) [of t u] by (simp add: resolve_proto_def lru_resolve_def same_config_def find_port split: option.split)

lemma rep_close:
  assumes rep: "conn_rep t u"
  shows "\<exists>t'. lk_conn_table_close k seq ts t = Some (snd (fst (lru_close k seq ts u)), t') \<and> conn_rep t' (snd (lru_close k seq ts u))
    \<and> fst (fst (lru_close k seq ts u)) = None"
proof (cases "lru_find k u")
  case None
  then show ?thesis using rep rep_lookup(1) [OF rep] by (simp add: lk_conn_table_close_def lru_close_def)
next
  case (Some a)
  let ?u = "snd (lru_touch (seq_step seq ts) a u)"
  obtain t1 where t1: "touch a seq ts t = Some (fst (lru_touch (seq_step seq ts) a u), t1)" "conn_rep t1 ?u"
    using rep_touch [OF rep rep_lookup(2) [OF rep Some] plain_steps(1)] by (auto simp: touch_def)
  have "a \<in> fst ` set (lu_entries ?u)" by (simp add: lru_touch_def split: prod.split)
  then obtain t2 where t2: "destroy a t1 = Some t2" "conn_rep t2 (lru_destroy a ?u)" using rep_destroy [OF t1(2)] by blast
  let ?g = "\<lambda>s. s\<lparr>cs_closed := cs_closed s + 1\<rparr>"
  have "conn_rep (upd_cst ?g t2) (upd_lst ?g (lru_destroy a ?u))" by (rule rep_upd [OF _ t2(2)]) simp
  then show ?thesis using Some rep_lookup(1) [OF rep] t1(1) t2(1)
    by (simp add: lk_conn_table_close_def lru_close_def split_beta)
qed

lemma rep_sweep:
  assumes "conn_rep t u"
  shows "\<exists>t'. sweep_loop now n t = Some (fst (lru_sweep now n u), t') \<and> conn_rep t' (snd (lru_sweep now n u))"
  using assms
proof (induction now n u arbitrary: t rule: lru_sweep.induct)
  case (1 now n u)
  note rep = "1.prems"
  show ?case
  proof (cases "lu_entries u \<noteq> [] \<and> idle now u (last (lu_entries u))")
    case True
    let ?a = "fst (last (lu_entries u))" and ?g = "\<lambda>s. s\<lparr>cs_evicted_idle := cs_evicted_idle s + 1\<rparr>"
    have a: "?a \<in> fst ` set (lu_entries u)" using True by simp
    obtain c where c: "ct_mem t ?a = Some c" "entry_at ?a u = strip c" by (rule rep_entry [OF rep a])
    have "map_of (lu_entries u) ?a = Some (snd (last (lu_entries u)))"
      using True repD(4) [OF rep] by (simp add: entries_ok_def)
    then have "cn_last_activity_ns c = cn_last_activity_ns (snd (last (lu_entries u)))" using c(2) by (simp add: entry_at_def)
    then have i: "cn_last_activity_ns c + ct_idle_timeout_ns t \<le> now" using True repD(7) [OF rep] by (simp add: idle_def same_config_def)
    obtain t1 where t1: "destroy ?a t = Some t1" "conn_rep t1 (lru_destroy ?a u)" using rep_destroy [OF rep a] by blast
    have "conn_rep (upd_cst ?g t1) (upd_lst ?g (lru_destroy ?a u))" by (rule rep_upd [OF _ t1(2)]) simp
    from "1.IH" [OF True this] obtain t2 where "sweep_loop now (n + 1) (upd_cst ?g t1) = Some (fst (lru_sweep now n u), t2)"
      "conn_rep t2 (snd (lru_sweep now n u))" using True by (subst (asm) (1 2) lru_sweep.simps [of now n u]) auto
    then show ?thesis using rep_tail [OF rep] True c(1) i t1(1) by (subst sweep_loop.simps) simp
  next
    case False
    have "sweep_loop now n t = Some (n, t)"
    proof (cases "lu_entries u = []")
      case True
      then show ?thesis using rep_tail [OF rep] by (subst sweep_loop.simps) simp
    next
      case ne: False
      let ?a = "fst (last (lu_entries u))"
      have a: "?a \<in> fst ` set (lu_entries u)" using ne by simp
      obtain c where c: "ct_mem t ?a = Some c" "entry_at ?a u = strip c" by (rule rep_entry [OF rep a])
      have "map_of (lu_entries u) ?a = Some (snd (last (lu_entries u)))" using ne repD(4) [OF rep] by (simp add: entries_ok_def)
      then have "cn_last_activity_ns c = cn_last_activity_ns (snd (last (lu_entries u)))" using c(2) by (simp add: entry_at_def)
      then show ?thesis using rep_tail [OF rep] ne c(1) False repD(7) [OF rep] by (subst sweep_loop.simps) (simp add: idle_def same_config_def)
    qed
    moreover have "lru_sweep now n u = (n, u)" using False by (subst lru_sweep.simps) auto
    ultimately show ?thesis using rep by simp
  qed
qed

section \<open>Histories\<close>

lemma table_op_sim:
  assumes rep: "conn_rep t u"
  shows "\<exists>t'. run_table_op x t = Some (fst (lru_op x u), t') \<and> conn_rep t' (snd (lru_op x u))"
proof (cases x)
  case (TOpen k seq ts tuple syn)
  have "lk_conn_table_open k seq ts tuple syn t = (case lru_find k u of
      Some a \<Rightarrow> map_option (\<lambda>(lost, t). (Some a, lost, t)) (touch_with (seq_step seq ts) a t)
    | None \<Rightarrow> create_with (open_entry (lru_resolve u tuple) tuple syn) k seq ts t)"
    using rep_lookup(1) [OF rep] rep_resolve [OF rep, of tuple]
    by (simp add: lk_conn_table_open_def touch_def open_entry_def [abs_def] split: option.split)
  then show ?thesis
    using rep_touch_or_create [OF rep plain_steps(1) plain_news(1), where k = k and seq = seq and ts = ts] TOpen by fastforce
next
  case (TData k seq ts)
  have "lk_conn_table_data k seq ts t = (case lru_find k u of
      Some a \<Rightarrow> map_option (\<lambda>(lost, t). (Some a, lost, t)) (touch_with (seq_step seq ts) a t)
    | None \<Rightarrow> create_with (\<lambda>c. mark_dirty (c\<lparr>cn_ops := lu_dflt u\<rparr>)) k seq ts t)"
    using rep_lookup(1) [OF rep] repD(7) [OF rep] by (simp add: lk_conn_table_data_def touch_def same_config_def split: option.split)
  then show ?thesis
    using rep_touch_or_create [OF rep plain_steps(1) plain_news(2), where k = k and seq = seq and ts = ts] TData by fastforce
next
  case (TDecrypted k seq ts)
  have "lk_conn_table_data_decrypted k seq ts t = (case lru_find k u of
      Some a \<Rightarrow> map_option (\<lambda>(lost, t). (Some a, lost, t)) (touch_with (tls_seq_step seq ts) a t)
    | None \<Rightarrow> create_with (\<lambda>c. mark_dirty (c\<lparr>cn_ops := lu_dflt u, cn_tls_seq_seen := True, cn_tls_last_seq := seq\<rparr>)) k seq ts t)"
    using rep_lookup(1) [OF rep] repD(7) [OF rep]
    by (simp add: lk_conn_table_data_decrypted_def touch_tls_def same_config_def split: option.split)
  then show ?thesis
    using rep_touch_or_create [OF rep plain_steps(2) plain_news(3), where k = k and seq = seq and ts = ts] TDecrypted by fastforce
next
  case (TDropped k seq ts)
  let ?g = "\<lambda>s. s\<lparr>cs_tls_socket_dropped := cs_tls_socket_dropped s + 1\<rparr>"
  have rep': "conn_rep (upd_cst ?g t) (upd_lst ?g u)" by (rule rep_upd [OF _ rep]) simp
  show ?thesis
  proof (cases "lru_find k u")
    case None
    then show ?thesis using TDropped rep rep_lookup(1) [OF rep] by (simp add: lk_conn_table_peek_def)
  next
    case (Some a)
    then have "a \<in> fst ` set (lu_entries (upd_lst ?g u))" using rep_lookup(2) [OF rep] by (simp add: upd_lst_def)
    from rep_touch [OF rep' this plain_steps(3), of seq ts] show ?thesis
      using TDropped Some rep_lookup(1) [OF rep] by (auto simp: lk_conn_table_peek_def lk_conn_table_note_tls_drop_def)
  qed
next
  case (TClose k seq ts)
  then show ?thesis using rep_close [OF rep, of k seq ts] by (auto simp: prod_eq_iff)
next
  case (TSweep now)
  then show ?thesis using rep_sweep [OF rep, of now 0] by (auto simp: lk_conn_table_sweep_def split_beta)
qed

interpretation conn_sim: simulation conn_rep run_table_op lru_op
  by unfold_locales (rule table_op_sim)

lemma bucket_count_bounds: "64 \<le> bucket_count k n" "bucket_count k n \<le> max (64 * 2 ^ k) (2 * n)"
  by (induction k n rule: bucket_count.induct) (subst bucket_count.simps, auto)+

lemma rep_new:
  assumes "lk_conn_table_new max_conns tmo ctx hp = (Some t, hp')" and "max_conns < 2 ^ 32" and "hook_plain hk ctx"
  shows "conn_rep (lk_conn_table_set_protos protos dflt (lk_conn_table_on_destroy hk ctx t))
    \<lparr>lu_entries = [], lu_max = (if max_conns = 0 then 1 else max_conns), lu_timeout = tmo, lu_hook = hk, lu_ctx = ctx,
     lu_protos = protos, lu_dflt = dflt, lu_st = lk_conn_table_stats_zero, lu_brk = 0, lu_heap = hp'\<rparr>"
proof -
  let ?n = "bucket_count 0 ((if max_conns = 0 then 1 else max_conns) div 16)"
  have n: "64 \<le> ?n" "?n < 2 ^ 64" using bucket_count_bounds [of 0 "(if max_conns = 0 then 1 else max_conns) div 16"] assms(2)
    by (auto simp: max_def split: if_splits)
  then show ?thesis
    using assms by (auto simp: lk_conn_table_new_def Let_def lk_conn_table_set_protos_def lk_conn_table_on_destroy_def conn_rep_def
      lru_ok_def chains_ok_def chains_for_def members_def pay_def entries_ok_def same_config_def same_vars_def fun_eq_iff
      lk_conn_table_stats_zero_def split: prod.splits if_splits)
qed

end
