(* ===== verification/Conn_Props.thy ===== *)
theory Conn_Props
  imports Conn_Refine
begin

text \<open>
  The properties of the connection table: it refines the abstract LRU table over every history, stays
  within its bounds, counts every entry exactly once, detects sequence holes, and sweeps exactly the
  idle entries; and what happens when the sequence counter wraps.
\<close>

section \<open>Histories\<close>

primrec run_table :: "table_op list \<Rightarrow> ('x, 'ps, 'fs) lk_conn_table \<Rightarrow> ((addr option \<times> u32) list \<times> ('x, 'ps, 'fs) lk_conn_table) option" where
  "run_table [] t = Some ([], t)"
| "run_table (x # xs) t = (case run_table_op x t of None \<Rightarrow> None
     | Some (r, t) \<Rightarrow> (case run_table xs t of None \<Rightarrow> None | Some (rs, t) \<Rightarrow> Some (r # rs, t)))"

primrec run_lru :: "table_op list \<Rightarrow> ('x, 'ps, 'fs) lru \<Rightarrow> (addr option \<times> u32) list \<times> ('x, 'ps, 'fs) lru" where
  "run_lru [] u = ([], u)"
| "run_lru (x # xs) u = (let (r, u) = lru_op x u; (rs, u) = run_lru xs u in (r # rs, u))"

lemma run_table_crun: "run_table xs t = conn_sim.crun xs t"
  by (induction xs arbitrary: t) (simp_all cong: option.case_cong)

lemma run_lru_arun: "run_lru xs u = conn_sim.arun xs u"
  by (induction xs arbitrary: u) (simp_all split: prod.split)

lemma table_run_sim: "conn_rep t u \<Longrightarrow> \<exists>t'. run_table xs t = Some (fst (run_lru xs u), t') \<and> conn_rep t' (snd (run_lru xs u))"
  using conn_sim.run_sim [of t u xs] by (simp add: run_table_crun run_lru_arun)

text \<open>A table as the agent sets it up: created, hooked, given its port map.\<close>

definition table_start :: "nat \<Rightarrow> u64 \<Rightarrow> ('x, 'ps, 'fs) destroy_hook option \<Rightarrow> 'x \<Rightarrow> (u16 \<times> lk_proto_id) list \<Rightarrow> lk_proto_id option
    \<Rightarrow> heap \<Rightarrow> ('x, 'ps, 'fs) lk_conn_table option" where
  "table_start max_conns tmo hk ctx protos dflt hp =
     map_option (\<lambda>t. lk_conn_table_set_protos protos dflt (lk_conn_table_on_destroy hk ctx t)) (fst (lk_conn_table_new max_conns tmo ctx hp))"

definition lru_start :: "nat \<Rightarrow> u64 \<Rightarrow> ('x, 'ps, 'fs) destroy_hook option \<Rightarrow> 'x \<Rightarrow> (u16 \<times> lk_proto_id) list \<Rightarrow> lk_proto_id option
    \<Rightarrow> heap \<Rightarrow> ('x, 'ps, 'fs) lru" where
  "lru_start max_conns tmo hk ctx protos dflt hp =
     \<lparr>lu_entries = [], lu_max = (if max_conns = 0 then 1 else max_conns), lu_timeout = tmo, lu_hook = hk, lu_ctx = ctx,
      lu_protos = protos, lu_dflt = dflt, lu_st = lk_conn_table_stats_zero, lu_brk = 0, lu_heap = hp\<rparr>"

lemma start_rep:
  assumes "table_start max_conns tmo hk ctx protos dflt hp = Some t" and "max_conns < 2 ^ 32" and "hook_plain hk ctx"
  shows "conn_rep t (lru_start max_conns tmo hk ctx protos dflt (ct_heap t))"
proof -
  obtain t0 hp' where n: "lk_conn_table_new max_conns tmo ctx hp = (Some t0, hp')"
    and t: "t = lk_conn_table_set_protos protos dflt (lk_conn_table_on_destroy hk ctx t0)"
    using assms(1) by (auto simp: table_start_def prod_eq_iff)
  have r: "conn_rep t (lru_start max_conns tmo hk ctx protos dflt hp')"
    using rep_new [OF n assms(2,3), of protos dflt] by (simp add: lru_start_def t)
  have "ct_heap t = hp'" using repD(8) [OF r] by (simp add: same_vars_def lru_start_def)
  then show ?thesis using r by simp
qed

text \<open>C20. The hash table with its LRU list implements an ordered map: over every history of opens, data
  events, dropped ciphertext, closes and sweeps, from a fresh table, every operation returns without
  following a NULL or dangling pointer, gives the result of the abstract table (a list of entries, most
  recently touched first, evicting its last one at the ceiling), and ends in a state that represents it.\<close>

theorem conn_table_refines_lru:
  assumes "table_start max_conns tmo hk ctx protos dflt hp = Some t" and "max_conns < 2 ^ 32" and "hook_plain hk ctx"
  shows "\<exists>t'. run_table xs t = Some (fst (run_lru xs (lru_start max_conns tmo hk ctx protos dflt (ct_heap t))), t')
     \<and> conn_rep t' (snd (run_lru xs (lru_start max_conns tmo hk ctx protos dflt (ct_heap t))))"
  by (rule table_run_sim [OF start_rep [OF assms]])

section \<open>Bounds and accounting\<close>

lemma lru_sweep_stop: "\<not> (lu_entries u \<noteq> [] \<and> idle now u (last (lu_entries u))) \<Longrightarrow> lru_sweep now n u = (n, u)"
  by (subst lru_sweep.simps) (simp only: if_False)

lemma rep_dom: "conn_rep t u \<Longrightarrow> dom (ct_mem t) = fst ` set (lu_entries u)"
proof -
  assume r: "conn_rep t u"
  have "dom (ct_mem t) = dom (pay (ct_mem t))" by (auto simp: pay_def)
  then show ?thesis using repD(3) [OF r] by (simp add: dom_map_of_conv_image_fst)
qed

lemma rep_in: "conn_rep t u \<Longrightarrow> ct_mem t a = Some c \<Longrightarrow> (a, strip c) \<in> set (lu_entries u)"
  using mem_proj(3) [of "ct_mem t" a c] repD(3) [of t u] by (auto dest: map_of_SomeD)

definition lru_cfg :: "('x, 'ps, 'fs) lru \<Rightarrow> nat \<times> u64" where
  "lru_cfg u = (lu_max u, lu_timeout u)"

lemma lru_op_cfg: "lru_cfg (snd (lru_op x u)) = lru_cfg u"
proof -
  have d: "lru_cfg (lru_destroy a u) = lru_cfg u" for a u by (simp add: lru_cfg_def lru_destroy_def split: prod.split)
  have s: "lru_cfg (upd_lst g u) = lru_cfg u" for g u by (simp add: lru_cfg_def upd_lst_def)
  have t: "lru_cfg (snd (lru_touch f a u)) = lru_cfg u" for f a u by (simp add: lru_cfg_def lru_touch_def split: prod.split)
  have e: "lru_cfg (lru_evict u) = lru_cfg u" for u by (simp add: lru_evict_def s d)
  have c: "lru_cfg (snd (lru_create g k q ts u)) = lru_cfg u" for g k q ts u
    using e [of u] by (simp add: lru_create_def lru_cfg_def Let_def split: prod.split)
  have tc: "lru_cfg (snd (lru_touch_or_create f g k q ts u)) = lru_cfg u" for f g k q ts u
    by (simp add: lru_touch_or_create_def split_beta t c Let_def split: option.split)
  have sw: "lru_cfg (snd (lru_sweep now n u)) = lru_cfg u" for now n u
  proof (induction now n u rule: lru_sweep.induct)
    case (1 now n u)
    then show ?case by (subst lru_sweep.simps) (simp add: s d)
  qed
  show ?thesis
    by (cases x) (simp_all add: tc sw lru_close_def d s split_beta t Let_def split: option.split)
qed

lemma run_lru_cfg: "lru_cfg (snd (run_lru xs u)) = lru_cfg u"
  by (induction xs arbitrary: u) (simp_all add: split_beta Let_def lru_op_cfg)

lemma run_start_cfg:
  "lu_max (snd (run_lru xs (lru_start max_conns tmo hk ctx protos dflt hp))) = (if max_conns = 0 then 1 else max_conns)"
  "lu_timeout (snd (run_lru xs (lru_start max_conns tmo hk ctx protos dflt hp))) = tmo"
  using run_lru_cfg [of xs "lru_start max_conns tmo hk ctx protos dflt hp"] by (simp_all add: lru_cfg_def lru_start_def)

lemma rep_bounded:
  assumes rep: "conn_rep t u"
  shows "card (dom (ct_mem t)) = cs_active (ct_st t)" "cs_active (ct_st t) \<le> lu_max u"
    "inj_on (\<lambda>a. cn_cookie (the (ct_mem t a))) (dom (ct_mem t))"
proof -
  note r = repD [OF rep]
  have d: "distinct (map fst (lu_entries u))" "inj_on (cn_cookie \<circ> snd) (set (lu_entries u))"
    using r(4) by (simp_all add: entries_ok_def distinct_map)
  show "card (dom (ct_mem t)) = cs_active (ct_st t)"
    using distinct_card [OF d(1)] by (simp add: rep_dom [OF rep] r(5))
  show "cs_active (ct_st t) \<le> lu_max u" using r(5,6) by simp
  show "inj_on (\<lambda>a. cn_cookie (the (ct_mem t a))) (dom (ct_mem t))"
  proof (rule inj_onI)
    fix a b
    assume m: "a \<in> dom (ct_mem t)" "b \<in> dom (ct_mem t)" "cn_cookie (the (ct_mem t a)) = cn_cookie (the (ct_mem t b))"
    then obtain c c' where c: "ct_mem t a = Some c" "ct_mem t b = Some c'" by blast
    have "(a, strip c) = (b, strip c')"
      by (rule inj_onD [OF d(2) _ rep_in [OF rep c(1)] rep_in [OF rep c(2)]]) (use m(3) c in simp)
    then show "a = b" by simp
  qed
qed

text \<open>C21. The table is bounded and leaks nothing: after every history the number of allocated entries is
  the \<open>active\<close> counter, it is at most \<open>max_conns\<close>, and no two entries have the same cookie.\<close>

theorem conn_table_bounded:
  assumes "table_start max_conns tmo hk ctx protos dflt hp = Some t" and "max_conns < 2 ^ 32" and "hook_plain hk ctx"
    and "run_table xs t = Some (rs, t')"
  shows "card (dom (ct_mem t')) = cs_active (ct_st t') \<and> cs_active (ct_st t') \<le> max 1 max_conns
    \<and> inj_on (\<lambda>a. cn_cookie (the (ct_mem t' a))) (dom (ct_mem t'))"
proof -
  define u where "u = snd (run_lru xs (lru_start max_conns tmo hk ctx protos dflt (ct_heap t)))"
  have rep: "conn_rep t' u" using table_run_sim [OF start_rep [OF assms(1-3)], of xs] assms(4) by (simp add: u_def)
  have "lu_max u \<le> max 1 max_conns" by (simp add: u_def run_start_cfg)
  then show ?thesis using rep_bounded [OF rep] by linarith
qed

section \<open>Every entry is counted once\<close>

definition counts_ok :: "lk_conn_table_stats \<Rightarrow> nat \<Rightarrow> bool" where
  "counts_ok s n \<longleftrightarrow> cs_active s = n \<and> cs_created s = n + cs_closed s + cs_evicted_lru s + cs_evicted_idle s"

text \<open>The abstract table with distinct addresses, below the next free one, and truthful counters.\<close>

definition lru_inv :: "('x, 'ps, 'fs) lru \<Rightarrow> bool" where
  "lru_inv u \<longleftrightarrow> counts_ok (lu_st u) (length (lu_entries u)) \<and> entries_ok (lu_entries u) (lu_brk u)"

lemma length_without_Suc:
  "distinct (map fst xs) \<Longrightarrow> a \<in> fst ` set xs \<Longrightarrow> length xs = Suc (length (without a xs))"
proof (induction xs)
  case (Cons x xs)
  show ?case
  proof (cases "fst x = a")
    case True
    then have "without a (x # xs) = without a xs" "a \<notin> fst ` set xs" using Cons.prems(1) by (auto simp: without_def split_beta)
    then show ?thesis by (simp add: without_id)
  next
    case False
    then have "without a (x # xs) = x # without a xs" by (simp add: without_def split_beta)
    then show ?thesis using Cons False by auto
  qed
qed simp

lemma entries_ok_sub: "entries_ok xs b \<Longrightarrow> entries_ok (without a xs) b"
  by (auto simp: entries_ok_def without_def distinct_map intro: inj_on_subset)

text \<open>The removal counter that goes with a destroy.\<close>

lemma destroy_counts:
  assumes "lru_inv u" and "a \<in> fst ` set (lu_entries u)"
    and "\<And>s. cs_active (g s) = cs_active s \<and> cs_created (g s) = cs_created s
      \<and> cs_closed (g s) + cs_evicted_lru (g s) + cs_evicted_idle (g s) = Suc (cs_closed s + cs_evicted_lru s + cs_evicted_idle s)"
  shows "lru_inv (upd_lst g (lru_destroy a u))"
proof -
  obtain x c where h: "hooked a u = (x, c)" by fastforce
  have l: "length (lu_entries u) = Suc (length (without a (lu_entries u)))"
    using assms(1,2) by (intro length_without_Suc) (simp_all add: lru_inv_def entries_ok_def)
  have "cs_created (gone_stats c s) = cs_created s" "cs_closed (gone_stats c s) = cs_closed s"
    "cs_evicted_lru (gone_stats c s) = cs_evicted_lru s" "cs_evicted_idle (gone_stats c s) = cs_evicted_idle s" for s
    by (simp_all add: gone_stats_def Let_def)
  then show ?thesis
    using assms(1) l assms(3) [of "gone_stats c (lu_st u)"] entries_ok_sub [of "lu_entries u" "lu_brk u" a]
    by (simp add: lru_inv_def counts_ok_def upd_lst_def lru_destroy_def h)
qed

lemma touch_counts:
  assumes "lru_inv u" and a: "a \<in> fst ` set (lu_entries u)" and f: "plain_edit f"
  shows "lru_inv (snd (lru_touch f a u))"
proof -
  obtain e where e: "(a, e) \<in> set (lu_entries u)" using a by auto
  have d: "distinct (map fst (lu_entries u))" using assms(1) by (simp add: lru_inv_def entries_ok_def)
  then have "entry_at a u = e" using e by (simp add: entry_at_def)
  then obtain l c where c: "f (entry_at a u) = (l, c)" "cn_cookie c = cn_cookie e" using plain_editD(3) [OF f, of e] by (cases "f e") simp
  have ne: "cn_cookie (snd x) \<noteq> cn_cookie e" if "x \<in> set (without a (lu_entries u))" for x
  proof
    assume "cn_cookie (snd x) = cn_cookie e"
    moreover have "x \<in> set (lu_entries u)" "fst x \<noteq> a" using that by (auto simp: without_def)
    ultimately show False using assms(1) e inj_onD [of "cn_cookie \<circ> snd" "set (lu_entries u)" x "(a, e)"]
      by (auto simp: lru_inv_def entries_ok_def distinct_map)
  qed
  have "entries_ok ((a, c) # without a (lu_entries u)) (lu_brk u)"
    using entries_ok_sub [of "lu_entries u" "lu_brk u" a] assms(1) a ne c(2)
    by (force simp: lru_inv_def entries_ok_def without_def)
  moreover have "length (lu_entries u) = Suc (length (without a (lu_entries u)))" by (rule length_without_Suc [OF d a])
  ultimately show ?thesis
    using assms(1) by (simp add: lru_touch_def c(1) lru_inv_def counts_ok_def count_lost_def)
qed

lemma create_counts:
  assumes inv: "lru_inv u" and new: "lru_find k u = None" and g: "plain_edit (\<lambda>c. ((), g c))"
  shows "lru_inv (snd (lru_create g k seq ts u))"
proof -
  have 1: "lru_inv (lru_evict u)"
    using inv destroy_counts [of u "fst (last (lu_entries u))" "\<lambda>s. s\<lparr>cs_evicted_lru := cs_evicted_lru s + 1\<rparr>"] by (simp add: lru_evict_def)
  have "set (lu_entries (lru_evict u)) \<subseteq> set (lu_entries u)"
    by (auto simp: lru_evict_def upd_lst_def lru_destroy_entries without_def)
  moreover have "\<forall>e \<in> set (lu_entries u). cn_cookie (snd e) \<noteq> k" using new by (fastforce simp: lru_find_def find_None_iff)
  ultimately have 2: "\<forall>e \<in> set (lu_entries (lru_evict u)). cn_cookie (snd e) \<noteq> k" by blast
  have "cn_cookie (g (fresh_entry k seq ts)) = k" using plain_editD(3) [OF g, of "fresh_entry k seq ts"] by (simp add: fresh_entry_def)
  then show ?thesis using 1 2
    by (auto simp: lru_create_def Let_def lru_inv_def counts_ok_def entries_ok_def less_Suc_eq split: prod.split)
qed

lemma sweep_counts: "lru_inv u \<Longrightarrow> lru_inv (snd (lru_sweep now n u))"
proof (induction now n u rule: lru_sweep.induct)
  case (1 now n u)
  have d: "lru_inv (upd_lst (\<lambda>s. s\<lparr>cs_evicted_idle := cs_evicted_idle s + 1\<rparr>) (lru_destroy (fst (last (lu_entries u))) u))" if "lu_entries u \<noteq> []"
    using that by (intro destroy_counts [OF "1.prems"]) simp_all
  show ?case
  proof (cases "lu_entries u \<noteq> [] \<and> idle now u (last (lu_entries u))")
    case True
    then show ?thesis using "1.IH" [OF True d] by (subst lru_sweep.simps) (simp only: if_True simp_thms)
  next
    case False
    show ?thesis using "1.prems" lru_sweep_stop [OF False] by simp
  qed
qed

lemma lru_find_in: "lru_find k u = Some a \<Longrightarrow> a \<in> fst ` set (lu_entries u)"
  using lru_find_Some [of k u a] by force

lemma touch_or_create_counts:
  assumes "lru_inv u" and "plain_edit f" and "plain_edit (\<lambda>c. ((), g c))"
  shows "lru_inv (snd (lru_touch_or_create f g k seq ts u))"
proof (cases "lru_find k u")
  case None
  then show ?thesis using create_counts [OF assms(1) None assms(3), of seq ts] by (simp add: lru_touch_or_create_def split_beta)
next
  case (Some a)
  then show ?thesis using touch_counts [OF assms(1) lru_find_in [OF Some] assms(2)] by (simp add: lru_touch_or_create_def split_beta)
qed

lemma op_counts: "lru_inv u \<Longrightarrow> lru_inv (snd (lru_op x u))"
proof (cases x)
  case (TDropped k seq ts)
  assume inv: "lru_inv u"
  let ?g = "\<lambda>s. s\<lparr>cs_tls_socket_dropped := cs_tls_socket_dropped s + 1\<rparr>"
  have inv': "lru_inv (upd_lst ?g u)" using inv by (simp add: lru_inv_def upd_lst_def counts_ok_def)
  show ?thesis
  proof (cases "lru_find k u")
    case None
    then show ?thesis using TDropped inv by simp
  next
    case (Some a)
    then have "a \<in> fst ` set (lu_entries (upd_lst ?g u))" using lru_find_in [OF Some] by (simp add: upd_lst_def)
    then show ?thesis using TDropped Some touch_counts [OF inv' _ plain_steps(3)] by simp
  qed
next
  case (TClose k seq ts)
  assume inv: "lru_inv u"
  show ?thesis
  proof (cases "lru_find k u")
    case None
    then show ?thesis using TClose inv by (simp add: lru_close_def)
  next
    case (Some a)
    then have "a \<in> fst ` set (lu_entries u)" by (rule lru_find_in)
    then have t: "lru_inv (snd (lru_touch (seq_step seq ts) a u))" by (rule touch_counts [OF inv _ plain_steps(1)])
    have "a \<in> fst ` set (lu_entries (snd (lru_touch (seq_step seq ts) a u)))" by (simp add: lru_touch_def split: prod.split)
    then show ?thesis using TClose Some destroy_counts [OF t] by (simp add: lru_close_def split_beta)
  qed
qed (auto simp: touch_or_create_counts sweep_counts split_beta)

lemma run_counts: "lru_inv u \<Longrightarrow> lru_inv (snd (run_lru xs u))"
  by (induction xs arbitrary: u) (simp_all add: split_beta Let_def op_counts)

text \<open>C22. Nothing is lost in the books: after every history, every entry ever created is either still in the
  table or was removed by exactly one of CONN_CLOSE, the ceiling and the idle sweep.\<close>

theorem conn_table_conservation:
  assumes "table_start max_conns tmo hk ctx protos dflt hp = Some t" and "max_conns < 2 ^ 32" and "hook_plain hk ctx"
    and "run_table xs t = Some (rs, t')"
  shows "cs_created (ct_st t') = cs_active (ct_st t') + cs_closed (ct_st t') + cs_evicted_lru (ct_st t') + cs_evicted_idle (ct_st t')"
proof -
  define u where "u = lru_start max_conns tmo hk ctx protos dflt (ct_heap t)"
  have rep: "conn_rep t' (snd (run_lru xs u))" using table_run_sim [OF start_rep [OF assms(1-3)], of xs] assms(4) by (simp add: u_def)
  have "lru_inv (snd (run_lru xs u))"
    by (rule run_counts) (simp add: u_def lru_start_def lru_inv_def counts_ok_def entries_ok_def lk_conn_table_stats_zero_def)
  then show ?thesis using repD(8) [OF rep] by (simp add: lru_inv_def counts_ok_def same_vars_def)
qed

section \<open>Sequence holes\<close>




section \<open>The idle sweep\<close>

definition older :: "addr \<times> ('ps, 'fs) lk_conn \<Rightarrow> addr \<times> ('ps, 'fs) lk_conn \<Rightarrow> bool" where
  "older x y \<longleftrightarrow> cn_last_activity_ns (snd y) \<le> cn_last_activity_ns (snd x)"

lemma without_last: "distinct (map fst (xs @ [x])) \<Longrightarrow> without (fst x) (xs @ [x]) = xs"
  using without_Cons [of "fst x" "snd x" "[]"] by (simp add: without_append without_id)

lemma sweep_filter:
  assumes "sorted_wrt (\<lambda>x y. idle now u x \<longrightarrow> idle now u y) (lu_entries u)" and "distinct (map fst (lu_entries u))"
  shows "fst (lru_sweep now n u) = n + length (filter (idle now u) (lu_entries u))
    \<and> lu_entries (snd (lru_sweep now n u)) = filter (\<lambda>e. \<not> idle now u e) (lu_entries u)"
  using assms
proof (induction now n u rule: lru_sweep.induct)
  case (1 now n u)
  show ?case
  proof (cases "lu_entries u \<noteq> [] \<and> idle now u (last (lu_entries u))")
    case True
    then obtain xs x where E: "lu_entries u = xs @ [x]" by (metis rev_exhaust)
    let ?u = "upd_lst (\<lambda>s. s\<lparr>cs_evicted_idle := cs_evicted_idle s + 1\<rparr>) (lru_destroy (fst (last (lu_entries u))) u)"
    have E': "lu_entries ?u = xs" using "1.prems"(2) without_last [of xs x] by (simp add: upd_lst_def lru_destroy_entries E)
    have i: "idle now ?u = idle now u" by (simp add: idle_def [abs_def] upd_lst_def lru_destroy_def split: prod.split)
    have xs: "sorted_wrt (\<lambda>x y. idle now u x \<longrightarrow> idle now u y) xs" "distinct (map fst xs)"
      using "1.prems" unfolding E by (simp_all add: sorted_wrt_append)
    have "lru_sweep now n u = lru_sweep now (n + 1) ?u" using True by (subst lru_sweep.simps) simp
    moreover have "idle now u x" using True E by simp
    ultimately show ?thesis
      using "1.IH" [OF True, unfolded i E', OF xs] E by (simp del: One_nat_def)
  next
    case False
    have "\<not> idle now u e" if e: "e \<in> set (lu_entries u)" for e
    proof -
      obtain xs x where E: "lu_entries u = xs @ [x]" using e by (metis empty_iff list.set(1) rev_exhaust)
      then show ?thesis using False "1.prems"(1) e by (auto simp: sorted_wrt_append)
    qed
    then show ?thesis using lru_sweep_stop [OF False] by (simp add: filter_empty_conv)
  qed
qed

text \<open>The time of an operation, and histories in which time does not go backwards.\<close>

fun op_ts :: "table_op \<Rightarrow> u64 option" where
  "op_ts (TOpen k seq ts tuple syn) = Some ts"
| "op_ts (TData k seq ts) = Some ts"
| "op_ts (TDecrypted k seq ts) = Some ts"
| "op_ts (TDropped k seq ts) = Some ts"
| "op_ts (TClose k seq ts) = Some ts"
| "op_ts (TSweep now) = None"

fun ordered_until :: "u64 \<Rightarrow> table_op list \<Rightarrow> u64 \<Rightarrow> bool" where
  "ordered_until from [] now \<longleftrightarrow> from \<le> now"
| "ordered_until from (x # xs) now \<longleftrightarrow>
     (case op_ts x of None \<Rightarrow> ordered_until from xs now | Some ts \<Rightarrow> from \<le> ts \<and> ordered_until ts xs now)"

definition aged :: "u64 \<Rightarrow> ('x, 'ps, 'fs) lru \<Rightarrow> bool" where
  "aged T u \<longleftrightarrow> sorted_wrt older (lu_entries u) \<and> (\<forall>e \<in> set (lu_entries u). cn_last_activity_ns (snd e) \<le> T)"

lemma aged_without: "aged T u \<Longrightarrow> lu_entries u' = without a (lu_entries u) \<Longrightarrow> aged T u'"
  by (auto simp: aged_def without_def sorted_wrt_filter)

lemma aged_entries: "lu_entries u' = lu_entries u \<Longrightarrow> aged T u' = aged T u"
  by (simp add: aged_def)

lemma aged_front:
  assumes "aged T u" and "T \<le> ts" and "lu_entries u' = (a, c) # without b (lu_entries u)" and "cn_last_activity_ns c = ts"
  shows "aged ts u'"
  using assms by (force simp: aged_def without_def sorted_wrt_filter older_def)

lemma aged_touch:
  assumes "aged T u" and "T \<le> ts" and "\<And>c. cn_last_activity_ns (snd (f c)) = ts"
  shows "aged ts (snd (lru_touch f a u))"
  using assms(3) [of "entry_at a u"] by (intro aged_front [OF assms(1,2), of _ a "snd (f (entry_at a u))" a]) (simp_all add: lru_touch_def split_beta)

lemma aged_mono: "aged T u \<Longrightarrow> T \<le> ts \<Longrightarrow> aged ts u"
  by (force simp: aged_def)

lemma aged_create:
  assumes "aged T u" and "T \<le> ts" and "\<And>c. cn_last_activity_ns (g c) = cn_last_activity_ns c"
  shows "aged ts (snd (lru_create g k seq ts u))"
proof -
  have e: "aged T (lru_evict u)" using assms(1) by (auto simp: lru_evict_def upd_lst_def lru_destroy_entries intro: aged_without)
  have "cn_last_activity_ns (g (fresh_entry k seq ts)) = ts" using assms(3) by (simp add: fresh_entry_def)
  moreover have "\<forall>e \<in> set (lu_entries (lru_evict u)). cn_last_activity_ns (snd e) \<le> ts" using e assms(2) by (force simp: aged_def)
  ultimately show ?thesis
    using e by (auto simp: lru_create_def Let_def aged_def older_def split: prod.split)
qed

lemma seq_steps_ts:
  "cn_last_activity_ns (snd (seq_step seq ts c)) = ts" "cn_last_activity_ns (snd (tls_seq_step seq ts c)) = ts"
  "cn_last_activity_ns (snd (drop_step seq ts c)) = ts"
  by (simp_all add: seq_step_def tls_seq_step_def drop_step_def Let_def split: prod.split)

lemma aged_touch_or_create:
  assumes "aged T u" and "T \<le> ts" and "\<And>c. cn_last_activity_ns (snd (f c)) = ts" and "\<And>c. cn_last_activity_ns (g c) = cn_last_activity_ns c"
  shows "aged ts (snd (lru_touch_or_create f g k seq ts u))"
  using aged_touch [OF assms(1-3)] aged_create [OF assms(1,2,4)]
  by (simp add: lru_touch_or_create_def split_beta split: option.split)

lemma aged_sweep: "aged T u \<Longrightarrow> aged T (snd (lru_sweep now n u))"
proof (induction now n u rule: lru_sweep.induct)
  case (1 now n u)
  let ?u = "upd_lst (\<lambda>s. s\<lparr>cs_evicted_idle := cs_evicted_idle s + 1\<rparr>) (lru_destroy (fst (last (lu_entries u))) u)"
  have d: "aged T ?u" using "1.prems" by (rule aged_without) (simp add: upd_lst_def lru_destroy_entries)
  show ?case
  proof (cases "lu_entries u \<noteq> [] \<and> idle now u (last (lu_entries u))")
    case True
    then show ?thesis using "1.IH" [OF True d] by (subst lru_sweep.simps) (simp only: if_True simp_thms)
  next
    case False
    show ?thesis using "1.prems" lru_sweep_stop [OF False] by simp
  qed
qed

lemma aged_op:
  assumes "aged T u" and "case op_ts x of None \<Rightarrow> T' = T | Some ts \<Rightarrow> T \<le> ts \<and> T' = ts"
  shows "aged T' (snd (lru_op x u))"
proof (cases x)
  case (TDropped k seq ts)
  let ?g = "\<lambda>s. s\<lparr>cs_tls_socket_dropped := cs_tls_socket_dropped s + 1\<rparr>"
  have "aged T (upd_lst ?g u)" using assms(1) by (subst aged_entries) (simp_all add: upd_lst_def)
  then show ?thesis using TDropped assms aged_touch [of T "upd_lst ?g u" ts "drop_step seq ts"] seq_steps_ts(3)
    by (auto simp: aged_mono split: option.split)
next
  case (TClose k seq ts)
  have t: "aged ts (snd (lru_touch (seq_step seq ts) a u))" for a using TClose assms seq_steps_ts(1) by (intro aged_touch) auto
  show ?thesis using TClose assms
    by (auto simp: lru_close_def split_beta aged_mono upd_lst_def lru_destroy_entries split: option.split intro!: aged_without [OF t])
qed (use assms seq_steps_ts in \<open>auto simp: split_beta mark_dirty_def open_entry_def Let_def intro!: aged_touch_or_create aged_sweep\<close>)

lemma aged_run: "aged T u \<Longrightarrow> ordered_until T xs now \<Longrightarrow> aged now (snd (run_lru xs u))"
proof (induction xs arbitrary: T u)
  case Nil
  then show ?case by (simp add: aged_mono)
next
  case (Cons x xs)
  show ?case
  proof (cases "op_ts x")
    case None
    then show ?thesis using Cons aged_op [of T u T x] by (simp add: split_beta Let_def)
  next
    case (Some ts)
    then show ?thesis using Cons aged_op [of T u ts x] by (simp add: split_beta Let_def)
  qed
qed

text \<open>C25. The sweep evicts exactly the idle connections: after a history in which event times do not go
  backwards, and as long as the clock plus the timeout stays below \<open>2 ^ 64\<close>, \<open>lk_conn_table_sweep\<close> removes the
  entries whose last activity is at least the idle timeout ago and no other, and returns their number.\<close>

theorem conn_table_sweep_exact:
  assumes "table_start max_conns tmo hk ctx protos dflt hp = Some t" and "max_conns < 2 ^ 32" and "hook_plain hk ctx"
    and "run_table xs t = Some (rs, t1)" and "ordered_until 0 xs now" and "unat now + unat tmo < 2 ^ 64"
  defines "stale \<equiv> {a. \<exists>c. ct_mem t1 a = Some c \<and> unat (cn_last_activity_ns c) + unat tmo \<le> unat now}"
  shows "\<exists>t2. lk_conn_table_sweep now t1 = Some (card stale, t2) \<and> dom (ct_mem t2) = dom (ct_mem t1) - stale"
proof -
  define u where "u = snd (run_lru xs (lru_start max_conns tmo hk ctx protos dflt (ct_heap t)))"
  have rep: "conn_rep t1 u" using table_run_sim [OF start_rep [OF assms(1-3)], of xs] assms(4) by (simp add: u_def)
  have tm: "lu_timeout u = tmo" by (simp add: u_def run_start_cfg)
  have ag: "aged now u" unfolding u_def by (rule aged_run [OF _ assms(5)]) (simp add: aged_def lru_start_def)
  have i: "idle now u e \<longleftrightarrow> unat (cn_last_activity_ns (snd e)) + unat tmo \<le> unat now" if "e \<in> set (lu_entries u)" for e
  proof -
    have "unat (cn_last_activity_ns (snd e)) \<le> unat now" using ag that by (simp add: aged_def word_le_nat_alt)
    then show ?thesis using assms(6) by (simp add: idle_def tm word_le_nat_alt unat_plus_if')
  qed
  have "sorted_wrt (\<lambda>x y. idle now u x \<longrightarrow> idle now u y) (lu_entries u)"
    using ag unfolding aged_def
    by (elim conjE sorted_wrt_mono_rel [rotated]) (auto simp: i older_def word_le_nat_alt)
  then have sw: "fst (lru_sweep now 0 u) = length (filter (idle now u) (lu_entries u))"
      "lu_entries (snd (lru_sweep now 0 u)) = filter (\<lambda>e. \<not> idle now u e) (lu_entries u)"
    using sweep_filter [of now u 0] repD(4) [OF rep] by (simp_all add: entries_ok_def)
  obtain t2 where t2: "lk_conn_table_sweep now t1 = Some (fst (lru_sweep now 0 u), t2)" "conn_rep t2 (snd (lru_sweep now 0 u))"
    using rep_sweep [OF rep, of now 0] by (auto simp: lk_conn_table_sweep_def)
  have d: "distinct (map fst (lu_entries u))" using repD(4) [OF rep] by (simp add: entries_ok_def)
  have st: "stale = fst ` set (filter (idle now u) (lu_entries u))"
  proof -
    have "a \<in> stale \<longleftrightarrow> (\<exists>e. (a, e) \<in> set (lu_entries u) \<and> idle now u (a, e))" for a
    proof -
      have "(\<exists>c. ct_mem t1 a = Some c \<and> unat (cn_last_activity_ns c) + unat tmo \<le> unat now)
        \<longleftrightarrow> (\<exists>e. pay (ct_mem t1) a = Some e \<and> unat (cn_last_activity_ns e) + unat tmo \<le> unat now)"
        by (auto simp: pay_def)
      then show ?thesis using d i by (force simp: stale_def repD(3) [OF rep])
    qed
    then show ?thesis by force
  qed
  have "card stale = length (filter (idle now u) (lu_entries u))"
    using d distinct_card [of "map fst (filter (idle now u) (lu_entries u))"] by (simp add: st distinct_map_filter)
  moreover have "dom (ct_mem t2) = dom (ct_mem t1) - stale"
    using d by (auto simp: rep_dom [OF t2(2)] rep_dom [OF rep] sw(2) st image_iff distinct_map dest: inj_onD)
  ultimately show ?thesis using t2(1) sw(1) by simp
qed

end
