(* ===== verification/Conn_Examples.thy ===== *)
theory Conn_Examples
  imports Conn_Props
begin

text \<open>A small connection table on which each property of \<open>Conn_Props\<close> applies.\<close>

definition demo_heap :: heap where
  "demo_heap = \<lparr>hp_calls = 0, hp_ok = (\<lambda>_. True), hp_live = 0\<rparr>"

definition demo_table :: "(unit, unit, unit) lk_conn_table" where
  "demo_table = the (table_start 4 100 None () [(5432, LK_PROTO_PG)] (Some LK_PROTO_PG) demo_heap)"

definition demo_tuple :: lk_tuple where
  "demo_tuple = \<lparr>tp_family = 2, tp_netns = 0, tp_saddr = [], tp_daddr = [], tp_sport = 5432, tp_dport = 40000\<rparr>"

definition demo_ops :: "table_op list" where
  "demo_ops = [TOpen 7 0 10 demo_tuple False, TOpen 8 0 90 demo_tuple True]"

lemma demo_start: "table_start 4 100 None () [(5432, LK_PROTO_PG)] (Some LK_PROTO_PG) demo_heap = Some demo_table"
  by (simp add: demo_table_def table_start_def lk_conn_table_new_def hp_alloc_def demo_heap_def Let_def)

lemma demo_heap_table: "ct_heap demo_table = demo_heap\<lparr>hp_calls := 2, hp_live := 2\<rparr>"
  by (simp add: demo_table_def table_start_def lk_conn_table_new_def hp_alloc_def demo_heap_def Let_def
      lk_conn_table_set_protos_def lk_conn_table_on_destroy_def Let_def)

lemma no_hook: "hook_plain None x"
  by (simp add: hook_plain_def)

lemmas lru_eval = lru_start_def lru_touch_or_create_def lru_find_def lru_create_def lru_evict_def lru_touch_def
  entry_at_def without_def fresh_entry_def open_entry_def lru_resolve_def lk_conn_zero_def hp_alloc_def
  lk_conn_table_stats_zero_def seq_step_def count_lost_def demo_heap_table demo_heap_def demo_tuple_def mark_dirty_def Let_def

theorem conn_table_refines_lru_witness:
  "\<exists>t'. run_table [TOpen 7 0 10 demo_tuple False, TData 7 5 20, TClose 9 1 30] demo_table = Some ([(Some 0, 0), (Some 0, 4), (None, 0)], t')"
  using conn_table_refines_lru [OF demo_start _ no_hook, of "[TOpen 7 0 10 demo_tuple False, TData 7 5 20, TClose 9 1 30]"]
  by (auto simp: lru_eval lru_close_def)

lemma demo_run: "\<exists>rs t. run_table demo_ops demo_table = Some (rs, t)"
  using table_run_sim [OF start_rep [OF demo_start _ no_hook], of demo_ops] by auto

theorem conn_table_bounded_witness:
  "\<exists>rs t'. run_table demo_ops demo_table = Some (rs, t') \<and> card (dom (ct_mem t')) = cs_active (ct_st t') \<and> cs_active (ct_st t') \<le> 4"
  using demo_run conn_table_bounded [OF demo_start _ no_hook, of demo_ops] by fastforce

theorem conn_table_conservation_witness:
  "\<exists>rs t'. run_table demo_ops demo_table = Some (rs, t')
     \<and> cs_created (ct_st t') = cs_active (ct_st t') + cs_closed (ct_st t') + cs_evicted_lru (ct_st t') + cs_evicted_idle (ct_st t')"
  using demo_run conn_table_conservation [OF demo_start _ no_hook, of demo_ops] by fastforce

theorem conn_table_sweep_exact_witness:
  "\<exists>rs t1 t2. run_table demo_ops demo_table = Some (rs, t1)
     \<and> lk_conn_table_sweep 150 t1 = Some (card {a. \<exists>c. ct_mem t1 a = Some c \<and> unat (cn_last_activity_ns c) + 100 \<le> 150}, t2)"
proof -
  obtain rs t1 where r: "run_table demo_ops demo_table = Some (rs, t1)" using demo_run by blast
  then show ?thesis
    using conn_table_sweep_exact [OF demo_start _ no_hook r, of 150] by (auto simp: demo_ops_def word_le_nat_alt)
qed


end
