(* ===== verification/Decode.thy ===== *)
theory Decode
  imports Lk_Types
begin

text \<open>
  The ring-buffer record decoder, src/src/agent/decode.c, over the raw bytes of a record. The C code
  lays the structs of src/src/bpf/latkit.h over the record; \<open>read_hdr\<close>, \<open>read_tuple\<close>, \<open>read_conn\<close> and
  \<open>read_data\<close> are that layout on a little-endian machine with natural alignment. The encoders are
  what the kernel side writes and serve the round trip.
\<close>

section \<open>Struct layout\<close>

definition sizeof_hdr :: nat where "sizeof_hdr = 24"
definition sizeof_conn :: nat where "sizeof_conn = 80"
definition sizeof_data :: nat where "sizeof_data = 40"

definition read_hdr :: "bytes \<Rightarrow> lk_ev_hdr" where
  "read_hdr p = \<lparr>eh_conn_id = le64 p, eh_ts_ns = le64 (drop 8 p), eh_seq = le32 (drop 16 p), eh_type = p ! 20,
     eh_dir = p ! 21, eh_flags = le16 (drop 22 p)\<rparr>"

definition read_tuple :: "bytes \<Rightarrow> lk_tuple" where
  "read_tuple p = \<lparr>tp_family = p ! 0, tp_netns = le32 (drop 4 p), tp_saddr = take 16 (drop 8 p),
     tp_daddr = take 16 (drop 24 p), tp_sport = le16 (drop 40 p), tp_dport = le16 (drop 42 p)\<rparr>"

definition read_conn :: "bytes \<Rightarrow> lk_ev_conn" where
  "read_conn p = \<lparr>ec_hdr = read_hdr p, ec_tuple = read_tuple (drop 24 p), ec_pid = le32 (drop 68 p),
     ec_conn_dropped = le32 (drop 72 p)\<rparr>"

definition read_data :: "bytes \<Rightarrow> lk_ev_data" where
  "read_data p = \<lparr>ed_hdr = read_hdr p, ed_total_len = unat (le32 (drop 24 p)), ed_off = unat (le32 (drop 28 p)),
     ed_cap_len = unat (le32 (drop 32 p)), ed_payload = drop sizeof_data p\<rparr>"

section \<open>lk_ev_decode\<close>

datatype lk_decode_status = LK_DEC_CONN | LK_DEC_DATA | LK_DEC_SHORT | LK_DEC_UNKNOWN

record lk_ev_view =
  v_hdr :: "lk_ev_hdr option"
  v_conn :: "lk_ev_conn option"
  v_data :: "lk_ev_data option"
  v_cap_len :: nat

definition lk_ev_view_zero :: lk_ev_view where
  "lk_ev_view_zero = \<lparr>v_hdr = None, v_conn = None, v_data = None, v_cap_len = 0\<rparr>"

definition lk_ev_decode :: "bytes \<Rightarrow> lk_decode_status \<times> lk_ev_view" where
  "lk_ev_decode buf =
     (let v = lk_ev_view_zero
      in if length buf < sizeof_hdr then (LK_DEC_SHORT, v)
         else
           (let hdr = read_hdr buf; v = v\<lparr>v_hdr := Some hdr\<rparr>
            in if eh_type hdr = 1 \<or> eh_type hdr = 2 then
                 (if length buf < sizeof_conn then (LK_DEC_SHORT, v)
                  else (LK_DEC_CONN, v\<lparr>v_conn := Some (read_conn buf)\<rparr>))
               else if eh_type hdr = 0 then
                 (if length buf < sizeof_data then (LK_DEC_SHORT, v)
                  else if 1 < eh_dir hdr then (LK_DEC_UNKNOWN, v)
                  else (let d = read_data buf
                        in (LK_DEC_DATA, v\<lparr>v_data := Some d, v_cap_len := min (ed_cap_len d) (length buf - sizeof_data)\<rparr>)))
               else (LK_DEC_UNKNOWN, v)))"

text \<open>\<open>v->hdr->dir\<close> of a data record as an index of \<open>lk_conn.frame[2]\<close>.\<close>

definition dir_of :: "u8 \<Rightarrow> lk_dir" where
  "dir_of b = (if b = 0 then LK_DIR_SEND else LK_DIR_RECV)"

section \<open>What the kernel writes\<close>

definition put_hdr :: "lk_ev_hdr \<Rightarrow> bytes" where
  "put_hdr h = put_le64 (eh_conn_id h) @ put_le64 (eh_ts_ns h) @ put_le32 (eh_seq h) @ [eh_type h, eh_dir h] @ put_le16 (eh_flags h)"

definition put_tuple :: "lk_tuple \<Rightarrow> bytes" where
  "put_tuple t = [tp_family t, 0, 0, 0] @ put_le32 (tp_netns t) @ tp_saddr t @ tp_daddr t @ put_le16 (tp_sport t) @ put_le16 (tp_dport t)"

definition tuple_ok :: "lk_tuple \<Rightarrow> bool" where
  "tuple_ok t \<longleftrightarrow> length (tp_saddr t) = 16 \<and> length (tp_daddr t) = 16"

definition put_conn :: "lk_ev_conn \<Rightarrow> bytes" where
  "put_conn e = put_hdr (ec_hdr e) @ put_tuple (ec_tuple e) @ put_le32 (ec_pid e) @ put_le32 (ec_conn_dropped e) @ [0, 0, 0, 0]"

definition put_data :: "lk_ev_data \<Rightarrow> bytes" where
  "put_data e = put_hdr (ed_hdr e) @ put_le32 (of_nat (ed_total_len e)) @ put_le32 (of_nat (ed_off e))
     @ put_le32 (of_nat (ed_cap_len e)) @ [0, 0, 0, 0] @ ed_payload e"

lemma length_put_hdr [simp]: "length (put_hdr h) = 24"
  by (simp add: put_hdr_def)

lemma length_put_tuple: "tuple_ok t \<Longrightarrow> length (put_tuple t) = 44"
  by (simp add: put_tuple_def tuple_ok_def)

lemma length_put_conn: "tuple_ok (ec_tuple e) \<Longrightarrow> length (put_conn e) = sizeof_conn"
  by (simp add: put_conn_def length_put_tuple sizeof_conn_def)

lemma length_put_data: "length (put_data e) = sizeof_data + length (ed_payload e)"
  by (simp add: put_data_def sizeof_data_def)

lemma read_put_hdr [simp]: "read_hdr (put_hdr h @ r) = h"
proof -
  have "put_hdr h @ r = put_le64 (eh_conn_id h) @ put_le64 (eh_ts_ns h) @ put_le32 (eh_seq h) @ [eh_type h, eh_dir h] @ put_le16 (eh_flags h) @ r"
    by (simp add: put_hdr_def)
  then show ?thesis by (simp add: read_hdr_def nth_append)
qed

lemma read_put_tuple:
  assumes "tuple_ok t"
  shows "read_tuple (put_tuple t @ r) = t"
proof -
  have "put_tuple t @ r = [tp_family t, 0, 0, 0] @ put_le32 (tp_netns t) @ tp_saddr t @ tp_daddr t @ put_le16 (tp_sport t) @ put_le16 (tp_dport t) @ r"
    by (simp add: put_tuple_def)
  moreover have "length (tp_saddr t) = 16" "length (tp_daddr t) = 16" using assms by (simp_all add: tuple_ok_def)
  ultimately show ?thesis by (simp add: read_tuple_def nth_append)
qed

lemma read_put_conn:
  assumes "tuple_ok (ec_tuple e)"
  shows "read_conn (put_conn e) = e"
  using read_put_tuple [OF assms] length_put_tuple [OF assms]
  by (simp add: read_conn_def put_conn_def)

lemma read_put_data:
  assumes "ed_total_len e < 2 ^ 32" "ed_off e < 2 ^ 32" "ed_cap_len e < 2 ^ 32"
  shows "read_data (put_data e) = e"
  using assms by (simp add: read_data_def put_data_def sizeof_data_def unsigned_of_nat take_bit_nat_eq_self_iff)

section \<open>Properties\<close>

text \<open>C26. Decoding inverts the kernel's layout: an open or close record and a data record decode to
  the event they were written from, the payload length clamped to what the record holds.\<close>

theorem lk_ev_decode_roundtrip:
  assumes "tuple_ok (ec_tuple e)" and "eh_type (ec_hdr e) \<in> {1, 2}"
    and "ed_total_len d < 2 ^ 32" and "ed_off d < 2 ^ 32" and "ed_cap_len d < 2 ^ 32"
    and "eh_type (ed_hdr d) = 0" and "eh_dir (ed_hdr d) \<le> 1"
  shows "lk_ev_decode (put_conn e) = (LK_DEC_CONN, \<lparr>v_hdr = Some (ec_hdr e), v_conn = Some e, v_data = None, v_cap_len = 0\<rparr>)
     \<and> lk_ev_decode (put_data d) = (LK_DEC_DATA,
         \<lparr>v_hdr = Some (ed_hdr d), v_conn = None, v_data = Some d, v_cap_len = min (ed_cap_len d) (length (ed_payload d))\<rparr>)"
proof -
  have hdr: "read_hdr (put_conn e) = ec_hdr e" "read_hdr (put_data d) = ed_hdr d"
    by (simp_all add: put_conn_def put_data_def)
  have len: "\<not> sizeof_conn < sizeof_hdr" "\<not> sizeof_data + n < sizeof_hdr" for n
    by (simp_all add: sizeof_conn_def sizeof_hdr_def sizeof_data_def)
  have "lk_ev_decode (put_conn e) = (LK_DEC_CONN, \<lparr>v_hdr = Some (ec_hdr e), v_conn = Some e, v_data = None, v_cap_len = 0\<rparr>)"
    using assms(1,2) len by (simp add: lk_ev_decode_def Let_def hdr read_put_conn length_put_conn lk_ev_view_zero_def)
  moreover have "lk_ev_decode (put_data d) = (LK_DEC_DATA,
         \<lparr>v_hdr = Some (ed_hdr d), v_conn = None, v_data = Some d, v_cap_len = min (ed_cap_len d) (length (ed_payload d))\<rparr>)"
    using assms(3-7) len by (simp add: lk_ev_decode_def Let_def hdr read_put_data length_put_data lk_ev_view_zero_def)
  ultimately show ?thesis by blast
qed

definition demo_hdr :: "u8 \<Rightarrow> lk_ev_hdr" where
  "demo_hdr ty = \<lparr>eh_conn_id = 7, eh_ts_ns = 99, eh_seq = 3, eh_type = ty, eh_dir = 1, eh_flags = 4\<rparr>"

definition demo_conn_ev :: lk_ev_conn where
  "demo_conn_ev = \<lparr>ec_hdr = demo_hdr 1, ec_tuple = \<lparr>tp_family = 2, tp_netns = 5, tp_saddr = replicate 16 1,
     tp_daddr = replicate 16 2, tp_sport = 5432, tp_dport = 40000\<rparr>, ec_pid = 0, ec_conn_dropped = 0\<rparr>"

definition demo_data_ev :: lk_ev_data where
  "demo_data_ev = \<lparr>ed_hdr = demo_hdr 0, ed_total_len = 10, ed_off = 0, ed_cap_len = 8, ed_payload = [1, 2, 3]\<rparr>"

theorem lk_ev_decode_roundtrip_witness:
  "fst (lk_ev_decode (put_conn demo_conn_ev)) = LK_DEC_CONN \<and> v_conn (snd (lk_ev_decode (put_conn demo_conn_ev))) = Some demo_conn_ev
   \<and> v_cap_len (snd (lk_ev_decode (put_data demo_data_ev))) = 3"
  using lk_ev_decode_roundtrip [of demo_conn_ev demo_data_ev]
  by (simp add: tuple_ok_def demo_conn_ev_def demo_data_ev_def demo_hdr_def)

text \<open>C27. Every record is classified, and what the classification promises holds of the raw bytes: the
  structs that are read lie inside the record, a data record's direction indexes the two-element frame
  array, its payload prefix lies inside the record, and a record that is neither gives nothing to
  route.\<close>

theorem lk_ev_decode_sound:
  "case lk_ev_decode buf of (st, v) \<Rightarrow>
     (case st of
        LK_DEC_CONN \<Rightarrow> sizeof_conn \<le> length buf \<and> v_hdr v = Some (read_hdr buf) \<and> v_conn v = Some (read_conn buf) \<and> v_data v = None
          \<and> (eh_type (read_hdr buf) = 1 \<or> eh_type (read_hdr buf) = 2)
      | LK_DEC_DATA \<Rightarrow> sizeof_data \<le> length buf \<and> v_hdr v = Some (read_hdr buf) \<and> v_conn v = None \<and> v_data v = Some (read_data buf)
          \<and> eh_dir (read_hdr buf) \<le> 1 \<and> sizeof_data + v_cap_len v \<le> length buf \<and> v_cap_len v \<le> ed_cap_len (read_data buf)
          \<and> length (take (v_cap_len v) (ed_payload (read_data buf))) = v_cap_len v
      | _ \<Rightarrow> v_conn v = None \<and> v_data v = None \<and> v_cap_len v = 0)"
  by (auto simp: lk_ev_decode_def Let_def lk_ev_view_zero_def read_data_def not_less)

end
