(* ===== verification/Framer_Keeps.thy ===== *)
theory Framer_Keeps
  imports Reassembly
begin

text \<open>
  What the framer does to a connection and to the handler behind its sink is made of few kinds of
  step: an edit of a direction's frame, the pinning of the protocol, a hook of the protocol, a
  callback of the sink. A preorder that holds across each of these holds across a whole data event
  (\<open>framer_keeps\<close>); the pipeline's invariants are instances of it.
\<close>

type_synonym ('h, 'ps, 'fs) conn_rel = "'h \<times> ('ps, 'fs) lk_conn \<Rightarrow> 'h \<times> ('ps, 'fs) lk_conn \<Rightarrow> bool"

definition follows :: "('h, 'ps, 'fs) conn_rel \<Rightarrow> ('h, 'ps, 'fs) lk_msg_sink \<Rightarrow> bool" where
  "follows R s \<longleftrightarrow>
     (\<forall>cb h c d m. sk_on_msg s = Some cb \<longrightarrow> R (h, c) (cb h c d m)) \<and>
     (\<forall>cb h c d. sk_on_resync s = Some cb \<longrightarrow> R (h, c) (cb h c d))"

text \<open>The relation across a framer call, which leaves the sink's callbacks in place.\<close>

definition via :: "('h, 'ps, 'fs) conn_rel \<Rightarrow> ('h, 'ps, 'fs) lk_reasm \<Rightarrow> ('ps, 'fs) lk_conn
    \<Rightarrow> ('h, 'ps, 'fs) lk_reasm \<Rightarrow> ('ps, 'fs) lk_conn \<Rightarrow> bool" where
  "via R r c r' c' \<longleftrightarrow> R (sk_ctx (r_sink r), c) (sk_ctx (r_sink r'), c') \<and>
     (\<exists>h. r_sink r' = (r_sink r)\<lparr>sk_ctx := h\<rparr>)"

definition step_via :: "('h, 'ps, 'fs) conn_rel \<Rightarrow> ('h, 'ps, 'fs) lk_reasm \<Rightarrow> ('ps, 'fs) lk_conn
    \<Rightarrow> (('h, 'ps, 'fs) lk_reasm, ('ps, 'fs) lk_conn, 'i) step \<Rightarrow> bool" where
  "step_via R r c st = (case st of Return r' c' \<Rightarrow> via R r c r' c' | Next r' c' i \<Rightarrow> via R r c r' c')"

lemma step_via_simps [simp]:
  "step_via R r c (Return r' c') = via R r c r' c'"
  "step_via R r c (Next r' c' i) = via R r c r' c'"
  by (simp_all add: step_via_def)

lemma step_if: "(b \<Longrightarrow> step_via R r c x) \<Longrightarrow> (\<not> b \<Longrightarrow> step_via R r c y) \<Longrightarrow> step_via R r c (if b then x else y)"
  by simp

lemma step_pair: "(\<And>a b. q = (a, b) \<Longrightarrow> step_via R r c (f a b)) \<Longrightarrow> step_via R r c (case q of (a, b) \<Rightarrow> f a b)"
  by (cases q) simp

lemma sink_via: "via R r c r' c' \<Longrightarrow> sk_on_msg (r_sink r') = sk_on_msg (r_sink r) \<and> sk_on_resync (r_sink r') = sk_on_resync (r_sink r)
    \<and> sk_on_conn_close (r_sink r') = sk_on_conn_close (r_sink r)"
  by (auto simp: via_def)

lemma follows_via: "via R r c r' c' \<Longrightarrow> follows R (r_sink r) \<Longrightarrow> follows R (r_sink r')"
  using sink_via [of R r c r' c'] by (simp add: follows_def)

lemma buf_put_sink [simp]: "r_sink (buf_put r b) = r_sink r"
  by (simp add: buf_put_def split: option.split)

lemma buf_acquire_sink: "buf_acquire r f = (r', f') \<Longrightarrow> r_sink r' = r_sink r"
  by (auto simp: buf_acquire_def buf_get_def Let_def split: option.splits if_splits prod.splits)

lemma acquire_if_sink: "(if b then buf_acquire r f else (r, f)) = (r', f') \<Longrightarrow> r_sink r' = r_sink r"
  using buf_acquire_sink by (cases b) auto

lemma upd_st_sink [simp]: "r_sink (upd_st g r) = r_sink r"
  by (simp add: upd_st_def)

lemma count_hole_sink [simp]: "r_sink (count_hole n r) = r_sink r"
  by (simp add: count_hole_def)

lemma msg_reset_sink: "msg_reset r f = (r', f') \<Longrightarrow> r_sink r' = r_sink r"
  by (auto simp: msg_reset_def)

locale framer_keeps =
  fixes tab :: "lk_proto_id \<Rightarrow> ('h, 'ps, 'fs) lk_proto_ops" and I :: "lk_proto_id set"
    and R :: "('h, 'ps, 'fs) conn_rel"
  assumes R_refl: "R x x"
    and R_trans: "R x y \<Longrightarrow> R y z \<Longrightarrow> R x z"
    and R_frame: "R (h, c) (h, upd_frame d f c)"
    and R_pin: "R (h, c) (h, c\<lparr>cn_ops := Some (lk_conn_proto c)\<rparr>)"
    and R_proto: "R (h, c) (h', c') \<Longrightarrow> lk_conn_proto c' = lk_conn_proto c"
    and R_pre_emit: "i \<in> I \<Longrightarrow> op_pre_emit (tab i) c d m = (c', m') \<Longrightarrow> R (h, c) (h, c')"
    and R_intercept_bytes: "i \<in> I \<Longrightarrow> op_intercept_bytes (tab i) = Some ib \<Longrightarrow> follows R (r_sink r)
      \<Longrightarrow> ib r c d p ts = (go, r', c', p') \<Longrightarrow> via R r c r' c'"
    and R_intercept_hole: "i \<in> I \<Longrightarrow> op_intercept_hole (tab i) = Some ih \<Longrightarrow> ih c d = (hit, c') \<Longrightarrow> R (h, c) (h, c')"
    and R_stream_bytes: "i \<in> I \<Longrightarrow> has_flag (op_flags (tab i)) LK_PROTO_F_STREAM \<Longrightarrow> follows R (r_sink r)
      \<Longrightarrow> op_stream_bytes (tab i) r c d p ts = (r', c') \<Longrightarrow> via R r c r' c'"
    and R_stream_hole: "i \<in> I \<Longrightarrow> has_flag (op_flags (tab i)) LK_PROTO_F_STREAM \<Longrightarrow> follows R (r_sink r)
      \<Longrightarrow> op_stream_hole (tab i) r c d n = (r', c') \<Longrightarrow> via R r c r' c'"
begin

lemma via_refl: "r_sink r' = r_sink r \<Longrightarrow> via R r c r' c"
  by (auto simp: via_def R_refl intro: exI [of _ "sk_ctx (r_sink r)"])

lemma via_trans: "via R r c r1 c1 \<Longrightarrow> via R r1 c1 r' c' \<Longrightarrow> via R r c r' c'"
  using R_trans by (fastforce simp: via_def)

lemma via_frame: "via R r c r' c' \<Longrightarrow> via R r c r' (upd_frame d f c')"
  using R_trans R_frame by (auto simp: via_def)

lemma via_from_frame: "via R r (upd_frame d f c) r' c' \<Longrightarrow> via R r c r' c'"
  using R_trans [OF R_frame] by (auto simp: via_def)

lemma via_sink: "via R r c r1 c' \<Longrightarrow> r_sink r' = r_sink r1 \<Longrightarrow> via R r c r' c'"
  by (simp add: via_def)

lemma via_from_sink: "via R r1 c r' c' \<Longrightarrow> r_sink r1 = r_sink r \<Longrightarrow> via R r c r' c'"
  by (simp add: via_def)

lemma call_on_msg_via: "follows R (r_sink r) \<Longrightarrow> call_on_msg r c d m = (r', c') \<Longrightarrow> via R r c r' c'"
  by (cases "sk_on_msg (r_sink r)") (auto simp: call_on_msg_def follows_def via_def R_refl intro: exI [of _ "sk_ctx (r_sink r)"] split: prod.splits, metis)

lemma call_on_resync_via: "follows R (r_sink r) \<Longrightarrow> call_on_resync r c d = (r', c') \<Longrightarrow> via R r c r' c'"
  by (cases "sk_on_resync (r_sink r)") (auto simp: call_on_resync_def follows_def via_def R_refl intro: exI [of _ "sk_ctx (r_sink r)"] split: prod.splits, metis)

lemma go_dirty_via: "go_dirty g r c d = (r', c') \<Longrightarrow> via R r c r' c'"
  by (auto simp: go_dirty_def msg_reset_def Let_def intro!: via_frame via_refl)

lemma do_resync_via: "follows R (r_sink r) \<Longrightarrow> do_resync r c d = (r', c') \<Longrightarrow> via R r c r' c'"
  by (auto simp: do_resync_def msg_reset_def Let_def dest!: call_on_resync_via [rotated] intro: via_from_sink via_from_frame)

lemma stamp_resync_R: "stamp_resync c d m = (c', m') \<Longrightarrow> R (h, c) (h, c')"
  by (auto simp: stamp_resync_def R_refl R_frame split: if_splits)

lemma emit_via:
  assumes "i \<in> I" "follows R (r_sink r)" "emit (tab i) r c d body = (r', c')"
  shows "via R r c r' c'"
proof -
  obtain c1 m1 where 1: "op_pre_emit (tab i) c d \<lparr>m_ts_ns = fr_msg_ts (cn_frame c d), m_type = fr_msg_type (cn_frame c d),
      m_flags = 0, m_len = fr_msg_len (cn_frame c d), m_body = body\<rparr> = (c1, m1)" by fastforce
  obtain c2 m2 where 2: "stamp_resync c1 d m1 = (c2, m2)" by fastforce
  have "R (h, c) (h, c2)" for h
    using R_trans [OF R_pre_emit [OF assms(1) 1] stamp_resync_R [OF 2]] .
  moreover obtain r2 m3 where "call_on_msg r2 c2 d m3 = (r', c')" and s: "r_sink r2 = r_sink r"
    using assms(3) by (fastforce simp: emit_def Let_def 1 2 split: if_splits)
  ultimately show ?thesis
    using call_on_msg_via [of r2 c2 d m3 r' c'] assms(2) R_trans by (fastforce simp: via_def)
qed

lemma after_emit_via: "via R r c r' c' \<Longrightarrow> step_via R r c (after_emit r' c' ef p)"
  by (auto simp: after_emit_def went_blind_def intro: via_sink split: if_splits)

lemma emit_reset_via:
  assumes "i \<in> I" "follows R (r_sink r)"
  shows "step_via R r c (case emit (tab i) r (upd_frame d f c) d body of (r, c) \<Rightarrow>
      case msg_reset r (cn_frame c d) of (r, f) \<Rightarrow> after_emit r (upd_frame d (g f) c) ef rest)"
proof -
  obtain r1 c1 where 1: "emit (tab i) r (upd_frame d f c) d body = (r1, c1)" by fastforce
  obtain r2 f2 where 2: "msg_reset r1 (cn_frame c1 d) = (r2, f2)" by fastforce
  have "via R r c r1 c1"
    using via_from_frame [OF emit_via [OF assms 1]] .
  then have "via R r c r2 (upd_frame d (g f2) c1)"
    using msg_reset_sink [OF 2] by (blast intro: via_frame via_sink)
  then show ?thesis by (simp add: 1 2 after_emit_via)
qed

lemma go_dirty_step: "step_via R r c (case go_dirty g r (upd_frame d f c) d of (r, c) \<Rightarrow> Return r c)"
  using go_dirty_via via_from_frame by (cases "go_dirty g r (upd_frame d f c) d") fastforce

lemma header_step_via:
  assumes "i \<in> I" "follows R (r_sink r)"
  shows "step_via R r c (header_step (tab i) d ef ts r c p)"
proof -
  note emit = emit_reset_via [OF assms, where g = "\<lambda>f. f"]
  show ?thesis
    unfolding header_step_def Let_def
    by (intro step_if step_pair emit go_dirty_step) (simp_all add: via_frame via_refl)
qed

lemma body_cont_via: "r_sink r' = r_sink r \<Longrightarrow> step_via R r c (body_cont d r' c f p k s)"
  unfolding body_cont_def
  by (rule step_pair) (auto simp: Let_def dest: acquire_if_sink intro!: via_frame via_refl)

lemma body_emit_via:
  assumes "i \<in> I" "follows R (r_sink r)" "r_sink r' = r_sink r"
  shows "step_via R r c (body_emit (tab i) d ef r' c f p k s)"
  using emit_reset_via [OF assms(1), where r = r' and c = c and d = d and f = f and body = "fr_buf_bytes f @ take k p"
        and g = "\<lambda>f. if 0 < s then f\<lparr>fr_st := LK_FR_SKIP, fr_skip_left := s\<rparr> else f" and ef = ef and rest = "drop k p"] assms(2,3)
  by (simp add: body_emit_def Let_def step_via_def via_def split: step.splits)

lemma body_step_via:
  assumes "i \<in> I" "follows R (r_sink r)"
  shows "step_via R r c (body_step (tab i) d ef r c p)"
  unfolding body_step_def Let_def
  by (intro step_pair step_if body_cont_via body_emit_via assms)
    (auto dest: acquire_if_sink buf_acquire_sink intro!: via_frame via_refl)

lemma dirty_step_via: "follows R (r_sink r) \<Longrightarrow> step_via R r c (dirty_step ops d r c p)"
  unfolding dirty_step_def
  by (auto split: prod.splits intro!: via_frame via_refl intro: via_from_frame do_resync_via)

lemma bytes_step_via:
  assumes "i \<in> I" "follows R (r_sink r)"
  shows "step_via R r c (bytes_step (tab i) d ef ts r c p)"
  using header_step_via [OF assms] body_step_via [OF assms] dirty_step_via [OF assms(2)]
  by (auto simp: bytes_step_def skip_step_def Let_def split: lk_frame_state.split intro!: via_frame via_refl)

lemma bytes_loop_via:
  assumes "i \<in> I"
  shows "bytes_loop (tab i) d ef ts r c p = Some (r', c') \<Longrightarrow> follows R (r_sink r) \<Longrightarrow> via R r c r' c'"
proof (induction "tab i" d ef ts r c p "(r', c')" rule: bytes_loop.raw_induct [rotated 1, consumes 1, case_names loop])
  case (loop self dir ef ts r c p)
  then show ?case
    using bytes_step_via [OF assms loop.prems(1), of c dir ef ts p]
    by (auto split: if_splits step.splits intro: via_refl) (meson via_trans follows_via)
qed

lemma hole_step_via:
  assumes "i \<in> I" "follows R (r_sink r)"
  shows "step_via R r c (hole_step (tab i) d ef r c n)"
proof -
  have dirty: "step_via R r c (case go_dirty g r c d of (r, c) \<Rightarrow> Return r c)" for g
    using go_dirty_step [where r = r and c = c and g = g and d = d and f = "cn_frame c d"] by simp
  have emit: "step_via R r c (case emit (tab i) r c d body of (r, c) \<Rightarrow>
      case msg_reset r (cn_frame c d) of (r, f) \<Rightarrow> after_emit r (upd_frame d (g f) c) ef rest)" for body g rest
    using emit_reset_via [OF assms, where c = c and d = d and f = "cn_frame c d" and body = body and g = g and ef = ef and rest = rest] by simp
  have body: "step_via R r c (hole_body_step (tab i) d ef r c n)"
    unfolding hole_body_step_def Let_def by (intro step_if emit) (simp add: via_frame via_refl)
  show ?thesis
    unfolding hole_step_def using dirty body
    by (auto simp: Let_def via_frame via_refl split: lk_frame_state.split)
qed

lemma hole_loop_via:
  assumes "i \<in> I"
  shows "hole_loop (tab i) d ef r c n = Some (r', c') \<Longrightarrow> follows R (r_sink r) \<Longrightarrow> via R r c r' c'"
proof (induction "tab i" d ef r c n "(r', c')" rule: hole_loop.raw_induct [rotated 1, consumes 1, case_names loop])
  case (loop self dir ef r c n)
  then show ?case
    using hole_step_via [OF assms loop.prems(1), of c dir ef n]
    by (auto split: if_splits step.splits intro: via_refl) (meson via_trans follows_via)
qed

lemma via_pin: "via R r c r (c\<lparr>cn_ops := Some (lk_conn_proto c)\<rparr>)"
  by (auto simp: via_def R_pin intro: exI [of _ "sk_ctx (r_sink r)"])

lemma lk_frame_bytes_via:
  assumes "lk_conn_proto c \<in> I" "follows R (r_sink r)" "lk_frame_bytes tab r c d p ts = Some (r', c')"
  shows "via R r c r' c'"
proof -
  let ?i = "lk_conn_proto c" and ?c = "c\<lparr>cn_ops := Some (lk_conn_proto c)\<rparr>"
  have loop: "via R r ?c r' c'" if "via R r ?c r1 c1" "bytes_loop (tab ?i) d ef ts r1 c1 q = Some (r', c')" for ef q r1 c1
    using bytes_loop_via [OF assms(1) that(2)] that(1) follows_via [OF that(1) assms(2)] via_trans by blast
  have ib: "via R r ?c r' c'" if "op_intercept_bytes (tab ?i) = Some ib" "ib r ?c d p ts = (go, r1, c1, q)"
      "(if go then bytes_loop (tab ?i) d (cn_flags c) ts r1 c1 q else Some (r1, c1)) = Some (r', c')" for ib go r1 c1 q
    using R_intercept_bytes [OF assms(1) that(1) assms(2) that(2)] loop that(3) by (auto split: if_splits)
  have "via R r ?c r' c'"
    using assms(3) loop [OF via_refl] ib R_stream_bytes [OF assms(1) _ assms(2)]
    by (auto simp: lk_frame_bytes_def conn_ops_def Let_def via_refl split: if_splits option.splits prod.splits)
  then show ?thesis using via_pin via_trans by blast
qed

lemma lk_frame_hole_via:
  assumes "lk_conn_proto c \<in> I" "follows R (r_sink r)" "lk_frame_hole tab r c d n = Some (r', c')"
  shows "via R r c r' c'"
proof -
  let ?i = "lk_conn_proto c" and ?c = "c\<lparr>cn_ops := Some (lk_conn_proto c)\<rparr>"
  have loop: "via R r c1 r' c'" if "hole_loop (tab ?i) d ef (count_hole n r) c1 n = Some (r', c')" for ef c1
    using hole_loop_via [OF assms(1) that] assms(2) via_from_sink by simp
  have stream: "via R r ?c r' c'" if "op_stream_hole (tab ?i) (count_hole n r) ?c d n = (r', c')"
      "has_flag (op_flags (tab ?i)) LK_PROTO_F_STREAM"
    using R_stream_hole [OF assms(1) that(2) _ that(1)] assms(2) via_from_sink by simp
  obtain hit c1 where ih: "(case op_intercept_hole (tab ?i) of None \<Rightarrow> (False, ?c) | Some ih \<Rightarrow> ih ?c d) = (hit, c1)"
    by fastforce
  then have 1: "via R r ?c r c1"
    using R_intercept_hole [OF assms(1)] R_refl
    by (auto simp: via_def intro: exI [of _ "sk_ctx (r_sink r)"] split: option.splits)
  have rest: "via R r c1 r' c'"
    if "(if hit then Some (go_dirty inc_hdr_holes r c1 d)
         else if fr_st (cn_frame c1 d) = LK_FR_DIRTY then Some (r, upd_frame d ((cn_frame c1 d)\<lparr>fr_resync_matched := 0\<rparr>) c1)
         else hole_loop (tab ?i) d ef (count_hole n r) c1 n) = Some (r', c')" for ef
    using that loop go_dirty_via by (auto simp: via_frame via_refl split: if_splits)
  have "via R r ?c r' c'"
    using assms(3) stream via_trans [OF 1 rest [of "cn_flags ?c"]]
    by (cases "n = 0"; cases "has_flag (op_flags (tab ?i)) LK_PROTO_F_STREAM")
      (simp_all add: lk_frame_hole_def conn_ops_def Let_def via_refl ih)
  then show ?thesis using via_pin via_trans by blast
qed

lemma via_proto: "via R r c r' c' \<Longrightarrow> lk_conn_proto c' = lk_conn_proto c"
  using R_proto by (auto simp: via_def)

lemma call_begin_via:
  assumes "lk_conn_proto c \<in> I" "follows R (r_sink r)" "call_begin tab r c d ev = Some (r', c')"
  shows "via R r c r' c'"
  using assms(3) lk_frame_hole_via [OF assms(1,2)]
  by (auto simp: call_begin_def Let_def split: if_splits bind_splits intro!: via_frame via_refl)

lemma call_align_via:
  assumes "lk_conn_proto c \<in> I" "follows R (r_sink r)" "call_align tab r c d ev n = Some (r', c')"
  shows "via R r c r' c'"
  using assms(3) lk_frame_hole_via [OF assms(1,2)] go_dirty_via
  by (auto simp: call_align_def Let_def split: if_splits bind_splits prod.splits intro!: via_frame via_refl)

text \<open>A data event: the relation holds across it and the callbacks stay.\<close>

theorem lk_reasm_data_via:
  assumes "lk_conn_proto c \<in> I" "follows R (r_sink r)" "lk_reasm_data tab r c d ev n = Some (r', c')"
  shows "via R r c r' c'"
proof -
  let ?i = "lk_conn_proto c" and ?c = "c\<lparr>cn_ops := Some (lk_conn_proto c)\<rparr>"
  have pin: "via R r c r ?c" "lk_conn_proto ?c \<in> I" using via_pin assms(1) by (auto simp: lk_conn_proto_def)
  show ?thesis
  proof (cases "has_flag (cn_flags c) (LK_CONN_CANCEL OR LK_CONN_IGNORE) \<or> has_flag (cn_flags c) LK_CONN_TLS \<and> \<not> has_flag (eh_flags (ed_hdr ev)) LK_F_DECRYPTED")
    case True
    then show ?thesis using assms(3) pin(1) by (auto simp: lk_reasm_data_def conn_ops_def Let_def split: if_splits)
  next
    case False
    then obtain r1 c1 r2 c2 r3 c3 r4 c4 where
      b: "call_begin tab r ?c d ev = Some (r1, c1)" and a: "call_align tab r1 c1 d ev n = Some (r2, c2)"
      and s: "(r3, c3) = (if fr_st (cn_frame c2 d) = LK_FR_DIRTY \<and> \<not> has_flag (op_flags (tab ?i)) LK_PROTO_F_STREAM
          \<and> op_resync_boundary (tab ?i) d ev n then do_resync r2 c2 d else (r2, c2))"
      and f: "(if 0 < n then lk_frame_bytes tab r3 c3 d (take n (ed_payload ev)) (eh_ts_ns (ed_hdr ev)) else Some (r3, c3)) = Some (r4, c4)"
      and e: "r' = r4" "c' = call_end c4 d ev n"
      using assms(3) by (auto simp: lk_reasm_data_def conn_ops_def Let_def split: bind_splits prod.splits)
    have 1: "via R r c r1 c1" using call_begin_via [OF pin(2) assms(2) b] pin(1) via_trans by blast
    note i1 = via_proto [OF 1] and f1 = follows_via [OF 1 assms(2)]
    have "via R r1 c1 r2 c2" using call_align_via [OF _ f1 a] i1 assms(1) by simp
    with 1 have 2: "via R r c r2 c2" by (rule via_trans)
    have "via R r2 c2 r3 c3"
      using s do_resync_via [OF follows_via [OF 2 assms(2)], of c2 d r3 c3] by (auto simp: via_refl split: if_splits)
    with 2 have 3: "via R r c r3 c3" by (rule via_trans)
    have "via R r3 c3 r4 c4"
      using f lk_frame_bytes_via [OF _ follows_via [OF 3 assms(2)], of c3] via_proto [OF 3] assms(1)
      by (auto simp: via_refl split: if_splits)
    with 3 have "via R r c r4 c4" by (rule via_trans)
    then show ?thesis by (simp add: e call_end_def Let_def via_frame)
  qed
qed

end

end
