(* ===== verification/Pipeline.thy ===== *)
theory Pipeline
  imports Conn_Refine Decode Framer Framer_Keeps
begin

text \<open>
  The event path, src/src/agent/pipeline.c: a raw record is decoded, routed through the connection
  table and, when it carries data, through the framer, whose sink calls the protocol handler.

  The table and the framer share one state: the removal hook of the table gets the pipeline as its
  context and calls the framer's sink, so \<open>p->reasm\<close> is the context \<open>ct_ctx\<close> of the table \<open>p->conns\<close>,
  and the two use the same allocator, \<open>ct_heap\<close>.
\<close>

type_synonym ('h, 'ps, 'fs) lk_pipeline = "(('h, 'ps, 'fs) lk_reasm, 'ps, 'fs) lk_conn_table"

record lk_pipeline_ev =
  pe_status :: lk_decode_status
  pe_view :: lk_ev_view
  pe_conn :: "addr option"
  pe_lost :: u32
  pe_tls_now :: bool
  pe_tls_socket_dropped :: bool
  pe_decrypted_early :: bool

section \<open>Set-up and teardown\<close>

definition pipeline_on_destroy :: "(('h, 'ps, 'fs) lk_reasm, 'ps, 'fs) destroy_hook" where
  "pipeline_on_destroy r c =
     (case sk_on_conn_close (r_sink r) of
        None \<Rightarrow> (r, c)
      | Some cb \<Rightarrow> (let (h, c) = cb (sk_ctx (r_sink r)) c in (r\<lparr>r_sink := (r_sink r)\<lparr>sk_ctx := h\<rparr>\<rparr>, c)))"

definition lk_pipeline_init :: "nat \<Rightarrow> u64 \<Rightarrow> ('h, 'ps, 'fs) lk_msg_sink \<Rightarrow> heap \<Rightarrow> ('h, 'ps, 'fs) lk_pipeline option \<times> heap" where
  "lk_pipeline_init max_conns idle_timeout_ns sink hp =
     (let reasm = lk_reasm_init sink hp
      in case lk_conn_table_new max_conns idle_timeout_ns reasm hp of
           (None, hp) \<Rightarrow> (None, hp)
         | (Some conns, hp) \<Rightarrow> (Some (lk_conn_table_on_destroy (Some pipeline_on_destroy) reasm conns), hp))"

text \<open>What is left of a pipeline: the framer with its pool drained.\<close>

definition lk_pipeline_fini :: "('h, 'ps, 'fs) lk_pipeline \<Rightarrow> ('h, 'ps, 'fs) lk_reasm option" where
  "lk_pipeline_fini p = map_option (\<lambda>(reasm, hp). lk_reasm_free (reasm\<lparr>r_heap := hp\<rparr>)) (lk_conn_table_free p)"

section \<open>One record\<close>

text \<open>\<open>lk_reasm_data(&p->reasm, c, dir, data, cap_len)\<close> and \<open>lk_conn_tls_reset_framing(c, midstream)\<close>
  through a pointer to the entry.\<close>

definition reasm_data_at :: "(lk_proto_id \<Rightarrow> ('h, 'ps, 'fs) lk_proto_ops) \<Rightarrow> addr \<Rightarrow> lk_dir \<Rightarrow> lk_ev_data \<Rightarrow> nat
    \<Rightarrow> ('h, 'ps, 'fs) lk_pipeline \<Rightarrow> ('h, 'ps, 'fs) lk_pipeline option" where
  "reasm_data_at tab a dir d cap_len p = do {
     c \<leftarrow> ct_mem p a;
     (r, c) \<leftarrow> lk_reasm_data tab ((ct_ctx p)\<lparr>r_heap := ct_heap p\<rparr>) c dir d cap_len;
     Some (p\<lparr>ct_ctx := r, ct_heap := r_heap r, ct_mem := (ct_mem p)(a \<mapsto> c)\<rparr>)
   }"

definition tls_reset_at :: "bool \<Rightarrow> addr \<Rightarrow> ('h, 'ps, 'fs) lk_pipeline \<Rightarrow> ('h, 'ps, 'fs) lk_pipeline option" where
  "tls_reset_at midstream a p = do {
     c \<leftarrow> ct_mem p a;
     let (c, hp) = lk_conn_tls_reset_framing midstream c (ct_heap p);
     Some (p\<lparr>ct_heap := hp, ct_mem := (ct_mem p)(a \<mapsto> c)\<rparr>)
   }"

text \<open>\<open>case LK_DEC_CONN\<close>\<close>

definition feed_conn :: "lk_ev_hdr \<Rightarrow> lk_ev_conn \<Rightarrow> lk_pipeline_ev \<Rightarrow> ('h, 'ps, 'fs) lk_pipeline
    \<Rightarrow> (lk_pipeline_ev \<times> ('h, 'ps, 'fs) lk_pipeline) option" where
  "feed_conn hdr conn out p =
     (if eh_type hdr = 2
      then do {
        (lost, p) \<leftarrow> lk_conn_table_close (eh_conn_id hdr) (eh_seq hdr) (eh_ts_ns hdr) p;
        Some (out\<lparr>pe_lost := lost\<rparr>, p)
      }
      else do {
        (c, lost, p) \<leftarrow> lk_conn_table_open (eh_conn_id hdr) (eh_seq hdr) (eh_ts_ns hdr) (ec_tuple conn)
                         (has_flag (eh_flags hdr) LK_F_SYNTHETIC) p;
        Some (out\<lparr>pe_conn := c, pe_lost := lost\<rparr>, p)
      })"

text \<open>\<open>if (decrypted) { ... break; }\<close>\<close>

definition feed_decrypted :: "(lk_proto_id \<Rightarrow> ('h, 'ps, 'fs) lk_proto_ops) \<Rightarrow> lk_ev_hdr \<Rightarrow> lk_ev_data \<Rightarrow> nat \<Rightarrow> lk_pipeline_ev
    \<Rightarrow> ('h, 'ps, 'fs) lk_pipeline \<Rightarrow> (lk_pipeline_ev \<times> ('h, 'ps, 'fs) lk_pipeline) option" where
  "feed_decrypted tab hdr d cap_len out p = do {
     (c, lost, p) \<leftarrow> lk_conn_table_data_decrypted (eh_conn_id hdr) (eh_seq hdr) (eh_ts_ns hdr) p;
     let out = out\<lparr>pe_conn := c, pe_lost := lost\<rparr>;
     case c of
       None \<Rightarrow> Some (out, p)
     | Some a \<Rightarrow> do {
         e \<leftarrow> ct_mem p a;
         let early = \<not> has_flag (cn_flags e) LK_CONN_TLS;
         p \<leftarrow> (if early then do {
                  p \<leftarrow> poke a (\<lambda>c. c\<lparr>cn_flags := cn_flags c OR LK_CONN_TLS\<rparr>) p;
                  p \<leftarrow> tls_reset_at True a p;
                  Some (lk_conn_table_note_tls_open p)
                } else Some p);
         p \<leftarrow> reasm_data_at tab a (dir_of (eh_dir hdr)) d cap_len p;
         Some (out\<lparr>pe_decrypted_early := early\<rparr>, p)
       }
   }"

text \<open>The plaintext socket event.\<close>

definition feed_plain :: "(lk_proto_id \<Rightarrow> ('h, 'ps, 'fs) lk_proto_ops) \<Rightarrow> lk_ev_hdr \<Rightarrow> lk_ev_data \<Rightarrow> nat \<Rightarrow> lk_pipeline_ev
    \<Rightarrow> ('h, 'ps, 'fs) lk_pipeline \<Rightarrow> (lk_pipeline_ev \<times> ('h, 'ps, 'fs) lk_pipeline) option" where
  "feed_plain tab hdr d cap_len out p = do {
     (c, lost, p) \<leftarrow> lk_conn_table_data (eh_conn_id hdr) (eh_seq hdr) (eh_ts_ns hdr) p;
     let out = out\<lparr>pe_conn := c, pe_lost := lost\<rparr>;
     case c of
       None \<Rightarrow> Some (out, p)
     | Some a \<Rightarrow> do {
         e \<leftarrow> ct_mem p a;
         let was_tls = has_flag (cn_flags e) LK_CONN_TLS;
         p \<leftarrow> reasm_data_at tab a (dir_of (eh_dir hdr)) d cap_len p;
         e \<leftarrow> ct_mem p a;
         let tls_now = (\<not> was_tls \<and> has_flag (cn_flags e) LK_CONN_TLS);
         p \<leftarrow> (if tls_now then do {
                  p \<leftarrow> tls_reset_at False a p;
                  Some (lk_conn_table_note_tls_open p)
                } else Some p);
         Some (out\<lparr>pe_tls_now := tls_now\<rparr>, p)
       }
   }"

text \<open>\<open>c && (c->flags & LK_CONN_TLS)\<close> for the peeked entry.\<close>

definition peek_tls :: "u64 \<Rightarrow> ('h, 'ps, 'fs) lk_pipeline \<Rightarrow> addr option option" where
  "peek_tls cookie p = do {
     c \<leftarrow> lk_conn_table_peek cookie p;
     case c of
       None \<Rightarrow> Some None
     | Some a \<Rightarrow> do { e \<leftarrow> ct_mem p a; Some (if has_flag (cn_flags e) LK_CONN_TLS then Some a else None) }
   }"

text \<open>\<open>case LK_DEC_DATA\<close>\<close>

definition feed_data :: "(lk_proto_id \<Rightarrow> ('h, 'ps, 'fs) lk_proto_ops) \<Rightarrow> lk_ev_hdr \<Rightarrow> lk_ev_data \<Rightarrow> nat \<Rightarrow> lk_pipeline_ev
    \<Rightarrow> ('h, 'ps, 'fs) lk_pipeline \<Rightarrow> (lk_pipeline_ev \<times> ('h, 'ps, 'fs) lk_pipeline) option" where
  "feed_data tab hdr d cap_len out p = do {
     tls \<leftarrow> peek_tls (eh_conn_id hdr) p;
     if has_flag (eh_flags hdr) LK_F_DECRYPTED then feed_decrypted tab hdr d cap_len out p
     else (case tls of
             Some a \<Rightarrow> do {
               p \<leftarrow> lk_conn_table_note_tls_drop a (eh_seq hdr) (eh_ts_ns hdr) p;
               Some (out\<lparr>pe_conn := Some a, pe_tls_socket_dropped := True\<rparr>, p)
             }
           | None \<Rightarrow> feed_plain tab hdr d cap_len out p)
   }"

text \<open>None also stands for a NULL \<open>v->hdr\<close>, \<open>v->conn\<close> or \<open>v->data\<close> being read.\<close>

definition lk_pipeline_feed :: "(lk_proto_id \<Rightarrow> ('h, 'ps, 'fs) lk_proto_ops) \<Rightarrow> bytes \<Rightarrow> ('h, 'ps, 'fs) lk_pipeline
    \<Rightarrow> (lk_pipeline_ev \<times> ('h, 'ps, 'fs) lk_pipeline) option" where
  "lk_pipeline_feed tab data p =
     (let (status, v) = lk_ev_decode data;
          out = \<lparr>pe_status = status, pe_view = v, pe_conn = None, pe_lost = 0, pe_tls_now = False,
                 pe_tls_socket_dropped = False, pe_decrypted_early = False\<rparr>
      in case status of
           LK_DEC_CONN \<Rightarrow> do { hdr \<leftarrow> v_hdr v; conn \<leftarrow> v_conn v; feed_conn hdr conn out p }
         | LK_DEC_DATA \<Rightarrow> do { hdr \<leftarrow> v_hdr v; d \<leftarrow> v_data v; feed_data tab hdr d (v_cap_len v) out p }
         | LK_DEC_SHORT \<Rightarrow> Some (out, p)
         | LK_DEC_UNKNOWN \<Rightarrow> Some (out, p))"

section \<open>The event loop's view\<close>

text \<open>What the agent does with a pipeline: records from the ring buffer and periodic sweeps.\<close>

datatype pipe_op = PFeed bytes | PSweep u64

fun pipe_step :: "(lk_proto_id \<Rightarrow> ('h, 'ps, 'fs) lk_proto_ops) \<Rightarrow> pipe_op \<Rightarrow> ('h, 'ps, 'fs) lk_pipeline \<Rightarrow> ('h, 'ps, 'fs) lk_pipeline option" where
  "pipe_step tab (PFeed data) p = map_option snd (lk_pipeline_feed tab data p)"
| "pipe_step tab (PSweep now) p = map_option snd (lk_conn_table_sweep now p)"

fun pipe_run :: "(lk_proto_id \<Rightarrow> ('h, 'ps, 'fs) lk_proto_ops) \<Rightarrow> pipe_op list \<Rightarrow> ('h, 'ps, 'fs) lk_pipeline \<Rightarrow> ('h, 'ps, 'fs) lk_pipeline option" where
  "pipe_run tab [] p = Some p"
| "pipe_run tab (x # xs) p = do { p \<leftarrow> pipe_step tab x p; pipe_run tab xs p }"

end
