(* ===== verification/Pipeline_Inv.thy ===== *)
theory Pipeline_Inv
  imports Pipeline
begin

text \<open>
  The invariant of the event path. It is stated once for every set of message-framed protocols and
  every sink that keep the contract \<open>pipeline_env\<close>, and covers the table's links, every entry's framer
  state, the block accounting of the allocator, the TLS gauge, and whatever the handler behind the sink
  keeps of its own state (\<open>P\<close>, \<open>Q\<close>, and a potential \<open>nu\<close> of the handler balanced by the weight \<open>mu\<close> of
  the per-connection states).
\<close>

section \<open>Writing an entry back\<close>

definition replaced :: "addr \<Rightarrow> 'e \<Rightarrow> (addr \<times> 'e) list \<Rightarrow> (addr \<times> 'e) list" where
  "replaced a e E = map (\<lambda>(b, x). (b, if b = a then e else x)) E"

lemma replaced_split: "a \<notin> fst ` set (xs @ ys) \<Longrightarrow> replaced a e (xs @ (a, x) # ys) = xs @ (a, e) # ys"
  by (force simp: replaced_def intro!: map_idI)

definition same_links :: "('ps, 'fs) lk_conn \<Rightarrow> ('ps, 'fs) lk_conn \<Rightarrow> bool" where
  "same_links c c' \<longleftrightarrow> cn_cookie c' = cn_cookie c \<and> cn_hnext c' = cn_hnext c \<and> cn_lru_prev c' = cn_lru_prev c \<and> cn_lru_next c' = cn_lru_next c"

lemma rep_replace:
  assumes rep: "conn_rep t u" and c: "ct_mem t a = Some c" and l: "same_links c c'" and h: "hook_plain (ct_on_destroy t) x"
  shows "conn_rep (t\<lparr>ct_ctx := x, ct_heap := hp, ct_mem := (ct_mem t)(a \<mapsto> c')\<rparr>)
     (u\<lparr>lu_ctx := x, lu_heap := hp, lu_entries := replaced a (strip c') (lu_entries u)\<rparr>)" (is "conn_rep ?t ?u")
proof -
  note r = repD [OF rep]
  have "pay (ct_mem t) a = Some (strip c)" using c by (simp add: mem_proj)
  then have "a \<in> fst ` set (lu_entries u)" using r(3) by (metis map_of_eq_None_iff option.distinct(1))
  then obtain xs ys where E: "lu_entries u = xs @ (a, strip c) # ys" and n: "a \<notin> fst ` set (xs @ ys)"
    using rep_entry [OF rep] c by (metis option.inject)
  have E': "replaced a (strip c') (lu_entries u) = xs @ (a, strip c') # ys" unfolding E by (rule replaced_split [OF n])
  have p: "hn (ct_mem ?t) = hn (ct_mem t)" "lks (ct_mem ?t) = lks (ct_mem t)" "pay (ct_mem ?t) = (pay (ct_mem t))(a \<mapsto> strip c')"
    using l c by (auto simp: same_links_def proj_upd fun_eq_iff mem_proj)
  have "hash_bucket ?t = hash_bucket t" by (rule hash_bucket_cong) simp
  then have "members ?t = members t" using l c by (auto simp: same_links_def members_def fun_eq_iff split: if_splits)
  then have "chains_ok ?t" using r(2) p(1) by (simp add: chains_ok_def chains_for_def)
  moreover have "lru_ok ?t (map fst (lu_entries ?u))" using r(1) p(2) E E' by (simp add: lru_ok_def)
  moreover have "pay (ct_mem ?t) = map_of (lu_entries ?u)"
    using p(3) r(3) E E' map_of_middle [of a xs "strip c" ys] map_of_middle [of a xs "strip c'" ys] n by (simp add: image_Un)
  moreover have "entries_ok (lu_entries ?u) (ct_brk ?t)"
    using r(4) E E' l by (auto simp: entries_ok_def same_links_def)
  ultimately show ?thesis using r(5-8) h E E' by (simp add: conn_rep_def same_config_def same_vars_def)
qed

section \<open>Decoded records\<close>

lemma decode_fields:
  assumes "lk_ev_decode data = (st, v)"
  shows "st = LK_DEC_CONN \<Longrightarrow> \<exists>h e. v_hdr v = Some h \<and> v_conn v = Some e" "st = LK_DEC_DATA \<Longrightarrow> \<exists>h e. v_hdr v = Some h \<and> v_data v = Some e"
  using assms by (auto simp: lk_ev_decode_def Let_def split: if_splits)

section \<open>Sums over the entries\<close>

definition tot :: "(('ps, 'fs) lk_conn \<Rightarrow> nat) \<Rightarrow> (addr \<times> ('ps, 'fs) lk_conn) list \<Rightarrow> nat" where
  "tot f E = sum_list (map (f \<circ> snd) E)"

lemma tot_simps [simp]: "tot f [] = 0" "tot f (e # E) = f (snd e) + tot f E" "tot f (E @ E') = tot f E + tot f E'"
  by (simp_all add: tot_def)

lemma tot_replaced:
  assumes "distinct (map fst E)" "(a, c) \<in> set E"
  shows "tot f (replaced a c' E) + f c = tot f E + f c'"
proof -
  obtain xs ys where E: "E = xs @ (a, c) # ys" using assms(2) by (auto dest: split_list)
  then have "a \<notin> fst ` set (xs @ ys)" using assms(1) by auto
  then show ?thesis by (simp add: E replaced_split)
qed

lemma tot_without:
  assumes "distinct (map fst E)" "(a, c) \<in> set E"
  shows "tot f E = f c + tot f (without a E)"
proof -
  obtain xs ys where E: "E = xs @ (a, c) # ys" using assms(2) by (auto dest: split_list)
  then have "a \<notin> fst ` set (xs @ ys)" using assms(1) by auto
  then have "without a E = xs @ ys" by (simp add: E without_append without_Cons without_id image_Un)
  then show ?thesis by (simp add: E)
qed

section \<open>What an entry owes\<close>

abbreviation is_tls :: "('ps, 'fs) lk_conn \<Rightarrow> bool" where
  "is_tls c \<equiv> has_flag (cn_flags c) LK_CONN_TLS"

text \<open>The blocks an entry accounts for: itself, its slabs, its stream-framer state.\<close>

definition held :: "('ps, 'fs) lk_conn \<Rightarrow> nat" where
  "held c = 1 + slabs_held c + (if cn_frame_state c = None then 0 else 1)"

definition tls_one :: "('ps, 'fs) lk_conn \<Rightarrow> nat" where
  "tls_one c = (if is_tls c then 1 else 0)"

text \<open>How an entry may change while the framer holds it.\<close>

definition evolves :: "('ps, 'fs) lk_conn \<Rightarrow> ('ps, 'fs) lk_conn \<Rightarrow> bool" where
  "evolves c c' \<longleftrightarrow> same_links c c' \<and> cn_frame_state c' = cn_frame_state c \<and> lk_conn_proto c' = lk_conn_proto c \<and> (is_tls c \<longrightarrow> is_tls c')"

lemma evolves_refl [simp]: "evolves c c"
  by (simp add: evolves_def same_links_def)

lemma evolves_trans: "evolves c c' \<Longrightarrow> evolves c' c'' \<Longrightarrow> evolves c c''"
  by (simp add: evolves_def same_links_def)

lemma evolves_frame: "evolves c (upd_frame d f c)"
  by (simp add: evolves_def same_links_def upd_frame_def lk_conn_proto_def)

lemma evolves_pin: "evolves c (c\<lparr>cn_ops := Some (lk_conn_proto c)\<rparr>)"
  by (simp add: evolves_def same_links_def lk_conn_proto_def)

lemma keeps_core_evolves: "keeps_core c c' \<Longrightarrow> (is_tls c \<longrightarrow> is_tls c') \<Longrightarrow> evolves c c'"
proof -
  assume k: "keeps_core c c'" and t: "is_tls c \<longrightarrow> is_tls c'"
  obtain fl ps where c': "c' = c\<lparr>cn_flags := fl, cn_proto_state := ps\<rparr>" using k unfolding keeps_core_def by blast
  show ?thesis using t unfolding c' by (simp add: evolves_def same_links_def lk_conn_proto_def)
qed

text \<open>A callback of the sink, from handler state and connection to handler state and connection.\<close>

definition handler_step :: "('ps option \<Rightarrow> bool) \<Rightarrow> ('h \<Rightarrow> 'h \<Rightarrow> bool) \<Rightarrow> ('ps option \<Rightarrow> nat) \<Rightarrow> ('h \<Rightarrow> nat)
    \<Rightarrow> ('h, 'ps, 'fs) conn_rel" where
  "handler_step P Q mu nu x y \<longleftrightarrow>
     (P (cn_proto_state (snd x)) \<longrightarrow> P (cn_proto_state (snd y)) \<and> Q (fst x) (fst y)
        \<and> nu (fst y) + mu (cn_proto_state (snd x)) = nu (fst x) + mu (cn_proto_state (snd y)))"

text \<open>What the framer may do to an entry and to the handler.\<close>

definition pipe_rel :: "('ps option \<Rightarrow> bool) \<Rightarrow> ('h \<Rightarrow> 'h \<Rightarrow> bool) \<Rightarrow> ('ps option \<Rightarrow> nat) \<Rightarrow> ('h \<Rightarrow> nat)
    \<Rightarrow> ('h, 'ps, 'fs) conn_rel" where
  "pipe_rel P Q mu nu x y \<longleftrightarrow> evolves (snd x) (snd y) \<and> handler_step P Q mu nu x y"

lemma pipe_rel_trans:
  assumes "\<And>h h' h''. Q h h' \<Longrightarrow> Q h' h'' \<Longrightarrow> Q h h''" "pipe_rel P Q mu nu x y" "pipe_rel P Q mu nu y z"
  shows "pipe_rel P Q mu nu x z"
proof -
  have "evolves (snd x) (snd z)" using assms(2,3) evolves_trans by (auto simp: pipe_rel_def)
  then show ?thesis using assms by (auto simp: pipe_rel_def handler_step_def)
qed

lemma pipe_rel_edit: "Q h h \<Longrightarrow> evolves c c' \<Longrightarrow> cn_proto_state c' = cn_proto_state c \<Longrightarrow> pipe_rel P Q mu nu (h, c) (h, c')"
  by (simp add: pipe_rel_def handler_step_def)

text \<open>The protocol hooks of the framer stay within it.\<close>

definition hooks_ok :: "('h, 'ps, 'fs) conn_rel \<Rightarrow> ('h, 'ps, 'fs) lk_proto_ops \<Rightarrow> bool" where
  "hooks_ok R ops \<longleftrightarrow>
     (\<forall>h c d m. R (h, c) (h, fst (op_pre_emit ops c d m))) \<and>
     (\<forall>ib r c d p ts go r' c' p'. op_intercept_bytes ops = Some ib \<longrightarrow> follows R (r_sink r) \<longrightarrow> ib r c d p ts = (go, r', c', p')
        \<longrightarrow> via R r c r' c') \<and>
     (\<forall>ih h c d. op_intercept_hole ops = Some ih \<longrightarrow> R (h, c) (h, snd (ih c d)))"

locale pipeline_env =
  fixes tab :: "lk_proto_id \<Rightarrow> ('h, 'ps, 'fs) lk_proto_ops" and I :: "lk_proto_id set" and s0 :: "('h, 'ps, 'fs) lk_msg_sink"
    and P :: "'ps option \<Rightarrow> bool" and Q :: "'h \<Rightarrow> 'h \<Rightarrow> bool" and mu :: "'ps option \<Rightarrow> nat" and nu :: "'h \<Rightarrow> nat"
    and M :: nat
  assumes default_in: "LK_PROTO_PG \<in> I"
    and ops_ok: "i \<in> I \<Longrightarrow> framer_ops (tab i)"
    and hooks: "i \<in> I \<Longrightarrow> hooks_ok (pipe_rel P Q mu nu) (tab i)"
    and P_None: "P None" and mu_None: "mu None = 0"
    and Q_refl: "Q h h" and Q_trans: "Q h h' \<Longrightarrow> Q h' h'' \<Longrightarrow> Q h h''"
    and msg_step: "sk_on_msg s0 = Some cb \<Longrightarrow> handler_step P Q mu nu (h, c) (cb h c d m)"
    and msg_keeps: "sk_on_msg s0 = Some cb \<Longrightarrow> keeps_core c (snd (cb h c d m)) \<and> (is_tls c \<longrightarrow> is_tls (snd (cb h c d m)))"
    and resync_step: "sk_on_resync s0 = Some rb \<Longrightarrow> handler_step P Q mu nu (h, c) (rb h c d)"
    and resync_keeps: "sk_on_resync s0 = Some rb \<Longrightarrow> keeps_core c (snd (rb h c d)) \<and> (is_tls c \<longrightarrow> is_tls (snd (rb h c d)))"
    and close_step: "sk_on_conn_close s0 = Some kb \<Longrightarrow> mu (cn_proto_state c) \<le> nu h \<Longrightarrow> handler_step P Q mu nu (h, c) (kb h c)"
    and close_plain: "sk_on_conn_close s0 = Some kb \<Longrightarrow> plain_edit (kb h)"
    and close_keeps: "sk_on_conn_close s0 = Some kb \<Longrightarrow> keeps_core c (snd (kb h c)) \<and> is_tls (snd (kb h c)) = is_tls c"
    and close_state: "sk_on_conn_close s0 = Some kb \<Longrightarrow> mu (cn_proto_state (snd (kb h c))) = 0"
    and no_close: "sk_on_conn_close s0 = None \<Longrightarrow> mu s = 0"
begin

abbreviation R :: "('h, 'ps, 'fs) conn_rel" where
  "R \<equiv> pipe_rel P Q mu nu"

lemma follows_s0: "follows R (s0\<lparr>sk_ctx := h\<rparr>)"
  using msg_step msg_keeps resync_step resync_keeps by (auto simp: follows_def pipe_rel_def intro: keeps_core_evolves)

lemma sink_ok_s0: "sink_ok (s0\<lparr>sk_ctx := h\<rparr>)"
  using msg_keeps resync_keeps by (auto simp: sink_ok_def)

lemma framer_keeps_R: "framer_keeps tab I R"
proof
  show "R x z" if "R x y" "R y z" for x y z using pipe_rel_trans [OF Q_trans that] .
  show "R (h, c) (h, upd_frame d f c)" "R (h, c) (h, c\<lparr>cn_ops := Some (lk_conn_proto c)\<rparr>)" for h c d f
    by (simp_all add: pipe_rel_edit Q_refl evolves_frame evolves_pin)
  show "lk_conn_proto c' = lk_conn_proto c" if "R (h, c) (h', c')" for h c h' c'
    using that by (simp add: pipe_rel_def evolves_def)
  have hk: "hooks_ok R (tab i)" if "i \<in> I" for i using hooks [OF that] .
  show "R (h, c) (h, c')" if "i \<in> I" "op_pre_emit (tab i) c d m = (c', m')" for i c d m c' m' h
    using hk [OF that(1)] that(2) unfolding hooks_ok_def by (metis fst_conv)
  show "via R r c r' c'" if "i \<in> I" "op_intercept_bytes (tab i) = Some ib" "follows R (r_sink r)" "ib r c d p ts = (go, r', c', p')"
    for i ib r c d p ts go r' c' p' using hk [OF that(1)] that(2-4) unfolding hooks_ok_def by blast
  show "R (h, c) (h, c')" if "i \<in> I" "op_intercept_hole (tab i) = Some ih" "ih c d = (hit, c')" for i ih c d hit c' h
    using hk [OF that(1)] that(2,3) unfolding hooks_ok_def by (metis snd_conv)
  have "\<not> has_flag (op_flags (tab i)) LK_PROTO_F_STREAM" if "i \<in> I" for i using framer_ops.message_mode [OF ops_ok [OF that]] .
  then show "via R r c r' c'" if "i \<in> I" "has_flag (op_flags (tab i)) LK_PROTO_F_STREAM" for i r c r' c' using that by blast
  then show "via R r c r' c'" if "i \<in> I" "has_flag (op_flags (tab i)) LK_PROTO_F_STREAM" for i r c r' c' using that by blast
qed (simp add: pipe_rel_def handler_step_def Q_refl)

end

sublocale pipeline_env \<subseteq> fk: framer_keeps tab I R
  by (rule framer_keeps_R)

section \<open>The invariant\<close>

lemma live_free_parts: "hp_live (hp_free (free_parts c hp)) = hp_live hp - held c"
  by (simp add: free_parts_def free_opt_def hp_free_def held_def slabs_held_def slabs_of_def split: option.split)

lemma held_links [simp]: "held (strip c) = held c" "tls_one (strip c) = tls_one c"
  by (simp_all add: held_def slabs_held_def strip_def tls_one_def)

lemma keeps_core_held: "keeps_core c c' \<Longrightarrow> held c' = held c"
proof -
  assume "keeps_core c c'"
  then obtain fl ps where c': "c' = c\<lparr>cn_flags := fl, cn_proto_state := ps\<rparr>" unfolding keeps_core_def by blast
  show ?thesis unfolding c' by (simp add: held_def slabs_held_def)
qed

context pipeline_env begin

definition entry_ok :: "('ps, 'fs) lk_conn \<Rightarrow> bool" where
  "entry_ok c \<longleftrightarrow> lk_conn_proto c \<in> I \<and> P (cn_proto_state c)
     \<and> (\<forall>d. frame_inv (op_hdr_size (tab (lk_conn_proto c)) c d (cn_frame c d)) (cn_frame c d))"

definition config_ok :: "(('h, 'ps, 'fs) lk_reasm, 'ps, 'fs) lru \<Rightarrow> bool" where
  "config_ok u \<longleftrightarrow> lu_max u = (if M = 0 then 1 else M) \<and> lu_hook u = Some pipeline_on_destroy \<and> snd ` set (lu_protos u) \<subseteq> I \<and> (\<forall>i. lu_dflt u = Some i \<longrightarrow> i \<in> I)"

definition ctx_ok :: "'h \<Rightarrow> ('h, 'ps, 'fs) lk_reasm \<Rightarrow> bool" where
  "ctx_ok h0 r \<longleftrightarrow> (\<exists>h. r_sink r = s0\<lparr>sk_ctx := h\<rparr>) \<and> Q h0 (sk_ctx (r_sink r)) \<and> r_pool_n r \<le> LK_REASM_POOL_MAX"

text \<open>The books: \<open>K\<close> blocks and \<open>Z\<close> of the handler's potential belong to others; \<open>g\<close> is what the TLS
  gauge is behind between a flip and its count.\<close>

definition books :: "nat \<Rightarrow> nat \<Rightarrow> u32 \<Rightarrow> (('h, 'ps, 'fs) lk_reasm, 'ps, 'fs) lru \<Rightarrow> bool" where
  "books K Z g u \<longleftrightarrow> hp_live (lu_heap u) = K + r_pool_n (lu_ctx u) + tot held (lu_entries u)
     \<and> cs_tls_active (lu_st u) + g = of_nat (tot tls_one (lu_entries u))
     \<and> nu (sk_ctx (r_sink (lu_ctx u))) = Z + tot (mu \<circ> cn_proto_state) (lu_entries u)"

definition pinv :: "'h \<Rightarrow> nat \<Rightarrow> nat \<Rightarrow> u32 \<Rightarrow> (('h, 'ps, 'fs) lk_reasm, 'ps, 'fs) lru \<Rightarrow> bool" where
  "pinv h0 K Z g u \<longleftrightarrow> config_ok u \<and> ctx_ok h0 (lu_ctx u) \<and> (\<forall>e \<in> set (lu_entries u). entry_ok (snd e)) \<and> books K Z g u"

lemma hdr_size_conn: "i \<in> I \<Longrightarrow> op_hdr_size (tab i) c d f = op_hdr_size (tab i) c' d f"
  by (rule framer_ops.hdr_size_cong [OF ops_ok]) simp_all

lemma entry_ok_cong:
  assumes "lk_conn_proto c' = lk_conn_proto c" "cn_proto_state c' = cn_proto_state c" "cn_frame c' = cn_frame c"
  shows "entry_ok c' = entry_ok c"
  using assms hdr_size_conn [of "lk_conn_proto c" c' _ _ c] by (auto simp: entry_ok_def)

lemma entry_ok_strip [simp]: "entry_ok (strip c) = entry_ok c"
  by (rule entry_ok_cong) (simp_all add: strip_def lk_conn_proto_def)

lemma entry_ok_dirty: "entry_ok c \<Longrightarrow> entry_ok (mark_dirty c)"
  by (auto simp: entry_ok_def mark_dirty_def dirty_frame_def frame_inv_def lk_conn_proto_def fr_buf_len_def)

section \<open>Edits that change no account\<close>

definition benign :: "('ps, 'fs) lk_conn \<Rightarrow> ('ps, 'fs) lk_conn \<Rightarrow> bool" where
  "benign c c' \<longleftrightarrow> held c' = held c \<and> tls_one c' = tls_one c \<and> cn_proto_state c' = cn_proto_state c \<and> (entry_ok c \<longrightarrow> entry_ok c')"

lemma benign_trans: "benign c c' \<Longrightarrow> benign c' c'' \<Longrightarrow> benign c c''"
  by (simp add: benign_def)

lemma benign_fields:
  assumes "cn_frame c' = cn_frame c" "cn_frame_state c' = cn_frame_state c" "cn_flags c' = cn_flags c" "cn_proto_state c' = cn_proto_state c"
    "cn_ops c' = cn_ops c"
  shows "benign c c'"
  using assms entry_ok_cong [of c' c] by (auto simp: benign_def held_def slabs_held_def tls_one_def lk_conn_proto_def)

lemma benign_dirty: "benign c (mark_dirty c)"
  using entry_ok_dirty [of c]
  by (simp add: benign_def held_def slabs_held_def slabs_of_def tls_one_def mark_dirty_def dirty_frame_def)

lemma benign_dirtied: "benign c c1 \<Longrightarrow> benign (mark_dirty c1) c' \<Longrightarrow> benign c c'"
  using benign_trans [OF _ benign_trans [OF benign_dirty]] .

lemma benign_seq_step: "benign c (snd (seq_step seq ts c))"
proof (cases "cn_last_seq c + 1 < seq")
  case True
  let ?c = "c\<lparr>cn_dropped := cn_dropped c + (seq - (cn_last_seq c + 1))\<rparr>"
  have "benign c ?c" by (rule benign_fields) simp_all
  moreover have "benign (mark_dirty ?c) (snd (seq_step seq ts c))"
    using True by (intro benign_fields) (simp_all add: seq_step_def Let_def)
  ultimately show ?thesis by (rule benign_dirtied)
next
  case False
  then show ?thesis by (intro benign_fields) (simp_all add: seq_step_def Let_def)
qed

lemma benign_tls_step: "benign c (snd (tls_seq_step seq ts c))"
proof (cases "cn_tls_seq_seen c \<and> cn_tls_last_seq c + 1 < seq")
  case True
  let ?c = "c\<lparr>cn_tls_dropped := cn_tls_dropped c + (seq - (cn_tls_last_seq c + 1))\<rparr>"
  have "benign c ?c" by (rule benign_fields) simp_all
  moreover have "benign (mark_dirty ?c) (snd (tls_seq_step seq ts c))"
    using True by (intro benign_fields) (simp_all add: tls_seq_step_def Let_def)
  ultimately show ?thesis by (rule benign_dirtied)
next
  case False
  then show ?thesis by (intro benign_fields) (auto simp: tls_seq_step_def Let_def)
qed

lemma benign_drop_step: "benign c (snd (drop_step seq ts c))"
  by (rule benign_fields) (simp_all add: drop_step_def)

lemma count_lost_tls [simp]: "cs_tls_active (count_lost l s) = cs_tls_active s"
  by (simp add: count_lost_def)

lemma entry_in:
  assumes "distinct (map fst (lu_entries u))" "a \<in> fst ` set (lu_entries u)"
  shows "(a, entry_at a u) \<in> set (lu_entries u)"
  using assms by (auto simp: entry_at_def)

lemma touch_pinv:
  assumes d: "distinct (map fst (lu_entries u))" and a: "a \<in> fst ` set (lu_entries u)"
    and b: "\<And>c. benign c (snd (step c))" and i: "pinv h0 K Z g u"
  shows "pinv h0 K Z g (snd (lru_touch step a u))"
proof -
  note m = entry_in [OF d a]
  note t = tot_without [OF d m]
  have "entry_ok (entry_at a u)" using i m by (force simp: pinv_def)
  then show ?thesis
    using i b [of "entry_at a u"] t [of held] t [of tls_one] t [of "mu \<circ> cn_proto_state"]
    by (auto simp: pinv_def config_ok_def books_def lru_touch_def split_beta benign_def without_def)
qed

lemma upd_lst_pinv:
  assumes "\<And>s. cs_tls_active (f s) = cs_tls_active s"
  shows "pinv h0 K Z g (upd_lst f u) = pinv h0 K Z g u"
  using assms by (simp add: pinv_def config_ok_def books_def upd_lst_def)

section \<open>Table operations keep it\<close>

lemma hooked_ok:
  assumes "config_ok u" "ctx_ok h0 (lu_ctx u)" "entry_ok (entry_at a u)" "hooked a u = (r, c)"
    "mu (cn_proto_state (entry_at a u)) \<le> nu (sk_ctx (r_sink (lu_ctx u)))"
  shows "ctx_ok h0 r" "r_pool_n r = r_pool_n (lu_ctx u)" "held c = held (entry_at a u)" "is_tls c = is_tls (entry_at a u)"
    "nu (sk_ctx (r_sink r)) + mu (cn_proto_state (entry_at a u)) = nu (sk_ctx (r_sink (lu_ctx u)))"
proof -
  obtain h where h: "r_sink (lu_ctx u) = s0\<lparr>sk_ctx := h\<rparr>" using assms(2) by (auto simp: ctx_ok_def)
  have hk: "(r, c) = pipeline_on_destroy (lu_ctx u) (entry_at a u)" using assms(1,4) by (simp add: hooked_def config_ok_def)
  have "ctx_ok h0 r \<and> r_pool_n r = r_pool_n (lu_ctx u) \<and> held c = held (entry_at a u) \<and> is_tls c = is_tls (entry_at a u)
    \<and> nu (sk_ctx (r_sink r)) + mu (cn_proto_state (entry_at a u)) = nu (sk_ctx (r_sink (lu_ctx u)))"
  proof (cases "sk_on_conn_close s0")
    case None
    then show ?thesis using hk h assms(2) no_close by (auto simp: pipeline_on_destroy_def)
  next
    case (Some kb)
    obtain h' c' where k: "kb h (entry_at a u) = (h', c')" by fastforce
    have rc: "r = (lu_ctx u)\<lparr>r_sink := s0\<lparr>sk_ctx := h'\<rparr>\<rparr>" "c = c'" using hk h Some k by (auto simp: pipeline_on_destroy_def)
    have "handler_step P Q mu nu (h, entry_at a u) (h', c')" using close_step [OF Some, of "entry_at a u" h] k h assms(5) by simp
    moreover have "P (cn_proto_state (entry_at a u))" using assms(3) by (simp add: entry_ok_def)
    ultimately have "Q h h'" "nu h' + mu (cn_proto_state (entry_at a u)) = nu h"
      using close_state [OF Some, of h "entry_at a u"] k by (simp_all add: handler_step_def)
    moreover have "keeps_core (entry_at a u) c'" "is_tls c' = is_tls (entry_at a u)" using close_keeps [OF Some, of "entry_at a u" h] k by simp_all
    ultimately show ?thesis using assms(2) h rc Q_trans keeps_core_held by (auto simp: ctx_ok_def)
  qed
  then show "ctx_ok h0 r" "r_pool_n r = r_pool_n (lu_ctx u)" "held c = held (entry_at a u)" "is_tls c = is_tls (entry_at a u)"
    "nu (sk_ctx (r_sink r)) + mu (cn_proto_state (entry_at a u)) = nu (sk_ctx (r_sink (lu_ctx u)))" by simp_all
qed

lemma destroy_pinv:
  assumes d: "distinct (map fst (lu_entries u))" and a: "a \<in> fst ` set (lu_entries u)" and i: "pinv h0 K Z g u"
  shows "pinv h0 K Z g (lru_destroy a u)"
proof -
  note m = entry_in [OF d a]
  note t = tot_without [OF d m]
  have e: "config_ok u" "ctx_ok h0 (lu_ctx u)" "entry_ok (entry_at a u)" using i m by (auto simp: pinv_def dest: bspec)
  obtain r c where h: "hooked a u = (r, c)" by fastforce
  have "mu (cn_proto_state (entry_at a u)) \<le> nu (sk_ctx (r_sink (lu_ctx u)))"
    using i t [of "mu \<circ> cn_proto_state"] by (simp add: pinv_def books_def)
  note k = hooked_ok [OF e h this]
  have "cs_tls_active (gone_stats c (lu_st u)) + g = of_nat (tot tls_one (without a (lu_entries u)))"
    using i k(4) t [of tls_one] by (auto simp: pinv_def books_def gone_stats_def Let_def tls_one_def algebra_simps split: if_splits)
  moreover have "hp_live (hp_free (free_parts c (lu_heap u))) = K + r_pool_n r + tot held (without a (lu_entries u))"
    using i k(2,3) t [of held] by (simp add: pinv_def books_def live_free_parts)
  moreover have "nu (sk_ctx (r_sink r)) = Z + tot (mu \<circ> cn_proto_state) (without a (lu_entries u))"
    using i k(5) t [of "mu \<circ> cn_proto_state"] by (simp add: pinv_def books_def)
  ultimately show ?thesis
    using i k(1) by (auto simp: pinv_def config_ok_def books_def lru_destroy_def h without_def)
qed

lemma evict_pinv:
  assumes d: "distinct (map fst (lu_entries u))" and i: "pinv h0 K Z g u"
  shows "pinv h0 K Z g (lru_evict u)"
  using destroy_pinv [OF d _ i, of "fst (last (lu_entries u))"] i by (auto simp: lru_evict_def upd_lst_pinv)

definition news :: "(('ps, 'fs) lk_conn \<Rightarrow> ('ps, 'fs) lk_conn) \<Rightarrow> bool" where
  "news f \<longleftrightarrow> (\<forall>k seq ts. held (f (fresh_entry k seq ts)) = 1 \<and> \<not> is_tls (f (fresh_entry k seq ts))
     \<and> cn_proto_state (f (fresh_entry k seq ts)) = None \<and> entry_ok (f (fresh_entry k seq ts)))"

lemma create_pinv:
  assumes d: "distinct (map fst (lu_entries u))" and i: "pinv h0 K Z g u" and n: "news f"
  shows "pinv h0 K Z g (snd (lru_create f k seq ts u))"
proof -
  note e = evict_pinv [OF d i]
  have f: "held (f (fresh_entry k seq ts)) = 1" "\<not> is_tls (f (fresh_entry k seq ts))"
     "cn_proto_state (f (fresh_entry k seq ts)) = None" "entry_ok (f (fresh_entry k seq ts))"
    using n unfolding news_def by blast+
  show ?thesis
    using e f mu_None by (auto simp: lru_create_def Let_def hp_alloc_def pinv_def config_ok_def books_def tls_one_def)
qed

lemma touch_or_create_pinv:
  assumes d: "distinct (map fst (lu_entries u))" and i: "pinv h0 K Z g u" and b: "\<And>c. benign c (snd (step c))" and n: "news f"
  shows "pinv h0 K Z g (snd (lru_touch_or_create step f k seq ts u))"
proof (cases "lru_find k u")
  case None
  then show ?thesis using create_pinv [OF d i n] by (simp add: lru_touch_or_create_def split_beta)
next
  case (Some a)
  then have "a \<in> fst ` set (lu_entries u)" using lru_find_Some by force
  then show ?thesis using touch_pinv [OF d _ b i] Some by (simp add: lru_touch_or_create_def split_beta)
qed

lemma zero_entry_ok: "lk_conn_proto c \<in> I \<Longrightarrow> cn_frame c = (\<lambda>_. lk_frame_zero) \<Longrightarrow> cn_proto_state c = None \<Longrightarrow> entry_ok c"
  using framer_ops.hdr_size_pos [OF ops_ok] P_None by (simp add: entry_ok_def frame_inv_zero)

text \<open>What the table sets in a new entry: a protocol out of \<open>I\<close>, perhaps the synthetic mark, seeds for the
  sequence check, dirty directions.\<close>

lemma news_fields:
  assumes "\<And>c. cn_frame (f c) = cn_frame c \<and> cn_frame_state (f c) = cn_frame_state c \<and> cn_proto_state (f c) = cn_proto_state c
      \<and> is_tls (f c) = is_tls c \<and> cn_ops (f c) = x"
    and "\<forall>i. x = Some i \<longrightarrow> i \<in> I"
  shows "news f"
proof -
  have "lk_conn_proto (f c) \<in> I" for c using assms default_in by (auto simp: lk_conn_proto_def split: option.split)
  then show ?thesis
    using assms(1) by (auto simp: news_def fresh_entry_def lk_conn_zero_def held_def slabs_held_def slabs_of_def lk_frame_zero_def
      intro!: zero_entry_ok)
qed

lemma news_dirty: "news f \<Longrightarrow> news (\<lambda>c. mark_dirty (f c))"
  using benign_dirty unfolding news_def benign_def by (metis (no_types, lifting) tls_one_def zero_neq_one)

lemma lru_op_news:
  assumes "config_ok u"
  shows "news (open_entry (lru_resolve u tuple) tuple syn)" "news (\<lambda>c. mark_dirty (c\<lparr>cn_ops := lu_dflt u\<rparr>))"
    "news (\<lambda>c. mark_dirty (c\<lparr>cn_ops := lu_dflt u, cn_tls_seq_seen := True, cn_tls_last_seq := seq\<rparr>))"
proof -
  have i: "\<forall>i. lru_resolve u tuple = Some i \<longrightarrow> i \<in> I" "\<forall>i. lu_dflt u = Some i \<longrightarrow> i \<in> I"
    using assms by (auto simp: config_ok_def lru_resolve_def dest!: map_of_SomeD split: option.splits)
  show "news (\<lambda>c. mark_dirty (c\<lparr>cn_ops := lu_dflt u\<rparr>))"
    "news (\<lambda>c. mark_dirty (c\<lparr>cn_ops := lu_dflt u, cn_tls_seq_seen := True, cn_tls_last_seq := seq\<rparr>))"
    using i by (auto intro!: news_dirty news_fields)
  have o: "open_entry x tuple syn = (if syn then (\<lambda>c. mark_dirty (c\<lparr>cn_tuple := Some tuple, cn_ops := x, cn_flags := cn_flags c OR LK_CONN_SYNTHETIC\<rparr>))
      else (\<lambda>c. c\<lparr>cn_tuple := Some tuple, cn_ops := x\<rparr>))" for x :: "lk_proto_id option"
    by (auto simp: open_entry_def fun_eq_iff)
  show "news (open_entry (lru_resolve u tuple) tuple syn)"
    unfolding o using i by (auto simp: flag_simps bit_simps intro!: news_dirty news_fields)
qed

lemma sweep_pinv:
  "distinct (map fst (lu_entries u)) \<Longrightarrow> pinv h0 K Z g u \<Longrightarrow> pinv h0 K Z g (snd (lru_sweep now n u))"
proof (induction now n u rule: lru_sweep.induct)
  case (1 now n u)
  show ?case
  proof (cases "lu_entries u \<noteq> [] \<and> idle now u (last (lu_entries u))")
    case True
    let ?u = "upd_lst (\<lambda>s. s\<lparr>cs_evicted_idle := cs_evicted_idle s + 1\<rparr>) (lru_destroy (fst (last (lu_entries u))) u)"
    have "pinv h0 K Z g ?u" using destroy_pinv [OF 1(2) _ 1(3)] True by (simp add: upd_lst_pinv)
    moreover have "distinct (map fst (lu_entries ?u))"
      using 1(2) by (simp add: upd_lst_def lru_destroy_entries without_def distinct_map_filter)
    ultimately show ?thesis using 1(1) [OF True] True by (simp add: lru_sweep.simps [of now n u])
  next
    case False
    then have "lru_sweep now n u = (n, u)" by (subst lru_sweep.simps) auto
    then show ?thesis using 1(3) by simp
  qed
qed

lemma close_pinv:
  assumes d: "distinct (map fst (lu_entries u))" and i: "pinv h0 K Z g u"
  shows "pinv h0 K Z g (snd (lru_close k seq ts u))"
proof (cases "lru_find k u")
  case (Some a)
  then have a: "a \<in> fst ` set (lu_entries u)" using lru_find_Some by force
  let ?u = "snd (lru_touch (seq_step seq ts) a u)"
  have "pinv h0 K Z g ?u" by (rule touch_pinv [OF d a benign_seq_step i])
  moreover have "distinct (map fst (lu_entries ?u))" "a \<in> fst ` set (lu_entries ?u)"
    using d by (auto simp: lru_touch_def split_beta without_def distinct_map_filter)
  ultimately show ?thesis using Some destroy_pinv by (simp add: lru_close_def split_beta upd_lst_pinv)
qed (use i in \<open>simp add: lru_close_def\<close>)

lemma lru_op_pinv:
  assumes d: "distinct (map fst (lu_entries u))" and i: "pinv h0 K Z g u"
  shows "pinv h0 K Z g (snd (lru_op op u))"
proof -
  have c: "config_ok u" using i by (simp add: pinv_def)
  show ?thesis
  proof (cases op)
    case (TDropped k seq ts)
    let ?u = "upd_lst (\<lambda>s. s\<lparr>cs_tls_socket_dropped := cs_tls_socket_dropped s + 1\<rparr>) u"
    have "pinv h0 K Z g (snd (lru_touch (drop_step seq ts) a ?u))" if "lru_find k u = Some a" for a
    proof -
      have "a \<in> fst ` set (lu_entries u)" using lru_find_Some [OF that] by force
      then show ?thesis using touch_pinv [of ?u a "drop_step seq ts", OF _ _ benign_drop_step] d i by (simp add: upd_lst_pinv) (simp add: upd_lst_def)
    qed
    then show ?thesis using i by (auto simp: TDropped split: option.split)
  next
    case (TSweep now)
    then show ?thesis using sweep_pinv [OF d i] by (simp add: split_beta)
  qed (use lru_op_news [OF c] touch_or_create_pinv [OF d i benign_seq_step] touch_or_create_pinv [OF d i benign_tls_step] close_pinv [OF d i] in simp_all)
qed

section \<open>The pipeline\<close>

definition pipe_ok :: "'h \<Rightarrow> nat \<Rightarrow> nat \<Rightarrow> u32 \<Rightarrow> ('h, 'ps, 'fs) lk_pipeline \<Rightarrow> bool" where
  "pipe_ok h0 K Z g p \<longleftrightarrow> (\<exists>u. conn_rep p u \<and> pinv h0 K Z g u)"

lemma hook_plain_destroy:
  assumes "\<exists>h. r_sink r = s0\<lparr>sk_ctx := h\<rparr>"
  shows "hook_plain (Some pipeline_on_destroy) r"
proof -
  let ?X = "\<lambda>r. \<exists>h. r_sink r = s0\<lparr>sk_ctx := h\<rparr>"
  have "plain_edit (pipeline_on_destroy r) \<and> ?X (fst (pipeline_on_destroy r c))" if x: "?X r" for r c
  proof (cases "sk_on_conn_close s0")
    case None
    then show ?thesis using x by (auto simp: pipeline_on_destroy_def plain_edit_def)
  next
    case (Some kb)
    obtain h where h: "r_sink r = s0\<lparr>sk_ctx := h\<rparr>" using x by blast
    have "plain_edit (kb h)" by (rule close_plain [OF Some])
    then show ?thesis using h Some by (auto simp: pipeline_on_destroy_def plain_edit_def split_beta)
  qed
  then show ?thesis unfolding hook_plain_def using assms by (intro allI impI exI [of _ ?X]) auto
qed

lemma op_ok:
  assumes "pipe_ok h0 K Z g p"
  obtains r p' where "run_table_op op p = Some (r, p')" "pipe_ok h0 K Z g p'"
proof -
  obtain u where u: "conn_rep p u" "pinv h0 K Z g u" using assms by (auto simp: pipe_ok_def)
  have d: "distinct (map fst (lu_entries u))" using repD(4) [OF u(1)] by (simp add: entries_ok_def)
  obtain p' where "run_table_op op p = Some (fst (lru_op op u), p')" "conn_rep p' (snd (lru_op op u))"
    using table_op_sim [OF u(1), of op] by blast
  then show thesis using that lru_op_pinv [OF d u(2), of op] unfolding pipe_ok_def by blast
qed

lemma touch_or_create_cookie:
  assumes "fst (lru_touch_or_create step f k seq ts u) = (Some a, l)" and "distinct (map fst (lu_entries u))" and "\<And>c. cn_cookie (snd (step c)) = cn_cookie c"
    and "\<And>c. cn_cookie (f c) = cn_cookie c"
  shows "\<exists>e. (a, e) \<in> set (lu_entries (snd (lru_touch_or_create step f k seq ts u))) \<and> cn_cookie e = k"
proof (cases "lru_find k u")
  case None
  then show ?thesis using assms(1,4)
    by (auto simp: lru_touch_or_create_def lru_create_def Let_def split_beta fresh_entry_def split: if_splits)
next
  case (Some b)
  obtain e where "(b, e) \<in> set (lu_entries u)" "cn_cookie e = k" using lru_find_Some [OF Some] by blast
  then have "cn_cookie (entry_at b u) = k" using assms(2) by (simp add: entry_at_def)
  then show ?thesis using assms(1,3) Some by (auto simp: lru_touch_or_create_def lru_touch_def split_beta)
qed

lemma table_result_mem:
  assumes "pipe_ok h0 K Z g p" "run_table_op op p = Some ((Some a, l), p')" "op = TData k seq ts \<or> op = TDecrypted k seq ts"
  shows "\<exists>c. ct_mem p' a = Some c \<and> cn_cookie c = k"
proof -
  obtain u where u: "conn_rep p u" using assms by (auto simp: pipe_ok_def)
  have d: "distinct (map fst (lu_entries u))" using repD(4) [OF u] by (simp add: entries_ok_def)
  have r: "conn_rep p' (snd (lru_op op u))" "fst (lru_op op u) = (Some a, l)" using table_op_sim [OF u, of op] assms(2) by auto
  have ck: "cn_cookie (mark_dirty c) = cn_cookie c" for c :: "('ps, 'fs) lk_conn" by (simp add: mark_dirty_def)
  have "\<exists>e. (a, e) \<in> set (lu_entries (snd (lru_op op u))) \<and> cn_cookie e = k"
    using assms(3)
  proof
    assume "op = TData k seq ts"
    then show ?thesis
      using r(2) touch_or_create_cookie [where step = "seq_step seq ts" and f = "\<lambda>c. mark_dirty (c\<lparr>cn_ops := lu_dflt u\<rparr>)" and k = k and seq = seq and ts = ts,
          OF _ d plain_editD(3) [OF plain_steps(1)]]
      by (simp add: ck)
  next
    assume "op = TDecrypted k seq ts"
    then show ?thesis
      using r(2) touch_or_create_cookie [where step = "tls_seq_step seq ts" and k = k and seq = seq and ts = ts
            and f = "\<lambda>c. mark_dirty (c\<lparr>cn_ops := lu_dflt u, cn_tls_seq_seen := True, cn_tls_last_seq := seq\<rparr>)",
          OF _ d plain_editD(3) [OF plain_steps(2)]]
      by (simp add: ck)
  qed
  then obtain e where e: "(a, e) \<in> set (lu_entries (snd (lru_op op u)))" "cn_cookie e = k" by blast
  moreover have "distinct (map fst (lu_entries (snd (lru_op op u))))" using repD(4) [OF r(1)] by (simp add: entries_ok_def)
  ultimately have "pay (ct_mem p') a = Some e" using repD(3) [OF r(1)] by simp
  then obtain c where "ct_mem p' a = Some c" "e = strip c" by (rule pay_SomeE)
  then show ?thesis using e(2) by auto
qed

lemma data_op_ok:
  assumes "pipe_ok h0 K Z g p" "op = TData k seq ts \<or> op = TDecrypted k seq ts"
  obtains q l p' where "run_table_op op p = Some ((q, l), p')" "pipe_ok h0 K Z g p'" "\<And>a. q = Some a \<Longrightarrow> \<exists>c. ct_mem p' a = Some c \<and> cn_cookie c = k"
proof -
  obtain r p' where r: "run_table_op op p = Some (r, p')" "pipe_ok h0 K Z g p'" by (rule op_ok [OF assms(1)])
  obtain q l where q: "r = (q, l)" by fastforce
  have "\<exists>c. ct_mem p' a = Some c \<and> cn_cookie c = k" if "q = Some a" for a
    using table_result_mem [OF assms(1) _ assms(2)] r(1) q that by blast
  then show thesis using that r q by blast
qed

lemma replace_ok:
  assumes rep: "conn_rep p u" and i: "pinv h0 K Z g u" and c: "ct_mem p a = Some c" and l: "same_links c c'"
    and x: "ctx_ok h0 x" and e: "entry_ok c'"
    and hp: "hp_live hp + r_pool_n (ct_ctx p) + held c = hp_live (ct_heap p) + r_pool_n x + held c'"
    and n: "nu (sk_ctx (r_sink x)) + mu (cn_proto_state c) = nu (sk_ctx (r_sink (ct_ctx p))) + mu (cn_proto_state c')"
    and t: "g' + of_nat (tls_one c) = g + of_nat (tls_one c')"
  shows "pipe_ok h0 K Z g' (p\<lparr>ct_ctx := x, ct_heap := hp, ct_mem := (ct_mem p)(a \<mapsto> c')\<rparr>)"
proof -
  have v: "lu_ctx u = ct_ctx p" "lu_heap u = ct_heap p" "ct_on_destroy p = Some pipeline_on_destroy"
    using repD(7,8) [OF rep] i by (simp_all add: same_vars_def same_config_def pinv_def config_ok_def)
  have hk: "hook_plain (ct_on_destroy p) x" unfolding v(3) by (rule hook_plain_destroy) (use x in \<open>simp add: ctx_ok_def\<close>)
  have d: "distinct (map fst (lu_entries u))" using repD(4) [OF rep] by (simp add: entries_ok_def)
  have "pay (ct_mem p) a = Some (strip c)" using c by (simp add: mem_proj)
  then have m: "(a, strip c) \<in> set (lu_entries u)" using repD(3) [OF rep] by (simp add: map_of_SomeD)
  note tr = tot_replaced [OF d m, where c' = "strip c'"]
  have "entry_ok (snd y)" if "y \<in> set (replaced a (strip c') (lu_entries u))" for y
    using that i e by (auto simp: replaced_def pinv_def)
  moreover have "cs_tls_active (lu_st u) + g' = of_nat (tot tls_one (replaced a (strip c') (lu_entries u)))"
  proof -
    have "of_nat (tot tls_one (replaced a (strip c') (lu_entries u))) + of_nat (tls_one c) = (of_nat (tot tls_one (lu_entries u)) + of_nat (tls_one c') :: u32)"
      using tr [of tls_one] by (metis held_links(2) of_nat_add)
    moreover have "of_nat (tot tls_one (lu_entries u)) = cs_tls_active (lu_st u) + g" using i by (simp add: pinv_def books_def)
    ultimately have "of_nat (tot tls_one (replaced a (strip c') (lu_entries u))) + of_nat (tls_one c) = cs_tls_active (lu_st u) + (g + of_nat (tls_one c'))"
      by (simp add: add.assoc)
    also have "\<dots> = (cs_tls_active (lu_st u) + g') + of_nat (tls_one c)" by (simp add: t [symmetric] add.assoc)
    finally show ?thesis by (rule add_right_imp_eq [symmetric])
  qed
  moreover have "hp_live hp = K + r_pool_n x + tot held (replaced a (strip c') (lu_entries u))"
    using tr [of held] hp i v by (simp add: pinv_def books_def)
  moreover have "nu (sk_ctx (r_sink x)) = Z + tot (mu \<circ> cn_proto_state) (replaced a (strip c') (lu_entries u))"
    using tr [of "mu \<circ> cn_proto_state"] n i v by (simp add: pinv_def books_def strip_def)
  ultimately have "pinv h0 K Z g' (u\<lparr>lu_ctx := x, lu_heap := hp, lu_entries := replaced a (strip c') (lu_entries u)\<rparr>)"
    using i x by (simp add: pinv_def config_ok_def books_def)
  then show ?thesis using rep_replace [OF rep c l hk] unfolding pipe_ok_def by blast
qed

lemma pipe_entry:
  assumes "pipe_ok h0 K Z g p" "ct_mem p a = Some c"
  obtains u where "conn_rep p u" "pinv h0 K Z g u" "entry_ok c" "ctx_ok h0 (ct_ctx p)"
    "r_pool_n (ct_ctx p) + held c \<le> hp_live (ct_heap p)" "ct_on_destroy p = Some pipeline_on_destroy"
proof -
  obtain u where u: "conn_rep p u" "pinv h0 K Z g u" using assms by (auto simp: pipe_ok_def)
  have "pay (ct_mem p) a = Some (strip c)" using assms(2) by (simp add: mem_proj)
  then have m: "(a, strip c) \<in> set (lu_entries u)" using repD(3) [OF u(1)] by (simp add: map_of_SomeD)
  have d: "distinct (map fst (lu_entries u))" using repD(4) [OF u(1)] by (simp add: entries_ok_def)
  have v: "lu_ctx u = ct_ctx p" "lu_heap u = ct_heap p" "lu_hook u = ct_on_destroy p"
    using repD(7,8) [OF u(1)] by (simp_all add: same_vars_def same_config_def)
  have "entry_ok c" using u(2) m by (force simp: pinv_def)
  moreover have "r_pool_n (ct_ctx p) + held c \<le> hp_live (ct_heap p)"
    using u(2) v tot_without [OF d m, of held] by (simp add: pinv_def books_def)
  ultimately show thesis using that u v by (simp add: pinv_def config_ok_def)
qed

text \<open>The framer's totality, for the protocol of the entry.\<close>

lemma framer_total:
  assumes e: "entry_ok c" and s: "\<exists>h. r_sink r = s0\<lparr>sk_ctx := h\<rparr>" and pn: "r_pool_n r \<le> LK_REASM_POOL_MAX"
    and k: "hp_live (r_heap r) = r_pool_n r + slabs_held c + k"
  obtains r' c' where "lk_reasm_data tab r c d ev n = Some (r', c')" "pool_inv k r' c'" "via R r c r' c'"
    "\<forall>d. frame_inv (op_hdr_size (tab (lk_conn_proto c)) c' d (cn_frame c' d)) (cn_frame c' d)"
proof -
  let ?i = "lk_conn_proto c" and ?c = "c\<lparr>cn_ops := Some (lk_conn_proto c)\<rparr>"
  have i: "?i \<in> I" using e by (simp add: entry_ok_def)
  note F = ops_ok [OF i]
  have "conn_ops tab c = conn_ops tab ?c" by (simp add: conn_ops_def lk_conn_proto_def)
  then have pin: "lk_reasm_data tab r c d ev n = lk_reasm_data tab r ?c d ev n" by (simp add: lk_reasm_data_def)
  have fr: "\<forall>d. frame_inv (op_hdr_size (tab ?i) ?c d (cn_frame c d)) (cn_frame c d)"
    using e hdr_size_conn [OF i, of ?c _ _ c] by (simp add: entry_ok_def)
  have "framer_ops.framer_inv ?i (tab ?i) k r ?c"
    unfolding framer_ops.framer_inv_def [OF F] framer_ops.frames_ok_def [OF F]
    using fr s sink_ok_s0 pn k by (auto simp: pool_inv_def slabs_held_def)
  moreover have "framer_ops.registered ?i (tab ?i) tab" by (simp add: framer_ops.registered_def [OF F])
  ultimately obtain r' c' where x: "lk_reasm_data tab r c d ev n = Some (r', c')" "framer_ops.framer_inv ?i (tab ?i) k r' c'"
    using framer_ops.lk_reasm_data_total [OF F] pin by metis
  have "follows R (r_sink r)" using s follows_s0 by auto
  then have "via R r c r' c'" using fk.lk_reasm_data_via [OF i _ x(1)] by simp
  then show thesis using that x by (simp add: framer_ops.framer_inv_def [OF F] framer_ops.frames_ok_def [OF F])
qed

lemma reasm_ok:
  assumes ok: "pipe_ok h0 K Z g p" and c: "ct_mem p a = Some c"
  obtains p' c' where "reasm_data_at tab a d ev n p = Some p'" "ct_mem p' a = Some c'" "is_tls c \<longrightarrow> is_tls c'" "cn_cookie c' = cn_cookie c"
    "pipe_ok h0 K Z (if \<not> is_tls c \<and> is_tls c' then g + 1 else g) p'"
proof -
  obtain u where u: "conn_rep p u" "pinv h0 K Z g u" "entry_ok c" "ctx_ok h0 (ct_ctx p)"
    "r_pool_n (ct_ctx p) + held c \<le> hp_live (ct_heap p)" by (rule pipe_entry [OF ok c])
  let ?r = "(ct_ctx p)\<lparr>r_heap := ct_heap p\<rparr>"
  define k where "k = hp_live (ct_heap p) - r_pool_n (ct_ctx p) - slabs_held c"
  have k: "hp_live (r_heap ?r) = r_pool_n ?r + slabs_held c + k" using u(5) by (simp add: k_def held_def)
  have cx: "\<exists>h. r_sink ?r = s0\<lparr>sk_ctx := h\<rparr>" "r_pool_n ?r \<le> LK_REASM_POOL_MAX" using u(4) by (simp_all add: ctx_ok_def)
  obtain r' c' where f: "lk_reasm_data tab ?r c d ev n = Some (r', c')" "pool_inv k r' c'" "via R ?r c r' c'"
    "\<forall>d. frame_inv (op_hdr_size (tab (lk_conn_proto c)) c' d (cn_frame c' d)) (cn_frame c' d)"
    by (rule framer_total [OF u(3) cx k])
  have R: "R (sk_ctx (r_sink (ct_ctx p)), c) (sk_ctx (r_sink r'), c')" using f(3) by (simp add: via_def)
  then have ev: "evolves c c'" and hs: "handler_step P Q mu nu (sk_ctx (r_sink (ct_ctx p)), c) (sk_ctx (r_sink r'), c')"
    by (simp_all add: pipe_rel_def)
  have P: "P (cn_proto_state c)" using u(3) by (simp add: entry_ok_def)
  have cx': "ctx_ok h0 r'"
    using f(2,3) cx(1) u(4) hs P Q_trans by (auto simp: ctx_ok_def via_def pool_inv_def handler_step_def)
  let ?g = "if \<not> is_tls c \<and> is_tls c' then g + 1 else g"
  have tls: "is_tls c \<longrightarrow> is_tls c'" using ev by (simp add: evolves_def)
  have "pipe_ok h0 K Z ?g (p\<lparr>ct_ctx := r', ct_heap := r_heap r', ct_mem := (ct_mem p)(a \<mapsto> c')\<rparr>)"
  proof (rule replace_ok [OF u(1,2) c _ cx'])
    show "same_links c c'" using ev by (simp add: evolves_def)
    show "entry_ok c'" using f(4) ev hs P u(3) by (simp add: entry_ok_def evolves_def handler_step_def)
    show "hp_live (r_heap r') + r_pool_n (ct_ctx p) + held c = hp_live (ct_heap p) + r_pool_n r' + held c'"
      using f(2) k ev by (simp add: pool_inv_def held_def evolves_def)
    show "nu (sk_ctx (r_sink r')) + mu (cn_proto_state c) = nu (sk_ctx (r_sink (ct_ctx p))) + mu (cn_proto_state c')"
      using hs P by (simp add: handler_step_def)
    show "?g + of_nat (tls_one c) = g + of_nat (tls_one c')" using tls by (auto simp: tls_one_def)
  qed
  then show thesis using that tls f(1) c ev by (simp add: reasm_data_at_def evolves_def same_links_def)
qed

lemma adopt_ok:
  assumes ok: "pipe_ok h0 K Z g p" and c: "ct_mem p a = Some c" and t: "\<not> is_tls c"
  obtains p' c' where "poke a (\<lambda>c. c\<lparr>cn_flags := cn_flags c OR LK_CONN_TLS\<rparr>) p = Some p'" "ct_mem p' a = Some c'" "is_tls c'" "cn_cookie c' = cn_cookie c"
    "pipe_ok h0 K Z (g + 1) p'"
proof -
  let ?c = "c\<lparr>cn_flags := cn_flags c OR LK_CONN_TLS\<rparr>"
  obtain u where u: "conn_rep p u" "pinv h0 K Z g u" "entry_ok c" "ctx_ok h0 (ct_ctx p)" by (rule pipe_entry [OF ok c])
  have tls: "is_tls ?c" by (simp add: flag_simps bit_simps)
  have "pipe_ok h0 K Z (g + 1) (p\<lparr>ct_ctx := ct_ctx p, ct_heap := ct_heap p, ct_mem := (ct_mem p)(a \<mapsto> ?c)\<rparr>)"
  proof (rule replace_ok [OF u(1,2) c _ u(4)])
    show "entry_ok ?c" using u(3) entry_ok_cong [of ?c c] by (simp add: lk_conn_proto_def)
    show "g + 1 + of_nat (tls_one c) = g + of_nat (tls_one ?c)" using t tls by (simp add: tls_one_def)
  qed (simp_all add: same_links_def held_def slabs_held_def)
  then show thesis using that c tls by (simp add: poke_def)
qed

lemma reset_entry:
  assumes "lk_conn_tls_reset_framing m c hp = (c', hp')" "entry_ok c" "held c \<le> hp_live hp"
  shows "entry_ok c'" "same_links c c'" "cn_flags c' = cn_flags c" "cn_proto_state c' = cn_proto_state c"
    "hp_live hp' + held c = hp_live hp + held c'"
proof -
  let ?z = "c\<lparr>cn_frame_state := None, cn_frame := (\<lambda>_. lk_frame_zero)\<rparr>"
  have z: "entry_ok ?z" using assms(2) framer_ops.hdr_size_pos [OF ops_ok] by (simp add: entry_ok_def lk_conn_proto_def frame_inv_zero)
  have c': "c' = (if m then mark_dirty ?z else ?z)"
    and hp': "hp' = free_opt (fr_buf (cn_frame c LK_DIR_RECV)) (free_opt (fr_buf (cn_frame c LK_DIR_SEND)) (free_opt (cn_frame_state c) hp))"
    using assms(1) by (auto simp: lk_conn_tls_reset_framing_def Let_def)
  show "entry_ok c'" using z entry_ok_dirty [OF z] by (simp add: c')
  show "same_links c c'" "cn_flags c' = cn_flags c" "cn_proto_state c' = cn_proto_state c"
    by (simp_all add: c' same_links_def mark_dirty_def)
  have "held c' = 1"
    by (simp add: c' held_def slabs_held_def slabs_of_def mark_dirty_def dirty_frame_def lk_frame_zero_def)
  moreover have "hp_live hp' + held c = hp_live hp + 1"
    using assms(3) by (auto simp: hp' free_opt_def hp_free_def held_def slabs_held_def slabs_of_def split: option.splits)
  ultimately show "hp_live hp' + held c = hp_live hp + held c'" by simp
qed

lemma reset_ok:
  assumes ok: "pipe_ok h0 K Z g p" and c: "ct_mem p a = Some c"
  obtains p' c' where "tls_reset_at m a p = Some p'" "ct_mem p' a = Some c'" "cn_flags c' = cn_flags c" "cn_cookie c' = cn_cookie c" "pipe_ok h0 K Z g p'"
proof -
  obtain u where u: "conn_rep p u" "pinv h0 K Z g u" "entry_ok c" "ctx_ok h0 (ct_ctx p)"
    "r_pool_n (ct_ctx p) + held c \<le> hp_live (ct_heap p)" by (rule pipe_entry [OF ok c])
  obtain c' hp' where e: "lk_conn_tls_reset_framing m c (ct_heap p) = (c', hp')" by fastforce
  have h: "held c \<le> hp_live (ct_heap p)" using u(5) by simp
  note r = reset_entry [OF e u(3) h]
  have "pipe_ok h0 K Z g (p\<lparr>ct_ctx := ct_ctx p, ct_heap := hp', ct_mem := (ct_mem p)(a \<mapsto> c')\<rparr>)"
    by (rule replace_ok [OF u(1,2) c r(2) u(4) r(1)]) (use r in \<open>simp_all add: tls_one_def\<close>)
  then show thesis using that c e r(2,3) by (simp add: tls_reset_at_def same_links_def)
qed

lemma note_open_ok: "pipe_ok h0 K Z 1 p \<Longrightarrow> pipe_ok h0 K Z 0 (lk_conn_table_note_tls_open p)"
proof -
  assume "pipe_ok h0 K Z 1 p"
  then obtain u where u: "conn_rep p u" "pinv h0 K Z 1 u" by (auto simp: pipe_ok_def)
  let ?f = "\<lambda>s. s\<lparr>cs_tls_opened := cs_tls_opened s + 1, cs_tls_active := cs_tls_active s + 1\<rparr>"
  have "conn_rep (upd_cst ?f p) (upd_lst ?f u)" by (rule rep_upd [OF _ u(1)]) simp
  moreover have "pinv h0 K Z 0 (upd_lst ?f u)" using u(2) by (simp add: pinv_def config_ok_def books_def upd_lst_def)
  ultimately show ?thesis unfolding pipe_ok_def lk_conn_table_note_tls_open_def by blast
qed

lemma note_open_mem [simp]: "ct_mem (lk_conn_table_note_tls_open p) = ct_mem p"
  by (simp add: lk_conn_table_note_tls_open_def upd_cst_def)

section \<open>Records\<close>

lemma feed_conn_ok:
  assumes ok: "pipe_ok h0 K Z 0 p"
  shows "\<exists>o' p'. feed_conn hdr conn out p = Some (o', p') \<and> pipe_ok h0 K Z 0 p'"
proof (cases "eh_type hdr = 2")
  case True
  show ?thesis
    by (rule op_ok [OF ok, of "TClose (eh_conn_id hdr) (eh_seq hdr) (eh_ts_ns hdr)"]) (auto simp: feed_conn_def True)
next
  case False
  show ?thesis
    by (rule op_ok [OF ok, of "TOpen (eh_conn_id hdr) (eh_seq hdr) (eh_ts_ns hdr) (ec_tuple conn) (has_flag (eh_flags hdr) LK_F_SYNTHETIC)"])
      (auto simp: feed_conn_def False)
qed

lemma feed_plain_ok:
  assumes ok: "pipe_ok h0 K Z 0 p"
  shows "\<exists>o' p'. feed_plain tab hdr d n out p = Some (o', p') \<and> pipe_ok h0 K Z 0 p'"
proof -
  obtain q l p1 where 1: "lk_conn_table_data (eh_conn_id hdr) (eh_seq hdr) (eh_ts_ns hdr) p = Some (q, l, p1)" and ok1: "pipe_ok h0 K Z 0 p1"
    and m: "\<And>a. q = Some a \<Longrightarrow> \<exists>c. ct_mem p1 a = Some c \<and> cn_cookie c = eh_conn_id hdr"
    by (rule data_op_ok [OF ok, of "TData (eh_conn_id hdr) (eh_seq hdr) (eh_ts_ns hdr)"]) auto
  show ?thesis
  proof (cases q)
    case None
    then show ?thesis using 1 ok1 by (simp add: feed_plain_def)
  next
    case (Some a)
    obtain c where c: "ct_mem p1 a = Some c" using m [OF Some] by blast
    obtain p2 c2 where 2: "reasm_data_at tab a (dir_of (eh_dir hdr)) d n p1 = Some p2" "ct_mem p2 a = Some c2" "is_tls c \<longrightarrow> is_tls c2" "cn_cookie c2 = cn_cookie c"
      "pipe_ok h0 K Z (if \<not> is_tls c \<and> is_tls c2 then 0 + 1 else 0) p2" by (rule reasm_ok [OF ok1 c])
    show ?thesis
    proof (cases "\<not> is_tls c \<and> is_tls c2")
      case True
      then have "pipe_ok h0 K Z 1 p2" using 2(5) by simp
      then obtain p3 where "tls_reset_at False a p2 = Some p3" "pipe_ok h0 K Z 1 p3" using reset_ok 2(2) by metis
      then show ?thesis using 1 Some c 2 True note_open_ok by (simp add: feed_plain_def)
    next
      case False
      then have "pipe_ok h0 K Z 0 p2" using 2(5) by (auto split: if_splits)
      then show ?thesis using 1 Some c 2 False by (auto simp: feed_plain_def)
    qed
  qed
qed

text \<open>A decrypted event: the entry it is framed into is an encrypted one from then on.\<close>

lemma feed_decrypted_tls:
  assumes ok: "pipe_ok h0 K Z 0 p"
  obtains q l p1 p' e where "lk_conn_table_data_decrypted (eh_conn_id hdr) (eh_seq hdr) (eh_ts_ns hdr) p = Some (q, l, p1)"
    "feed_decrypted tab hdr d n out p = Some (out\<lparr>pe_conn := q, pe_lost := l, pe_decrypted_early := e\<rparr>, p')" "pipe_ok h0 K Z 0 p'"
    "\<forall>a. q = Some a \<longrightarrow> (\<exists>c. ct_mem p' a = Some c \<and> is_tls c \<and> cn_cookie c = eh_conn_id hdr)"
    "q = None \<longrightarrow> e = pe_decrypted_early out"
proof -
  obtain q l p1 where 1: "lk_conn_table_data_decrypted (eh_conn_id hdr) (eh_seq hdr) (eh_ts_ns hdr) p = Some (q, l, p1)" and ok1: "pipe_ok h0 K Z 0 p1"
    and m: "\<And>a. q = Some a \<Longrightarrow> \<exists>c. ct_mem p1 a = Some c \<and> cn_cookie c = eh_conn_id hdr"
    by (rule data_op_ok [OF ok, of "TDecrypted (eh_conn_id hdr) (eh_seq hdr) (eh_ts_ns hdr)"]) auto
  show thesis
  proof (cases q)
    case None
    then show thesis using that [OF 1, of "pe_decrypted_early out" p1] 1 ok1 by (simp add: feed_decrypted_def)
  next
    case (Some a)
    obtain c where c: "ct_mem p1 a = Some c" "cn_cookie c = eh_conn_id hdr" using m [OF Some] by blast
    obtain p2 c2 where 2: "(if \<not> is_tls c then do { p \<leftarrow> poke a (\<lambda>c. c\<lparr>cn_flags := cn_flags c OR LK_CONN_TLS\<rparr>) p1;
        p \<leftarrow> tls_reset_at True a p; Some (lk_conn_table_note_tls_open p) } else Some p1) = Some p2"
      "pipe_ok h0 K Z 0 p2" "ct_mem p2 a = Some c2" "is_tls c2" "cn_cookie c2 = eh_conn_id hdr"
    proof (cases "is_tls c")
      case True
      then show thesis using that ok1 c by simp
    next
      case False
      obtain p3 c3 where 3: "poke a (\<lambda>c. c\<lparr>cn_flags := cn_flags c OR LK_CONN_TLS\<rparr>) p1 = Some p3" "ct_mem p3 a = Some c3" "is_tls c3"
        "cn_cookie c3 = cn_cookie c" "pipe_ok h0 K Z (0 + 1) p3" by (rule adopt_ok [OF ok1 c(1) False])
      obtain p4 c4 where "tls_reset_at True a p3 = Some p4" "ct_mem p4 a = Some c4" "cn_flags c4 = cn_flags c3" "cn_cookie c4 = cn_cookie c3"
        "pipe_ok h0 K Z (0 + 1) p4" by (rule reset_ok [OF 3(5,2)])
      then show thesis using that [of "lk_conn_table_note_tls_open p4" c4] 3 c(2) False note_open_ok by simp
    qed
    obtain p5 c5 where 5: "reasm_data_at tab a (dir_of (eh_dir hdr)) d n p2 = Some p5" "ct_mem p5 a = Some c5" "is_tls c2 \<longrightarrow> is_tls c5"
      "cn_cookie c5 = cn_cookie c2" "pipe_ok h0 K Z (if \<not> is_tls c2 \<and> is_tls c5 then 0 + 1 else 0) p5" by (rule reasm_ok [OF 2(2,3)])
    have ok5: "pipe_ok h0 K Z 0 p5" using 5(5) 2(4) by simp
    have "feed_decrypted tab hdr d n out p = Some (out\<lparr>pe_conn := q, pe_lost := l, pe_decrypted_early := \<not> is_tls c\<rparr>, p5)"
      unfolding feed_decrypted_def using 1 Some c 2(1) 5(1) by (simp add: Let_def)
    then show thesis using that [OF 1 _ ok5] 5 2 Some by auto
  qed
qed

lemma feed_decrypted_ok:
  assumes ok: "pipe_ok h0 K Z 0 p"
  shows "\<exists>o' p'. feed_decrypted tab hdr d n out p = Some (o', p') \<and> pipe_ok h0 K Z 0 p'"
  by (rule feed_decrypted_tls [OF ok, where hdr = hdr and d = d and n = n and out = out]) blast

lemma peek_ok:
  assumes ok: "pipe_ok h0 K Z g p"
  obtains q where "peek_tls k p = Some q" "\<And>a. q = Some a \<Longrightarrow> lk_conn_table_peek k p = Some (Some a) \<and> (\<exists>c. ct_mem p a = Some c \<and> is_tls c)"
proof -
  obtain u where u: "conn_rep p u" using ok by (auto simp: pipe_ok_def)
  show thesis
  proof (cases "lru_find k u")
    case None
    then show thesis using that [of None] rep_lookup(1) [OF u, of k] by (simp add: peek_tls_def lk_conn_table_peek_def)
  next
    case (Some a)
    obtain c where c: "ct_mem p a = Some c" using rep_entry [OF u rep_lookup(2) [OF u Some]] by metis
    then show thesis using rep_lookup(1) [OF u, of k] Some
      by (cases "is_tls c") (auto simp: peek_tls_def lk_conn_table_peek_def intro: that)
  qed
qed

lemma feed_data_ok:
  assumes ok: "pipe_ok h0 K Z 0 p"
  shows "\<exists>o' p'. feed_data tab hdr d n out p = Some (o', p') \<and> pipe_ok h0 K Z 0 p'"
proof -
  obtain q where q: "peek_tls (eh_conn_id hdr) p = Some q" "\<And>a. q = Some a \<Longrightarrow> lk_conn_table_peek (eh_conn_id hdr) p = Some (Some a) \<and> (\<exists>c. ct_mem p a = Some c \<and> is_tls c)"
    using peek_ok [OF ok, of "eh_conn_id hdr"] by blast
  have drop: "\<exists>p'. lk_conn_table_note_tls_drop a (eh_seq hdr) (eh_ts_ns hdr) p = Some p' \<and> pipe_ok h0 K Z 0 p'" if "q = Some a" for a
    using q(2) [OF that] by (rule_tac op_ok [OF ok, of "TDropped (eh_conn_id hdr) (eh_seq hdr) (eh_ts_ns hdr)"]) auto
  show ?thesis
  proof (cases "has_flag (eh_flags hdr) LK_F_DECRYPTED")
    case True
    then show ?thesis using feed_decrypted_ok [OF ok] q(1) by (simp add: feed_data_def)
  next
    case False
    then show ?thesis using feed_plain_ok [OF ok] q(1) drop by (cases q) (auto simp: feed_data_def)
  qed
qed

lemma feed_ok:
  assumes ok: "pipe_ok h0 K Z 0 p"
  shows "\<exists>o' p'. lk_pipeline_feed tab data p = Some (o', p') \<and> pipe_ok h0 K Z 0 p'"
proof -
  obtain st v where v: "lk_ev_decode data = (st, v)" by fastforce
  note s = decode_fields [OF v]
  show ?thesis
    using feed_conn_ok [OF ok] feed_data_ok [OF ok] s ok by (cases st) (auto simp: lk_pipeline_feed_def v)
qed

lemma step_ok: "pipe_ok h0 K Z 0 p \<Longrightarrow> \<exists>p'. pipe_step tab x p = Some p' \<and> pipe_ok h0 K Z 0 p'"
proof (cases x)
  case (PFeed data)
  then show "pipe_ok h0 K Z 0 p \<Longrightarrow> ?thesis" using feed_ok [of h0 K Z p data] by auto
next
  case (PSweep now)
  assume ok: "pipe_ok h0 K Z 0 p"
  show ?thesis by (rule op_ok [OF ok, of "TSweep now"]) (auto simp: PSweep)
qed

theorem run_ok: "pipe_ok h0 K Z 0 p \<Longrightarrow> \<exists>p'. pipe_run tab xs p = Some p' \<and> pipe_ok h0 K Z 0 p'"
proof (induction xs arbitrary: p)
  case (Cons x xs)
  obtain p1 where "pipe_step tab x p = Some p1" "pipe_ok h0 K Z 0 p1" using step_ok [OF Cons.prems] by blast
  then show ?case using Cons.IH by simp
qed simp

section \<open>Set-up and teardown\<close>

lemma init_ok:
  assumes "lk_pipeline_init M tmo (s0\<lparr>sk_ctx := h\<rparr>) hp = (Some p0, hp')" and "M < 2 ^ 32"
    and "snd ` set protos \<subseteq> I" and "\<forall>i. dflt = Some i \<longrightarrow> i \<in> I"
  shows "pipe_ok h (hp_live hp + 2) (nu h) 0 (lk_conn_table_set_protos protos dflt p0)"
proof -
  let ?r = "lk_reasm_init (s0\<lparr>sk_ctx := h\<rparr>) hp"
  obtain t where t: "lk_conn_table_new M tmo ?r hp = (Some t, hp')" "p0 = lk_conn_table_on_destroy (Some pipeline_on_destroy) ?r t"
    using assms(1) by (auto simp: lk_pipeline_init_def Let_def split: prod.splits option.splits)
  have hk: "hook_plain (Some pipeline_on_destroy) ?r" by (rule hook_plain_destroy) (auto simp: lk_reasm_init_def)
  have "hp_live hp' = hp_live hp + 2" using t(1) by (auto simp: lk_conn_table_new_def hp_alloc_def Let_def split: if_splits)
  then show ?thesis
    using rep_new [OF t(1) assms(2) hk, of protos dflt] assms(3,4)
    by (auto simp: pipe_ok_def t(2) pinv_def config_ok_def ctx_ok_def books_def lk_reasm_init_def lk_conn_table_stats_zero_def Q_refl intro!: exI) force+
qed

lemma destroy_all_ok:
  "length (lu_entries u) = n \<Longrightarrow> conn_rep p u \<Longrightarrow> pinv h0 K Z g u \<Longrightarrow> \<exists>p' u'. destroy_all p = Some p' \<and> conn_rep p' u' \<and> pinv h0 K Z g u' \<and> lu_entries u' = []"
proof (induction n arbitrary: u p)
  case 0
  then have "ct_lru_head p = None" using repD(1) [OF 0(2)] by (simp add: lru_ok_def fst_of_def)
  then show ?case using 0 by (subst destroy_all.simps) auto
next
  case (Suc n)
  then obtain a c E where E: "lu_entries u = (a, c) # E" by (cases "lu_entries u") auto
  have h: "ct_lru_head p = Some a" using repD(1) [OF Suc(3)] E by (simp add: lru_ok_def fst_of_def)
  have d: "distinct (map fst (lu_entries u))" using repD(4) [OF Suc(3)] by (simp add: entries_ok_def)
  have a: "a \<in> fst ` set (lu_entries u)" by (simp add: E)
  obtain p1 where p1: "destroy a p = Some p1" "conn_rep p1 (lru_destroy a u)" using rep_destroy [OF Suc(3) a] by blast
  have "length (lu_entries (lru_destroy a u)) = n"
    using Suc(2) d by (simp add: lru_destroy_entries E without_Cons without_id)
  then show ?case using Suc(1) [OF _ p1(2) destroy_pinv [OF d a Suc(4)]] h p1(1) by (subst destroy_all.simps) simp
qed

lemma pool_drain_live: "hp_live (pool_drain n hp) = hp_live hp - n"
  by (induction n arbitrary: hp) (simp_all add: hp_free_def)

theorem fini_ok:
  assumes "pipe_ok h0 K Z 0 p"
  obtains r where "lk_pipeline_fini p = Some r" "hp_live (r_heap r) = K - 2" "Q h0 (sk_ctx (r_sink r))" "nu (sk_ctx (r_sink r)) = Z"
proof -
  obtain u where u: "conn_rep p u" "pinv h0 K Z 0 u" using assms by (auto simp: pipe_ok_def)
  obtain p' u' where f: "destroy_all p = Some p'" "conn_rep p' u'" "pinv h0 K Z 0 u'" "lu_entries u' = []"
    using destroy_all_ok [OF refl u] by blast
  have v: "lu_ctx u' = ct_ctx p'" "lu_heap u' = ct_heap p'" using repD(8) [OF f(2)] by (simp_all add: same_vars_def)
  then show thesis
    using that [of "lk_reasm_free ((ct_ctx p')\<lparr>r_heap := hp_free (hp_free (ct_heap p'))\<rparr>)"] f
    by (simp add: lk_pipeline_fini_def lk_conn_table_free_def lk_reasm_free_def pool_drain_live hp_free_def pinv_def books_def ctx_ok_def)
qed

section \<open>What the invariant says of the table\<close>

lemma rep_sum:
  assumes rep: "conn_rep p u" and f: "\<And>c. f (strip c) = f c"
  shows "tot f (lu_entries u) = (\<Sum>a \<in> dom (ct_mem p). f (the (ct_mem p a)))"
proof -
  have d: "distinct (map fst (lu_entries u))" using repD(4) [OF rep] by (simp add: entries_ok_def)
  have "f (snd e) = f (the (ct_mem p (fst e)))" if "e \<in> set (lu_entries u)" for e
  proof -
    have "pay (ct_mem p) (fst e) = Some (snd e)" using that d repD(3) [OF rep] by simp
    then obtain c where "ct_mem p (fst e) = Some c" "snd e = strip c" by (rule pay_SomeE)
    then show ?thesis by (simp add: f)
  qed
  then have "map (f \<circ> snd) (lu_entries u) = map (\<lambda>a. f (the (ct_mem p a))) (map fst (lu_entries u))" by simp
  moreover have "dom (ct_mem p) = set (map fst (lu_entries u))"
  proof -
    have "dom (ct_mem p) = dom (pay (ct_mem p))" by (auto simp: pay_def)
    then show ?thesis using repD(3) [OF rep] by (simp add: dom_map_of_conv_image_fst)
  qed
  ultimately show ?thesis using d by (simp add: tot_def sum_list_distinct_conv_sum_set del: map_map)
qed

lemma pipe_facts:
  assumes "pipe_ok h0 K Z 0 p"
  shows "finite (dom (ct_mem p))" "card (dom (ct_mem p)) = cs_active (ct_st p)" "cs_active (ct_st p) \<le> (if M = 0 then 1 else M)"
    "cs_tls_active (ct_st p) = of_nat (card {a. \<exists>c. ct_mem p a = Some c \<and> is_tls c})"
    "hp_live (ct_heap p) = K + r_pool_n (ct_ctx p) + (\<Sum>a \<in> dom (ct_mem p). held (the (ct_mem p a)))"
    "nu (sk_ctx (r_sink (ct_ctx p))) = Z + (\<Sum>a \<in> dom (ct_mem p). mu (cn_proto_state (the (ct_mem p a))))"
    "r_pool_n (ct_ctx p) \<le> LK_REASM_POOL_MAX" "Q h0 (sk_ctx (r_sink (ct_ctx p)))"
    "\<And>a c. ct_mem p a = Some c \<Longrightarrow> P (cn_proto_state c) \<and> (\<forall>d. length (fr_hdr (cn_frame c d)) \<le> 8 \<and> fr_buf_len (cn_frame c d) \<le> LK_MSG_BODY_MAX)"
proof -
  obtain u where u: "conn_rep p u" "pinv h0 K Z 0 u" using assms by (auto simp: pipe_ok_def)
  have v: "lu_ctx u = ct_ctx p" "lu_heap u = ct_heap p" "lu_st u = ct_st p" using repD(8) [OF u(1)] by (simp_all add: same_vars_def)
  have dm: "dom (ct_mem p) = set (map fst (lu_entries u))"
  proof -
    have "dom (ct_mem p) = dom (pay (ct_mem p))" by (auto simp: pay_def)
    then show ?thesis using repD(3) [OF u(1)] by (simp add: dom_map_of_conv_image_fst)
  qed
  then show fin: "finite (dom (ct_mem p))" by simp
  have "distinct (map fst (lu_entries u))" using repD(4) [OF u(1)] by (simp add: entries_ok_def)
  then show "card (dom (ct_mem p)) = cs_active (ct_st p)" unfolding dm using distinct_card repD(5) [OF u(1)] by fastforce
  show "cs_active (ct_st p) \<le> (if M = 0 then 1 else M)" using repD(5,6) [OF u(1)] u(2) by (simp add: pinv_def config_ok_def)
  have "(\<Sum>a \<in> dom (ct_mem p). tls_one (the (ct_mem p a))) = card {a \<in> dom (ct_mem p). is_tls (the (ct_mem p a))}"
    using fin by (simp add: tls_one_def sum.If_cases Int_def)
  moreover have "{a \<in> dom (ct_mem p). is_tls (the (ct_mem p a))} = {a. \<exists>c. ct_mem p a = Some c \<and> is_tls c}" by auto
  ultimately show "cs_tls_active (ct_st p) = of_nat (card {a. \<exists>c. ct_mem p a = Some c \<and> is_tls c})"
    using u(2) v rep_sum [OF u(1), of tls_one] by (simp add: pinv_def books_def)
  show "hp_live (ct_heap p) = K + r_pool_n (ct_ctx p) + (\<Sum>a \<in> dom (ct_mem p). held (the (ct_mem p a)))"
    using u(2) v rep_sum [OF u(1), of held] by (simp add: pinv_def books_def)
  show "nu (sk_ctx (r_sink (ct_ctx p))) = Z + (\<Sum>a \<in> dom (ct_mem p). mu (cn_proto_state (the (ct_mem p a))))"
    using u(2) v rep_sum [OF u(1), of "mu \<circ> cn_proto_state"] by (simp add: pinv_def books_def strip_def)
  show "r_pool_n (ct_ctx p) \<le> LK_REASM_POOL_MAX" "Q h0 (sk_ctx (r_sink (ct_ctx p)))" using u(2) v by (simp_all add: pinv_def ctx_ok_def)
  fix a c
  assume "ct_mem p a = Some c"
  then show "P (cn_proto_state c) \<and> (\<forall>d. length (fr_hdr (cn_frame c d)) \<le> 8 \<and> fr_buf_len (cn_frame c d) \<le> LK_MSG_BODY_MAX)"
    using pipe_entry [OF assms] by (metis entry_ok_def frame_inv_def)
qed

section \<open>Ciphertext\<close>

lemma lookup_cookie: "conn_rep p u \<Longrightarrow> ct_mem p a = Some c \<Longrightarrow> lookup (cn_cookie c) p = Some (Some a)"
proof -
  assume r: "conn_rep p u" and c: "ct_mem p a = Some c"
  have m: "(a, strip c) \<in> set (lu_entries u)" using c repD(3) [OF r] mem_proj(3) [of "ct_mem p" a c] by (simp add: map_of_SomeD)
  then have "lru_find (cn_cookie c) u \<noteq> None" by (auto simp: lru_find_def find_None_iff intro!: exI [of _ a] exI [of _ "strip c"])
  then obtain b where b: "lru_find (cn_cookie c) u = Some b" by blast
  then obtain e where e: "(b, e) \<in> set (lu_entries u)" "cn_cookie e = cn_cookie c" using lru_find_Some by blast
  have "(b, e) = (a, strip c)"
    using inj_onD [of "cn_cookie \<circ> snd" "set (lu_entries u)" "(b, e)" "(a, strip c)"] repD(4) [OF r] m e by (simp add: entries_ok_def distinct_map)
  then show ?thesis using rep_lookup(1) [OF r] b by simp
qed

lemma ciphertext_dropped:
  assumes ok: "pipe_ok h0 K Z 0 p" and c: "ct_mem p a = Some c" "is_tls c"
    and d: "lk_ev_decode data = (LK_DEC_DATA, v)" "v_hdr v = Some hdr" "eh_conn_id hdr = cn_cookie c" "\<not> has_flag (eh_flags hdr) LK_F_DECRYPTED"
  shows "\<exists>out p' c'. lk_pipeline_feed tab data p = Some (out, p') \<and> pe_tls_socket_dropped out \<and> pe_lost out = 0
    \<and> ct_ctx p' = ct_ctx p \<and> ct_heap p' = ct_heap p \<and> ct_mem p' a = Some c'
    \<and> cn_frame c' = cn_frame c \<and> cn_proto_state c' = cn_proto_state c \<and> cn_flags c' = cn_flags c
    \<and> cs_tls_socket_dropped (ct_st p') = cs_tls_socket_dropped (ct_st p) + 1 \<and> cs_lost_events (ct_st p') = cs_lost_events (ct_st p)"
proof -
  obtain u where u: "conn_rep p u" using ok by (auto simp: pipe_ok_def)
  have l: "lookup (cn_cookie c) p = Some (Some a)" by (rule lookup_cookie [OF u c(1)])
  then have f: "lru_find (cn_cookie c) u = Some a" using rep_lookup(1) [OF u] by simp
  have t: "peek_tls (cn_cookie c) p = Some (Some a)" using l c by (simp add: peek_tls_def lk_conn_table_peek_def)
  let ?op = "TDropped (cn_cookie c) (eh_seq hdr) (eh_ts_ns hdr)"
  obtain p' where p': "lk_conn_table_note_tls_drop a (eh_seq hdr) (eh_ts_ns hdr) p = Some p'" "conn_rep p' (snd (lru_op ?op u))"
    using table_op_sim [OF u, of ?op] l by (auto simp: lk_conn_table_peek_def)
  have v': "lu_ctx (snd (lru_op ?op u)) = ct_ctx p'" "lu_heap (snd (lru_op ?op u)) = ct_heap p'" "lu_st (snd (lru_op ?op u)) = ct_st p'"
    using repD(8) [OF p'(2)] by (simp_all add: same_vars_def)
  have v: "lu_ctx u = ct_ctx p" "lu_heap u = ct_heap p" "lu_st u = ct_st p" using repD(8) [OF u] by (simp_all add: same_vars_def)
  have e: "entry_at a u = strip c" using c(1) repD(3) [OF u] mem_proj(3) [of "ct_mem p" a c] by (simp add: entry_at_def)
  have "pay (ct_mem p') a = Some (snd (drop_step (eh_seq hdr) (eh_ts_ns hdr) (strip c)))"
    using repD(3) [OF p'(2)] e f by (simp add: lru_touch_def upd_lst_def split_beta entry_at_def)
  then obtain c' where c': "ct_mem p' a = Some c'" "snd (drop_step (eh_seq hdr) (eh_ts_ns hdr) (strip c)) = strip c'" by (rule pay_SomeE)
  have "cn_frame (strip c') = cn_frame c" "cn_proto_state (strip c') = cn_proto_state c" "cn_flags (strip c') = cn_flags c"
    unfolding c'(2) [symmetric] by (simp_all add: drop_step_def strip_def)
  moreover have "ct_ctx p' = ct_ctx p" "ct_heap p' = ct_heap p"
    "ct_st p' = (ct_st p)\<lparr>cs_tls_socket_dropped := cs_tls_socket_dropped (ct_st p) + 1\<rparr>"
    unfolding v [symmetric] v' [symmetric] using f by (simp_all add: lru_touch_def upd_lst_def split_beta drop_step_def count_lost_def)
  moreover obtain dd where "v_data v = Some dd" using decode_fields(2) [OF d(1)] by auto
  ultimately show ?thesis
    using d t p'(1) c'(1) by (auto simp: lk_pipeline_feed_def feed_data_def strip_def)
qed

lemma decrypted_adopts:
  assumes ok: "pipe_ok h0 K Z 0 p" and v: "lk_ev_decode data = (LK_DEC_DATA, v)" "v_hdr v = Some hdr" "has_flag (eh_flags hdr) LK_F_DECRYPTED"
    and q: "lk_conn_table_data_decrypted (eh_conn_id hdr) (eh_seq hdr) (eh_ts_ns hdr) p = Some (Some a, l, p1)"
  shows "\<exists>out p' c. lk_pipeline_feed tab data p = Some (out, p') \<and> pe_conn out = Some a \<and> pe_lost out = l
     \<and> ct_mem p' a = Some c \<and> cn_cookie c = eh_conn_id hdr \<and> is_tls c"
proof -
  obtain d where d: "v_data v = Some d" using decode_fields(2) [OF v(1)] by auto
  obtain t where t: "peek_tls (eh_conn_id hdr) p = Some t" using peek_ok [OF ok, of "eh_conn_id hdr"] by blast
  define out where "out = \<lparr>pe_status = LK_DEC_DATA, pe_view = v, pe_conn = None, pe_lost = 0, pe_tls_now = False,
    pe_tls_socket_dropped = False, pe_decrypted_early = False\<rparr>"
  have "\<exists>p' e c. feed_decrypted tab hdr d (v_cap_len v) out p = Some (out\<lparr>pe_conn := Some a, pe_lost := l, pe_decrypted_early := e\<rparr>, p')
    \<and> ct_mem p' a = Some c \<and> is_tls c \<and> cn_cookie c = eh_conn_id hdr"
    by (rule feed_decrypted_tls [OF ok, where hdr = hdr and d = d and n = "v_cap_len v" and out = out]) (use q in auto)
  then show ?thesis using v d t by (force simp: lk_pipeline_feed_def feed_data_def out_def)
qed

end

end
