(* ===== verification/Pipeline_Props.thy ===== *)
theory Pipeline_Props
  imports Pipeline_Inv Conn_Props Pg_Frame Pg_Memory
begin

text \<open>
  The event path with the PostgreSQL protocol: the contract of \<open>pipeline_env\<close> holds of the PostgreSQL
  framer hooks and handler, and what follows for every stream of raw records and sweeps.
\<close>

section \<open>The contract\<close>

lemma pg_on_msg_tls: "is_tls (snd (pg_on_msg p c d m)) = is_tls c"
  using pg_on_msg_conn [of p c d m] by (auto simp: flag_simps bit_simps)

lemma pg_on_resync_tls: "is_tls (snd (pg_on_resync p c d)) = is_tls c"
  using pg_on_resync_conn [of p c d] by auto

lemma pg_on_conn_close_conn: "snd (pg_on_conn_close p c) = c\<lparr>cn_proto_state := None\<rparr>"
  by (cases "cn_proto_state c") (auto simp: pg_on_conn_close_def Let_def split: prod.split)

lemma pg_close_plain: "plain_edit (pg_on_conn_close p)"
proof -
  have "fst (pg_on_conn_close p (relink a b n c)) = fst (pg_on_conn_close p c)" for a b n c
    by (cases "cn_proto_state c") (auto simp: pg_on_conn_close_def relink_def Let_def split: prod.split)
  then show ?thesis by (auto simp: plain_edit_def prod_eq_iff pg_on_conn_close_conn relink_def)
qed

abbreviation pg_ok :: "pg_conn option \<Rightarrow> bool" where "pg_ok \<equiv> pred_option pg_inv"
abbreviation pg_live :: "lk_proto \<Rightarrow> nat" where "pg_live p \<equiv> hp_live (p_heap p)"
abbreviation pg_rel :: "(lk_proto, pg_conn, 'fs) conn_rel" where "pg_rel \<equiv> pipe_rel pg_ok accounts state_blocks pg_live"

lemma pg_hooks: "hooks_ok (pg_rel :: (lk_proto, pg_conn, 'a) conn_rel) lk_proto_pg_ops"
proof -
  note edit = pipe_rel_edit [where Q = accounts, OF accounts_refl]
  have trans: "pg_rel x y \<Longrightarrow> pg_rel y z \<Longrightarrow> pg_rel x z" for x y z :: "lk_proto \<times> (pg_conn, 'a) lk_conn"
    by (rule pipe_rel_trans [where Q = accounts]) (auto intro: accounts_trans)
  have pre: "pg_rel (h, c) (h, fst (pg_pre_emit c d m))" for h d m and c :: "(pg_conn, 'a) lk_conn"
    by (rule edit) (auto simp: pg_pre_emit_def Let_def evolves_def same_links_def lk_conn_proto_def upd_frame_def flag_simps bit_simps)
  have hole: "pg_rel (h, c) (h, snd (pg_intercept_hole c d))" for h d and c :: "(pg_conn, 'a) lk_conn"
    by (rule edit) (auto simp: pg_intercept_hole_def evolves_def same_links_def lk_conn_proto_def flag_simps bit_simps)
  have bytes: "via pg_rel r c r' c'" if f: "follows pg_rel (r_sink r)" and e: "pg_intercept_bytes r c d p ts = (go, r', c', p')"
    for r r' :: "(lk_proto, pg_conn, 'a) lk_reasm" and c c' d p ts go p'
  proof (cases "d \<noteq> LK_DIR_SEND \<or> \<not> has_flag (cn_flags c) LK_CONN_SSL_REPLY \<or> p = []")
    case True
    then have "r' = r" "c' = c" using e by (auto simp: pg_intercept_bytes_def)
    then show ?thesis using edit [of c c] by (auto simp: via_def intro: exI [of _ "sk_ctx (r_sink r)"])
  next
    case False
    let ?c = "c\<lparr>cn_flags := cn_flags c AND NOT LK_CONN_SSL_REPLY\<rparr>"
    let ?r1 = "upd_st (\<lambda>s. s\<lparr>rs_msgs := rs_msgs s + 1\<rparr>) r" and ?m = "\<lparr>m_ts_ns = ts, m_type = hd p, m_flags = 0, m_len = 0, m_body = []\<rparr>"
    have s1: "r_sink ?r1 = r_sink r" by simp
    obtain r2 c2 where m: "call_on_msg ?r1 ?c LK_DIR_SEND ?m = (r2, c2)" by fastforce
    have r': "r_sink r' = r_sink r2" and c': "c' = c2 \<or> c' = c2\<lparr>cn_flags := cn_flags c2 OR LK_CONN_TLS\<rparr>"
      using False e m by (auto simp: pg_intercept_bytes_def Let_def split: if_splits)
    have 1: "pg_rel (sk_ctx (r_sink r), c) (sk_ctx (r_sink r), ?c)"
      by (rule edit) (auto simp: evolves_def same_links_def lk_conn_proto_def flag_simps bit_simps)
    have 2: "pg_rel (sk_ctx (r_sink r), ?c) (sk_ctx (r_sink r2), c2) \<and> (\<exists>h. r_sink r2 = (r_sink r)\<lparr>sk_ctx := h\<rparr>)"
    proof (cases "sk_on_msg (r_sink r)")
      case None
      then have "r_sink r2 = r_sink r" "c2 = ?c" using m by (auto simp: call_on_msg_def)
      then show ?thesis using edit [of ?c ?c] by (auto intro: exI [of _ "sk_ctx (r_sink r)"])
    next
      case (Some cb)
      obtain h c3 where k: "cb (sk_ctx (r_sink r)) ?c LK_DIR_SEND ?m = (h, c3)" by fastforce
      have "pg_rel (sk_ctx (r_sink r), ?c) (h, c3)" using f Some k unfolding follows_def by metis
      moreover have "r_sink r2 = (r_sink r)\<lparr>sk_ctx := h\<rparr>" "c2 = c3" using m Some k by (auto simp: call_on_msg_def)
      ultimately show ?thesis by auto
    qed
    have 3: "pg_rel (sk_ctx (r_sink r2), c2) (sk_ctx (r_sink r2), c')"
      using c' by (auto intro!: edit simp: evolves_def same_links_def lk_conn_proto_def flag_simps bit_simps)
    show ?thesis using trans [OF trans [OF 1 conjunct1 [OF 2]] 3] 2 r' by (simp add: via_def)
  qed
  show ?thesis unfolding hooks_ok_def pg_ops_simps using pre hole bytes by auto
qed

lemma pg_sink_parts [simp]:
  "sk_on_msg (pg_msink p) = Some pg_on_msg" "sk_on_resync (pg_msink p) = Some pg_on_resync"
  "sk_on_conn_close (pg_msink p) = Some pg_on_conn_close" "(pg_msink p)\<lparr>sk_ctx := q\<rparr> = pg_msink q" "sk_ctx (pg_msink p) = p"
  by (simp_all add: pg_msink_def)

lemma pg_msg_step: "handler_step pg_ok accounts state_blocks pg_live (h, c) (pg_on_msg h c d m)"
  using pg_on_msg_blocks [of h c d m] pg_hd.msg_ok [of c h d m] pg_hd.msg_accounts [of c h d m]
  by (cases "pg_on_msg h c d m") (auto simp: handler_step_def)

lemma pg_resync_step: "handler_step pg_ok accounts state_blocks pg_live (h, c) (pg_on_resync h c d)"
  using pg_on_resync_blocks [of h c d] pg_hd.resync_ok [of c h d] silent_accounts [OF pg_hd.resync_silent, of h c d]
  by (cases "pg_on_resync h c d") (auto simp: handler_step_def)

lemma pg_close_step:
  "state_blocks (cn_proto_state c) \<le> pg_live h \<Longrightarrow> handler_step pg_ok accounts state_blocks pg_live (h, c) (pg_on_conn_close h c)"
  using pg_on_conn_close_blocks [of h c] silent_accounts [OF pg_hd.close_silent, of h c]
  by (cases "pg_on_conn_close h c") (auto simp: handler_step_def state_blocks_def)

lemma pg_close_keeps: "keeps_core c (c\<lparr>cn_proto_state := None\<rparr>)"
  by (simp add: keeps_core_def)

text \<open>The registry (src/src/proto/registry.c): the hooks of the protocols other than PostgreSQL are
  parameters.\<close>

definition registry_ops :: "('h, 'ps, 'fs) lk_proto_ops \<Rightarrow> ('h, 'ps, 'fs) lk_proto_ops \<Rightarrow> ('h, 'ps, 'fs) lk_proto_ops \<Rightarrow> ('h, 'ps, 'fs) lk_proto_ops
    \<Rightarrow> lk_proto_id \<Rightarrow> ('h, 'ps, 'fs) lk_proto_ops" where
  "registry_ops my http s3 redis i =
     (case i of LK_PROTO_PG \<Rightarrow> lk_proto_pg_ops | LK_PROTO_MY \<Rightarrow> my | LK_PROTO_HTTP \<Rightarrow> http | LK_PROTO_S3 \<Rightarrow> s3 | LK_PROTO_REDIS \<Rightarrow> redis)"

interpretation pg_pipe: pipeline_env "registry_ops my http s3 redis" "{LK_PROTO_PG}" "pg_msink p0" pg_ok accounts state_blocks pg_live M
  for my http s3 redis p0 M
  by (rule pipeline_env.intro)
    (auto simp: registry_ops_def pg_ops.framer_ops_axioms pg_hooks pg_msg_step pg_resync_step pg_close_step pg_on_msg_tls pg_on_resync_tls
      pg_on_msg_keeps pg_on_resync_keeps pg_close_plain pg_on_conn_close_conn pg_close_keeps state_blocks_def intro: accounts_trans)

section \<open>Properties\<close>

text \<open>A pipeline as the agent sets it up: initialised, then given its port map.\<close>

definition pipe_start :: "nat \<Rightarrow> u64 \<Rightarrow> ('h, 'ps, 'fs) lk_msg_sink \<Rightarrow> (u16 \<times> lk_proto_id) list \<Rightarrow> lk_proto_id option \<Rightarrow> heap
    \<Rightarrow> ('h, 'ps, 'fs) lk_pipeline option" where
  "pipe_start max_conns tmo sink protos dflt hp = map_option (lk_conn_table_set_protos protos dflt) (fst (lk_pipeline_init max_conns tmo sink hp))"

lemma start_pipe_ok:
  assumes "pipe_start max_conns tmo (pg_msink h) protos dflt hp = Some p" and "max_conns < 2 ^ 32"
    and "snd ` set protos \<subseteq> {LK_PROTO_PG}" and "dflt \<in> {None, Some LK_PROTO_PG}"
  shows "pg_pipe.pipe_ok my http s3 redis h max_conns h (hp_live hp + 2) (pg_live h) 0 p"
proof -
  obtain p0 hp' where "lk_pipeline_init max_conns tmo (pg_msink h) hp = (Some p0, hp')" "p = lk_conn_table_set_protos protos dflt p0"
    using assms(1) by (auto simp: pipe_start_def prod_eq_iff)
  then show ?thesis
    using pg_pipe.init_ok [of max_conns tmo h h hp p0 hp' protos dflt] assms(2-4) by auto
qed

text \<open>C28. Whatever raw records the ring buffer hands over - truncated, of unknown type, with any offsets,
  lengths, sequence numbers and flags, for any connections, mixed with sweeps - and whichever
  allocations fail, the event path with the PostgreSQL protocol returns without following a bad pointer:
  it tracks at most \<open>max_conns\<close> connections, every connection's handler state is well formed, no
  direction buffers more than \<open>LK_MSG_BODY_MAX\<close> bytes, and every live block is the table, an entry, a
  slab an entry holds or a slab of the free list, whose length is bounded.\<close>

theorem pg_pipeline_total:
  assumes "pipe_start max_conns tmo (pg_msink h) protos dflt hp = Some p0" and "max_conns < 2 ^ 32"
    and "snd ` set protos \<subseteq> {LK_PROTO_PG}" and "dflt \<in> {None, Some LK_PROTO_PG}"
  shows "\<exists>p. pipe_run (registry_ops my http s3 redis) xs p0 = Some p
     \<and> card (dom (ct_mem p)) = cs_active (ct_st p) \<and> cs_active (ct_st p) \<le> max 1 max_conns
     \<and> (\<forall>a c. ct_mem p a = Some c \<longrightarrow> pred_option pg_inv (cn_proto_state c)
           \<and> (\<forall>d. length (fr_hdr (cn_frame c d)) \<le> 8 \<and> fr_buf_len (cn_frame c d) \<le> LK_MSG_BODY_MAX))
     \<and> r_pool_n (ct_ctx p) \<le> LK_REASM_POOL_MAX
     \<and> hp_live (ct_heap p) = hp_live hp + 2 + r_pool_n (ct_ctx p) + (\<Sum>a \<in> dom (ct_mem p). held (the (ct_mem p a)))"
proof -
  obtain p where p: "pipe_run (registry_ops my http s3 redis) xs p0 = Some p"
    "pg_pipe.pipe_ok my http s3 redis h max_conns h (hp_live hp + 2) (pg_live h) 0 p"
    using pg_pipe.run_ok [OF start_pipe_ok [OF assms]] by blast
  note f = pg_pipe.pipe_facts [OF p(2)]
  show ?thesis using p(1) f by (intro exI [of _ p]) (auto split: if_splits)
qed

text \<open>C29. The TLS gauge is exact: after any stream of records it is the number of tracked connections
  that are flagged as encrypted, through server-side switches, adoption in mid-session, evictions,
  sweeps and closes.\<close>

theorem pg_pipeline_tls_gauge:
  assumes "pipe_start max_conns tmo (pg_msink h) protos dflt hp = Some p0" and "max_conns < 2 ^ 32"
    and "snd ` set protos \<subseteq> {LK_PROTO_PG}" and "dflt \<in> {None, Some LK_PROTO_PG}"
    and "pipe_run (registry_ops my http s3 redis) xs p0 = Some p"
  shows "unat (cs_tls_active (ct_st p)) = card {a. \<exists>c. ct_mem p a = Some c \<and> has_flag (cn_flags c) LK_CONN_TLS}"
proof -
  have ok: "pg_pipe.pipe_ok my http s3 redis h max_conns h (hp_live hp + 2) (pg_live h) 0 p"
    using pg_pipe.run_ok [OF start_pipe_ok [OF assms(1-4)], of my http s3 redis xs] assms(5) by simp
  note f = pg_pipe.pipe_facts [OF ok]
  let ?S = "{a. \<exists>c. ct_mem p a = Some c \<and> is_tls c}"
  have "?S \<subseteq> dom (ct_mem p)" by auto
  then have "card ?S \<le> card (dom (ct_mem p))" by (rule card_mono [OF f(1)])
  also have "\<dots> \<le> max 1 max_conns" using f(2,3) by (auto split: if_splits)
  finally have "card ?S < 2 ^ 32" using assms(2) by (auto simp: max_def split: if_splits)
  then show ?thesis using f(4) by (simp add: unsigned_of_nat take_bit_nat_eq_self_iff)
qed

text \<open>C30. Nothing is leaked and nothing is freed twice: after any stream of records, tearing the pipeline
  down releases exactly what setting it up and running it allocated - the table, the entries, their
  slabs, the free list - and, through the removal hook, exactly the blocks the protocol handler holds
  for its connections; and the handler's query counter moved by the number of observations it
  delivered.\<close>

theorem pg_pipeline_no_leak:
  assumes "pipe_start max_conns tmo (pg_msink h) protos dflt hp = Some p0" and "max_conns < 2 ^ 32"
    and "snd ` set protos \<subseteq> {LK_PROTO_PG}" and "dflt \<in> {None, Some LK_PROTO_PG}"
    and "p_has_query h" and "p_calls h = []" and "ps_queries (p_st h) = 0"
  shows "\<exists>p r. pipe_run (registry_ops my http s3 redis) xs p0 = Some p \<and> lk_pipeline_fini p = Some r
     \<and> hp_live (r_heap r) = hp_live hp \<and> hp_live (p_heap (sk_ctx (r_sink r))) = hp_live (p_heap h)
     \<and> ps_queries (p_st (sk_ctx (r_sink r))) = length (queries_of (p_calls (sk_ctx (r_sink r))))"
proof -
  obtain p where p: "pipe_run (registry_ops my http s3 redis) xs p0 = Some p"
    "pg_pipe.pipe_ok my http s3 redis h max_conns h (hp_live hp + 2) (pg_live h) 0 p"
    using pg_pipe.run_ok [OF start_pipe_ok [OF assms(1-4)]] by blast
  obtain r where r: "lk_pipeline_fini p = Some r" "hp_live (r_heap r) = hp_live hp + 2 - 2" "accounts h (sk_ctx (r_sink r))"
    "pg_live (sk_ctx (r_sink r)) = pg_live h" by (rule pg_pipe.fini_ok [OF p(2)])
  then show ?thesis using p(1) assms(5-7) by (auto simp: accounts_def reports_def)
qed

text \<open>C31. Ciphertext is never framed: a socket event of a connection that is flagged as encrypted reaches
  neither the framer nor the handler, allocates nothing, reports no loss and leaves the connection's
  framing and handler state alone; it is only counted.\<close>

theorem pg_pipeline_ciphertext:
  assumes "pipe_start max_conns tmo (pg_msink h) protos dflt hp = Some p0" and "max_conns < 2 ^ 32"
    and "snd ` set protos \<subseteq> {LK_PROTO_PG}" and "dflt \<in> {None, Some LK_PROTO_PG}"
    and "pipe_run (registry_ops my http s3 redis) xs p0 = Some p" and "ct_mem p a = Some c" and "has_flag (cn_flags c) LK_CONN_TLS"
    and "lk_ev_decode data = (LK_DEC_DATA, v)" and "v_hdr v = Some hdr" and "eh_conn_id hdr = cn_cookie c"
    and "\<not> has_flag (eh_flags hdr) LK_F_DECRYPTED"
  shows "\<exists>out p' c'. lk_pipeline_feed (registry_ops my http s3 redis) data p = Some (out, p') \<and> pe_tls_socket_dropped out \<and> pe_lost out = 0
    \<and> ct_ctx p' = ct_ctx p \<and> ct_heap p' = ct_heap p \<and> ct_mem p' a = Some c'
    \<and> cn_frame c' = cn_frame c \<and> cn_proto_state c' = cn_proto_state c \<and> cn_flags c' = cn_flags c
    \<and> cs_tls_socket_dropped (ct_st p') = cs_tls_socket_dropped (ct_st p) + 1 \<and> cs_lost_events (ct_st p') = cs_lost_events (ct_st p)"
proof -
  have ok: "pg_pipe.pipe_ok my http s3 redis h max_conns h (hp_live hp + 2) (pg_live h) 0 p"
    using pg_pipe.run_ok [OF start_pipe_ok [OF assms(1-4)], of my http s3 redis xs] assms(5) by simp
  show ?thesis by (rule pg_pipe.ciphertext_dropped [OF ok assms(6-11)])
qed


end
