(* ===== verification/Pipeline_Examples.thy ===== *)
theory Pipeline_Examples
  imports Pipeline_Props Conn_Examples
begin

text \<open>A small pipeline on which each property of \<open>Pipeline_Props\<close> applies.\<close>

definition demo_proto :: lk_proto where
  "demo_proto = \<lparr>p_has_query = True, p_has_session = False, p_has_txn = False, p_calls = [], p_st = lk_proto_stats_zero, p_heap = demo_heap\<rparr>"

definition demo_pipe :: "(lk_proto, pg_conn, unit) lk_pipeline" where
  "demo_pipe = the (pipe_start 4 100 (pg_msink demo_proto) [(5432, LK_PROTO_PG)] (Some LK_PROTO_PG) demo_heap)"

lemma demo_pipe_start: "pipe_start 4 100 (pg_msink demo_proto) [(5432, LK_PROTO_PG)] (Some LK_PROTO_PG) demo_heap = Some demo_pipe"
  by (simp add: demo_pipe_def pipe_start_def lk_pipeline_init_def lk_conn_table_new_def hp_alloc_def demo_heap_def Let_def)

text \<open>A record of 40 bytes: a decrypted data event of connection 7 with an empty payload, and a socket
  event of the same connection.\<close>

definition demo_decrypted :: bytes where
  "demo_decrypted = [7, 0, 0, 0, 0, 0, 0, 0] @ replicate 8 0 @ [1, 0, 0, 0] @ [0, 0, 8, 0] @ replicate 16 0"

definition demo_socket :: bytes where
  "demo_socket = [7, 0, 0, 0, 0, 0, 0, 0] @ replicate 8 0 @ [2, 0, 0, 0] @ [0, 0, 0, 0] @ replicate 16 0"

abbreviation demo_tab :: "lk_proto_id \<Rightarrow> (lk_proto, pg_conn, unit) lk_proto_ops" where
  "demo_tab \<equiv> registry_ops lk_proto_pg_ops lk_proto_pg_ops lk_proto_pg_ops lk_proto_pg_ops"

lemma demo_decode:
  "lk_ev_decode demo_socket = (LK_DEC_DATA, snd (lk_ev_decode demo_socket))" "v_hdr (snd (lk_ev_decode demo_socket)) = Some (read_hdr demo_socket)"
  "eh_conn_id (read_hdr demo_socket) = 7" "\<not> has_flag (eh_flags (read_hdr demo_socket)) LK_F_DECRYPTED"
  "lk_ev_decode demo_decrypted = (LK_DEC_DATA, snd (lk_ev_decode demo_decrypted))" "v_hdr (snd (lk_ev_decode demo_decrypted)) = Some (read_hdr demo_decrypted)"
  "eh_conn_id (read_hdr demo_decrypted) = 7" "has_flag (eh_flags (read_hdr demo_decrypted)) LK_F_DECRYPTED"
  by code_simp+

lemma demo_pipe_rep: "\<exists>u. conn_rep demo_pipe u \<and> lu_entries u = [] \<and> lu_brk u = 0 \<and> lu_heap u = demo_heap\<lparr>hp_calls := 2, hp_live := 2\<rparr>"
proof -
  let ?r = "lk_reasm_init (pg_msink demo_proto) demo_heap"
  have t: "table_start 4 100 (Some pipeline_on_destroy) ?r [(5432, LK_PROTO_PG)] (Some LK_PROTO_PG) demo_heap = Some demo_pipe"
    using demo_pipe_start by (simp add: pipe_start_def table_start_def lk_pipeline_init_def lk_conn_table_new_def hp_alloc_def demo_heap_def Let_def
      lk_conn_table_on_destroy_def)
  have "hook_plain (Some pipeline_on_destroy) ?r"
    by (rule pg_pipe.hook_plain_destroy) (auto simp: lk_reasm_init_def intro: exI [of _ demo_proto])
  then have "conn_rep demo_pipe (lru_start 4 100 (Some pipeline_on_destroy) ?r [(5432, LK_PROTO_PG)] (Some LK_PROTO_PG) (ct_heap demo_pipe))"
    using start_rep [OF t] by simp
  moreover have "ct_heap demo_pipe = demo_heap\<lparr>hp_calls := 2, hp_live := 2\<rparr>"
    by (simp add: demo_pipe_def pipe_start_def lk_pipeline_init_def lk_conn_table_new_def hp_alloc_def demo_heap_def Let_def
        lk_conn_table_set_protos_def lk_conn_table_on_destroy_def)
  ultimately show ?thesis by (auto simp: lru_start_def)
qed

lemma demo_lookup: "\<exists>l p1. lk_conn_table_data_decrypted 7 1 0 demo_pipe = Some (Some 0, l, p1)"
proof -
  obtain u where u: "conn_rep demo_pipe u" "lu_entries u = []" "lu_brk u = 0" "lu_heap u = demo_heap\<lparr>hp_calls := 2, hp_live := 2\<rparr>"
    using demo_pipe_rep by blast
  have "fst (fst (lru_op (TDecrypted 7 1 0) u)) = Some 0"
    using u(2-4) by (simp add: lru_touch_or_create_def lru_find_def lru_create_def lru_evict_def hp_alloc_def demo_heap_def Let_def)
  then show ?thesis using table_op_sim [OF u(1), of "TDecrypted 7 1 0"] by (auto simp: prod_eq_iff)
qed

theorem pg_pipeline_total_witness:
  "\<exists>p. pipe_run demo_tab [PFeed demo_decrypted, PFeed [1, 2, 3], PFeed demo_socket, PSweep 900] demo_pipe = Some p \<and> cs_active (ct_st p) \<le> 4"
  using pg_pipeline_total [OF demo_pipe_start, where my = lk_proto_pg_ops and http = lk_proto_pg_ops and ?s3.0 = lk_proto_pg_ops and redis = lk_proto_pg_ops
    and xs = "[PFeed demo_decrypted, PFeed [1, 2, 3], PFeed demo_socket, PSweep 900]"] by auto

lemma demo_hdr_fields: "eh_seq (read_hdr demo_decrypted) = 1" "eh_ts_ns (read_hdr demo_decrypted) = 0"
  by code_simp+

lemma demo_found: "\<exists>l p1. lk_conn_table_data_decrypted (eh_conn_id (read_hdr demo_decrypted)) (eh_seq (read_hdr demo_decrypted))
    (eh_ts_ns (read_hdr demo_decrypted)) demo_pipe = Some (Some 0, l, p1)"
  using demo_lookup by (simp only: demo_decode demo_hdr_fields)


lemma demo_pipe_ok: "pg_pipe.pipe_ok my http s3 redis demo_proto 4 demo_proto (hp_live demo_heap + 2) (hp_live (p_heap demo_proto)) 0 demo_pipe"
  by (rule start_pipe_ok [OF demo_pipe_start]) simp_all

lemma demo_adopted:
  "\<exists>p c. pipe_run demo_tab [PFeed demo_decrypted] demo_pipe = Some p \<and> ct_mem p 0 = Some c \<and> cn_cookie c = 7 \<and> has_flag (cn_flags c) LK_CONN_TLS"
proof -
  obtain l p1 where f: "lk_conn_table_data_decrypted (eh_conn_id (read_hdr demo_decrypted)) (eh_seq (read_hdr demo_decrypted))
    (eh_ts_ns (read_hdr demo_decrypted)) demo_pipe = Some (Some 0, l, p1)" using demo_found by blast
  have "\<exists>out p' c. lk_pipeline_feed demo_tab demo_decrypted demo_pipe = Some (out, p') \<and> pe_conn out = Some 0 \<and> pe_lost out = l \<and> ct_mem p' 0 = Some c
     \<and> cn_cookie c = eh_conn_id (read_hdr demo_decrypted) \<and> has_flag (cn_flags c) LK_CONN_TLS"
    by (rule pg_pipe.decrypted_adopts [OF demo_pipe_ok demo_decode(5,6,8) f])
  then obtain out p c where "lk_pipeline_feed demo_tab demo_decrypted demo_pipe = Some (out, p)" "ct_mem p 0 = Some c" "cn_cookie c = 7"
    "has_flag (cn_flags c) LK_CONN_TLS" unfolding demo_decode(7) by blast
  then show ?thesis by (intro exI [of _ p] exI [of _ c]) simp
qed

theorem pg_pipeline_tls_gauge_witness:
  "\<exists>p. pipe_run demo_tab [PFeed demo_decrypted] demo_pipe = Some p
     \<and> unat (cs_tls_active (ct_st p)) = card {a. \<exists>c. ct_mem p a = Some c \<and> has_flag (cn_flags c) LK_CONN_TLS}"
proof -
  obtain p where p: "pipe_run demo_tab [PFeed demo_decrypted] demo_pipe = Some p" using demo_adopted by blast
  then show ?thesis using pg_pipeline_tls_gauge [OF demo_pipe_start _ _ _ p] by auto
qed

theorem pg_pipeline_no_leak_witness:
  "\<exists>p r. pipe_run demo_tab [PFeed demo_decrypted, PFeed demo_socket] demo_pipe = Some p \<and> lk_pipeline_fini p = Some r
     \<and> hp_live (r_heap r) = 0 \<and> hp_live (p_heap (sk_ctx (r_sink r))) = 0"
  using pg_pipeline_no_leak [OF demo_pipe_start, where my = lk_proto_pg_ops and http = lk_proto_pg_ops and ?s3.0 = lk_proto_pg_ops
      and redis = lk_proto_pg_ops and xs = "[PFeed demo_decrypted, PFeed demo_socket]"]
  by (fastforce simp: demo_proto_def demo_heap_def lk_proto_stats_zero_def)

theorem pg_pipeline_ciphertext_witness:
  "\<exists>p out p' c'. pipe_run demo_tab [PFeed demo_decrypted] demo_pipe = Some p \<and> lk_pipeline_feed demo_tab demo_socket p = Some (out, p')
     \<and> pe_tls_socket_dropped out \<and> ct_ctx p' = ct_ctx p \<and> ct_mem p' 0 = Some c'"
proof -
  obtain p c where p: "pipe_run demo_tab [PFeed demo_decrypted] demo_pipe = Some p" "ct_mem p 0 = Some c" "cn_cookie c = 7"
    "has_flag (cn_flags c) LK_CONN_TLS" using demo_adopted by blast
  then show ?thesis
    using pg_pipeline_ciphertext [OF demo_pipe_start _ _ _ p(1,2,4) demo_decode(1,2)] demo_decode(3,4) by auto
qed

end
