(* ===== verification/Trace.thy ===== *)
theory Trace
  imports Latkit_Prelude "HOL-Library.Sublist"
begin

text \<open>
  Traces of raw records, src/src/agent/record.c: the recorder that appends every ring-buffer record to a
  file, and the replay that calls a function for each record of a trace.

  A file open for writing holds what reached it so far; \<open>of_room\<close> says how many bytes each future
  \<open>fwrite\<close> accepts, so that every short write of the code is a branch of the model.
\<close>

section \<open>Recording\<close>

record ofile =
  of_data :: bytes
  of_calls :: nat
  of_room :: "nat \<Rightarrow> nat"
  of_flush_ok :: bool
  of_close_ok :: bool

definition fwrite :: "bytes \<Rightarrow> ofile \<Rightarrow> nat \<times> ofile" where
  "fwrite p f = (let n = min (length p) (of_room f (of_calls f)) in (n, f\<lparr>of_data := of_data f @ take n p, of_calls := of_calls f + 1\<rparr>))"

record lk_recorder =
  rec_f :: ofile
  rec_failed :: bool

definition LK_RECORD_MAGIC :: bytes where
  "LK_RECORD_MAGIC = lit ''LKT1''"

text \<open>\<open>opened\<close> is what \<open>fopen\<close> gives; None is NULL.\<close>

definition lk_recorder_open :: "ofile option \<Rightarrow> heap \<Rightarrow> lk_recorder option \<times> heap" where
  "lk_recorder_open opened hp =
     (let (ok, hp) = hp_alloc hp
      in if \<not> ok then (None, hp)
         else case opened of
           None \<Rightarrow> (None, hp_free hp)
         | Some f \<Rightarrow> (let (n, f) = fwrite LK_RECORD_MAGIC f
                      in if n \<noteq> 4 then (None, hp_free hp) else (Some \<lparr>rec_f = f, rec_failed = False\<rparr>, hp)))"

definition lk_recorder_write :: "bytes \<Rightarrow> lk_recorder \<Rightarrow> lk_recorder" where
  "lk_recorder_write data rec =
     (if rec_failed rec then rec
      else
        (let (n, f) = fwrite (put_le32 (of_nat (length data))) (rec_f rec)
         in if n \<noteq> 4 then rec\<lparr>rec_f := f, rec_failed := True\<rparr>
            else (let (n, f) = fwrite data f in rec\<lparr>rec_f := f, rec_failed := n \<noteq> length data\<rparr>)))"

definition lk_recorder_close :: "lk_recorder option \<Rightarrow> heap \<Rightarrow> int \<times> heap" where
  "lk_recorder_close rec hp =
     (case rec of
        None \<Rightarrow> (0, hp)
      | Some rec \<Rightarrow>
          (let failed = (rec_failed rec \<or> \<not> of_flush_ok (rec_f rec));
               failed = (if \<not> of_close_ok (rec_f rec) then True else failed)
           in (if failed then - 1 else 0, hp_free hp)))"

section \<open>Replay\<close>

text \<open>\<open>lk_replay_fn\<close>: nonzero stops the replay.\<close>

type_synonym 'x replay_fn = "'x \<Rightarrow> bytes \<Rightarrow> int \<times> 'x"

text \<open>The \<open>while (pos < len)\<close> loop over what is left of the trace; \<open>rec_cap\<close> is 0 while the bounce buffer
  is NULL.\<close>

function replay_loop :: "'x replay_fn \<Rightarrow> bytes \<Rightarrow> nat \<Rightarrow> 'x \<Rightarrow> heap \<Rightarrow> int \<times> nat \<times> 'x \<times> heap" where
  "replay_loop fn p rec_cap x hp =
     (if p = [] then (0, rec_cap, x, hp)
      else if length p < 4 then (- 1, rec_cap, x, hp)
      else
        (let size = unat (le32 p); p = drop 4 p
         in if length p < size then (- 1, rec_cap, x, hp)
            else
              (let (ok, hp) = (if rec_cap < size then hp_realloc (rec_cap = 0) hp else (True, hp))
               in if \<not> ok then (- 1, rec_cap, x, hp)
                  else
                    (let rec_cap = max rec_cap size;
                         (rc, x) = fn x (take size p)
                     in if rc \<noteq> 0 then (rc, rec_cap, x, hp) else replay_loop fn (drop size p) rec_cap x hp))))"
  by pat_completeness auto
termination
  by (relation "measure (\<lambda>(fn, p, rec_cap, x, hp). length p)") auto

declare replay_loop.simps [simp del]

definition lk_replay_mem :: "bytes \<Rightarrow> 'x replay_fn \<Rightarrow> 'x \<Rightarrow> heap \<Rightarrow> int \<times> 'x \<times> heap" where
  "lk_replay_mem buf fn x hp =
     (if length buf < 4 \<or> take 4 buf \<noteq> LK_RECORD_MAGIC then (- 1, x, hp)
      else (let (rc, rec_cap, x, hp) = replay_loop fn (drop 4 buf) 0 x hp
            in (rc, x, if rec_cap = 0 then hp else hp_free hp)))"

text \<open>\<open>file\<close> is the contents behind the path, None when it cannot be opened or its size not be told;
  \<open>got\<close> is how many bytes \<open>fread\<close> delivers.\<close>

definition lk_replay_file :: "bytes option \<Rightarrow> nat \<Rightarrow> 'x replay_fn \<Rightarrow> 'x \<Rightarrow> heap \<Rightarrow> int \<times> 'x \<times> heap" where
  "lk_replay_file file got fn x hp =
     (case file of
        None \<Rightarrow> (- 1, x, hp)
      | Some buf \<Rightarrow>
          (let (ok, hp) = hp_alloc hp
           in if \<not> ok then (- 1, x, hp)
              else if min got (length buf) \<noteq> length buf then (- 1, x, hp_free hp)
              else (let (rc, x, hp) = lk_replay_mem buf fn x hp in (rc, x, hp_free hp))))"

section \<open>What a trace means\<close>

definition frame_rec :: "bytes \<Rightarrow> bytes" where
  "frame_rec r = put_le32 (of_nat (length r)) @ r"

fun each_record :: "'x replay_fn \<Rightarrow> bytes list \<Rightarrow> 'x \<Rightarrow> int \<times> 'x" where
  "each_record fn [] x = (0, x)"
| "each_record fn (r # rs) x = (let (rc, x) = fn x r in if rc \<noteq> 0 then (rc, x) else each_record fn rs x)"

lemma frame_rec_size: "length r < 2 ^ 32 \<Longrightarrow> unat (le32 (frame_rec r @ q)) = length r"
  by (simp add: frame_rec_def unsigned_of_nat take_bit_nat_eq_self_iff)

lemma replay_one:
  assumes "length r < 2 ^ 32" "heap_never_fails hp"
  shows "\<exists>cap' hp'. heap_never_fails hp' \<and> replay_loop fn (frame_rec r @ q) cap x hp =
    (case fn x r of (rc, x) \<Rightarrow> if rc \<noteq> 0 then (rc, cap', x, hp') else replay_loop fn q cap' x hp')"
proof -
  obtain ok hp' where h: "(if cap < length r then hp_realloc (cap = 0) hp else (True, hp)) = (ok, hp')" by fastforce
  then have ok: "ok" "heap_never_fails hp'" using assms(2) by (auto simp: hp_realloc_def Let_def split: if_splits)
  have "put_le32 y \<noteq> []" for y by (simp add: put_le32_def)
  then have "replay_loop fn (frame_rec r @ q) cap x hp =
    (case fn x r of (rc, x) \<Rightarrow> if rc \<noteq> 0 then (rc, max cap (length r), x, hp') else replay_loop fn q (max cap (length r)) x hp')"
    using frame_rec_size [OF assms(1), of q] h ok(1) by (subst replay_loop.simps) (simp add: frame_rec_def Let_def split_beta)
  then show ?thesis using ok(2) by blast
qed

lemma replay_torn:
  assumes "length r < 2 ^ 32" "strict_prefix t (frame_rec r)"
  shows "\<exists>rc. replay_loop fn t cap x hp = (rc, cap, x, hp) \<and> rc \<in> {0, - 1}"
proof (cases "length t < 4")
  case True
  then show ?thesis by (subst replay_loop.simps) auto
next
  case False
  obtain s where s: "frame_rec r = t @ s" "s \<noteq> []" using assms(2) by (auto simp: strict_prefix_def prefix_def)
  have "le32 t = le32 (frame_rec r @ [])" using False s by simp
  then have "unat (le32 t) = length r" using frame_rec_size [OF assms(1), of "[]"] by simp
  moreover have "length t - 4 < length r" using arg_cong [OF s(1), of length] s(2) False by (cases s) (auto simp: frame_rec_def)
  ultimately show ?thesis using False by (subst replay_loop.simps) (auto simp: Let_def)
qed

lemma replay_records:
  assumes "\<forall>r \<in> set rs. length r < 2 ^ 32" "heap_never_fails hp"
  shows "\<exists>cap' hp'. replay_loop fn (concat (map frame_rec rs) @ q) cap x hp =
    (case each_record fn rs x of (rc, x) \<Rightarrow> if rc \<noteq> 0 then (rc, cap', x, hp') else replay_loop fn q cap' x hp')"
  using assms
proof (induction rs arbitrary: cap x hp)
  case Nil
  then show ?case by auto
next
  case (Cons r rs)
  obtain rc y where y: "fn x r = (rc, y)" by fastforce
  obtain cap1 hp1 where 1: "heap_never_fails hp1" "replay_loop fn (frame_rec r @ concat (map frame_rec rs) @ q) cap x hp =
      (if rc \<noteq> 0 then (rc, cap1, y, hp1) else replay_loop fn (concat (map frame_rec rs) @ q) cap1 y hp1)"
    using replay_one [of r hp fn "concat (map frame_rec rs) @ q" cap x] Cons.prems y by auto
  show ?case
  proof (cases "rc = 0")
    case True
    then show ?thesis using 1 y Cons.IH [of hp1 cap1 y] Cons.prems by simp
  next
    case False
    then show ?thesis using 1 y by auto
  qed
qed

section \<open>What the recorder leaves on disk\<close>

definition record_all :: "bytes list \<Rightarrow> lk_recorder \<Rightarrow> lk_recorder" where
  "record_all rs rec = fold lk_recorder_write rs rec"

lemma write_cases:
  assumes "\<not> rec_failed rec"
  shows "(\<not> rec_failed (lk_recorder_write r rec) \<and> of_data (rec_f (lk_recorder_write r rec)) = of_data (rec_f rec) @ frame_rec r)
    \<or> (rec_failed (lk_recorder_write r rec) \<and> (\<exists>t. strict_prefix t (frame_rec r) \<and> of_data (rec_f (lk_recorder_write r rec)) = of_data (rec_f rec) @ t))"
proof -
  let ?s = "put_le32 (of_nat (length r))" and ?k = "of_room (rec_f rec) (of_calls (rec_f rec))" and ?j = "of_room (rec_f rec) (Suc (of_calls (rec_f rec)))"
  have torn: "strict_prefix (take n p) (p @ q)" if "n < length p" for n and p q :: bytes
  proof (rule strict_prefixI)
    show "prefix (take n p) (p @ q)" by (rule prefix_prefix [OF take_is_prefix])
    have "length (take n p) < length (p @ q)" using that by simp
    then show "take n p \<noteq> p @ q" by force
  qed
  show ?thesis
  proof (cases "?k < 4")
    case True
    then have "lk_recorder_write r rec = rec\<lparr>rec_f := (rec_f rec)\<lparr>of_data := of_data (rec_f rec) @ take ?k ?s, of_calls := of_calls (rec_f rec) + 1\<rparr>, rec_failed := True\<rparr>"
      using assms by (simp add: lk_recorder_write_def fwrite_def Let_def)
    then show ?thesis using torn [of ?k ?s r] True by (auto simp: frame_rec_def)
  next
    case False
    then have w: "of_data (rec_f (lk_recorder_write r rec)) = of_data (rec_f rec) @ ?s @ take ?j r" "rec_failed (lk_recorder_write r rec) = (min (length r) ?j \<noteq> length r)"
      using assms by (simp_all add: lk_recorder_write_def fwrite_def Let_def min_def)
    show ?thesis
    proof (cases "length r \<le> ?j")
      case True
      then show ?thesis using w by (simp add: frame_rec_def)
    next
      case short: False
      then have "strict_prefix (?s @ take ?j r) (?s @ r)" using torn [of ?j r "[]"] by (simp add: strict_prefix_def)
      then show ?thesis using w short by (auto simp: frame_rec_def)
    qed
  qed
qed

lemma record_failed: "rec_failed rec \<Longrightarrow> record_all rs rec = rec"
  by (induction rs) (simp_all add: record_all_def lk_recorder_write_def)

lemma record_all_cases:
  assumes "\<not> rec_failed rec"
  shows "(\<not> rec_failed (record_all rs rec) \<and> of_data (rec_f (record_all rs rec)) = of_data (rec_f rec) @ concat (map frame_rec rs))
    \<or> (rec_failed (record_all rs rec) \<and> (\<exists>k t. k < length rs \<and> strict_prefix t (frame_rec (rs ! k))
         \<and> of_data (rec_f (record_all rs rec)) = of_data (rec_f rec) @ concat (map frame_rec (take k rs)) @ t))"
  using assms
proof (induction rs arbitrary: rec)
  case Nil
  then show ?case by (simp add: record_all_def)
next
  case (Cons r rs)
  let ?rec = "lk_recorder_write r rec"
  have f: "record_all (r # rs) rec = record_all rs ?rec" by (simp add: record_all_def)
  show ?case
  proof (cases "rec_failed ?rec")
    case True
    then obtain t where "strict_prefix t (frame_rec r)" "of_data (rec_f ?rec) = of_data (rec_f rec) @ t" using write_cases [OF Cons.prems, of r] by blast
    then show ?thesis unfolding f record_failed [OF True] using True by (intro disjI2 conjI exI [of _ 0] exI [of _ t]) simp_all
  next
    case False
    then have d: "of_data (rec_f ?rec) = of_data (rec_f rec) @ frame_rec r" using write_cases [OF Cons.prems, of r] by blast
    from Cons.IH [OF False] show ?thesis
    proof (elim disjE conjE exE)
      fix k t
      assume "rec_failed (record_all rs ?rec)" "k < length rs" "strict_prefix t (frame_rec (rs ! k))"
        "of_data (rec_f (record_all rs ?rec)) = of_data (rec_f ?rec) @ concat (map frame_rec (take k rs)) @ t"
      then show ?thesis unfolding f using d by (intro disjI2 conjI exI [of _ "Suc k"] exI [of _ t]) simp_all
    qed (use d f in simp)
  qed
qed

lemma opened_data: "lk_recorder_open opened hp = (Some rec, hp') \<Longrightarrow> \<not> rec_failed rec \<and> (\<exists>f. opened = Some f \<and> of_data (rec_f rec) = of_data f @ LK_RECORD_MAGIC)"
  by (auto simp: lk_recorder_open_def fwrite_def LK_RECORD_MAGIC_def Let_def split: prod.splits option.splits if_splits)

lemma length_magic [simp]: "length LK_RECORD_MAGIC = 4"
  by (simp add: LK_RECORD_MAGIC_def)

lemma replayed:
  assumes "lk_recorder_open (Some f) hp0 = (Some rec, hp1)" and "of_data f = []" and "\<forall>r \<in> set rs. length r < 2 ^ 32" and "heap_never_fails hp"
    and "lk_replay_mem (of_data (rec_f (record_all rs rec))) fn x hp = (rc, y, hp')"
  shows "(\<exists>k \<le> length rs. y = snd (each_record fn (take k rs) x))
    \<and> (fst (lk_recorder_close (Some (record_all rs rec)) hp1) = 0 \<longrightarrow> (rc, y) = each_record fn rs x)"
proof -
  have o: "\<not> rec_failed rec" "of_data (rec_f rec) = LK_RECORD_MAGIC" using opened_data [OF assms(1)] assms(2) by auto
  have mem: "\<exists>cap' h'. replay_loop fn q 0 x hp = (rc, cap', y, h')" if "of_data (rec_f (record_all rs rec)) = LK_RECORD_MAGIC @ q" for q
    using assms(5) that by (auto simp: lk_replay_mem_def split: prod.splits)
  from record_all_cases [OF o(1), of rs] show ?thesis
  proof (elim disjE conjE exE)
    assume d: "of_data (rec_f (record_all rs rec)) = of_data (rec_f rec) @ concat (map frame_rec rs)"
    obtain c' h' c2 h2 where "replay_loop fn (concat (map frame_rec rs) @ []) 0 x hp = (rc, c', y, h')"
      "replay_loop fn (concat (map frame_rec rs) @ []) 0 x hp = (case each_record fn rs x of (rc, x) \<Rightarrow> if rc \<noteq> 0 then (rc, c2, x, h2) else replay_loop fn [] c2 x h2)"
      using mem [of "concat (map frame_rec rs)"] d o(2) replay_records [OF assms(3,4), of fn "[]" 0 x] by force
    then have "(rc, y) = each_record fn rs x" by (auto simp: replay_loop.simps [of fn "[]"] split: prod.splits if_splits)
    then show ?thesis by (auto intro!: exI [of _ "length rs"] simp: prod_eq_iff)
  next
    fix k t
    assume k: "rec_failed (record_all rs rec)" "k < length rs" "strict_prefix t (frame_rec (rs ! k))"
      "of_data (rec_f (record_all rs rec)) = of_data (rec_f rec) @ concat (map frame_rec (take k rs)) @ t"
    have s: "\<forall>r \<in> set (take k rs). length r < 2 ^ 32" "length (rs ! k) < 2 ^ 32" using assms(3) k(2) by (auto dest: in_set_takeD)
    obtain c' h' c2 h2 where r: "replay_loop fn (concat (map frame_rec (take k rs)) @ t) 0 x hp = (rc, c', y, h')"
      "replay_loop fn (concat (map frame_rec (take k rs)) @ t) 0 x hp
        = (case each_record fn (take k rs) x of (rc, x) \<Rightarrow> if rc \<noteq> 0 then (rc, c2, x, h2) else replay_loop fn t c2 x h2)"
      using mem [of "concat (map frame_rec (take k rs)) @ t"] k(4) o(2) replay_records [OF s(1) assms(4), of fn t 0 x] by force
    have "y = snd (each_record fn (take k rs) x)"
      using r replay_torn [OF s(2) k(3), of fn c2 "snd (each_record fn (take k rs) x)" h2] by (auto split: prod.splits if_splits)
    then show ?thesis using k(1,2) by (auto simp: lk_recorder_close_def intro!: exI [of _ k])
  qed
qed

section \<open>Properties\<close>

text \<open>C33. A trace holds what was recorded: after recording any records to a fresh file, with whatever
  short writes, replaying the file calls the function for a prefix of the records, in order and
  unchanged, up to the first call that asks to stop; and when closing the recorder reports success,
  the replay is complete and returns what the calls returned.\<close>

theorem record_replay:
  assumes "lk_recorder_open (Some f) hp0 = (Some rec, hp1)" and "of_data f = []" and "\<forall>r \<in> set rs. length r < 2 ^ 32" and "heap_never_fails hp"
    and "lk_replay_mem (of_data (rec_f (record_all rs rec))) fn x hp = (rc, y, hp')"
  shows "(\<exists>k \<le> length rs. y = snd (each_record fn (take k rs) x))
    \<and> (fst (lk_recorder_close (Some (record_all rs rec)) hp1) = 0 \<longrightarrow> (rc, y) = each_record fn rs x)"
  by (rule replayed [OF assms])

definition demo_file :: "nat \<Rightarrow> ofile" where
  "demo_file room = \<lparr>of_data = [], of_calls = 0, of_room = (\<lambda>k. if k < 4 then 99 else room), of_flush_ok = True, of_close_ok = True\<rparr>"

theorem record_replay_witness:
  "\<exists>rec hp1. lk_recorder_open (Some (demo_file 1)) \<lparr>hp_calls = 0, hp_ok = (\<lambda>_. True), hp_live = 0\<rparr> = (Some rec, hp1)
     \<and> (\<exists>k \<le> 2. fst (snd (lk_replay_mem (of_data (rec_f (record_all [[1, 2], [3, 4]] rec))) (\<lambda>x r. (0, x @ [r])) [] hp1))
           = snd (each_record (\<lambda>x r. (0, x @ [r])) (take k [[1, 2], [3, 4]]) []))"
proof -
  let ?hp = "\<lparr>hp_calls = 0, hp_ok = (\<lambda>_. True), hp_live = 0\<rparr>" and ?fn = "\<lambda>x r. (0, x @ [r]) :: int \<times> bytes list"
  obtain rec hp1 where o: "lk_recorder_open (Some (demo_file 1)) ?hp = (Some rec, hp1)" and n: "heap_never_fails hp1"
    by (auto simp: lk_recorder_open_def hp_alloc_def demo_file_def fwrite_def LK_RECORD_MAGIC_def Let_def)
  obtain rc y hp' where m: "lk_replay_mem (of_data (rec_f (record_all [[1, 2], [3, 4]] rec))) ?fn [] hp1 = (rc, y, hp')" by (metis prod_cases3)
  have "\<exists>k \<le> 2. y = snd (each_record ?fn (take k [[1, 2], [3, 4]]) [])"
    using record_replay [OF o _ _ n m] by (simp add: demo_file_def) (simp add: numeral_2_eq_2)
  then obtain k where k: "k \<le> 2" "y = snd (each_record ?fn (take k [[1, 2], [3, 4]]) [])" by blast
  show ?thesis by (intro exI [of _ rec] exI [of _ hp1] conjI exI [of _ k]) (use o m k in simp_all)
qed

end
