(* ===== verification/My_Wire.thy ===== *)
theory My_Wire
  imports Pg_Wire
begin

text \<open>
  The bounded read cursor of src/src/proto/my/my_wire.h: little-endian integers, length-encoded
  integers and strings, NUL-terminated strings. The struct is the one of pg_wire.h, so the cursor is
  \<open>wire\<close>, the bytes between \<open>p\<close> and \<open>end\<close> and the overrun latch. Each getter gives success, the value
  (0 or what could be salvaged on overrun) and the cursor.
\<close>

section \<open>Getters\<close>

type_synonym my_wire = wire

definition my_wire_init :: "bytes \<Rightarrow> my_wire" where
  "my_wire_init body = \<lparr>w_rest = body, w_overrun = False\<rparr>"

definition my_wire_ok :: "my_wire \<Rightarrow> bool" where
  "my_wire_ok w \<longleftrightarrow> \<not> w_overrun w"

definition my_wire_remaining :: "my_wire \<Rightarrow> nat" where
  "my_wire_remaining w = length (w_rest w)"

definition my_wire_fail :: "my_wire \<Rightarrow> my_wire" where
  "my_wire_fail w = w\<lparr>w_overrun := True, w_rest := []\<rparr>"

definition my_wire_get_u8 :: "my_wire \<Rightarrow> bool \<times> u8 \<times> my_wire" where
  "my_wire_get_u8 w =
     (if my_wire_remaining w < 1 then (False, 0, my_wire_fail w)
      else (True, w_rest w ! 0, w\<lparr>w_rest := drop 1 (w_rest w)\<rparr>))"

definition my_wire_get_u16 :: "my_wire \<Rightarrow> bool \<times> u16 \<times> my_wire" where
  "my_wire_get_u16 w =
     (if my_wire_remaining w < 2 then (False, 0, my_wire_fail w)
      else (True, le16 (w_rest w), w\<lparr>w_rest := drop 2 (w_rest w)\<rparr>))"

definition my_wire_get_u24 :: "my_wire \<Rightarrow> bool \<times> u32 \<times> my_wire" where
  "my_wire_get_u24 w =
     (if my_wire_remaining w < 3 then (False, 0, my_wire_fail w)
      else (True, le24 (w_rest w), w\<lparr>w_rest := drop 3 (w_rest w)\<rparr>))"

definition my_wire_get_u32 :: "my_wire \<Rightarrow> bool \<times> u32 \<times> my_wire" where
  "my_wire_get_u32 w =
     (if my_wire_remaining w < 4 then (False, 0, my_wire_fail w)
      else (True, le32 (w_rest w), w\<lparr>w_rest := drop 4 (w_rest w)\<rparr>))"

definition my_wire_get_u64 :: "my_wire \<Rightarrow> bool \<times> u64 \<times> my_wire" where
  "my_wire_get_u64 w =
     (if my_wire_remaining w < 8 then (False, 0, my_wire_fail w)
      else (True, le64 (w_rest w), w\<lparr>w_rest := drop 8 (w_rest w)\<rparr>))"

definition my_wire_skip :: "nat \<Rightarrow> my_wire \<Rightarrow> bool \<times> my_wire" where
  "my_wire_skip n w =
     (if my_wire_remaining w < n then (False, my_wire_fail w)
      else (True, w\<lparr>w_rest := drop n (w_rest w)\<rparr>))"

text \<open>The heads 0xfb and 0xff are not length-encoded integers: the cursor does not move and no overrun is
  latched.\<close>

definition my_wire_get_lenenc :: "my_wire \<Rightarrow> bool \<times> u64 \<times> my_wire" where
  "my_wire_get_lenenc w =
     (if my_wire_remaining w < 1 then (False, 0, my_wire_fail w)
      else
        (let head = w_rest w ! 0
         in if head = 0xfb \<or> head = 0xff then (False, 0, w)
            else
              (let w = w\<lparr>w_rest := drop 1 (w_rest w)\<rparr>
               in if head < 0xfb then (True, ucast head, w)
                  else if head = 0xfc then (let (ok, v, w) = my_wire_get_u16 w in (ok, ucast v, w))
                  else if head = 0xfd then (let (ok, v, w) = my_wire_get_u24 w in (ok, ucast v, w))
                  else my_wire_get_u64 w)))"

definition my_wire_get_lenenc_str :: "my_wire \<Rightarrow> bool \<times> bytes \<times> my_wire" where
  "my_wire_get_lenenc_str w =
     (let (ok, sz, w) = my_wire_get_lenenc w
      in if \<not> ok then (False, [], w)
         else if my_wire_remaining w < unat sz then (False, w_rest w, my_wire_fail w)
         else (True, take (unat sz) (w_rest w), w\<lparr>w_rest := drop (unat sz) (w_rest w)\<rparr>))"

text \<open>\<open>memchr(w->p, 0, avail)\<close> splits the rest at the first NUL.\<close>

definition my_wire_cstring :: "my_wire \<Rightarrow> bool \<times> bytes \<times> my_wire" where
  "my_wire_cstring w =
     (let s = takeWhile (\<lambda>b. b \<noteq> 0) (w_rest w)
      in if length s = length (w_rest w) then (False, s, my_wire_fail w)
         else (True, s, w\<lparr>w_rest := drop (length s + 1) (w_rest w)\<rparr>))"

lemmas my_wire_defs = my_wire_init_def my_wire_remaining_def my_wire_fail_def my_wire_get_u8_def my_wire_get_u16_def
  my_wire_get_u24_def my_wire_get_u32_def my_wire_get_u64_def my_wire_skip_def

section \<open>The cursor only moves forward\<close>

text \<open>What a getter leaves is a suffix of what it was given.\<close>

definition wire_le :: "my_wire \<Rightarrow> my_wire \<Rightarrow> bool" where
  "wire_le w' w \<longleftrightarrow> (\<exists>n. w_rest w' = drop n (w_rest w)) \<and> (w_overrun w \<longrightarrow> w_overrun w')"

lemma wire_le_refl [simp]: "wire_le w w"
  by (auto simp: wire_le_def intro: exI [of _ 0])

lemma wire_le_trans: "wire_le a b \<Longrightarrow> wire_le b c \<Longrightarrow> wire_le a c"
  by (auto simp: wire_le_def)

lemma wire_le_drop [simp]: "wire_le (w\<lparr>w_rest := drop n (w_rest w)\<rparr>) w"
  by (auto simp: wire_le_def)

lemma wire_le_fail [simp]: "wire_le (my_wire_fail w) w"
  by (auto simp: wire_le_def my_wire_fail_def intro: exI [of _ "length (w_rest w)"])

lemma wire_le_length: "wire_le w' w \<Longrightarrow> length (w_rest w') \<le> length (w_rest w)"
  by (auto simp: wire_le_def)

lemma wire_get_le:
  "my_wire_get_u8 w = (ok, a, w') \<Longrightarrow> wire_le w' w" "my_wire_get_u16 w = (ok, b, w') \<Longrightarrow> wire_le w' w"
  "my_wire_get_u24 w = (ok, x, w') \<Longrightarrow> wire_le w' w" "my_wire_get_u32 w = (ok, x, w') \<Longrightarrow> wire_le w' w"
  "my_wire_get_u64 w = (ok, y, w') \<Longrightarrow> wire_le w' w" "my_wire_skip n w = (ok, w') \<Longrightarrow> wire_le w' w"
  "my_wire_cstring w = (ok, s, w') \<Longrightarrow> wire_le w' w"
  by (auto simp: my_wire_get_u8_def my_wire_get_u16_def my_wire_get_u24_def my_wire_get_u32_def my_wire_get_u64_def
      my_wire_skip_def my_wire_cstring_def Let_def split: if_splits)

lemma wire_lenenc_le:
  assumes "my_wire_get_lenenc w = (ok, y, w')"
  shows "wire_le w' w"
proof -
  let ?w = "w\<lparr>w_rest := drop 1 (w_rest w)\<rparr>"
  have "wire_le w' ?w \<or> w' = w \<or> w' = my_wire_fail w"
    using assms by (auto simp: my_wire_get_lenenc_def Let_def dest: wire_get_le split: if_splits prod.splits)
  then show ?thesis using wire_le_trans [of w' ?w w] by auto
qed

lemma wire_lenenc_str_le:
  assumes "my_wire_get_lenenc_str w = (ok, s, w')"
  shows "wire_le w' w"
proof -
  obtain k sz w1 where l: "my_wire_get_lenenc w = (k, sz, w1)" by (cases rule: prod_cases3)
  have "wire_le w' w1" using assms l by (auto simp: my_wire_get_lenenc_str_def split: if_splits)
  then show ?thesis using wire_lenenc_le [OF l] by (rule wire_le_trans)
qed

lemma wire_lenenc_progress:
  assumes "my_wire_get_lenenc w = (True, y, w')"
  shows "length (w_rest w') < length (w_rest w)"
proof -
  let ?w = "w\<lparr>w_rest := drop 1 (w_rest w)\<rparr>"
  have "wire_le w' ?w \<and> w_rest w \<noteq> []"
    using assms by (auto simp: my_wire_get_lenenc_def my_wire_remaining_def Let_def dest: wire_get_le split: if_splits prod.splits)
  then show ?thesis using wire_le_length [of w' ?w] by (cases "w_rest w") auto
qed

lemma wire_lenenc_str_progress:
  assumes "my_wire_get_lenenc_str w = (True, s, w')"
  shows "length (w_rest w') < length (w_rest w)"
proof -
  obtain k sz w1 where l: "my_wire_get_lenenc w = (k, sz, w1)" by (cases rule: prod_cases3)
  have "wire_le w' w1" "k" using assms l by (auto simp: my_wire_get_lenenc_str_def split: if_splits)
  then show ?thesis using wire_lenenc_progress [of w sz w1] l wire_le_length [of w' w1] by simp
qed

section \<open>Reading what was written\<close>

definition put_lenenc :: "u64 \<Rightarrow> bytes" where
  "put_lenenc x =
     (if x < 0xfb then [ucast x]
      else if x < 2 ^ 16 then 0xfc # put_le16 (ucast x)
      else if x < 2 ^ 24 then 0xfd # put_le24 (ucast x)
      else 0xfe # put_le64 x)"

definition put_lenenc_str :: "bytes \<Rightarrow> bytes" where
  "put_lenenc_str s = put_lenenc (of_nat (length s)) @ s"

lemma ucast_small:
  fixes x :: u64
  shows "x < 256 \<Longrightarrow> ucast (ucast x :: u8) = x" "x < 65536 \<Longrightarrow> ucast (ucast x :: u16) = x"
    "x < 16777216 \<Longrightarrow> ucast (ucast x :: u32) = x"
  by (simp_all add: word_unat_eq_iff unsigned_ucast_eq unsigned_take_bit_eq word_less_nat_alt take_bit_nat_eq_self)

lemma ucast_less: "(x::u64) < 16777216 \<Longrightarrow> (ucast x :: u32) < 16777216" "(x::u64) < 0xfb \<Longrightarrow> (ucast x :: u8) < 0xfb"
  by (simp_all add: word_less_nat_alt unsigned_ucast_eq take_bit_nat_eq_self)

lemma lenenc_put [simp]:
  "my_wire_get_lenenc \<lparr>w_rest = put_lenenc x @ r, w_overrun = ov\<rparr> = (True, x, \<lparr>w_rest = r, w_overrun = ov\<rparr>)"
proof (cases "x < 0xfb")
  case True
  have "x < 256" using True by (rule less_trans) simp
  moreover have "(ucast x :: u8) \<noteq> 0xfb \<and> (ucast x :: u8) \<noteq> 0xff" using ucast_less(2) [OF True] by auto
  ultimately show ?thesis
    using True ucast_less(2) [OF True] ucast_small(1) [of x] by (simp add: my_wire_get_lenenc_def my_wire_remaining_def put_lenenc_def Let_def)
next
  case False
  then show ?thesis
    using ucast_small(2,3) [of x] ucast_less(1) [of x] le24_put [of "ucast x" r]
    by (simp add: my_wire_get_lenenc_def my_wire_defs put_lenenc_def Let_def)
qed

lemma lenenc_str_put [simp]:
  assumes "length s < 2 ^ 64"
  shows "my_wire_get_lenenc_str \<lparr>w_rest = put_lenenc_str s @ r, w_overrun = ov\<rparr> = (True, s, \<lparr>w_rest = r, w_overrun = ov\<rparr>)"
  using assms by (simp add: my_wire_get_lenenc_str_def put_lenenc_str_def my_wire_remaining_def unat_of_nat)

lemma my_cstring_put [simp]:
  assumes "0 \<notin> set s"
  shows "my_wire_cstring \<lparr>w_rest = s @ 0 # r, w_overrun = ov\<rparr> = (True, s, \<lparr>w_rest = r, w_overrun = ov\<rparr>)"
proof -
  have "takeWhile (\<lambda>b. b \<noteq> 0) (s @ 0 # r) = s"
    using assms by (subst takeWhile_append2) auto
  then show ?thesis by (simp add: my_wire_cstring_def Let_def)
qed

lemma my_skip_append [simp]:
  "my_wire_skip (length s) \<lparr>w_rest = s @ r, w_overrun = ov\<rparr> = (True, \<lparr>w_rest = r, w_overrun = ov\<rparr>)"
  by (simp add: my_wire_skip_def my_wire_remaining_def)

lemma my_u8_Cons [simp]: "my_wire_get_u8 \<lparr>w_rest = b # r, w_overrun = ov\<rparr> = (True, b, \<lparr>w_rest = r, w_overrun = ov\<rparr>)"
  by (simp add: my_wire_get_u8_def my_wire_remaining_def)

end
