(* ===== verification/My_Frame.thy ===== *)
theory My_Frame
  imports Pg_Frame
begin

text \<open>
  MySQL classic-protocol framing behind the protocol boundary, src/src/proto/my/my_frame.c: 4-byte
  headers with a sequence number, the gluing of 16 MB fragments, the connection phase, and the two
  call-boundary anchors. The hooks satisfy the framer's contract (\<open>my_ops\<close>).
\<close>

section \<open>Hooks\<close>

abbreviation MY_CLIENT_COMPRESS :: u32 where "MY_CLIENT_COMPRESS \<equiv> 0x00000020"
abbreviation MY_CLIENT_SSL :: u32 where "MY_CLIENT_SSL \<equiv> 0x00000800"
abbreviation MY_CLIENT_ZSTD :: u32 where "MY_CLIENT_ZSTD \<equiv> 0x04000000"

definition MY_PKT_MAX :: nat where "MY_PKT_MAX = 0xFFFFFF"

definition has_cap :: "u32 \<Rightarrow> u32 \<Rightarrow> bool" where
  "has_cap caps m \<longleftrightarrow> caps AND m \<noteq> 0"

definition my_hdr_size :: "('ps, 'fs) lk_conn \<Rightarrow> lk_dir \<Rightarrow> lk_frame \<Rightarrow> nat" where
  "my_hdr_size c dir f = 4"

text \<open>\<open>body_total + len\<close> saturates in 32 bits.\<close>

definition my_parse_hdr :: "('ps, 'fs) lk_conn \<Rightarrow> lk_dir \<Rightarrow> lk_frame \<Rightarrow> bool \<times> lk_frame" where
  "my_parse_hdr c dir f =
     (let len = unat (le24 (fr_hdr f)); seq = fr_hdr f ! 3
      in if fr_msg_cont f then
           (if seq \<noteq> fr_msg_seq f then (False, f)
            else
              (let sum = (fr_body_total f + len) mod 2 ^ 32;
                   total = (if sum < fr_body_total f then 2 ^ 32 - 1 else sum)
               in (True, f\<lparr>fr_msg_seq := seq + 1, fr_msg_cont := len = MY_PKT_MAX, fr_body_len := len,
                          fr_body_total := total, fr_msg_len := total\<rparr>)))
         else (True, f\<lparr>fr_msg_type := 0, fr_msg_seq0 := seq = 0, fr_msg_seq := seq + 1,
                       fr_msg_cont := len = MY_PKT_MAX, fr_body_len := len, fr_body_total := len, fr_msg_len := len\<rparr>))"

definition set_done :: "lk_dir \<Rightarrow> ('ps, 'fs) lk_conn \<Rightarrow> ('ps, 'fs) lk_conn" where
  "set_done d c = upd_frame d ((cn_frame c d)\<lparr>fr_startup_done := True\<rparr>) c"

abbreviation or_conn_flag :: "u16 \<Rightarrow> ('ps, 'fs) lk_conn \<Rightarrow> ('ps, 'fs) lk_conn" where
  "or_conn_flag fl c \<equiv> c\<lparr>cn_flags := cn_flags c OR fl\<rparr>"

text \<open>\<open>if (c->flags & LK_CONN_COMPRESS_PENDING) c->flags |= LK_CONN_IGNORE\<close>\<close>

definition activate_compress :: "('ps, 'fs) lk_conn \<Rightarrow> ('ps, 'fs) lk_conn" where
  "activate_compress c = (if has_flag (cn_flags c) LK_CONN_COMPRESS_PENDING then or_conn_flag LK_CONN_IGNORE c else c)"

text \<open>The first frontend packet, read for the client's capability flags.\<close>

definition my_first_packet :: "('ps, 'fs) lk_conn \<Rightarrow> lk_msg \<Rightarrow> ('ps, 'fs) lk_conn" where
  "my_first_packet c m =
     (if 4 \<le> m_body_cap m then
        (let caps = le32 (m_body m)
         in if has_cap caps MY_CLIENT_SSL \<and> \<not> has_flag (cn_flags c) LK_CONN_TLS then or_conn_flag LK_CONN_TLS c
            else set_done LK_DIR_RECV (if has_cap caps (MY_CLIENT_COMPRESS OR MY_CLIENT_ZSTD)
                                       then or_conn_flag LK_CONN_COMPRESS_PENDING c else c))
      else set_done LK_DIR_RECV c)"

definition my_pre_emit :: "('ps, 'fs) lk_conn \<Rightarrow> lk_dir \<Rightarrow> lk_msg \<Rightarrow> ('ps, 'fs) lk_conn \<times> lk_msg" where
  "my_pre_emit c dir m =
     (let f = cn_frame c dir;
          c = (if dir = LK_DIR_RECV \<and> fr_startup_done f \<and> fr_msg_seq0 f
               then activate_compress (set_done LK_DIR_SEND c) else c);
          m = (if \<not> fr_startup_done (cn_frame c LK_DIR_SEND) then m\<lparr>m_flags := m_flags m OR LK_MSG_STARTUP\<rparr> else m)
      in if dir = LK_DIR_RECV then
           (if \<not> fr_startup_done f then (my_first_packet c m, m)
            else if fr_msg_seq0 f \<and> m_body m \<noteq> [] then (c, m\<lparr>m_type := m_body m ! 0\<rparr>)
            else (c, m))
         else if \<not> fr_startup_done f \<and> m_body m \<noteq> [] \<and> m_body m ! 0 = 0
         then (activate_compress (set_done LK_DIR_SEND c), m)
         else (c, m))"

definition my_resync_scan :: "lk_dir \<Rightarrow> lk_frame \<Rightarrow> bytes \<Rightarrow> nat \<times> bool \<times> lk_frame" where
  "my_resync_scan dir f p = (length p, False, f)"

definition my_cmd_ok :: "u8 \<Rightarrow> bool" where
  "my_cmd_ok b \<longleftrightarrow> b \<in> {0x01, 0x02, 0x03, 0x04, 0x09, 0x0a, 0x0d, 0x0e, 0x11, 0x12, 0x15, 0x16, 0x17, 0x18, 0x19,
     0x1a, 0x1b, 0x1c, 0x1e, 0x1f, 0xfa}"

definition my_resync_boundary :: "lk_dir \<Rightarrow> lk_ev_data \<Rightarrow> nat \<Rightarrow> bool" where
  "my_resync_boundary dir ev cap_len =
     (if ed_off ev \<noteq> 0 \<or> cap_len < 4 then False
      else
        (let len = unat (le24 (ed_payload ev))
         in if dir = LK_DIR_RECV
            then ed_payload ev ! 3 = 0 \<and> 1 \<le> len \<and> 5 \<le> cap_len \<and> my_cmd_ok (ed_payload ev ! 4)
            else ed_payload ev ! 3 = 1 \<and> 1 \<le> len \<and> len < MY_PKT_MAX))"

definition lk_proto_my_ops :: "('h, 'ps, 'fs) lk_proto_ops" where
  "lk_proto_my_ops = \<lparr>op_name = ''mysql'', op_flags = 0, op_hdr_size = my_hdr_size,
     op_parse_hdr = my_parse_hdr, op_pre_emit = my_pre_emit,
     op_intercept_bytes = None, op_intercept_hole = None,
     op_resync_scan = my_resync_scan, op_resync_boundary = my_resync_boundary,
     op_stream_bytes = (\<lambda>r c _ _ _. (r, c)), op_stream_hole = (\<lambda>r c _ _. (r, c))\<rparr>"

section \<open>MySQL keeps the framer's contract\<close>

lemma my_ops_simps [simp]:
  "op_flags lk_proto_my_ops = 0" "op_hdr_size lk_proto_my_ops = my_hdr_size"
  "op_parse_hdr lk_proto_my_ops = my_parse_hdr" "op_pre_emit lk_proto_my_ops = my_pre_emit"
  "op_intercept_bytes lk_proto_my_ops = None" "op_intercept_hole lk_proto_my_ops = None"
  "op_resync_scan lk_proto_my_ops = my_resync_scan" "op_resync_boundary lk_proto_my_ops = my_resync_boundary"
  by (simp_all add: lk_proto_my_ops_def)

lemma phase_only_refl [simp]: "phase_only c c"
  by (simp add: phase_only_def)

lemma phase_only_iff:
  "phase_only c c' \<longleftrightarrow> (\<exists>f g. c' = c\<lparr>cn_flags := f, cn_frame := \<lambda>d. (cn_frame c d)\<lparr>fr_startup_done := g d\<rparr>\<rparr>)"
proof
  assume "phase_only c c'"
  then show "\<exists>f g. c' = c\<lparr>cn_flags := f, cn_frame := \<lambda>d. (cn_frame c d)\<lparr>fr_startup_done := g d\<rparr>\<rparr>"
    unfolding phase_only_def by (intro exI [of _ "cn_flags c'"] exI [of _ "\<lambda>d. fr_startup_done (cn_frame c' d)"])
qed (auto simp: phase_only_def)

lemma phase_only_trans: "phase_only a b \<Longrightarrow> phase_only b c \<Longrightarrow> phase_only a c"
  by (auto simp: phase_only_iff) blast

lemma phase_only_done [simp]: "phase_only c (set_done d c)"
  by (simp add: phase_only_def set_done_def upd_frame_def fun_eq_iff)

lemma phase_only_flags [simp]: "phase_only c (c\<lparr>cn_flags := fl\<rparr>)"
  by (simp add: phase_only_def)

lemma phase_only_compress [simp]: "phase_only c (activate_compress c)"
  by (simp add: activate_compress_def)

lemma phase_only_first: "phase_only c (my_first_packet c m)"
  by (auto simp: my_first_packet_def Let_def intro: phase_only_trans [OF phase_only_flags phase_only_done])

lemma my_pre_emit_cases:
  assumes "my_pre_emit c d m = (c', m')"
  shows "phase_only c c'" "m' = m\<lparr>m_type := m_type m', m_flags := m_flags m'\<rparr>"
proof -
  let ?c = "if d = LK_DIR_RECV \<and> fr_startup_done (cn_frame c d) \<and> fr_msg_seq0 (cn_frame c d)
               then activate_compress (set_done LK_DIR_SEND c) else c"
  have 1: "phase_only c ?c" using phase_only_trans [OF phase_only_done phase_only_compress] by auto
  have "phase_only ?c c'"
    using assms phase_only_first [of ?c] phase_only_trans [OF phase_only_done phase_only_compress, of ?c]
    by (auto simp: my_pre_emit_def Let_def split: if_splits)
  with 1 show "phase_only c c'" by (rule phase_only_trans)
  show "m' = m\<lparr>m_type := m_type m', m_flags := m_flags m'\<rparr>"
    using assms by (auto simp: my_pre_emit_def Let_def split: if_splits)
qed

interpretation my_ops: framer_ops LK_PROTO_MY lk_proto_my_ops
  by unfold_locales
    (auto simp: my_hdr_size_def my_pre_emit_cases my_resync_scan_def hdr_fields_only_def my_parse_hdr_def Let_def split: if_splits)

end
