(* ===== verification/My_State.thy ===== *)
theory My_State
  imports Proto_Types My_Wire My_Frame
begin

text \<open>
  The per-connection state of the MySQL handler (src/src/proto/my/my.h) and the parts of
  src/src/proto/my/my_query.c that own the unit's life and its text.

  \<^item> The protocol is request-response, so there is one unit, \<open>mc_u\<close>, live while \<open>mc_unit_open\<close>.
  \<^item> \<open>own_text\<close>/\<open>own_len\<close>, \<open>pending_text\<close>/\<open>pending_len\<close> and \<open>text\<close>/\<open>text_len\<close> are the valid bytes; a capacity
    of 0 is a NULL buffer. \<open>prep_idx = -1\<close> and \<open>copy_kind = 0\<close> are None.
  \<^item> A \<open>char[]\<close> field is the C string it holds.
\<close>

section \<open>Types\<close>

definition LK_MY_PREP_CACHE :: nat where "LK_MY_PREP_CACHE = 256"

abbreviation MY_CAP_MYSQL :: u32 where "MY_CAP_MYSQL \<equiv> 0x00000001"
abbreviation MY_CAP_CONNECT_WITH_DB :: u32 where "MY_CAP_CONNECT_WITH_DB \<equiv> 0x00000008"
abbreviation MY_CAP_PLUGIN_AUTH :: u32 where "MY_CAP_PLUGIN_AUTH \<equiv> 0x00080000"
abbreviation MY_CAP_CONNECT_ATTRS :: u32 where "MY_CAP_CONNECT_ATTRS \<equiv> 0x00100000"
abbreviation MY_CAP_PLUGIN_AUTH_LENENC :: u32 where "MY_CAP_PLUGIN_AUTH_LENENC \<equiv> 0x00200000"
abbreviation MY_CAP_SESSION_TRACK :: u32 where "MY_CAP_SESSION_TRACK \<equiv> 0x00800000"
abbreviation MY_CAP_DEPRECATE_EOF :: u32 where "MY_CAP_DEPRECATE_EOF \<equiv> 0x01000000"
abbreviation MY_CAP_OPT_METADATA :: u32 where "MY_CAP_OPT_METADATA \<equiv> 0x02000000"
abbreviation MY_CAP_QUERY_ATTRIBUTES :: u32 where "MY_CAP_QUERY_ATTRIBUTES \<equiv> 0x08000000"
abbreviation MY_MCAP_PROGRESS :: u32 where "MY_MCAP_PROGRESS \<equiv> 0x00000001"
abbreviation MY_MCAP_CACHE_METADATA :: u32 where "MY_MCAP_CACHE_METADATA \<equiv> 0x00000010"

abbreviation MY_ST_IN_TRANS :: u16 where "MY_ST_IN_TRANS \<equiv> 0x0001"
abbreviation MY_ST_MORE_RESULTS :: u16 where "MY_ST_MORE_RESULTS \<equiv> 0x0008"
abbreviation MY_ST_CURSOR_EXISTS :: u16 where "MY_ST_CURSOR_EXISTS \<equiv> 0x0040"
abbreviation MY_ST_LAST_ROW_SENT :: u16 where "MY_ST_LAST_ROW_SENT \<equiv> 0x0080"
abbreviation MY_ST_STATE_CHANGED :: u16 where "MY_ST_STATE_CHANGED \<equiv> 0x4000"

datatype my_phase = MY_PH_HANDSHAKE | MY_PH_READY | MY_PH_INFILE | MY_PH_IGNORE

datatype my_sess = MY_S_GREETING | MY_S_RESPONSE | MY_S_AUTH | MY_S_DONE

datatype my_reply = MY_R_NONE | MY_R_HEAD | MY_R_COLS | MY_R_ROWS | MY_R_PREPARE_OK | MY_R_PREP_META
  | MY_R_STRING | MY_R_FIELD_LIST

record my_unit =
  mu_ts_start :: u64
  mu_ts_first_row :: u64
  mu_ts_complete :: u64
  mu_rows :: u64
  mu_bytes :: u64
  mu_ncomplete :: u32
  mu_kind :: lk_query_kind
  mu_copy_kind :: "lk_query_kind option"
  mu_flags :: u16
  mu_sqlstate :: bytes
  mu_err_code :: u16
  mu_prep_idx :: "nat option"
  mu_prep_gen :: u32
  mu_own_text :: bytes
  mu_own_cap :: nat

record my_prep =
  me_used :: bool
  me_trunc :: bool
  me_gen :: u32
  me_lru :: u64
  me_stmt_id :: u32
  me_text :: bytes
  me_text_cap :: nat

record my_prep_cache =
  mp_e :: "nat \<Rightarrow> my_prep"
  mp_clock :: u64
  mp_count :: nat

record my_conn =
  mc_phase :: my_phase
  mc_sess :: my_sess
  mc_reply :: my_reply
  mc_session :: lk_session
  mc_msgs :: nat
  mc_caps :: u32
  mc_mcaps :: u32
  mc_caps_known :: bool
  mc_session_emitted :: bool
  mc_u :: my_unit
  mc_unit_open :: bool
  mc_cols_left :: u32
  mc_meta_left :: u32
  mc_pending_db :: bytes
  mc_pending_user :: bytes
  mc_have_pending_db :: bool
  mc_have_pending_user :: bool
  mc_pending_text :: bytes
  mc_pending_cap :: nat
  mc_pending_prep :: bool
  mc_pending_trunc :: bool
  mc_prep :: "my_prep_cache option"
  mc_txn_status :: u8
  mc_txn_start :: u64

record my_ok =
  ok_affected :: u64
  ok_insert_id :: u64
  ok_status :: u16
  ok_warnings :: u16
  ok_have_status :: bool

text \<open>Freshly zeroed memory.\<close>

definition my_unit_zero :: my_unit where
  "my_unit_zero = \<lparr>mu_ts_start = 0, mu_ts_first_row = 0, mu_ts_complete = 0, mu_rows = 0, mu_bytes = 0,
     mu_ncomplete = 0, mu_kind = LK_Q_SIMPLE, mu_copy_kind = None, mu_flags = 0, mu_sqlstate = [], mu_err_code = 0,
     mu_prep_idx = Some 0, mu_prep_gen = 0, mu_own_text = [], mu_own_cap = 0\<rparr>"

definition my_prep_zero :: my_prep where
  "my_prep_zero = \<lparr>me_used = False, me_trunc = False, me_gen = 0, me_lru = 0, me_stmt_id = 0, me_text = [],
     me_text_cap = 0\<rparr>"

definition my_prep_cache_zero :: my_prep_cache where
  "my_prep_cache_zero = \<lparr>mp_e = (\<lambda>_. my_prep_zero), mp_clock = 0, mp_count = 0\<rparr>"

definition my_conn_zero :: my_conn where
  "my_conn_zero = \<lparr>mc_phase = MY_PH_HANDSHAKE, mc_sess = MY_S_GREETING, mc_reply = MY_R_NONE,
     mc_session = lk_session_zero, mc_msgs = 0, mc_caps = 0, mc_mcaps = 0, mc_caps_known = False,
     mc_session_emitted = False, mc_u = my_unit_zero, mc_unit_open = False, mc_cols_left = 0, mc_meta_left = 0,
     mc_pending_db = [], mc_pending_user = [], mc_have_pending_db = False, mc_have_pending_user = False,
     mc_pending_text = [], mc_pending_cap = 0, mc_pending_prep = False, mc_pending_trunc = False, mc_prep = None,
     mc_txn_status = 0, mc_txn_start = 0\<rparr>"

section \<open>Unit lifecycle\<close>

abbreviation upd_u :: "(my_unit \<Rightarrow> my_unit) \<Rightarrow> my_conn \<Rightarrow> my_conn" where
  "upd_u g pc \<equiv> pc\<lparr>mc_u := g (mc_u pc)\<rparr>"

abbreviation or_uflag :: "u16 \<Rightarrow> my_unit \<Rightarrow> my_unit" where
  "or_uflag fl u \<equiv> u\<lparr>mu_flags := mu_flags u OR fl\<rparr>"

definition unit_open :: "lk_query_kind \<Rightarrow> u64 \<Rightarrow> my_conn \<Rightarrow> my_conn" where
  "unit_open kind ts pc =
     pc\<lparr>mc_u := my_unit_zero\<lparr>mu_own_cap := mu_own_cap (mc_u pc), mu_prep_idx := None, mu_kind := kind, mu_ts_start := ts\<rparr>,
        mc_unit_open := True\<rparr>"

text \<open>With a counter: the number to add to it.\<close>

definition my_query_drop_unit :: "my_conn \<Rightarrow> nat \<times> my_conn" where
  "my_query_drop_unit pc = (if \<not> mc_unit_open pc then (0, pc) else (1, pc\<lparr>mc_unit_open := False\<rparr>))"

definition add_dropped :: "nat \<Rightarrow> lk_proto \<Rightarrow> lk_proto" where
  "add_dropped n p = upd_pst (\<lambda>s. s\<lparr>ps_units_dropped_resync := ps_units_dropped_resync s + n\<rparr>) p"

definition inc_parse_errors :: "lk_proto \<Rightarrow> lk_proto" where
  "inc_parse_errors p = upd_pst (\<lambda>s. s\<lparr>ps_parse_errors := ps_parse_errors s + 1\<rparr>) p"

definition my_corrupt :: "lk_proto \<Rightarrow> my_conn \<Rightarrow> lk_proto \<times> my_conn" where
  "my_corrupt p pc = (inc_parse_errors p, (snd (my_query_drop_unit pc))\<lparr>mc_reply := MY_R_NONE\<rparr>)"

section \<open>Text\<close>

definition my_own_grow :: "my_unit \<Rightarrow> nat \<Rightarrow> heap \<Rightarrow> bool \<times> my_unit \<times> heap" where
  "my_own_grow u n hp =
     (if mu_own_cap u < n then
        (let (ok, hp) = hp_realloc (mu_own_cap u = 0) hp
         in if \<not> ok then (False, or_uflag LK_QO_NO_TEXT (u\<lparr>mu_own_text := []\<rparr>), hp)
            else (True, u\<lparr>mu_own_cap := n\<rparr>, hp))
      else (True, u, hp))"

text \<open>Called with \<open>pc->prep\<close> set.\<close>

definition my_query_rescue_ref :: "nat \<Rightarrow> my_conn \<Rightarrow> heap \<Rightarrow> my_conn \<times> heap" where
  "my_query_rescue_ref slot pc hp =
     (case mc_prep pc of
        None \<Rightarrow> (pc, hp)
      | Some pr \<Rightarrow>
          (let u = mc_u pc; e = mp_e pr slot
           in if \<not> mc_unit_open pc \<or> mu_prep_idx u \<noteq> Some slot \<or> mu_prep_gen u \<noteq> me_gen e then (pc, hp)
              else
                (let (ok, u, hp) = (if me_text e \<noteq> [] then my_own_grow u (length (me_text e)) hp else (False, u, hp));
                     u = u\<lparr>mu_own_text := (if ok then me_text e else [])\<rparr>
                 in (pc\<lparr>mc_u := u\<lparr>mu_prep_idx := None\<rparr>\<rparr>, hp))))"

definition unit_text :: "my_conn \<Rightarrow> my_unit \<Rightarrow> bytes option" where
  "unit_text pc u =
     (if has_flag (mu_flags u) LK_QO_NO_TEXT then None
      else (case (mu_prep_idx u, mc_prep pc) of
          (Some i, Some pr) \<Rightarrow>
            (let e = mp_e pr i
             in if me_used e \<and> me_gen e = mu_prep_gen u \<and> me_text e \<noteq> [] then Some (me_text e) else None)
        | _ \<Rightarrow> (if mu_own_text u \<noteq> [] then Some (mu_own_text u) else None)))"

definition is_space :: "u8 \<Rightarrow> bool" where
  "is_space b \<longleftrightarrow> b = ch CHR '' '' \<or> b = 9 \<or> b = 10 \<or> b = 13"

definition to_lower :: "u8 \<Rightarrow> u8" where
  "to_lower b = (if ch CHR ''A'' \<le> b \<and> b \<le> ch CHR ''Z'' then b + 32 else b)"

definition word_char :: "u8 \<Rightarrow> bool" where
  "word_char b \<longleftrightarrow> ch CHR ''A'' \<le> b \<and> b \<le> ch CHR ''Z'' \<or> ch CHR ''a'' \<le> b \<and> b \<le> ch CHR ''z''
     \<or> ch CHR ''0'' \<le> b \<and> b \<le> ch CHR ''9'' \<or> b = ch CHR ''_''"

definition unit_is_rollback :: "my_conn \<Rightarrow> my_unit \<Rightarrow> bool" where
  "unit_is_rollback pc u =
     (case unit_text pc u of
        None \<Rightarrow> False
      | Some t \<Rightarrow>
          (let t = dropWhile is_space t
           in if length t < 8 \<or> map to_lower (take 8 t) \<noteq> lit ''rollback'' then False
              else drop 8 t = [] \<or> \<not> word_char (t ! 8)))"

text \<open>One binary parameter value, skipped by its type.\<close>

definition skip_binary_value :: "my_wire \<Rightarrow> u8 \<Rightarrow> bool \<times> my_wire" where
  "skip_binary_value w type =
     (if type = 0x01 then my_wire_skip 1 w
      else if type = 0x02 \<or> type = 0x0d then my_wire_skip 2 w
      else if type = 0x03 \<or> type = 0x04 \<or> type = 0x09 then my_wire_skip 4 w
      else if type = 0x05 \<or> type = 0x08 then my_wire_skip 8 w
      else if type = 0x06 then (True, w)
      else if type = 0x07 \<or> type = 0x0a \<or> type = 0x0b \<or> type = 0x0c then
        (let (ok, l, w) = my_wire_get_u8 w in if \<not> ok then (False, w) else my_wire_skip (unat l) w)
      else (let (ok, s, w) = my_wire_get_lenenc_str w in (ok, w)))"

definition MY_ATTR_MAX :: nat where "MY_ATTR_MAX = 64"

text \<open>The two loops over the parameters: types with names, then values.\<close>

fun attr_types :: "nat \<Rightarrow> my_wire \<Rightarrow> (u8 list \<times> my_wire) option" where
  "attr_types 0 w = Some ([], w)"
| "attr_types (Suc n) w =
     (let (ok1, type, w) = my_wire_get_u8 w; (ok2, w2) = my_wire_skip 1 w; (ok3, nm, w3) = my_wire_get_lenenc_str w2
      in if \<not> ok1 \<or> \<not> ok2 \<or> \<not> ok3 then None
         else (case attr_types n w3 of None \<Rightarrow> None | Some (ts, w) \<Rightarrow> Some (type # ts, w)))"

fun attr_values :: "bytes \<Rightarrow> nat \<Rightarrow> u8 list \<Rightarrow> my_wire \<Rightarrow> my_wire option" where
  "attr_values bitmap i [] w = Some w"
| "attr_values bitmap i (t # ts) w =
     (if bit (bitmap ! (i div 8)) (i mod 8) then attr_values bitmap (Suc i) ts w
      else (let (ok, w) = skip_binary_value w t in if \<not> ok then None else attr_values bitmap (Suc i) ts w))"

text \<open>The attribute header past the command byte; the cursor after it.\<close>

definition skip_attrs :: "my_wire \<Rightarrow> my_wire option" where
  "skip_attrs w =
     (let (ok0, w) = my_wire_skip 1 w; (ok1, pcount, w) = my_wire_get_lenenc w; (ok2, scount, w) = my_wire_get_lenenc w
      in if \<not> ok0 \<or> \<not> ok1 \<or> \<not> ok2 then None
         else if MY_ATTR_MAX < unat pcount then None
         else if pcount = 0 then Some w
         else
           (let bitmap = w_rest w; (ok3, w) = my_wire_skip ((unat pcount + 7) div 8) w; (ok4, bound, w) = my_wire_get_u8 w
            in if \<not> ok3 \<or> \<not> ok4 then None
               else if bound = 0 then None
               else (case attr_types (unat pcount) w of None \<Rightarrow> None | Some (ts, w) \<Rightarrow> attr_values bitmap 0 ts w)))"

text \<open>\<open>None\<close>: the text cannot be located.\<close>

definition query_text_off :: "my_conn \<Rightarrow> lk_msg \<Rightarrow> nat option" where
  "query_text_off pc m =
     (if (if mc_caps_known pc then \<not> has_cap (mc_caps pc) MY_CAP_QUERY_ATTRIBUTES
          else \<not> (3 \<le> m_body_cap m \<and> m_body m ! 1 = 0 \<and> m_body m ! 2 = 1))
      then Some 1
      else map_option (\<lambda>w. m_body_cap m - my_wire_remaining w) (skip_attrs (my_wire_init (m_body m))))"

end
