(* ===== verification/My_Prep.thy ===== *)
theory My_Prep
  imports My_State
begin

text \<open>
  The MySQL prepared-statement cache, src/src/proto/my/my_prep.c: the text is remembered at
  COM_STMT_PREPARE and bound to the server's statement id by COM_STMT_PREPARE_OK.
\<close>

section \<open>Definitions\<close>

definition find_by_id :: "my_prep_cache \<Rightarrow> u32 \<Rightarrow> nat option" where
  "find_by_id pr stmt_id = List.find (\<lambda>i. me_used (mp_e pr i) \<and> me_stmt_id (mp_e pr i) = stmt_id) [0..<LK_MY_PREP_CACHE]"

definition my_lru_slot :: "my_prep_cache \<Rightarrow> nat" where
  "my_lru_slot pr = argmin_from (\<lambda>i. me_lru (mp_e pr i)) [1..<LK_MY_PREP_CACHE] 0"

definition my_pick_slot :: "lk_proto \<Rightarrow> my_prep_cache \<Rightarrow> nat \<times> lk_proto \<times> my_prep_cache" where
  "my_pick_slot p pr =
     (case List.find (\<lambda>i. \<not> me_used (mp_e pr i)) [0..<LK_MY_PREP_CACHE] of
        Some i \<Rightarrow> (i, p, pr\<lparr>mp_count := mp_count pr + 1\<rparr>)
      | None \<Rightarrow> (my_lru_slot pr, upd_pst (\<lambda>s. s\<lparr>ps_prep_evictions := ps_prep_evictions s + 1\<rparr>) p, pr))"

definition my_prep_prepare :: "lk_proto \<Rightarrow> my_conn \<Rightarrow> lk_msg \<Rightarrow> lk_proto \<times> my_conn" where
  "my_prep_prepare p pc m =
     (let n = min (m_body_cap m - 1) LK_MSG_BODY_MAX;
          pc = pc\<lparr>mc_reply := MY_R_PREPARE_OK, mc_pending_prep := True, mc_pending_trunc := m_trunc m\<rparr>;
          txt = take n (drop 1 (m_body m))
      in if mc_pending_cap pc < n then
           (let (ok, hp) = hp_realloc (mc_pending_cap pc = 0) (p_heap p); p = p\<lparr>p_heap := hp\<rparr>
            in if \<not> ok then (p, pc\<lparr>mc_pending_text := []\<rparr>)
               else (p, pc\<lparr>mc_pending_cap := n, mc_pending_text := txt\<rparr>))
         else (p, pc\<lparr>mc_pending_text := txt\<rparr>))"

text \<open>\<open>if (!pc->prep) pc->prep = calloc(...)\<close>: the cache, if there is one now.\<close>

definition my_prep_get :: "lk_proto \<Rightarrow> my_conn \<Rightarrow> my_prep_cache option \<times> lk_proto \<times> my_conn" where
  "my_prep_get p pc =
     (case mc_prep pc of
        Some pr \<Rightarrow> (Some pr, p, pc)
      | None \<Rightarrow>
          (let (ok, hp) = hp_alloc (p_heap p); p = p\<lparr>p_heap := hp\<rparr>
           in if ok then (Some my_prep_cache_zero, p, pc\<lparr>mc_prep := Some my_prep_cache_zero\<rparr>)
              else (None, p, pc)))"

text \<open>The slot of a statement id: its own, a free one, or the coldest.\<close>

definition my_claim_slot :: "lk_proto \<Rightarrow> my_prep_cache \<Rightarrow> u32 \<Rightarrow> nat \<times> lk_proto \<times> my_prep_cache" where
  "my_claim_slot p pr stmt_id = (case find_by_id pr stmt_id of Some i \<Rightarrow> (i, p, pr) | None \<Rightarrow> my_pick_slot p pr)"

text \<open>The entry, filled with the pending text.\<close>

definition my_fill_slot :: "my_prep \<Rightarrow> bool \<Rightarrow> u64 \<Rightarrow> u32 \<Rightarrow> bytes \<Rightarrow> heap \<Rightarrow> my_prep \<times> heap" where
  "my_fill_slot e trunc lru stmt_id txt hp =
     (let e = e\<lparr>me_used := True, me_trunc := trunc, me_gen := me_gen e + 1, me_lru := lru, me_stmt_id := stmt_id\<rparr>
      in if me_text_cap e < length txt then
           (let (ok, hp) = hp_realloc (me_text_cap e = 0) hp
            in if \<not> ok then (e\<lparr>me_text := []\<rparr>, hp) else (e\<lparr>me_text_cap := length txt, me_text := txt\<rparr>, hp))
         else (e\<lparr>me_text := txt\<rparr>, hp))"

text \<open>Claim a slot for the id, rescue a live reference to it, fill it.\<close>

definition my_prep_store :: "lk_proto \<Rightarrow> my_conn \<Rightarrow> my_prep_cache \<Rightarrow> u32 \<Rightarrow> lk_proto \<times> my_conn" where
  "my_prep_store p pc pr stmt_id =
     (let (slot, p, pr) = my_claim_slot p pr stmt_id;
          (pc, hp) = my_query_rescue_ref slot (pc\<lparr>mc_prep := Some pr\<rparr>) (p_heap p);
          clock = mp_clock pr + 1;
          (e, hp) = my_fill_slot (mp_e pr slot) (mc_pending_trunc pc) clock stmt_id (mc_pending_text pc) hp
      in (p\<lparr>p_heap := hp\<rparr>, pc\<lparr>mc_prep := Some (pr\<lparr>mp_e := (mp_e pr)(slot := e), mp_clock := clock\<rparr>)\<rparr>))"

definition my_prep_ok :: "lk_proto \<Rightarrow> my_conn \<Rightarrow> lk_msg \<Rightarrow> lk_proto \<times> my_conn" where
  "my_prep_ok p pc m =
     (let pc = pc\<lparr>mc_reply := MY_R_NONE\<rparr>;
          (ok, head, w) = my_wire_get_u8 (my_wire_init (m_body m))
      in if \<not> ok then (p, pc)
         else if head \<noteq> 0 then (p, pc\<lparr>mc_pending_prep := False\<rparr>)
         else
           (let (ok1, stmt_id, w) = my_wire_get_u32 w; (ok2, ncols, w) = my_wire_get_u16 w; (ok3, nparams, w) = my_wire_get_u16 w
            in if \<not> ok1 \<or> \<not> ok2 \<or> \<not> ok3
               then (if \<not> m_trunc m then inc_parse_errors p else p, pc\<lparr>mc_pending_prep := False\<rparr>)
               else
                 (let pc = pc\<lparr>mc_meta_left := ucast ncols + ucast nparams\<rparr>;
                      pc = (if mc_meta_left pc \<noteq> 0 then pc\<lparr>mc_reply := MY_R_PREP_META\<rparr> else pc)
                  in if \<not> mc_pending_prep pc then (p, pc)
                     else
                       (let (pr, p, pc) = my_prep_get p (pc\<lparr>mc_pending_prep := False\<rparr>)
                        in case pr of None \<Rightarrow> (p, pc) | Some pr \<Rightarrow> my_prep_store p pc pr stmt_id))))"

definition my_forget :: "my_prep \<Rightarrow> my_prep" where
  "my_forget e = e\<lparr>me_used := False, me_gen := me_gen e + 1, me_text := []\<rparr>"

definition my_prep_close :: "my_conn \<Rightarrow> lk_msg \<Rightarrow> heap \<Rightarrow> my_conn \<times> heap" where
  "my_prep_close pc m hp =
     (let (ok1, w) = my_wire_skip 1 (my_wire_init (m_body m)); (ok2, stmt_id, w) = my_wire_get_u32 w
      in if \<not> ok1 \<or> \<not> ok2 then (pc, hp)
         else (case mc_prep pc of
             None \<Rightarrow> (pc, hp)
           | Some pr \<Rightarrow>
               (case find_by_id pr stmt_id of
                  None \<Rightarrow> (pc, hp)
                | Some slot \<Rightarrow>
                    (let (pc, hp) = my_query_rescue_ref slot pc hp
                     in (pc\<lparr>mc_prep := Some (pr\<lparr>mp_e := (mp_e pr)(slot := my_forget (mp_e pr slot)), mp_count := mp_count pr - 1\<rparr>)\<rparr>, hp)))))"

text \<open>The slot, its generation and its truncation flag.\<close>

definition my_prep_lookup :: "my_conn \<Rightarrow> u32 \<Rightarrow> (nat \<times> u32 \<times> bool) option \<times> my_conn" where
  "my_prep_lookup pc stmt_id =
     (case mc_prep pc of
        None \<Rightarrow> (None, pc)
      | Some pr \<Rightarrow>
          (case find_by_id pr stmt_id of
             None \<Rightarrow> (None, pc)
           | Some slot \<Rightarrow>
               (let clock = mp_clock pr + 1;
                    e = (mp_e pr slot)\<lparr>me_lru := clock\<rparr>
                in (Some (slot, me_gen e, me_trunc e),
                    pc\<lparr>mc_prep := Some (pr\<lparr>mp_e := (mp_e pr)(slot := e), mp_clock := clock\<rparr>)\<rparr>))))"

definition drop_slot :: "nat \<Rightarrow> my_conn \<times> heap \<Rightarrow> my_conn \<times> heap" where
  "drop_slot i s =
     (let (pc, hp) = s
      in case mc_prep pc of
           None \<Rightarrow> (pc, hp)
         | Some pr \<Rightarrow>
             if \<not> me_used (mp_e pr i) then (pc, hp)
             else (let (pc, hp) = my_query_rescue_ref i pc hp
                   in (pc\<lparr>mc_prep := Some (pr\<lparr>mp_e := (mp_e pr)(i := my_forget (mp_e pr i))\<rparr>)\<rparr>, hp)))"

definition my_prep_drop_all :: "my_conn \<Rightarrow> heap \<Rightarrow> my_conn \<times> heap" where
  "my_prep_drop_all pc hp =
     (if mc_prep pc = None then (pc, hp)
      else (let (pc, hp) = fold drop_slot [0..<LK_MY_PREP_CACHE] (pc, hp)
            in (pc\<lparr>mc_prep := map_option (\<lambda>pr. pr\<lparr>mp_count := 0\<rparr>) (mc_prep pc)\<rparr>, hp)))"

definition my_prep_free :: "my_conn \<Rightarrow> heap \<Rightarrow> my_conn \<times> heap" where
  "my_prep_free pc hp =
     (case mc_prep pc of
        None \<Rightarrow> (pc, hp)
      | Some pr \<Rightarrow>
          (pc\<lparr>mc_prep := None\<rparr>,
           hp_free (fold (\<lambda>i. free_text (me_text_cap (mp_e pr i))) [0..<LK_MY_PREP_CACHE] hp)))"

end
