(* ===== verification/My_Session.thy ===== *)
theory My_Session
  imports My_Prep
begin

text \<open>
  The connection phase and the session labels, src/src/proto/my/my_session.c, with the OK-packet parser
  of src/src/proto/my/my_query.c it shares with the query machine. Authentication data is only skipped.
\<close>

section \<open>OK and EOF packets (my_query.c)\<close>

text \<open>\<open>copy_field\<close> into a \<open>char[sz]\<close>: the C string the field then holds.\<close>

definition my_copy_field :: "nat \<Rightarrow> bytes \<Rightarrow> bytes" where
  "my_copy_field sz src = takeWhile (\<lambda>b. b \<noteq> 0) (take (sz - 1) src)"

definition my_key_is :: "bytes \<Rightarrow> string \<Rightarrow> bool" where
  "my_key_is key s \<longleftrightarrow> key = lit s"

text \<open>One SESSION_TRACK_SCHEMA entry: the schema name is a nested length-encoded string.\<close>

definition track_schema :: "bytes \<Rightarrow> lk_session \<Rightarrow> lk_session" where
  "track_schema data s =
     (let (ok, schema, iw) = my_wire_get_lenenc_str (my_wire_init data)
      in if ok \<and> schema \<noteq> [] then s\<lparr>se_database := my_copy_field 64 schema\<rparr> else s)"

function track_loop :: "my_wire \<Rightarrow> lk_session \<Rightarrow> lk_session" where
  "track_loop w s =
     (if my_wire_remaining w = 0 then s
      else (case my_wire_get_u8 w of (ok1, type, w1) \<Rightarrow>
        case my_wire_get_lenenc_str w1 of (ok2, data, w2) \<Rightarrow>
          if \<not> ok1 \<or> \<not> ok2 then s
          else track_loop w2 (if type = 1 then track_schema data s else s)))"
  by pat_completeness auto
termination
  by (relation "measure (\<lambda>(w, s). length (w_rest w))")
    (auto dest!: wire_lenenc_str_progress [OF sym] wire_get_le(1) [OF sym] wire_le_length)

declare track_loop.simps [simp del]

definition parse_session_track :: "my_wire \<Rightarrow> lk_session \<Rightarrow> lk_session" where
  "parse_session_track w s =
     (let (ok1, info, w) = my_wire_get_lenenc_str w; (ok2, total, w) = my_wire_get_lenenc w
      in if \<not> ok1 \<or> \<not> ok2 then s else track_loop w s)"

definition my_ok_zero :: my_ok where
  "my_ok_zero = \<lparr>ok_affected = 0, ok_insert_id = 0, ok_status = 0, ok_warnings = 0, ok_have_status = False\<rparr>"

definition my_query_parse_ok :: "my_conn \<Rightarrow> lk_msg \<Rightarrow> bool \<Rightarrow> my_ok \<times> my_conn" where
  "my_query_parse_ok pc m eof_shape =
     (let ok = my_ok_zero; (sk, w) = my_wire_skip 1 (my_wire_init (m_body m))
      in if \<not> sk then (ok, pc)
         else if eof_shape then
           (let (k1, warnings, w) = my_wire_get_u16 w; (k2, status, w) = (if k1 then my_wire_get_u16 w else (False, 0, w))
            in (ok\<lparr>ok_warnings := warnings, ok_status := status, ok_have_status := k1 \<and> k2\<rparr>, pc))
         else
           (let (k1, affected, w) = my_wire_get_lenenc w; ok = ok\<lparr>ok_affected := affected\<rparr>
            in if \<not> k1 then (ok, pc)
               else
                 (let (k2, insert_id, w) = my_wire_get_lenenc w; ok = ok\<lparr>ok_insert_id := insert_id\<rparr>
                  in if \<not> k2 then (ok, pc)
                     else
                       (let (k3, status, w) = my_wire_get_u16 w; (k4, warnings, w) = (if k3 then my_wire_get_u16 w else (False, 0, w));
                            ok = ok\<lparr>ok_status := status, ok_warnings := warnings, ok_have_status := k3 \<and> k4\<rparr>
                        in (ok, if ok_have_status ok \<and> mc_caps_known pc \<and> has_cap (mc_caps pc) MY_CAP_SESSION_TRACK
                                   \<and> has_flag status MY_ST_STATE_CHANGED
                                then pc\<lparr>mc_session := parse_session_track w (mc_session pc)\<rparr> else pc)))))"

section \<open>Greeting and handshake response\<close>

definition strip_compat :: "bytes \<Rightarrow> bytes" where
  "strip_compat ver = (if 6 < length ver \<and> take 6 ver = lit ''5.5.5-'' then drop 6 ver else ver)"

definition greeting :: "my_conn \<Rightarrow> lk_msg \<Rightarrow> my_conn" where
  "greeting pc m =
     (let (ok, proto, w) = my_wire_get_u8 (my_wire_init (m_body m))
      in if \<not> ok then pc
         else if proto = 0xff then pc
         else
           (let pc = pc\<lparr>mc_sess := MY_S_RESPONSE\<rparr>
            in if proto \<noteq> 10 then pc
               else
                 (let (vok, ver, w) = my_wire_cstring w
                  in if \<not> vok then pc
                     else pc\<lparr>mc_session := (mc_session pc)\<lparr>se_server_version := my_copy_field 16 (strip_compat ver)\<rparr>\<rparr>)))"

function attrs_loop :: "my_wire \<Rightarrow> bool \<Rightarrow> lk_session \<Rightarrow> lk_session" where
  "attrs_loop w have_program s =
     (if my_wire_remaining w = 0 then s
      else (case my_wire_get_lenenc_str w of (ok1, key, w1) \<Rightarrow>
        if \<not> ok1 then s
        else (case my_wire_get_lenenc_str w1 of (ok2, val, w2) \<Rightarrow>
          if \<not> ok2 then s
          else if my_key_is key ''program_name'' then attrs_loop w2 True (s\<lparr>se_app := my_copy_field 64 val\<rparr>)
          else if my_key_is key ''_client_name'' \<and> \<not> have_program \<and> se_app s = []
          then attrs_loop w2 have_program (s\<lparr>se_app := my_copy_field 64 val\<rparr>)
          else attrs_loop w2 have_program s)))"
  by pat_completeness auto
termination
  by (relation "measure (\<lambda>(w, h, s). length (w_rest w))")
    (auto dest!: wire_lenenc_str_progress [OF sym] intro: less_trans)

declare attrs_loop.simps [simp del]

definition parse_attrs :: "my_wire \<Rightarrow> lk_session \<Rightarrow> lk_session" where
  "parse_attrs w s = (let (ok, total, w) = my_wire_get_lenenc w in if \<not> ok then s else attrs_loop w False s)"

text \<open>The labels after the fixed 32-byte header. The authentication response is skipped by its length, cast to
  32 bits.\<close>

definition skip_auth :: "u32 \<Rightarrow> my_wire \<Rightarrow> bool \<times> my_wire" where
  "skip_auth caps w =
     (if has_cap caps MY_CAP_PLUGIN_AUTH_LENENC then
        (let (ok, alen, w) = my_wire_get_lenenc w in if \<not> ok then (False, w) else my_wire_skip (unat (ucast alen :: u32)) w)
      else (let (ok, al, w) = my_wire_get_u8 w in if \<not> ok then (False, w) else my_wire_skip (unat al) w))"

definition response_tail :: "u32 \<Rightarrow> my_wire \<Rightarrow> lk_session \<Rightarrow> lk_session" where
  "response_tail caps w s =
     (let (pok, w) = (if has_cap caps MY_CAP_PLUGIN_AUTH then (let (k, plugin, w) = my_wire_cstring w in (k, w)) else (True, w))
      in if \<not> pok then s
         else if has_cap caps MY_CAP_CONNECT_ATTRS then parse_attrs w s else s)"

definition response_labels :: "u32 \<Rightarrow> my_wire \<Rightarrow> lk_session \<Rightarrow> lk_session" where
  "response_labels caps w s =
     (let (uok, user, w) = my_wire_cstring w; s = s\<lparr>se_user := my_copy_field 64 user\<rparr>
      in if \<not> uok then s
         else
           (let (aok, w) = skip_auth caps w
            in if \<not> aok then s
               else if has_cap caps MY_CAP_CONNECT_WITH_DB then
                 (let (dok, db, w) = my_wire_cstring w; s = s\<lparr>se_database := my_copy_field 64 db\<rparr>
                  in if \<not> dok then s else response_tail caps w s)
               else response_tail caps w s))"

definition handshake_response :: "my_conn \<Rightarrow> lk_msg \<Rightarrow> my_conn" where
  "handshake_response pc m =
     (let cut = m_trunc m; (ok, caps, w) = my_wire_get_u32 (my_wire_init (m_body m)); pc = pc\<lparr>mc_caps := caps\<rparr>
      in if \<not> ok then pc
         else
           (let pc = pc\<lparr>mc_caps_known := True\<rparr>;
                (k1, dummy, w) = my_wire_get_u32 w; (k2, charset, w) = my_wire_get_u8 w; (k3, w) = my_wire_skip 19 w;
                (k4, mcaps, w) = (if k1 \<and> k2 \<and> k3 then my_wire_get_u32 w else (False, mc_mcaps pc, w));
                pc = pc\<lparr>mc_mcaps := mcaps\<rparr>
            in if \<not> k1 \<or> \<not> k2 \<or> \<not> k3 \<or> \<not> k4 then (if cut then pc\<lparr>mc_sess := MY_S_AUTH\<rparr> else pc)
               else
                 (let pc = (if has_cap caps MY_CAP_MYSQL then pc\<lparr>mc_mcaps := 0\<rparr> else pc)
                  in if my_wire_remaining w = 0 then (if cut then pc\<lparr>mc_sess := MY_S_AUTH\<rparr> else pc)
                     else pc\<lparr>mc_sess := MY_S_AUTH,
                             mc_session := response_labels caps w ((mc_session pc)\<lparr>se_complete := \<not> cut\<rparr>)\<rparr>)))"

section \<open>The session boundary\<close>

definition my_session_ok_effects :: "my_conn \<Rightarrow> my_conn" where
  "my_session_ok_effects pc =
     (if mc_have_pending_db pc
      then pc\<lparr>mc_session := (mc_session pc)\<lparr>se_database := my_copy_field 64 (mc_pending_db pc)\<rparr>, mc_have_pending_db := False\<rparr>
      else pc)"

definition emit_session :: "lk_proto \<Rightarrow> ('ps, 'fs) lk_conn \<Rightarrow> my_conn \<Rightarrow> lk_proto \<times> my_conn" where
  "emit_session p c pc =
     (let pc = pc\<lparr>mc_session_emitted := True\<rparr>;
          p = upd_pst (\<lambda>s. s\<lparr>ps_sessions := ps_sessions s + 1\<rparr>) p
      in (call_session p c (mc_session pc), pc))"

definition my_session_final_ok :: "lk_proto \<Rightarrow> ('ps, 'fs) lk_conn \<Rightarrow> my_conn \<Rightarrow> lk_msg \<Rightarrow> lk_proto \<times> my_conn" where
  "my_session_final_ok p c pc m =
     (let pc = (if mc_have_pending_user pc
                then pc\<lparr>mc_session := (mc_session pc)\<lparr>se_user := my_copy_field 64 (mc_pending_user pc)\<rparr>, mc_have_pending_user := False\<rparr>
                else pc);
          (ok, pc) = my_query_parse_ok pc m False;
          pc = (my_session_ok_effects pc)\<lparr>mc_sess := MY_S_DONE\<rparr>;
          (p, pc) = (if has_flag (cn_flags c) LK_CONN_IGNORE
                     then (upd_pst (\<lambda>s. s\<lparr>ps_compressed_conns := ps_compressed_conns s + 1\<rparr>) p, pc\<lparr>mc_phase := MY_PH_IGNORE\<rparr>)
                     else (p, pc\<lparr>mc_phase := MY_PH_READY\<rparr>))
      in if \<not> mc_session_emitted pc then emit_session p c pc else (p, pc))"

definition my_session_backend :: "lk_proto \<Rightarrow> ('ps, 'fs) lk_conn \<Rightarrow> my_conn \<Rightarrow> lk_msg \<Rightarrow> lk_proto \<times> my_conn" where
  "my_session_backend p c pc m =
     (let head = (if m_body m \<noteq> [] then m_body m ! 0 else 0)
      in case mc_sess pc of
           MY_S_GREETING \<Rightarrow> (p, greeting pc m)
         | MY_S_RESPONSE \<Rightarrow> (p, if head = 0xff then pc\<lparr>mc_sess := MY_S_DONE\<rparr> else pc)
         | MY_S_AUTH \<Rightarrow>
             (if head = 0 then my_session_final_ok p c pc m
              else if head = 0xff
              then (p, pc\<lparr>mc_sess := MY_S_DONE, mc_phase := MY_PH_READY, mc_have_pending_user := False, mc_have_pending_db := False\<rparr>)
              else (p, pc))
         | MY_S_DONE \<Rightarrow> (p, pc))"

definition my_session_frontend :: "my_conn \<Rightarrow> lk_msg \<Rightarrow> my_conn" where
  "my_session_frontend pc m =
     (if mc_sess pc = MY_S_GREETING \<or> mc_sess pc = MY_S_RESPONSE then handshake_response pc m else pc)"

definition my_session_promote :: "lk_proto \<Rightarrow> ('ps, 'fs) lk_conn \<Rightarrow> my_conn \<Rightarrow> lk_proto \<times> my_conn" where
  "my_session_promote p c pc =
     (let (p, pc) = (if mc_sess pc = MY_S_AUTH \<and> \<not> mc_session_emitted pc
                     then emit_session p c (pc\<lparr>mc_session := (mc_session pc)\<lparr>se_complete := False\<rparr>\<rparr>) else (p, pc))
      in (p, pc\<lparr>mc_sess := MY_S_DONE, mc_phase := MY_PH_READY, mc_have_pending_user := False, mc_have_pending_db := False\<rparr>))"

section \<open>Label updates in the command phase\<close>

definition my_session_init_db :: "my_conn \<Rightarrow> lk_msg \<Rightarrow> my_conn" where
  "my_session_init_db pc m = pc\<lparr>mc_pending_db := my_copy_field 64 (drop 1 (m_body m)), mc_have_pending_db := True\<rparr>"

definition my_session_change_user :: "lk_proto \<Rightarrow> my_conn \<Rightarrow> lk_msg \<Rightarrow> lk_proto \<times> my_conn" where
  "my_session_change_user p pc m =
     (let (pc, hp) = my_prep_drop_all pc (p_heap p); p = p\<lparr>p_heap := hp\<rparr>;
          pc = pc\<lparr>mc_phase := MY_PH_HANDSHAKE, mc_sess := MY_S_AUTH\<rparr>;
          (k0, w) = my_wire_skip 1 (my_wire_init (m_body m))
      in if \<not> k0 then (p, pc)
         else
           (let (uok, user, w) = my_wire_cstring w; pc = pc\<lparr>mc_pending_user := my_copy_field 64 user\<rparr>
            in if \<not> uok then (p, pc\<lparr>mc_have_pending_user := user \<noteq> []\<rparr>)
               else
                 (let pc = pc\<lparr>mc_have_pending_user := True\<rparr>;
                      (k1, alen, w) = my_wire_get_u8 w; (k2, w) = my_wire_skip (unat alen) w
                  in if \<not> k1 \<or> \<not> k2 then (p, pc)
                     else
                       (let (dok, db, w) = my_wire_cstring w
                        in if \<not> dok then (p, pc)
                           else (p, pc\<lparr>mc_pending_db := my_copy_field 64 db, mc_have_pending_db := True\<rparr>)))))"

end
