(* ===== verification/My_Query.thy ===== *)
theory My_Query
  imports My_Session
begin

text \<open>
  The query phase machine, src/src/proto/my/my_query.c: commands that open a unit, the terminators that
  close it, and the reply states that classify each server packet.
\<close>

section \<open>Commands that open a unit\<close>

definition MY_MAX_COLUMNS :: nat where "MY_MAX_COLUMNS = 4096"

definition deprecate_eof :: "my_conn \<Rightarrow> bool" where
  "deprecate_eof pc \<longleftrightarrow> mc_caps_known pc \<and> has_cap (mc_caps pc) MY_CAP_DEPRECATE_EOF"

text \<open>Whether a packet headed 0xFE is a terminator, and whether it has the EOF shape.\<close>

definition fe_terminator :: "my_conn \<Rightarrow> lk_msg \<Rightarrow> bool \<times> bool" where
  "fe_terminator pc m =
     (if mc_caps_known pc \<and> \<not> has_cap (mc_caps pc) MY_CAP_DEPRECATE_EOF then (m_len m < 9, True)
      else (m_len m < MY_PKT_MAX, \<not> mc_caps_known pc \<and> m_len m < 9))"

definition my_query_simple :: "lk_proto \<Rightarrow> my_conn \<Rightarrow> lk_msg \<Rightarrow> lk_proto \<times> my_conn" where
  "my_query_simple p pc m =
     (let pc = (unit_open LK_Q_SIMPLE (m_ts_ns m) pc)\<lparr>mc_reply := MY_R_HEAD\<rparr>;
          off = (case query_text_off pc m of Some off \<Rightarrow> off | None \<Rightarrow> m_body_cap m)
      in if m_body_cap m \<le> off
         then (p, upd_u (or_uflag (if m_trunc m then LK_QO_NO_TEXT OR LK_QO_TEXT_TRUNC else LK_QO_NO_TEXT)) pc)
         else
           (let n = min (m_body_cap m - off) LK_MSG_BODY_MAX;
                (ok, u, hp) = my_own_grow (mc_u pc) n (p_heap p); p = p\<lparr>p_heap := hp\<rparr>
            in if \<not> ok then (p, pc\<lparr>mc_u := u\<rparr>)
               else
                 (let u = u\<lparr>mu_own_text := take n (drop off (m_body m))\<rparr>
                  in (p, pc\<lparr>mc_u := (if m_trunc m then or_uflag LK_QO_TEXT_TRUNC u else u)\<rparr>))))"

definition open_stmt_unit :: "my_conn \<Rightarrow> lk_msg \<Rightarrow> my_conn" where
  "open_stmt_unit pc m =
     (let pc = unit_open LK_Q_EXTENDED (m_ts_ns m) pc;
          (k1, w) = my_wire_skip 1 (my_wire_init (m_body m)); (k2, stmt_id, w) = my_wire_get_u32 w
      in if \<not> k1 \<or> \<not> k2 then upd_u (or_uflag LK_QO_NO_TEXT) pc
         else (case my_prep_lookup pc stmt_id of
             (None, pc) \<Rightarrow> upd_u (or_uflag LK_QO_NO_TEXT) pc
           | (Some (idx, gen, trunc), pc) \<Rightarrow>
               (let u = (mc_u pc)\<lparr>mu_prep_idx := Some idx, mu_prep_gen := gen\<rparr>
                in pc\<lparr>mc_u := (if trunc then or_uflag LK_QO_TEXT_TRUNC u else u)\<rparr>)))"

definition my_query_execute :: "my_conn \<Rightarrow> lk_msg \<Rightarrow> my_conn" where
  "my_query_execute pc m = (open_stmt_unit pc m)\<lparr>mc_reply := MY_R_HEAD\<rparr>"

definition my_query_fetch :: "my_conn \<Rightarrow> lk_msg \<Rightarrow> my_conn" where
  "my_query_fetch pc m = (open_stmt_unit pc m)\<lparr>mc_reply := MY_R_ROWS\<rparr>"

definition my_query_infile_data :: "my_conn \<Rightarrow> lk_msg \<Rightarrow> my_conn" where
  "my_query_infile_data pc m =
     (if m_len m = 0 then pc
      else if mc_unit_open pc then upd_u (\<lambda>u. u\<lparr>mu_bytes := mu_bytes u + of_nat (m_len m)\<rparr>) pc
      else pc)"

section \<open>Terminators\<close>

text \<open>\<open>None\<close>: a MariaDB progress packet. Otherwise the SQLSTATE and the error number.\<close>

definition parse_err :: "lk_proto \<Rightarrow> my_conn \<Rightarrow> lk_msg \<Rightarrow> (bytes \<times> u16) option \<times> lk_proto" where
  "parse_err p pc m =
     (let (k1, w) = my_wire_skip 1 (my_wire_init (m_body m)); (k2, eno, w) = my_wire_get_u16 w
      in if \<not> k1 \<or> \<not> k2 then (Some ([], 0), if \<not> m_trunc m then inc_parse_errors p else p)
         else if eno = 0xffff \<and> has_cap (mc_mcaps pc) MY_MCAP_PROGRESS then (None, p)
         else
           (let (k3, mark, w) = my_wire_get_u8 w
            in if k3 \<and> mark = ch CHR ''#'' \<and> 5 \<le> my_wire_remaining w
               then (Some (takeWhile (\<lambda>b. b \<noteq> 0) (take 5 (w_rest w)), eno), p)
               else (Some ([], eno), p)))"

definition txn_track :: "lk_proto \<Rightarrow> ('ps, 'fs) lk_conn \<Rightarrow> my_conn \<Rightarrow> my_ok \<Rightarrow> u64 \<Rightarrow> lk_proto \<times> my_conn" where
  "txn_track p c pc ok ts_ns =
     (if \<not> ok_have_status ok then (p, pc)
      else
        (let status = (if has_flag (ok_status ok) MY_ST_IN_TRANS then ch CHR ''T'' else ch CHR ''I'');
             (p, pc) =
               (if status = ch CHR ''T'' \<and> mc_txn_status pc \<noteq> ch CHR ''T'' then (p, pc\<lparr>mc_txn_start := ts_ns\<rparr>)
                else if status = ch CHR ''I'' \<and> mc_txn_status pc = ch CHR ''T'' \<and> p_has_txn p then
                  (call_txn p c (mc_txn_start pc) ts_ns
                     (if mc_unit_open pc \<and> unit_is_rollback pc (mc_u pc) then ch CHR ''E'' else ch CHR ''T''), pc)
                else (p, pc))
         in (p, pc\<lparr>mc_txn_status := status\<rparr>)))"

definition my_obs :: "my_conn \<Rightarrow> lk_query_obs" where
  "my_obs pc =
     (let u = mc_u pc; err = has_flag (mu_flags u) LK_QO_ERROR
      in \<lparr>o_ts_start = mu_ts_start u, o_ts_first_row = mu_ts_first_row u, o_ts_complete = mu_ts_complete u,
         o_ts_ready = mu_ts_complete u, o_text = unit_text pc u, o_rows = mu_rows u, o_bytes = mu_bytes u,
         o_sqlstate = (if err then mu_sqlstate u else []), o_err_code = (if err then mu_err_code u else 0),
         o_kind = (case mu_copy_kind u of Some k \<Rightarrow> k | None \<Rightarrow> mu_kind u), o_txn_status = mc_txn_status pc,
         o_flags = mu_flags u\<rparr>)"

definition my_emit_unit :: "lk_proto \<Rightarrow> ('ps, 'fs) lk_conn \<Rightarrow> my_conn \<Rightarrow> lk_proto \<times> my_conn" where
  "my_emit_unit p c pc =
     (let p = upd_pst (\<lambda>s. s\<lparr>ps_queries := ps_queries s + 1\<rparr>) p;
          p = (if has_flag (mu_flags (mc_u pc)) LK_QO_ERROR then upd_pst (\<lambda>s. s\<lparr>ps_errors_sql := ps_errors_sql s + 1\<rparr>) p else p)
      in (call_query p c (mc_session pc) (my_obs pc), pc\<lparr>mc_unit_open := False\<rparr>))"

definition leave_infile :: "my_conn \<Rightarrow> my_conn" where
  "leave_infile pc = (if mc_phase pc = MY_PH_INFILE then pc\<lparr>mc_phase := MY_PH_READY\<rparr> else pc)"

text \<open>The unit at an OK terminator.\<close>

definition ok_unit :: "u64 \<Rightarrow> u64 \<Rightarrow> my_unit \<Rightarrow> my_unit" where
  "ok_unit ts affected u =
     (let u = u\<lparr>mu_ts_complete := ts, mu_rows := mu_rows u + affected, mu_ncomplete := mu_ncomplete u + 1\<rparr>
      in if 1 < mu_ncomplete u then or_uflag LK_QO_MULTI_STMT u else u)"

definition terminator_ok :: "lk_proto \<Rightarrow> ('ps, 'fs) lk_conn \<Rightarrow> my_conn \<Rightarrow> lk_msg \<Rightarrow> bool \<Rightarrow> lk_proto \<times> my_conn" where
  "terminator_ok p c pc m eof_shape =
     (let (ok, pc) = my_query_parse_ok pc m eof_shape;
          pc = my_session_ok_effects pc;
          (p, pc) = txn_track p c pc ok (m_ts_ns m);
          pc = leave_infile pc;
          more = (ok_have_status ok \<and> has_flag (ok_status ok) MY_ST_MORE_RESULTS)
      in if \<not> mc_unit_open pc then (p, pc\<lparr>mc_reply := (if more then MY_R_HEAD else MY_R_NONE)\<rparr>)
         else
           (let pc = upd_u (ok_unit (m_ts_ns m) (ok_affected ok)) pc
            in if more then (p, pc\<lparr>mc_reply := MY_R_HEAD\<rparr>)
               else
                 (let pc = (if ok_have_status ok \<and> has_flag (ok_status ok) MY_ST_CURSOR_EXISTS
                               \<and> \<not> has_flag (ok_status ok) MY_ST_LAST_ROW_SENT
                            then upd_u (or_uflag LK_QO_SUSPENDED) pc else pc)
                  in my_emit_unit p c (pc\<lparr>mc_reply := MY_R_NONE\<rparr>))))"

text \<open>The unit at an ERR terminator.\<close>

definition err_unit :: "u64 \<Rightarrow> bytes \<Rightarrow> u16 \<Rightarrow> my_unit \<Rightarrow> my_unit" where
  "err_unit ts sqlstate err_code u =
     (or_uflag LK_QO_ERROR u)\<lparr>mu_sqlstate := sqlstate, mu_err_code := err_code, mu_ts_complete := ts,
        mu_ncomplete := (if mu_ncomplete u = 0 then 1 else mu_ncomplete u)\<rparr>"

definition terminator_err :: "lk_proto \<Rightarrow> ('ps, 'fs) lk_conn \<Rightarrow> my_conn \<Rightarrow> lk_msg \<Rightarrow> lk_proto \<times> my_conn" where
  "terminator_err p c pc m =
     (case parse_err p pc m of
        (None, p) \<Rightarrow> (p, pc)
      | (Some (sqlstate, err_code), p) \<Rightarrow>
          (let pc = (leave_infile pc)\<lparr>mc_reply := MY_R_NONE, mc_have_pending_db := False\<rparr>
           in if \<not> mc_unit_open pc then (p, pc)
              else my_emit_unit p c (upd_u (err_unit (m_ts_ns m) sqlstate err_code) pc)))"

section \<open>The reply state machine\<close>

text \<open>The column count of a result head and how many definitions follow; None is the \<open>bad\<close> label.
  \<open>cols_left\<close> is only written when the count could be read.\<close>

definition head_count :: "my_conn \<Rightarrow> lk_msg \<Rightarrow> u64 option \<times> my_conn" where
  "head_count pc m =
     (let w = my_wire_init (m_body m)
      in if mc_caps_known pc \<and> has_cap (mc_caps pc) MY_CAP_OPT_METADATA then
           (let (k1, mf, w) = my_wire_get_u8 w; (k2, count, w) = my_wire_get_lenenc w
            in if \<not> k1 \<or> \<not> k2 then (None, pc)
               else (Some count, pc\<lparr>mc_cols_left := (if mf \<noteq> 0 then ucast count else 0)\<rparr>))
         else
           (let (k1, count, w) = my_wire_get_lenenc w
            in if \<not> k1 then (None, pc)
               else
                 (let pc = pc\<lparr>mc_cols_left := ucast count\<rparr>
                  in if has_cap (mc_mcaps pc) MY_MCAP_CACHE_METADATA then
                       (let (k2, mf, w) = my_wire_get_u8 w
                        in if \<not> k2 then (None, pc)
                           else (Some count, if mf = 0 then pc\<lparr>mc_cols_left := 0\<rparr> else pc))
                     else (Some count, pc))))"

definition reply_resultset :: "lk_proto \<Rightarrow> my_conn \<Rightarrow> lk_msg \<Rightarrow> lk_proto \<times> my_conn" where
  "reply_resultset p pc m =
     (case head_count pc m of (cnt, pc) \<Rightarrow>
        if (case cnt of None \<Rightarrow> True | Some count \<Rightarrow> count = 0 \<or> MY_MAX_COLUMNS < unat count) then
          (if \<not> m_trunc m then my_corrupt p pc
           else (let (n, pc) = my_query_drop_unit pc in (add_dropped n p, pc\<lparr>mc_reply := MY_R_NONE\<rparr>)))
        else
          (p, pc\<lparr>mc_reply := (if mc_cols_left pc \<noteq> 0 then MY_R_COLS
              else if mc_caps_known pc \<and> \<not> has_cap (mc_caps pc) MY_CAP_DEPRECATE_EOF
                      \<and> \<not> has_cap (mc_mcaps pc) MY_MCAP_CACHE_METADATA then MY_R_COLS
              else MY_R_ROWS)\<rparr>))"

text \<open>Called with a body of at least one byte.\<close>

definition reply_head :: "lk_proto \<Rightarrow> ('ps, 'fs) lk_conn \<Rightarrow> my_conn \<Rightarrow> lk_msg \<Rightarrow> lk_proto \<times> my_conn" where
  "reply_head p c pc m =
     (let head = m_body m ! 0
      in if head = 0 then terminator_ok p c pc m False
         else if head = 0xff then terminator_err p c pc m
         else if head = 0xfb then
           (p, (if mc_unit_open pc then upd_u (\<lambda>u. u\<lparr>mu_copy_kind := Some LK_Q_COPY_IN\<rparr>) pc else pc)\<lparr>mc_phase := MY_PH_INFILE\<rparr>)
         else if head = 0xfe \<and> fst (fe_terminator pc m) then terminator_ok p c pc m (snd (fe_terminator pc m))
         else reply_resultset p pc m)"

text \<open>The metadata EOF that ends the definitions, or the whole reply of a cursor-opening execute.\<close>

definition cols_eof :: "lk_proto \<Rightarrow> ('ps, 'fs) lk_conn \<Rightarrow> my_conn \<Rightarrow> lk_msg \<Rightarrow> lk_proto \<times> my_conn" where
  "cols_eof p c pc m =
     (let (ok, pc) = my_query_parse_ok pc m True
      in if ok_have_status ok \<and> has_flag (ok_status ok) MY_ST_CURSOR_EXISTS then
           (let (p, pc) = txn_track p c pc ok (m_ts_ns m)
            in if mc_unit_open pc then
                 (let u = (mc_u pc)\<lparr>mu_ts_complete := m_ts_ns m, mu_ncomplete := mu_ncomplete (mc_u pc) + 1\<rparr>;
                      u = (if \<not> has_flag (ok_status ok) MY_ST_LAST_ROW_SENT then or_uflag LK_QO_SUSPENDED u else u)
                  in my_emit_unit p c (pc\<lparr>mc_u := u, mc_reply := MY_R_NONE\<rparr>))
               else (p, pc\<lparr>mc_reply := MY_R_NONE\<rparr>))
         else (p, pc\<lparr>mc_cols_left := 0, mc_reply := MY_R_ROWS\<rparr>))"

definition reply_cols :: "lk_proto \<Rightarrow> ('ps, 'fs) lk_conn \<Rightarrow> my_conn \<Rightarrow> lk_msg \<Rightarrow> lk_proto \<times> my_conn" where
  "reply_cols p c pc m =
     (let head = (if m_body m \<noteq> [] then m_body m ! 0 else 0)
      in if head = 0xff then terminator_err p c pc m
         else if head = 0xfe \<and> m_len m < 9 then cols_eof p c pc m
         else
           (let pc = (if mc_cols_left pc \<noteq> 0 then pc\<lparr>mc_cols_left := mc_cols_left pc - 1\<rparr> else pc)
            in (p, if mc_cols_left pc = 0 \<and> deprecate_eof pc then pc\<lparr>mc_reply := MY_R_ROWS\<rparr> else pc)))"

definition row_unit :: "u64 \<Rightarrow> my_unit \<Rightarrow> my_unit" where
  "row_unit ts u = u\<lparr>mu_rows := mu_rows u + 1, mu_ts_first_row := (if mu_ts_first_row u = 0 then ts else mu_ts_first_row u)\<rparr>"

definition reply_rows :: "lk_proto \<Rightarrow> ('ps, 'fs) lk_conn \<Rightarrow> my_conn \<Rightarrow> lk_msg \<Rightarrow> lk_proto \<times> my_conn" where
  "reply_rows p c pc m =
     (if m_body m \<noteq> [] \<and> m_body m ! 0 = 0xff then terminator_err p c pc m
      else if m_body m \<noteq> [] \<and> m_body m ! 0 = 0xfe \<and> fst (fe_terminator pc m) then terminator_ok p c pc m (snd (fe_terminator pc m))
      else (p, if mc_unit_open pc then upd_u (row_unit (m_ts_ns m)) pc else pc))"

definition reply_prep_meta :: "my_conn \<Rightarrow> lk_msg \<Rightarrow> my_conn" where
  "reply_prep_meta pc m =
     (let head = (if m_body m \<noteq> [] then m_body m ! 0 else 0)
      in if head = 0xfe \<and> m_len m < 9 then pc
         else
           (let pc = (if mc_meta_left pc \<noteq> 0 then pc\<lparr>mc_meta_left := mc_meta_left pc - 1\<rparr> else pc)
            in if mc_meta_left pc = 0 then pc\<lparr>mc_reply := MY_R_NONE\<rparr> else pc))"

definition my_query_backend :: "lk_proto \<Rightarrow> ('ps, 'fs) lk_conn \<Rightarrow> my_conn \<Rightarrow> lk_msg \<Rightarrow> lk_proto \<times> my_conn" where
  "my_query_backend p c pc m =
     (if mc_reply pc \<noteq> MY_R_NONE \<and> m_body m = [] \<and> mc_reply pc \<noteq> MY_R_ROWS \<and> mc_reply pc \<noteq> MY_R_COLS
         \<and> mc_reply pc \<noteq> MY_R_PREP_META
      then (let (n, pc) = my_query_drop_unit pc in (add_dropped n p, pc\<lparr>mc_reply := MY_R_NONE, mc_pending_prep := False\<rparr>))
      else (case mc_reply pc of
          MY_R_NONE \<Rightarrow> (p, pc)
        | MY_R_HEAD \<Rightarrow> reply_head p c pc m
        | MY_R_COLS \<Rightarrow> reply_cols p c pc m
        | MY_R_ROWS \<Rightarrow> reply_rows p c pc m
        | MY_R_PREPARE_OK \<Rightarrow> my_prep_ok p pc m
        | MY_R_PREP_META \<Rightarrow> (p, reply_prep_meta pc m)
        | MY_R_STRING \<Rightarrow> (p, pc\<lparr>mc_reply := MY_R_NONE\<rparr>)
        | MY_R_FIELD_LIST \<Rightarrow>
            (p, if m_body m \<noteq> [] \<and> (m_body m ! 0 = 0xff \<or> m_body m ! 0 = 0xfe \<and> m_len m < 9)
                then pc\<lparr>mc_reply := MY_R_NONE\<rparr> else pc)))"

end
