(* ===== verification/My_Handler.thy ===== *)
theory My_Handler
  imports My_Query Proto_Handler
begin

text \<open>
  The MySQL handler, src/src/proto/my/my.c: lazy per-connection state, the dispatch of commands and
  replies, and the three callbacks it installs as the framer's sink.
\<close>

section \<open>Definitions\<close>

abbreviation MY_COM_QUIT :: u8 where "MY_COM_QUIT \<equiv> 0x01"
abbreviation MY_COM_INIT_DB :: u8 where "MY_COM_INIT_DB \<equiv> 0x02"
abbreviation MY_COM_QUERY :: u8 where "MY_COM_QUERY \<equiv> 0x03"
abbreviation MY_COM_FIELD_LIST :: u8 where "MY_COM_FIELD_LIST \<equiv> 0x04"
abbreviation MY_COM_STATISTICS :: u8 where "MY_COM_STATISTICS \<equiv> 0x09"
abbreviation MY_COM_PROCESS_INFO :: u8 where "MY_COM_PROCESS_INFO \<equiv> 0x0a"
abbreviation MY_COM_DEBUG :: u8 where "MY_COM_DEBUG \<equiv> 0x0d"
abbreviation MY_COM_PING :: u8 where "MY_COM_PING \<equiv> 0x0e"
abbreviation MY_COM_CHANGE_USER :: u8 where "MY_COM_CHANGE_USER \<equiv> 0x11"
abbreviation MY_COM_BINLOG_DUMP :: u8 where "MY_COM_BINLOG_DUMP \<equiv> 0x12"
abbreviation MY_COM_REGISTER_SLAVE :: u8 where "MY_COM_REGISTER_SLAVE \<equiv> 0x15"
abbreviation MY_COM_STMT_PREPARE :: u8 where "MY_COM_STMT_PREPARE \<equiv> 0x16"
abbreviation MY_COM_STMT_EXECUTE :: u8 where "MY_COM_STMT_EXECUTE \<equiv> 0x17"
abbreviation MY_COM_STMT_SEND_LONG_DATA :: u8 where "MY_COM_STMT_SEND_LONG_DATA \<equiv> 0x18"
abbreviation MY_COM_STMT_CLOSE :: u8 where "MY_COM_STMT_CLOSE \<equiv> 0x19"
abbreviation MY_COM_STMT_RESET :: u8 where "MY_COM_STMT_RESET \<equiv> 0x1a"
abbreviation MY_COM_SET_OPTION :: u8 where "MY_COM_SET_OPTION \<equiv> 0x1b"
abbreviation MY_COM_STMT_FETCH :: u8 where "MY_COM_STMT_FETCH \<equiv> 0x1c"
abbreviation MY_COM_BINLOG_DUMP_GTID :: u8 where "MY_COM_BINLOG_DUMP_GTID \<equiv> 0x1e"
abbreviation MY_COM_RESET_CONNECTION :: u8 where "MY_COM_RESET_CONNECTION \<equiv> 0x1f"
abbreviation MY_COM_MARIADB_BULK :: u8 where "MY_COM_MARIADB_BULK \<equiv> 0xfa"

type_synonym 'fs my_lk_conn = "(my_conn, 'fs) lk_conn"

definition my_conn_get :: "lk_proto \<Rightarrow> 'fs my_lk_conn \<Rightarrow> my_conn option \<times> lk_proto \<times> 'fs my_lk_conn" where
  "my_conn_get p c =
     (case cn_proto_state c of
        Some pc \<Rightarrow> (Some pc, p, c)
      | None \<Rightarrow>
          (let (ok, hp) = hp_alloc (p_heap p); p = p\<lparr>p_heap := hp\<rparr>
           in if \<not> ok then (None, p, c)
              else
                (let pc = upd_u (\<lambda>u. u\<lparr>mu_prep_idx := None\<rparr>) my_conn_zero;
                     pc = (if has_flag (cn_flags c) LK_CONN_SYNTHETIC then pc\<lparr>mc_phase := MY_PH_READY, mc_sess := MY_S_DONE\<rparr> else pc)
                 in (Some pc, upd_pst (\<lambda>s. s\<lparr>ps_conns := ps_conns s + 1\<rparr>) p, c\<lparr>cn_proto_state := Some pc\<rparr>))))"

definition my_inc_unknown :: "lk_proto \<Rightarrow> lk_proto" where
  "my_inc_unknown p = upd_pst (\<lambda>s. s\<lparr>ps_unknown_msgs := ps_unknown_msgs s + 1\<rparr>) p"

text \<open>The frontend-anchor discipline: a new command ends whatever reply was still open.\<close>

definition my_anchor :: "lk_proto \<Rightarrow> my_conn \<Rightarrow> lk_proto \<times> my_conn" where
  "my_anchor p pc =
     (let (n, pc) = my_query_drop_unit pc
      in (add_dropped n p, pc\<lparr>mc_reply := MY_R_NONE, mc_have_pending_db := False, mc_pending_prep := False\<rparr>))"

text \<open>The second switch of \<open>my_frontend_msg\<close>, after the anchor discipline.\<close>

definition my_command :: "lk_proto \<Rightarrow> 'fs my_lk_conn \<Rightarrow> my_conn \<Rightarrow> u8 \<Rightarrow> lk_msg \<Rightarrow> lk_proto \<times> 'fs my_lk_conn \<times> my_conn" where
  "my_command p c pc cmd m =
     (if cmd = MY_COM_QUERY then (let (p, pc) = my_query_simple p pc m in (p, c, pc))
      else if cmd = MY_COM_STMT_PREPARE then (let (p, pc) = my_prep_prepare p pc m in (p, c, pc))
      else if cmd = MY_COM_STMT_EXECUTE \<or> cmd = MY_COM_MARIADB_BULK then (p, c, my_query_execute pc m)
      else if cmd = MY_COM_STMT_FETCH then (p, c, my_query_fetch pc m)
      else if cmd = MY_COM_INIT_DB then (p, c, (my_session_init_db pc m)\<lparr>mc_reply := MY_R_HEAD\<rparr>)
      else if cmd = MY_COM_CHANGE_USER then (let (p, pc) = my_session_change_user p pc m in (p, c, pc))
      else if cmd = MY_COM_BINLOG_DUMP \<or> cmd = MY_COM_BINLOG_DUMP_GTID then
        (upd_pst (\<lambda>s. s\<lparr>ps_replication_conns := ps_replication_conns s + 1\<rparr>) p, or_conn_flag LK_CONN_IGNORE c,
         (snd (my_query_drop_unit pc))\<lparr>mc_phase := MY_PH_IGNORE\<rparr>)
      else if cmd = MY_COM_STATISTICS then (p, c, pc\<lparr>mc_reply := MY_R_STRING\<rparr>)
      else if cmd = MY_COM_FIELD_LIST then (p, c, pc\<lparr>mc_reply := MY_R_FIELD_LIST\<rparr>)
      else if cmd = MY_COM_RESET_CONNECTION then
        (let (pc, hp) = my_prep_drop_all pc (p_heap p) in (p\<lparr>p_heap := hp\<rparr>, c, pc\<lparr>mc_reply := MY_R_HEAD\<rparr>))
      else if cmd \<in> {MY_COM_PING, MY_COM_DEBUG, MY_COM_PROCESS_INFO, MY_COM_SET_OPTION, MY_COM_STMT_RESET, MY_COM_REGISTER_SLAVE}
      then (p, c, pc\<lparr>mc_reply := MY_R_HEAD\<rparr>)
      else (my_inc_unknown p, c, pc))"

text \<open>From the first switch on: \<open>cmd\<close> is not 0.\<close>

definition my_dispatch :: "lk_proto \<Rightarrow> 'fs my_lk_conn \<Rightarrow> my_conn \<Rightarrow> lk_msg \<Rightarrow> lk_proto \<times> 'fs my_lk_conn \<times> my_conn" where
  "my_dispatch p c pc m =
     (let cmd = m_type m
      in if cmd = MY_COM_STMT_CLOSE then (let (pc, hp) = my_prep_close pc m (p_heap p) in (p\<lparr>p_heap := hp\<rparr>, c, pc))
         else if cmd = MY_COM_QUIT \<or> cmd = MY_COM_STMT_SEND_LONG_DATA then (p, c, pc)
         else (let (p, pc) = my_anchor p pc in my_command p c pc cmd m))"

definition my_frontend_msg :: "lk_proto \<Rightarrow> 'fs my_lk_conn \<Rightarrow> my_conn \<Rightarrow> lk_msg \<Rightarrow> lk_proto \<times> 'fs my_lk_conn \<times> my_conn" where
  "my_frontend_msg p c pc m =
     (if mc_phase pc = MY_PH_IGNORE then (p, c, pc)
      else if mc_phase pc = MY_PH_HANDSHAKE \<and> m_type m = 0 then (p, c, my_session_frontend pc m)
      else
        (let (p, pc) = (if mc_phase pc = MY_PH_HANDSHAKE then my_session_promote p c pc else (p, pc))
         in if mc_phase pc = MY_PH_INFILE \<and> m_type m = 0 then (p, c, my_query_infile_data pc m)
            else
              (let pc = (if mc_phase pc = MY_PH_INFILE then pc\<lparr>mc_phase := MY_PH_READY\<rparr> else pc)
               in if m_type m = 0 then (my_inc_unknown p, c, pc) else my_dispatch p c pc m)))"

definition my_backend_msg :: "lk_proto \<Rightarrow> 'fs my_lk_conn \<Rightarrow> my_conn \<Rightarrow> lk_msg \<Rightarrow> lk_proto \<times> my_conn" where
  "my_backend_msg p c pc m =
     (if mc_phase pc = MY_PH_IGNORE then (p, pc)
      else if mc_phase pc = MY_PH_HANDSHAKE then my_session_backend p c pc m
      else my_query_backend p c pc m)"

definition my_count_msg :: "lk_dir \<Rightarrow> lk_msg \<Rightarrow> lk_proto_stats \<Rightarrow> lk_proto_stats" where
  "my_count_msg dir m s =
     (let s = s\<lparr>ps_msgs := ps_msgs s + 1\<rparr>;
          s = (if has_flag (m_flags m) LK_MSG_STARTUP then s\<lparr>ps_startup_msgs := ps_startup_msgs s + 1\<rparr> else s)
      in s\<lparr>ps_by_type := (ps_by_type s)(dir := (ps_by_type s dir)(m_type m := ps_by_type s dir (m_type m) + 1))\<rparr>)"

definition my_on_msg :: "lk_proto \<Rightarrow> 'fs my_lk_conn \<Rightarrow> lk_dir \<Rightarrow> lk_msg \<Rightarrow> lk_proto \<times> 'fs my_lk_conn" where
  "my_on_msg p c dir m =
     (let (pc, p, c) = my_conn_get p c;
          p = upd_pst (my_count_msg dir m) p
      in case pc of
           None \<Rightarrow> (p, c)
         | Some pc \<Rightarrow>
             (let (p, c, pc) = (if dir = LK_DIR_RECV then my_frontend_msg p c pc m
                                else (let (p, pc) = my_backend_msg p c pc m in (p, c, pc)))
              in (p, c\<lparr>cn_proto_state := Some (pc\<lparr>mc_msgs := mc_msgs pc + 1\<rparr>)\<rparr>)))"

definition my_resync_state :: "my_conn \<Rightarrow> my_conn" where
  "my_resync_state pc =
     (snd (my_query_drop_unit pc))\<lparr>mc_reply := MY_R_NONE, mc_have_pending_db := False, mc_have_pending_user := False,
        mc_pending_prep := False, mc_txn_status := 0,
        mc_phase := (if mc_phase pc = MY_PH_INFILE then MY_PH_READY else mc_phase pc)\<rparr>"

definition my_on_resync :: "lk_proto \<Rightarrow> 'fs my_lk_conn \<Rightarrow> lk_dir \<Rightarrow> lk_proto \<times> 'fs my_lk_conn" where
  "my_on_resync p c dir =
     (let (pc, p, c) = my_conn_get p c;
          p = upd_pst (\<lambda>s. s\<lparr>ps_resyncs := ps_resyncs s + 1\<rparr>) p
      in case pc of
           None \<Rightarrow> (p, c)
         | Some pc \<Rightarrow> (add_dropped (fst (my_query_drop_unit pc)) p, c\<lparr>cn_proto_state := Some (my_resync_state pc)\<rparr>))"

definition my_on_conn_close :: "lk_proto \<Rightarrow> 'fs my_lk_conn \<Rightarrow> lk_proto \<times> 'fs my_lk_conn" where
  "my_on_conn_close p c =
     (case cn_proto_state c of
        None \<Rightarrow> (p, c)
      | Some pc \<Rightarrow>
          (let (n, pc) = my_query_drop_unit pc;
               p = upd_pst (\<lambda>s. s\<lparr>ps_units_dropped_close := ps_units_dropped_close s + n\<rparr>) p;
               hp = free_text (mc_pending_cap pc) (free_text (mu_own_cap (mc_u pc)) (p_heap p));
               (pc, hp) = my_prep_free pc hp
           in (p\<lparr>p_heap := hp_free hp\<rparr>, c\<lparr>cn_proto_state := None\<rparr>)))"

definition my_msink :: "lk_proto \<Rightarrow> (lk_proto, my_conn, 'fs) lk_msg_sink" where
  "my_msink p = \<lparr>sk_ctx = p, sk_on_msg = Some my_on_msg, sk_on_conn_open = None,
     sk_on_conn_close = Some my_on_conn_close, sk_on_resync = Some my_on_resync\<rparr>"

definition lk_proto_my_new :: "bool \<Rightarrow> bool \<Rightarrow> bool \<Rightarrow> heap \<Rightarrow> (lk_proto, my_conn, 'fs) lk_msg_sink option \<times> heap" where
  "lk_proto_my_new has_query has_session has_txn hp =
     (let (ok, hp) = hp_alloc hp
      in if \<not> ok then (None, hp)
         else (Some (my_msink \<lparr>p_has_query = has_query, p_has_session = has_session, p_has_txn = has_txn,
           p_calls = [], p_st = lk_proto_stats_zero, p_heap = hp\<rparr>), hp))"

end
