(* ===== verification/My_Inv.thy ===== *)
theory My_Inv
  imports My_Handler
begin

text \<open>
  The invariant of a MySQL connection, and the contract every operation of the handler keeps: the state
  stays well formed, reports are counted, blocks are accounted for, and nothing reported began outside a
  given set of instants \<open>T\<close> (used with the instants since the last break).
\<close>

section \<open>Well-formed state\<close>

definition my_ref_ok :: "my_prep_cache option \<Rightarrow> my_unit \<Rightarrow> bool" where
  "my_ref_ok pr u \<longleftrightarrow> (case mu_prep_idx u of None \<Rightarrow> True
     | Some i \<Rightarrow> (case pr of None \<Rightarrow> False
        | Some q \<Rightarrow> i < LK_MY_PREP_CACHE \<and> me_used (mp_e q i) \<and> me_gen (mp_e q i) = mu_prep_gen u))"

definition my_unit_ok :: "my_unit \<Rightarrow> bool" where
  "my_unit_ok u \<longleftrightarrow> length (mu_own_text u) \<le> mu_own_cap u \<and> mu_own_cap u \<le> LK_MSG_BODY_MAX
     \<and> mu_kind u \<in> {LK_Q_SIMPLE, LK_Q_EXTENDED} \<and> mu_copy_kind u \<in> {None, Some LK_Q_COPY_IN}"

definition my_entry_ok :: "my_prep \<Rightarrow> bool" where
  "my_entry_ok e \<longleftrightarrow> length (me_text e) \<le> me_text_cap e \<and> me_text_cap e \<le> LK_MSG_BODY_MAX"

definition my_used :: "my_prep_cache \<Rightarrow> nat set" where
  "my_used q = {i. i < LK_MY_PREP_CACHE \<and> me_used (mp_e q i)}"

definition my_cache_ok :: "my_prep_cache \<Rightarrow> bool" where
  "my_cache_ok q \<longleftrightarrow> (\<forall>i. my_entry_ok (mp_e q i)) \<and> mp_count q = card (my_used q)"

definition pend_ok :: "my_conn \<Rightarrow> bool" where
  "pend_ok pc \<longleftrightarrow> length (mc_pending_text pc) \<le> mc_pending_cap pc \<and> mc_pending_cap pc \<le> LK_MSG_BODY_MAX
     \<and> length (mc_pending_db pc) \<le> 63 \<and> length (mc_pending_user pc) \<le> 63"

text \<open>An open unit belongs to a reply that is still due, and its cache reference is live.\<close>

definition flow_ok :: "my_conn \<Rightarrow> bool" where
  "flow_ok pc \<longleftrightarrow> (mc_unit_open pc \<longrightarrow> my_ref_ok (mc_prep pc) (mc_u pc) \<and> mc_phase pc \<in> {MY_PH_READY, MY_PH_INFILE}
     \<and> mc_reply pc \<in> {MY_R_HEAD, MY_R_COLS, MY_R_ROWS})"

definition my_inv :: "my_conn \<Rightarrow> bool" where
  "my_inv pc \<longleftrightarrow> my_unit_ok (mc_u pc) \<and> pred_option my_cache_ok (mc_prep pc) \<and> pend_ok pc \<and> session_ok (mc_session pc) \<and> flow_ok pc"

definition starts_in :: "u64 set \<Rightarrow> my_conn \<Rightarrow> bool" where
  "starts_in T pc \<longleftrightarrow> (mc_unit_open pc \<longrightarrow> mu_ts_start (mc_u pc) \<in> T) \<and> (mc_txn_status pc = ch CHR ''T'' \<longrightarrow> mc_txn_start pc \<in> T)"

definition my_good :: "u64 set \<Rightarrow> my_conn \<Rightarrow> bool" where
  "my_good T pc \<longleftrightarrow> my_inv pc \<and> starts_in T pc"

lemmas my_good_defs = my_good_def my_inv_def pend_ok_def flow_ok_def starts_in_def

lemma my_inv_zero: "my_inv (upd_u (\<lambda>u. u\<lparr>mu_prep_idx := None\<rparr>) my_conn_zero)"
  by (simp add: my_good_defs my_conn_zero_def my_unit_zero_def my_unit_ok_def session_ok_def lk_session_zero_def)

section \<open>Blocks\<close>

definition my_text_blocks :: "my_prep_cache \<Rightarrow> nat" where
  "my_text_blocks q = (\<Sum>i<LK_MY_PREP_CACHE. blk (me_text_cap (mp_e q i)))"

definition my_cache_blocks :: "my_prep_cache option \<Rightarrow> nat" where
  "my_cache_blocks pr = (case pr of None \<Rightarrow> 0 | Some q \<Rightarrow> 1 + my_text_blocks q)"

definition my_blocks :: "my_conn \<Rightarrow> nat" where
  "my_blocks pc = 1 + blk (mu_own_cap (mc_u pc)) + blk (mc_pending_cap pc) + my_cache_blocks (mc_prep pc)"

definition my_balanced :: "heap \<Rightarrow> my_conn \<Rightarrow> heap \<Rightarrow> my_conn \<Rightarrow> bool" where
  "my_balanced hp pc hp' pc' \<longleftrightarrow> hp_live hp' + my_blocks pc = hp_live hp + my_blocks pc'"

lemma my_balanced_refl [simp]: "my_balanced hp pc hp pc"
  by (simp add: my_balanced_def)

lemma my_balanced_trans: "my_balanced hp pc hp' pc' \<Longrightarrow> my_balanced hp' pc' hp'' pc'' \<Longrightarrow> my_balanced hp pc hp'' pc''"
  by (simp add: my_balanced_def)

lemma my_text_blocks_upd:
  assumes "slot < LK_MY_PREP_CACHE" and "mp_e q' = (mp_e q)(slot := e)"
  shows "my_text_blocks q' + blk (me_text_cap (mp_e q slot)) = my_text_blocks q + blk (me_text_cap e)"
  using sum_upd [OF assms(1), of "\<lambda>i. blk (me_text_cap (mp_e q i))" "blk (me_text_cap e)"] assms(2)
  by (simp add: my_text_blocks_def fun_upd_def if_distrib [of me_text_cap] if_distrib [of blk] cong: if_cong)

section \<open>The contract of an operation\<close>

primrec call_in :: "u64 set \<Rightarrow> lk_out_call \<Rightarrow> bool" where
  "call_in T (OnQuery k s q) \<longleftrightarrow> o_ts_start q \<in> T"
| "call_in T (OnSession k s) \<longleftrightarrow> True"
| "call_in T (OnTxn k a b st) \<longleftrightarrow> a \<in> T"

definition tells :: "u64 set \<Rightarrow> lk_proto \<Rightarrow> lk_proto \<Rightarrow> bool" where
  "tells T p p' \<longleftrightarrow> (\<exists>new. reports p new p' \<and> list_all (call_in T) new)"

lemma tells_accounts: "tells T p p' \<Longrightarrow> accounts p p'"
  by (auto simp: tells_def accounts_def)

lemma silent_tells: "silent p p' \<Longrightarrow> tells T p p'"
  by (auto simp: tells_def intro!: exI [of _ "[]"] silent_reports)

lemma tells_refl [simp]: "tells T p p"
  by (rule silent_tells) simp

lemma tells_trans: "tells T p p' \<Longrightarrow> tells T p' p'' \<Longrightarrow> tells T p p''"
  using reports_append by (fastforce simp: tells_def)

lemma tells_heap [simp]: "tells T p (q\<lparr>p_heap := h\<rparr>) = tells T p q" "tells T (p\<lparr>p_heap := h\<rparr>) q = tells T p q"
  by (simp_all add: tells_def reports_def same_out_def)

definition my_step :: "u64 set \<Rightarrow> lk_proto \<Rightarrow> my_conn \<Rightarrow> lk_proto \<Rightarrow> my_conn \<Rightarrow> bool" where
  "my_step T p pc p' pc' \<longleftrightarrow> my_good T pc' \<and> tells T p p' \<and> my_balanced (p_heap p) pc (p_heap p') pc'"

lemma my_step_refl: "my_good T pc \<Longrightarrow> my_step T p pc p pc"
  by (simp add: my_step_def)

lemma my_step_trans: "my_step T p pc p1 pc1 \<Longrightarrow> my_step T p1 pc1 p2 pc2 \<Longrightarrow> my_step T p pc p2 pc2"
  using my_balanced_trans tells_trans by (fastforce simp: my_step_def)

lemma my_step_good: "my_step T p pc p' pc' \<Longrightarrow> my_good T pc'"
  by (simp add: my_step_def)

text \<open>A step that neither allocates nor reports.\<close>

lemma my_step_quiet:
  assumes "my_good T pc'" and "silent p p'" and "hp_live (p_heap p') = hp_live (p_heap p)" and "my_blocks pc' = my_blocks pc"
  shows "my_step T p pc p' pc'"
  using assms by (simp add: my_step_def my_balanced_def silent_tells)

lemma silent_counters [simp]:
  "silent p (add_dropped n p)" "silent p (inc_parse_errors p)" "silent p (my_inc_unknown p)"
  unfolding add_dropped_def inc_parse_errors_def my_inc_unknown_def by (rule silent_upd; simp)+

lemma heap_counters [simp]:
  "p_heap (add_dropped n p) = p_heap p" "p_heap (inc_parse_errors p) = p_heap p" "p_heap (my_inc_unknown p) = p_heap p"
  by (simp_all add: add_dropped_def inc_parse_errors_def my_inc_unknown_def)

lemma my_step_count: "my_step T p pc p' pc' \<Longrightarrow> my_step T p pc (inc_parse_errors p') pc'"
  using tells_trans [OF _ silent_tells [OF silent_counters(2)]] by (simp add: my_step_def)

section \<open>Unit lifecycle\<close>

lemma drop_unit_cases: "my_query_drop_unit pc = (n, pc') \<Longrightarrow> pc' = pc\<lparr>mc_unit_open := False\<rparr>"
  by (auto simp: my_query_drop_unit_def split: if_splits)

lemma drop_unit_snd [simp]: "snd (my_query_drop_unit pc) = pc\<lparr>mc_unit_open := False\<rparr>"
  by (auto simp: my_query_drop_unit_def)

lemma blocks_fields [simp]:
  "my_blocks (pc\<lparr>mc_unit_open := b\<rparr>) = my_blocks pc" "my_blocks (pc\<lparr>mc_reply := r\<rparr>) = my_blocks pc"
  "my_blocks (pc\<lparr>mc_phase := ph\<rparr>) = my_blocks pc" "my_blocks (pc\<lparr>mc_sess := ss\<rparr>) = my_blocks pc"
  "my_blocks (pc\<lparr>mc_session := se\<rparr>) = my_blocks pc" "my_blocks (pc\<lparr>mc_msgs := n\<rparr>) = my_blocks pc"
  "my_blocks (pc\<lparr>mc_caps := w\<rparr>) = my_blocks pc" "my_blocks (pc\<lparr>mc_mcaps := w\<rparr>) = my_blocks pc"
  "my_blocks (pc\<lparr>mc_caps_known := b\<rparr>) = my_blocks pc" "my_blocks (pc\<lparr>mc_session_emitted := b\<rparr>) = my_blocks pc"
  "my_blocks (pc\<lparr>mc_cols_left := w\<rparr>) = my_blocks pc" "my_blocks (pc\<lparr>mc_meta_left := w\<rparr>) = my_blocks pc"
  "my_blocks (pc\<lparr>mc_pending_db := bs\<rparr>) = my_blocks pc" "my_blocks (pc\<lparr>mc_pending_user := bs\<rparr>) = my_blocks pc"
  "my_blocks (pc\<lparr>mc_have_pending_db := b\<rparr>) = my_blocks pc" "my_blocks (pc\<lparr>mc_have_pending_user := b\<rparr>) = my_blocks pc"
  "my_blocks (pc\<lparr>mc_pending_text := bs\<rparr>) = my_blocks pc" "my_blocks (pc\<lparr>mc_pending_prep := b\<rparr>) = my_blocks pc"
  "my_blocks (pc\<lparr>mc_pending_trunc := b\<rparr>) = my_blocks pc" "my_blocks (pc\<lparr>mc_txn_status := st\<rparr>) = my_blocks pc"
  "my_blocks (pc\<lparr>mc_txn_start := t\<rparr>) = my_blocks pc"
  by (simp_all add: my_blocks_def)

lemma blocks_unit: "my_blocks (pc\<lparr>mc_u := u\<rparr>) + blk (mu_own_cap (mc_u pc)) = my_blocks pc + blk (mu_own_cap u)"
  by (simp add: my_blocks_def)

text \<open>Fields the invariant does not see.\<close>

lemma good_fields [simp]:
  "my_good T (pc\<lparr>mc_sess := ss\<rparr>) = my_good T pc" "my_good T (pc\<lparr>mc_msgs := n\<rparr>) = my_good T pc"
  "my_good T (pc\<lparr>mc_caps := w\<rparr>) = my_good T pc" "my_good T (pc\<lparr>mc_mcaps := w\<rparr>) = my_good T pc"
  "my_good T (pc\<lparr>mc_caps_known := b\<rparr>) = my_good T pc" "my_good T (pc\<lparr>mc_session_emitted := b\<rparr>) = my_good T pc"
  "my_good T (pc\<lparr>mc_cols_left := w\<rparr>) = my_good T pc" "my_good T (pc\<lparr>mc_meta_left := w\<rparr>) = my_good T pc"
  "my_good T (pc\<lparr>mc_have_pending_db := b\<rparr>) = my_good T pc" "my_good T (pc\<lparr>mc_have_pending_user := b\<rparr>) = my_good T pc"
  "my_good T (pc\<lparr>mc_pending_prep := b\<rparr>) = my_good T pc" "my_good T (pc\<lparr>mc_pending_trunc := b\<rparr>) = my_good T pc"
  by (simp_all add: my_good_defs)

lemma good_session: "my_good T pc \<Longrightarrow> session_ok s \<Longrightarrow> my_good T (pc\<lparr>mc_session := s\<rparr>)"
  by (simp add: my_good_defs)

lemma good_reply: "my_good T pc \<Longrightarrow> mc_unit_open pc \<longrightarrow> r \<in> {MY_R_HEAD, MY_R_COLS, MY_R_ROWS} \<Longrightarrow> my_good T (pc\<lparr>mc_reply := r\<rparr>)"
  by (simp add: my_good_defs)

lemma good_phase: "my_good T pc \<Longrightarrow> mc_unit_open pc \<longrightarrow> ph \<in> {MY_PH_READY, MY_PH_INFILE} \<Longrightarrow> my_good T (pc\<lparr>mc_phase := ph\<rparr>)"
  by (simp add: my_good_defs)

lemma good_closed: "my_good T pc \<Longrightarrow> my_good T (pc\<lparr>mc_unit_open := False\<rparr>)"
  by (simp add: my_good_defs)

lemma good_leave: "my_good T pc \<Longrightarrow> my_good T (leave_infile pc)"
  by (simp add: leave_infile_def good_phase)

lemma leave_simps [simp]: "my_blocks (leave_infile pc) = my_blocks pc" "mc_unit_open (leave_infile pc) = mc_unit_open pc"
  "mc_u (leave_infile pc) = mc_u pc" "mc_session (leave_infile pc) = mc_session pc" "mc_prep (leave_infile pc) = mc_prep pc"
  "mc_txn_status (leave_infile pc) = mc_txn_status pc" "mc_txn_start (leave_infile pc) = mc_txn_start pc"
  by (simp_all add: leave_infile_def)

section \<open>The unit's text and the statement cache\<close>

lemma my_own_grow_props:
  assumes "my_own_grow u n hp = (ok, u', hp')"
  shows "hp_live hp' + blk (mu_own_cap u) = hp_live hp + blk (mu_own_cap u')" "mu_own_cap u \<le> mu_own_cap u'"
    "mu_own_cap u' \<le> max (mu_own_cap u) n" "ok \<Longrightarrow> n \<le> mu_own_cap u' \<and> mu_own_text u' = mu_own_text u \<and> mu_flags u' = mu_flags u"
    "\<not> ok \<Longrightarrow> mu_own_text u' = []" "mu_ts_start u' = mu_ts_start u" "mu_kind u' = mu_kind u" "mu_copy_kind u' = mu_copy_kind u"
    "mu_prep_idx u' = mu_prep_idx u" "mu_prep_gen u' = mu_prep_gen u" "heap_never_fails hp \<Longrightarrow> ok"
  using assms by (auto simp: my_own_grow_def blk_def hp_realloc_def Let_def split: if_splits prod.splits)

lemma prep_id: "mc_prep pc = x \<Longrightarrow> pc\<lparr>mc_prep := x\<rparr> = pc"
  by auto

lemma good_cache:
  assumes "my_good T pc" and "my_cache_ok q" and "mc_unit_open pc \<Longrightarrow> my_ref_ok (Some q) (mc_u pc)"
  shows "my_good T (pc\<lparr>mc_prep := Some q\<rparr>)"
  using assms by (simp add: my_good_defs)

lemma rescue_ref_step:
  assumes g: "my_good T pc" and q: "mc_prep pc = Some q" and r: "my_query_rescue_ref slot pc hp = (pc', hp')"
  shows "my_good T pc'" "my_balanced hp pc hp' pc'" "pc' = pc\<lparr>mc_u := mc_u pc'\<rparr>"
    "mc_unit_open pc \<Longrightarrow> mu_prep_idx (mc_u pc') \<noteq> Some slot"
proof -
  let ?u = "mc_u pc" and ?e = "mp_e q slot"
  have "my_good T pc' \<and> my_balanced hp pc hp' pc' \<and> pc' = pc\<lparr>mc_u := mc_u pc'\<rparr> \<and> (mc_unit_open pc \<longrightarrow> mu_prep_idx (mc_u pc') \<noteq> Some slot)"
  proof (cases "mc_unit_open pc \<and> mu_prep_idx ?u = Some slot")
    case True
    then have gen: "mu_prep_gen ?u = me_gen ?e" using g q by (auto simp: my_good_defs my_ref_ok_def)
    have cap: "my_unit_ok ?u" "my_entry_ok ?e" using g q by (auto simp: my_good_defs my_cache_ok_def)
    obtain ok u hp1 where o: "(if me_text ?e \<noteq> [] then my_own_grow ?u (length (me_text ?e)) hp else (False, ?u, hp)) = (ok, u, hp1)"
      by (cases rule: prod_cases3)
    let ?u' = "u\<lparr>mu_own_text := (if ok then me_text ?e else []), mu_prep_idx := None\<rparr>"
    have pc': "pc' = pc\<lparr>mc_u := ?u'\<rparr>" "hp' = hp1" using r q True gen o by (simp_all add: my_query_rescue_ref_def)
    have "my_unit_ok ?u' \<and> mu_ts_start u = mu_ts_start ?u \<and> hp_live hp1 + blk (mu_own_cap ?u) = hp_live hp + blk (mu_own_cap u)"
      using o cap my_own_grow_props [of ?u "length (me_text ?e)" hp ok u hp1]
      by (auto simp: my_unit_ok_def my_entry_ok_def split: if_splits)
    then show ?thesis using g blocks_unit [where pc = pc and u = ?u'] unfolding pc' by (auto simp: my_good_defs my_ref_ok_def my_balanced_def)
  next
    case False
    then have "pc' = pc" "hp' = hp" using r q by (auto simp: my_query_rescue_ref_def)
    then show ?thesis using g False by simp
  qed
  then show "my_good T pc'" "my_balanced hp pc hp' pc'" "pc' = pc\<lparr>mc_u := mc_u pc'\<rparr>"
    "mc_unit_open pc \<Longrightarrow> mu_prep_idx (mc_u pc') \<noteq> Some slot" by blast+
qed

text \<open>Rescue a slot's reference, then replace the slot. \<open>q1\<close> is the cache with its counters already moved.\<close>

lemma rescue_ref_cache:
  assumes "mc_prep pc = Some q" and "mp_e q1 = mp_e q" and "my_query_rescue_ref slot pc hp = (pc', hp')"
  shows "my_query_rescue_ref slot (pc\<lparr>mc_prep := Some q1\<rparr>) hp = (pc'\<lparr>mc_prep := Some q1\<rparr>, hp')"
  using assms by (auto simp: my_query_rescue_ref_def Let_def split: if_splits prod.splits)

lemma my_replace_slot:
  assumes g: "my_good T pc" and q: "mc_prep pc = Some q" and q1: "mp_e q1 = mp_e q"
    and r: "my_query_rescue_ref slot (pc\<lparr>mc_prep := Some q1\<rparr>) hp = (pc2, hp2)"
    and q2: "my_cache_ok q2" "mp_e q2 = (mp_e q)(slot := e)" and s: "slot < LK_MY_PREP_CACHE"
    and l: "hp_live hp3 + blk (me_text_cap (mp_e q slot)) = hp_live hp2 + blk (me_text_cap e)"
  shows "my_good T (pc2\<lparr>mc_prep := Some q2\<rparr>)" "my_balanced hp pc hp3 (pc2\<lparr>mc_prep := Some q2\<rparr>)"
    "pc2\<lparr>mc_prep := Some q2\<rparr> = pc\<lparr>mc_u := mc_u pc2, mc_prep := Some q2\<rparr>"
proof -
  obtain pc1 hp1 where r1: "my_query_rescue_ref slot pc hp = (pc1, hp1)" by fastforce
  note rr = rescue_ref_step [OF g q r1]
  have e: "pc2 = pc1\<lparr>mc_prep := Some q1\<rparr>" "hp2 = hp1" using rescue_ref_cache [OF q q1 r1] r by simp_all
  have f: "mc_unit_open pc1 = mc_unit_open pc" "mc_prep pc1 = Some q" "mc_pending_cap pc1 = mc_pending_cap pc"
    by (subst rr(3), simp add: q)+
  have "my_ref_ok (Some q2) (mc_u pc1)" if "mc_unit_open pc1"
    using rr(1,4) that f q2 by (auto simp: my_good_defs my_ref_ok_def split: option.splits)
  then show "my_good T (pc2\<lparr>mc_prep := Some q2\<rparr>)" using good_cache [OF rr(1) q2(1)] e by simp
  show "my_balanced hp pc hp3 (pc2\<lparr>mc_prep := Some q2\<rparr>)"
    using rr(2) l q f e my_text_blocks_upd [OF s q2(2)] by (simp add: my_balanced_def my_blocks_def my_cache_blocks_def)
  show "pc2\<lparr>mc_prep := Some q2\<rparr> = pc\<lparr>mc_u := mc_u pc2, mc_prep := Some q2\<rparr>" unfolding e by (subst rr(3)) simp
qed

lemma find_by_id_Some: "find_by_id q k = Some i \<longleftrightarrow> i < LK_MY_PREP_CACHE \<and> me_used (mp_e q i) \<and> me_stmt_id (mp_e q i) = k
    \<and> (\<forall>j<i. \<not> (me_used (mp_e q j) \<and> me_stmt_id (mp_e q j) = k))"
  by (simp add: find_by_id_def find_upt_Some)

lemma my_lru_slot_less: "my_lru_slot q < LK_MY_PREP_CACHE"
  using argmin_from_in [of "\<lambda>i. me_lru (mp_e q i)" "[1..<LK_MY_PREP_CACHE]" 0]
  by (auto simp: my_lru_slot_def LK_MY_PREP_CACHE_def)

lemma finite_my_used [simp]: "finite (my_used q)"
  by (simp add: my_used_def)

lemma my_claim_slot_props:
  assumes "my_claim_slot p q k = (slot, p', q')" and "my_cache_ok q"
  shows "slot < LK_MY_PREP_CACHE" "mp_e q' = mp_e q" "mp_count q' = card (insert slot (my_used q))" "silent p p'" "p_heap p' = p_heap p"
proof -
  have c: "mp_count q = card (my_used q)" using assms(2) by (simp add: my_cache_ok_def)
  have "slot < LK_MY_PREP_CACHE \<and> mp_e q' = mp_e q \<and> mp_count q' = card (insert slot (my_used q)) \<and> silent p p' \<and> p_heap p' = p_heap p"
  proof (cases "find_by_id q k")
    case (Some i)
    then have "i \<in> my_used q" by (simp add: find_by_id_Some my_used_def)
    then show ?thesis using assms Some c by (auto simp: my_claim_slot_def insert_absorb my_used_def)
  next
    case N: None
    show ?thesis
    proof (cases "List.find (\<lambda>i. \<not> me_used (mp_e q i)) [0..<LK_MY_PREP_CACHE]")
      case (Some i)
      then have "i \<notin> my_used q" "i < LK_MY_PREP_CACHE" by (auto simp: find_upt_Some my_used_def)
      then show ?thesis using assms Some N c by (auto simp: my_claim_slot_def my_pick_slot_def)
    next
      case None
      then have "my_lru_slot q \<in> my_used q" using my_lru_slot_less [of q] by (auto simp: find_upt_None my_used_def)
      then show ?thesis using assms None N c my_lru_slot_less [of q]
        by (auto simp: my_claim_slot_def my_pick_slot_def insert_absorb silent_upd)
    qed
  qed
  then show "slot < LK_MY_PREP_CACHE" "mp_e q' = mp_e q" "mp_count q' = card (insert slot (my_used q))" "silent p p'" "p_heap p' = p_heap p"
    by blast+
qed

lemma my_fill_slot_props:
  assumes "my_fill_slot e trunc lru k txt hp = (e', hp')" and "my_entry_ok e" and "length txt \<le> LK_MSG_BODY_MAX"
  shows "my_entry_ok e'" "me_used e'" "hp_live hp' + blk (me_text_cap e) = hp_live hp + blk (me_text_cap e')"
    "me_stmt_id e' = k" "heap_never_fails hp \<Longrightarrow> me_text e' = txt" "me_trunc e' = trunc" "me_gen e' = me_gen e + 1"
  using assms by (auto simp: my_fill_slot_def my_entry_ok_def blk_def hp_realloc_def Let_def split: if_splits prod.splits)

end
