(* ===== verification/My_Steps.thy ===== *)
theory My_Steps
  imports My_Inv
begin

text \<open>Every operation of the MySQL handler keeps the contract \<open>my_step\<close>.\<close>

section \<open>Statement cache\<close>

lemma good_pending:
  assumes "my_good T pc" and "\<not> mc_unit_open pc" and "length txt \<le> cap" and "cap \<le> LK_MSG_BODY_MAX"
  shows "my_good T (pc\<lparr>mc_reply := r, mc_pending_prep := b, mc_pending_trunc := t, mc_pending_cap := cap, mc_pending_text := txt\<rparr>)"
  using assms by (simp add: my_good_defs)

lemma prepare_step:
  assumes g: "my_good T pc" and o: "\<not> mc_unit_open pc" and e: "my_prep_prepare p pc m = (p', pc')"
  shows "my_step T p pc p' pc'"
proof -
  let ?n = "min (m_body_cap m - 1) LK_MSG_BODY_MAX" and ?txt = "take (min (m_body_cap m - 1) LK_MSG_BODY_MAX) (drop 1 (m_body m))"
  let ?pc = "pc\<lparr>mc_reply := MY_R_PREPARE_OK, mc_pending_prep := True, mc_pending_trunc := m_trunc m\<rparr>"
  have cap: "mc_pending_cap pc \<le> LK_MSG_BODY_MAX" using g by (simp add: my_good_defs)
  obtain ok hp where r: "hp_realloc (mc_pending_cap pc = 0) (p_heap p) = (ok, hp)" by fastforce
  note l = hp_realloc_live [OF r]
  consider "?n \<le> mc_pending_cap pc" "p' = p" "pc' = ?pc\<lparr>mc_pending_cap := mc_pending_cap pc, mc_pending_text := ?txt\<rparr>"
    | "mc_pending_cap pc < ?n" "\<not> ok" "p' = p\<lparr>p_heap := hp\<rparr>" "pc' = ?pc\<lparr>mc_pending_cap := mc_pending_cap pc, mc_pending_text := []\<rparr>"
    | "mc_pending_cap pc < ?n" "ok" "p' = p\<lparr>p_heap := hp\<rparr>" "pc' = ?pc\<lparr>mc_pending_cap := ?n, mc_pending_text := ?txt\<rparr>"
    using e r by (auto simp: my_prep_prepare_def Let_def split: if_splits)
  then show ?thesis
  proof cases
    case 1
    then show ?thesis using good_pending [OF g o, of ?txt "mc_pending_cap pc"] cap
      by (auto simp: my_step_def my_balanced_def my_blocks_def)
  next
    case 2
    then show ?thesis using good_pending [OF g o, of "[]" "mc_pending_cap pc"] cap l
      by (auto simp: my_step_def my_balanced_def my_blocks_def)
  next
    case 3
    then show ?thesis using good_pending [OF g o, of ?txt ?n] cap l
      by (auto simp: my_step_def my_balanced_def my_blocks_def blk_def)
  qed
qed

lemma my_prep_get_step:
  assumes g: "my_good T pc" and "my_prep_get p pc = (r, p', pc')"
  shows "my_step T p pc p' pc'" "mc_prep pc' = r" "mc_pending_text pc' = mc_pending_text pc"
proof -
  have "my_cache_ok my_prep_cache_zero" by (simp add: my_cache_ok_def my_prep_cache_zero_def my_entry_ok_def my_prep_zero_def my_used_def)
  moreover have "my_ref_ok (Some my_prep_cache_zero) (mc_u pc)" if "mc_prep pc = None" "mc_unit_open pc"
    using g that by (auto simp: my_good_defs my_ref_ok_def split: option.splits)
  ultimately have "my_good T (pc\<lparr>mc_prep := Some my_prep_cache_zero\<rparr>)" if "mc_prep pc = None"
    using good_cache [OF g, of my_prep_cache_zero] that by blast
  moreover have "my_text_blocks my_prep_cache_zero = 0" by (simp add: my_text_blocks_def my_prep_cache_zero_def my_prep_zero_def blk_def)
  ultimately show "my_step T p pc p' pc'" "mc_prep pc' = r" "mc_pending_text pc' = mc_pending_text pc"
    using assms by (auto simp: my_prep_get_def my_step_def my_balanced_def my_blocks_def my_cache_blocks_def hp_alloc_def Let_def
      split: option.splits if_splits)
qed

lemma my_prep_store_step:
  assumes g: "my_good T pc" and q: "mc_prep pc = Some q" and s: "my_prep_store p pc q k = (p', pc')"
  shows "my_step T p pc p' pc'"
proof -
  obtain slot p1 q1 where c: "my_claim_slot p q k = (slot, p1, q1)" by (cases rule: prod_cases3)
  have cq: "my_cache_ok q" using g q by (simp add: my_good_defs)
  note cp = my_claim_slot_props [OF c cq]
  obtain pc2 hp2 where r: "my_query_rescue_ref slot (pc\<lparr>mc_prep := Some q1\<rparr>) (p_heap p1) = (pc2, hp2)" by fastforce
  let ?t = "mc_pending_text pc2"
  obtain e hp3 where f: "my_fill_slot (mp_e q1 slot) (mc_pending_trunc pc2) (mp_clock q1 + 1) k ?t hp2 = (e, hp3)" by fastforce
  let ?q2 = "q1\<lparr>mp_e := (mp_e q1)(slot := e), mp_clock := mp_clock q1 + 1\<rparr>"
  have res: "p' = p1\<lparr>p_heap := hp3\<rparr>" "pc' = pc2\<lparr>mc_prep := Some ?q2\<rparr>" using s c r f by (auto simp: my_prep_store_def Let_def)
  have en: "my_entry_ok (mp_e q1 slot)" using cq cp(2) by (simp add: my_cache_ok_def)
  have "mc_pending_text pc2 = mc_pending_text pc"
    using r by (auto simp: my_query_rescue_ref_def Let_def split: if_splits prod.splits)
  then have t: "length ?t \<le> LK_MSG_BODY_MAX" using g by (auto simp: my_good_defs)
  note fp = my_fill_slot_props [OF f en t]
  have "my_used ?q2 = insert slot (my_used q)" using fp(2) cp(1,2) by (auto simp: my_used_def)
  then have c2: "my_cache_ok ?q2" using fp(1) cq cp(2,3) by (simp add: my_cache_ok_def)
  have l: "hp_live hp3 + blk (me_text_cap (mp_e q slot)) = hp_live hp2 + blk (me_text_cap e)" using fp(3) cp(2) by simp
  have e2: "mp_e ?q2 = (mp_e q)(slot := e)" using cp(2) by simp
  note rs = my_replace_slot [OF g q cp(2) r c2 e2 cp(1) l]
  show ?thesis unfolding my_step_def res using rs(1,2) silent_tells [OF cp(4)] cp(5) by simp
qed

lemma prep_ok_step:
  assumes g: "my_good T pc" and u: "\<not> mc_unit_open pc" and o: "my_prep_ok p pc m = (p', pc')"
  shows "my_step T p pc p' pc'"
proof -
  have q: "my_step T p pc p (pc\<lparr>mc_reply := r, mc_pending_prep := b\<rparr>)" "my_step T p pc p (pc\<lparr>mc_reply := r\<rparr>)"
    "my_step T p pc p (pc\<lparr>mc_reply := r, mc_meta_left := n\<rparr>)" "my_step T p pc p (pc\<lparr>mc_reply := r, mc_meta_left := n, mc_pending_prep := b\<rparr>)"
    for r b n by (rule my_step_quiet; use g u in \<open>simp add: good_reply\<close>)+
  have st: "my_step T p pc p3 pc3"
    if "my_prep_get p (pc\<lparr>mc_reply := r, mc_meta_left := n, mc_pending_prep := b\<rparr>) = (Some x, p2, pc2)" "my_prep_store p2 pc2 x k = (p3, pc3)"
    for r n b x p2 pc2 k p3 pc3
  proof -
    note s1 = my_prep_get_step [OF my_step_good [OF q(4)] that(1)]
    show ?thesis using my_step_trans [OF q(4) my_step_trans [OF s1(1) my_prep_store_step [OF my_step_good [OF s1(1)] s1(2) that(2)]]] .
  qed
  have gt: "my_step T p pc p2 pc2" if "my_prep_get p (pc\<lparr>mc_reply := r, mc_meta_left := n, mc_pending_prep := b\<rparr>) = (None, p2, pc2)"
    for r n b p2 pc2 using my_step_trans [OF q(4) my_prep_get_step(1) [OF my_step_good [OF q(4)] that]] .
  have swap: "pc\<lparr>mc_reply := x, mc_meta_left := n, mc_reply := r\<rparr> = pc\<lparr>mc_reply := r, mc_meta_left := n\<rparr>" for x n r by simp
  show ?thesis
    using o q my_step_count [OF q(1)]
    by (auto simp: my_prep_ok_def Let_def swap intro: st gt split: prod.splits if_splits option.splits)
qed

lemma forget_ok: "my_entry_ok e \<Longrightarrow> my_entry_ok (my_forget e)" "me_text_cap (my_forget e) = me_text_cap e" "\<not> me_used (my_forget e)"
  by (simp_all add: my_entry_ok_def my_forget_def)

lemma prep_close_step:
  assumes g: "my_good T pc" and c: "my_prep_close pc m (p_heap p) = (pc', hp')"
  shows "my_step T p pc (p\<lparr>p_heap := hp'\<rparr>) pc'"
proof -
  have "my_step T p pc (p\<lparr>p_heap := hp2\<rparr>) (pc2\<lparr>mc_prep := Some (q\<lparr>mp_e := (mp_e q)(slot := my_forget (mp_e q slot)), mp_count := mp_count q - 1\<rparr>)\<rparr>)"
    if q: "mc_prep pc = Some q" and f: "find_by_id q k = Some slot" and r: "my_query_rescue_ref slot pc (p_heap p) = (pc2, hp2)" for q k slot pc2 hp2
  proof -
    let ?q2 = "q\<lparr>mp_e := (mp_e q)(slot := my_forget (mp_e q slot)), mp_count := mp_count q - 1\<rparr>"
    have cq: "my_cache_ok q" using g q by (simp add: my_good_defs)
    have s: "slot < LK_MY_PREP_CACHE" "slot \<in> my_used q" using f by (auto simp: find_by_id_Some my_used_def)
    moreover have "my_used ?q2 = my_used q - {slot}" by (auto simp: my_used_def forget_ok)
    ultimately have c2: "my_cache_ok ?q2" using cq forget_ok(1) by (simp add: my_cache_ok_def)
    have r': "my_query_rescue_ref slot (pc\<lparr>mc_prep := Some q\<rparr>) (p_heap p) = (pc2, hp2)"
      using r by (simp add: prep_id [OF q])
    note rs = my_replace_slot [OF g q refl r' c2 _ s(1), of "my_forget (mp_e q slot)" hp2]
    show ?thesis using rs(1,2) forget_ok(2) by (simp add: my_step_def)
  qed
  then show ?thesis
    using c my_step_refl [OF g] by (auto simp: my_prep_close_def Let_def split: prod.splits if_splits option.splits)
qed

lemma lookup_step:
  assumes g: "my_good T pc" and l: "my_prep_lookup pc k = (hit, pc')"
  shows "my_good T pc'" "my_blocks pc' = my_blocks pc" "pc' = pc\<lparr>mc_prep := mc_prep pc'\<rparr>"
    "hit = Some (i, gen, t) \<Longrightarrow> my_ref_ok (mc_prep pc') (u\<lparr>mu_prep_idx := Some i, mu_prep_gen := gen\<rparr>)"
proof -
  have "my_good T pc' \<and> my_blocks pc' = my_blocks pc \<and> pc' = pc\<lparr>mc_prep := mc_prep pc'\<rparr>
    \<and> (hit = Some (i, gen, t) \<longrightarrow> my_ref_ok (mc_prep pc') (u\<lparr>mu_prep_idx := Some i, mu_prep_gen := gen\<rparr>))"
  proof (cases "\<exists>q slot. mc_prep pc = Some q \<and> find_by_id q k = Some slot")
    case True
    then obtain q slot where q: "mc_prep pc = Some q" and f: "find_by_id q k = Some slot" by auto
    let ?e = "(mp_e q slot)\<lparr>me_lru := mp_clock q + 1\<rparr>"
    let ?q2 = "q\<lparr>mp_e := (mp_e q)(slot := ?e), mp_clock := mp_clock q + 1\<rparr>"
    have res: "pc' = pc\<lparr>mc_prep := Some ?q2\<rparr>" "hit = Some (slot, me_gen (mp_e q slot), me_trunc (mp_e q slot))"
      using l q f by (auto simp: my_prep_lookup_def Let_def)
    have s: "slot < LK_MY_PREP_CACHE" "me_used (mp_e q slot)" using f by (auto simp: find_by_id_Some)
    have "my_used ?q2 = my_used q" by (auto simp: my_used_def)
    then have "my_cache_ok ?q2" using g q by (auto simp: my_good_defs my_cache_ok_def my_entry_ok_def)
    moreover have "my_ref_ok (Some ?q2) (mc_u pc)" if "mc_unit_open pc"
      using g q that by (auto simp: my_good_defs my_ref_ok_def split: option.splits)
    ultimately have "my_good T (pc\<lparr>mc_prep := Some ?q2\<rparr>)" by (rule good_cache [OF g])
    moreover have "my_text_blocks ?q2 = my_text_blocks q" using my_text_blocks_upd [OF s(1), of ?q2 q ?e] by simp
    ultimately show ?thesis using res q s by (auto simp: my_blocks_def my_cache_blocks_def my_ref_ok_def)
  next
    case False
    then show ?thesis using l g by (auto simp: my_prep_lookup_def split: option.splits)
  qed
  then show "my_good T pc'" "my_blocks pc' = my_blocks pc" "pc' = pc\<lparr>mc_prep := mc_prep pc'\<rparr>"
    "hit = Some (i, gen, t) \<Longrightarrow> my_ref_ok (mc_prep pc') (u\<lparr>mu_prep_idx := Some i, mu_prep_gen := gen\<rparr>)" by blast+
qed

text \<open>The loop of \<open>my_prep_drop_all\<close> leaves the slot counter behind until it ends.\<close>

abbreviation recq :: "my_prep_cache \<Rightarrow> my_prep_cache" where
  "recq q \<equiv> q\<lparr>mp_count := card (my_used q)\<rparr>"

definition recount :: "my_conn \<Rightarrow> my_conn" where
  "recount pc = pc\<lparr>mc_prep := map_option recq (mc_prep pc)\<rparr>"

lemma recount_blocks [simp]: "my_blocks (recount pc) = my_blocks pc"
  by (auto simp: my_blocks_def recount_def my_cache_blocks_def my_text_blocks_def split: option.splits)

lemma recount_good: "my_good T pc \<Longrightarrow> my_good T (recount pc)"
proof -
  assume g: "my_good T pc"
  then have "map_option recq (mc_prep pc) = mc_prep pc" by (cases "mc_prep pc") (auto simp: my_good_defs my_cache_ok_def)
  then show ?thesis using g by (simp add: recount_def)
qed

lemma drop_slot_step:
  assumes g: "my_good T (recount pc)" and i: "i < LK_MY_PREP_CACHE" and q: "mc_prep pc = Some q" and d: "drop_slot i (pc, hp) = (pc', hp')"
  shows "my_good T (recount pc')" "my_balanced hp pc hp' pc'" "pc' = pc\<lparr>mc_u := mc_u pc', mc_prep := mc_prep pc'\<rparr>"
    "\<exists>q'. mc_prep pc' = Some q' \<and> my_used q' = my_used q - {i}"
proof -
  have "my_good T (recount pc') \<and> my_balanced hp pc hp' pc' \<and> pc' = pc\<lparr>mc_u := mc_u pc', mc_prep := mc_prep pc'\<rparr>
    \<and> (\<exists>q'. mc_prep pc' = Some q' \<and> my_used q' = my_used q - {i})"
  proof (cases "me_used (mp_e q i)")
    case False
    then have "pc' = pc" "hp' = hp" "i \<notin> my_used q" using d q by (auto simp: drop_slot_def my_used_def)
    then show ?thesis using g q by simp
  next
    case True
    obtain pc2 hp2 where r: "my_query_rescue_ref i pc hp = (pc2, hp2)" by fastforce
    let ?q = "q\<lparr>mp_e := (mp_e q)(i := my_forget (mp_e q i))\<rparr>"
    have pc': "pc' = pc2\<lparr>mc_prep := Some ?q\<rparr>" "hp' = hp2" using d q True r by (auto simp: drop_slot_def)
    have u: "my_used ?q = my_used q - {i}" by (auto simp: my_used_def forget_ok)
    have q0: "mc_prep (recount pc) = Some (recq q)" using q by (simp add: recount_def)
    have c2: "my_cache_ok (recq ?q)" using g q forget_ok(1) by (auto simp: my_good_defs recount_def my_cache_ok_def my_used_def)
    have r': "my_query_rescue_ref i ((recount pc)\<lparr>mc_prep := Some q\<rparr>) hp = (pc2, hp2)"
      using r by (simp add: recount_def prep_id [OF q])
    note rs = my_replace_slot [OF g q0 _ r' c2 _ i, of "my_forget (mp_e q i)" hp2, simplified]
    have "recount pc' = pc2\<lparr>mc_prep := Some (recq ?q)\<rparr>" by (simp add: pc' recount_def)
    then have 1: "my_good T (recount pc')" "my_balanced hp (recount pc) hp2 (recount pc')" using rs(1,2) forget_ok(2) by simp_all
    have "pc2 = pc\<lparr>mc_u := mc_u pc2\<rparr>" using r by (auto simp: my_query_rescue_ref_def Let_def split: option.splits if_splits prod.splits)
    then have "pc' = pc\<lparr>mc_u := mc_u pc', mc_prep := mc_prep pc'\<rparr>" unfolding pc' by (metis my_conn.select_convs(10) my_conn.surjective my_conn.update_convs(10,22) my_conn.select_convs(22))
    then show ?thesis using 1 u by (simp add: my_balanced_def pc')
  qed
  then show "my_good T (recount pc')" "my_balanced hp pc hp' pc'" "pc' = pc\<lparr>mc_u := mc_u pc', mc_prep := mc_prep pc'\<rparr>"
    "\<exists>q'. mc_prep pc' = Some q' \<and> my_used q' = my_used q - {i}" by blast+
qed

lemma drop_fold:
  assumes "my_good T (recount pc)" and "mc_prep pc = Some q" and "n \<le> LK_MY_PREP_CACHE" and "fold drop_slot [0..<n] (pc, hp) = (pc', hp')"
  shows "my_good T (recount pc') \<and> my_balanced hp pc hp' pc' \<and> pc' = pc\<lparr>mc_u := mc_u pc', mc_prep := mc_prep pc'\<rparr>
    \<and> (\<exists>q'. mc_prep pc' = Some q' \<and> my_used q' = my_used q - {..<n})"
  using assms(3,4)
proof (induction n arbitrary: pc' hp')
  case 0
  then show ?case using assms(1,2) by simp
next
  case (Suc n)
  obtain pc1 hp1 where f: "fold drop_slot [0..<n] (pc, hp) = (pc1, hp1)" by fastforce
  then have d: "drop_slot n (pc1, hp1) = (pc', hp')" using Suc.prems(2) by simp
  from Suc.IH [OF _ f] Suc.prems(1) obtain q1 where IH: "my_good T (recount pc1)" "my_balanced hp pc hp1 pc1"
    "pc1 = pc\<lparr>mc_u := mc_u pc1, mc_prep := mc_prep pc1\<rparr>" "mc_prep pc1 = Some q1" "my_used q1 = my_used q - {..<n}" by auto
  note s = drop_slot_step [OF IH(1) _ IH(4) d]
  have n: "n < LK_MY_PREP_CACHE" using Suc.prems(1) by simp
  obtain x y where "pc1 = pc\<lparr>mc_u := x, mc_prep := y\<rparr>" using IH(3) by blast
  moreover obtain x' y' where "pc' = pc1\<lparr>mc_u := x', mc_prep := y'\<rparr>" using s(3) [OF n] by blast
  ultimately have "pc' = pc\<lparr>mc_u := mc_u pc', mc_prep := mc_prep pc'\<rparr>" by simp
  then show ?case using s(1) [OF n] my_balanced_trans [OF IH(2) s(2) [OF n]] s(4) [OF n] IH(5) by (auto simp: lessThan_Suc)
qed

lemma drop_all_step:
  assumes g: "my_good T pc" and d: "my_prep_drop_all pc (p_heap p) = (pc', hp')"
  shows "my_step T p pc (p\<lparr>p_heap := hp'\<rparr>) pc'" "mc_unit_open pc' = mc_unit_open pc"
proof -
  have "my_step T p pc (p\<lparr>p_heap := hp'\<rparr>) pc' \<and> mc_unit_open pc' = mc_unit_open pc"
  proof (cases "mc_prep pc")
    case None
    then show ?thesis using d my_step_refl [OF g] by (auto simp: my_prep_drop_all_def)
  next
    case (Some q)
    obtain pc1 hp1 where f: "fold drop_slot [0..<LK_MY_PREP_CACHE] (pc, p_heap p) = (pc1, hp1)" by fastforce
    have pc': "pc' = pc1\<lparr>mc_prep := map_option (\<lambda>pr. pr\<lparr>mp_count := 0\<rparr>) (mc_prep pc1)\<rparr>" "hp' = hp1"
      using d Some f by (auto simp: my_prep_drop_all_def)
    obtain q1 where F: "my_good T (recount pc1)" "my_balanced (p_heap p) pc hp1 pc1" "pc1 = pc\<lparr>mc_u := mc_u pc1, mc_prep := mc_prep pc1\<rparr>"
      "mc_prep pc1 = Some q1" "my_used q1 = my_used q - {..<LK_MY_PREP_CACHE}"
      using drop_fold [OF recount_good [OF g] Some le_refl f] by auto
    have "my_used q1 = {}" using F(5) by (auto simp: my_used_def)
    then have e: "pc' = recount pc1" by (simp add: pc' recount_def F(4))
    have "mc_unit_open pc1 = mc_unit_open pc" by (subst F(3)) simp
    then show ?thesis using F(1,2) e pc'(2) by (simp add: my_step_def my_balanced_def) (simp add: recount_def)
  qed
  then show "my_step T p pc (p\<lparr>p_heap := hp'\<rparr>) pc'" "mc_unit_open pc' = mc_unit_open pc" by blast+
qed

section \<open>Session messages\<close>

lemma copy_field_length [simp]: "length (my_copy_field sz s) \<le> sz - 1"
  using length_takeWhile_le [of "\<lambda>b. b \<noteq> 0" "take (sz - 1) s"] by (simp add: my_copy_field_def)

lemma session_label_ok:
  assumes "session_ok s"
  shows "session_ok (s\<lparr>se_user := my_copy_field 64 x\<rparr>)" "session_ok (s\<lparr>se_database := my_copy_field 64 x\<rparr>)"
    "session_ok (s\<lparr>se_app := my_copy_field 64 x\<rparr>)" "session_ok (s\<lparr>se_server_version := my_copy_field 16 x\<rparr>)"
    "session_ok (s\<lparr>se_complete := b\<rparr>)"
  using assms copy_field_length [of 64 x] copy_field_length [of 16 x] by (simp_all add: session_ok_def)

lemma track_loop_ok: "session_ok s \<Longrightarrow> session_ok (track_loop w s)"
proof (induction w s rule: track_loop.induct)
  case (1 w s)
  have "session_ok (track_schema d s)" for d using "1.prems" by (auto simp: track_schema_def session_label_ok split: prod.split)
  then have t: "session_ok (if b then track_schema d s else s)" for b d using "1.prems" by simp
  obtain ok1 type w1 where u: "my_wire_get_u8 w = (ok1, type, w1)" by (cases rule: prod_cases3)
  obtain ok2 data w2 where l: "my_wire_get_lenenc_str w1 = (ok2, data, w2)" by (cases rule: prod_cases3)
  show ?case
  proof (cases "my_wire_remaining w = 0 \<or> \<not> ok1 \<or> \<not> ok2")
    case True
    then show ?thesis using "1.prems" by (subst track_loop.simps) (auto simp: u l)
  next
    case False
    then have "track_loop w s = track_loop w2 (if type = 1 then track_schema data s else s)" by (subst track_loop.simps) (simp add: u l)
    moreover have "session_ok (track_loop w2 (if type = 1 then track_schema data s else s))"
      by (rule "1.IH" [OF _ u [symmetric] refl l [symmetric] refl _ t]) (use False in auto)
    ultimately show ?thesis by simp
  qed
qed

lemma parse_session_track_ok: "session_ok s \<Longrightarrow> session_ok (parse_session_track w s)"
  by (auto simp: parse_session_track_def track_loop_ok split: prod.split)

lemma parse_ok_step:
  assumes "my_good T pc" and "my_query_parse_ok pc m eof = (ok, pc')"
  shows "my_good T pc'" "my_blocks pc' = my_blocks pc" "pc' = pc\<lparr>mc_session := mc_session pc'\<rparr>"
proof -
  have s: "session_ok (parse_session_track w (mc_session pc))" for w using assms(1) by (auto simp: my_good_defs intro: parse_session_track_ok)
  have "pc' = pc \<or> (\<exists>w. pc' = pc\<lparr>mc_session := parse_session_track w (mc_session pc)\<rparr>)"
    using assms(2) by (auto simp: my_query_parse_ok_def Let_def split: prod.splits if_splits)
  then show "my_good T pc'" "my_blocks pc' = my_blocks pc" "pc' = pc\<lparr>mc_session := mc_session pc'\<rparr>"
    using assms(1) good_session [OF assms(1) s] by auto
qed

lemma attrs_loop_ok: "session_ok s \<Longrightarrow> session_ok (attrs_loop w h s)"
proof (induction w h s rule: attrs_loop.induct)
  case (1 w h s)
  show ?case
  proof (cases h)
    case True
    then have h: "h = True" by simp
    show ?thesis unfolding h
      by (subst attrs_loop.simps) (auto simp: "1.prems" intro!: "1.IH" [unfolded h] session_label_ok split: prod.split)
  next
    case False
    then have h: "h = False" by simp
    show ?thesis unfolding h
      by (subst attrs_loop.simps) (auto simp: "1.prems" intro!: "1.IH" [unfolded h] session_label_ok split: prod.split)
  qed
qed

lemma response_labels_ok:
  assumes "session_ok s"
  shows "session_ok (response_labels caps w s)"
proof -
  have t: "session_ok (response_tail caps w s)" if "session_ok s" for w s
    using that by (auto simp: response_tail_def parse_attrs_def attrs_loop_ok split: prod.split)
  show ?thesis using assms by (auto simp: response_labels_def Let_def intro!: t session_label_ok split: prod.split)
qed

end
