(* ===== verification/My_Session_Steps.thy ===== *)
theory My_Session_Steps
  imports My_Steps
begin

text \<open>The session messages of the MySQL handler keep the contract \<open>my_step\<close>.\<close>

section \<open>Session messages\<close>

lemma good_session_ok: "my_good T pc \<Longrightarrow> session_ok (mc_session pc)"
  by (simp add: my_good_defs)

lemma greeting_good:
  assumes "my_good T pc"
  shows "my_good T (greeting pc m)" "my_blocks (greeting pc m) = my_blocks pc"
proof -
  have "my_good T (pc\<lparr>mc_sess := x, mc_session := (mc_session pc)\<lparr>se_server_version := my_copy_field 16 v\<rparr>\<rparr>)" for x v
    using assms by (intro good_session) (simp_all add: session_label_ok good_session_ok)
  then show "my_good T (greeting pc m)" "my_blocks (greeting pc m) = my_blocks pc"
    using assms by (auto simp: greeting_def Let_def split: prod.split)
qed

lemma handshake_good:
  assumes "my_good T pc"
  shows "my_good T (handshake_response pc m)" "my_blocks (handshake_response pc m) = my_blocks pc"
proof -
  have l: "session_ok (response_labels caps w ((mc_session pc)\<lparr>se_complete := b\<rparr>))" for caps w b
    using assms by (intro response_labels_ok session_label_ok) (rule good_session_ok)
  show "my_good T (handshake_response pc m)" "my_blocks (handshake_response pc m) = my_blocks pc"
    using assms by (simp_all add: handshake_response_def Let_def l good_session split: prod.split)
qed

lemma ok_effects_good:
  assumes "my_good T pc"
  shows "my_good T (my_session_ok_effects pc)" "my_blocks (my_session_ok_effects pc) = my_blocks pc"
  using assms good_session [OF assms session_label_ok(2) [OF good_session_ok [OF assms]]] by (auto simp: my_session_ok_effects_def)

lemma emit_session_step:
  assumes "my_good T pc" and "emit_session p c pc = (p', pc')"
  shows "my_step T p pc p' pc'"
proof -
  let ?p = "upd_pst (\<lambda>s. s\<lparr>ps_sessions := ps_sessions s + 1\<rparr>) p"
  have "tells T ?p (call_session ?p c s)" for s
    unfolding tells_def
    by (intro exI [of _ "if p_has_session p then [OnSession (cn_cookie c) s] else []"]) (auto simp: reports_def same_out_def calls_simps failed_def)
  moreover have "silent p ?p" by (rule silent_upd) simp_all
  ultimately have "tells T p (call_session ?p c s)" for s using tells_trans [OF silent_tells] by blast
  then show ?thesis using assms by (auto simp: emit_session_def my_step_def my_balanced_def)
qed

lemma final_ok_step:
  assumes g: "my_good T pc" and u: "\<not> mc_unit_open pc" and f: "my_session_final_ok p c pc m = (p', pc')"
  shows "my_step T p pc p' pc'"
proof -
  let ?pc1 = "if mc_have_pending_user pc
    then pc\<lparr>mc_session := (mc_session pc)\<lparr>se_user := my_copy_field 64 (mc_pending_user pc)\<rparr>, mc_have_pending_user := False\<rparr> else pc"
  have g1: "my_good T ?pc1" "my_blocks ?pc1 = my_blocks pc" "\<not> mc_unit_open ?pc1"
    using g u good_session [OF g session_label_ok(1) [OF good_session_ok [OF g]]] by auto
  obtain ok pc2 where o: "my_query_parse_ok ?pc1 m False = (ok, pc2)" by fastforce
  note po = parse_ok_step [OF g1(1) o]
  have u2: "\<not> mc_unit_open pc2" using g1(3) po(3) by (metis my_conn.select_convs(11) my_conn.surjective my_conn.update_convs(4))
  let ?pc3 = "(my_session_ok_effects pc2)\<lparr>mc_sess := MY_S_DONE\<rparr>"
  have g3: "my_good T ?pc3" "my_blocks ?pc3 = my_blocks pc" using ok_effects_good [OF po(1)] po(2) g1(2) by simp_all
  have u3: "\<not> mc_unit_open ?pc3" using u2 by (simp add: my_session_ok_effects_def)
  let ?p4 = "if has_flag (cn_flags c) LK_CONN_IGNORE then upd_pst (\<lambda>s. s\<lparr>ps_compressed_conns := ps_compressed_conns s + 1\<rparr>) p else p"
  let ?pc4 = "?pc3\<lparr>mc_phase := if has_flag (cn_flags c) LK_CONN_IGNORE then MY_PH_IGNORE else MY_PH_READY\<rparr>"
  have "silent p ?p4" by (simp add: silent_upd)
  moreover have "my_good T ?pc4" using u3 by (intro good_phase [OF g3(1)]) auto
  ultimately have s4: "my_step T p pc ?p4 ?pc4" using g3(2) by (intro my_step_quiet) simp_all
  have e: "my_session_final_ok p c pc m = (if \<not> mc_session_emitted ?pc4 then emit_session ?p4 c ?pc4 else (?p4, ?pc4))"
    by (simp only: my_session_final_ok_def Let_def o prod.case) (simp add: my_session_ok_effects_def)
  show ?thesis
  proof (cases "mc_session_emitted ?pc4")
    case True
    then show ?thesis using f s4 unfolding e by auto
  next
    case False
    then have "emit_session ?p4 c ?pc4 = (p', pc')" using f unfolding e by auto
    from my_step_trans [OF s4 emit_session_step [OF my_step_good [OF s4] this]] show ?thesis .
  qed
qed

lemma session_backend_step:
  assumes g: "my_good T pc" and u: "\<not> mc_unit_open pc" and b: "my_session_backend p c pc m = (p', pc')"
  shows "my_step T p pc p' pc'"
proof -
  have q: "my_step T p pc p (pc\<lparr>mc_sess := x, mc_phase := y, mc_have_pending_user := a, mc_have_pending_db := b\<rparr>)" "my_step T p pc p (pc\<lparr>mc_sess := x\<rparr>)" for x y a b
    using g u by (auto intro!: my_step_quiet good_phase)
  show ?thesis
    using b q my_step_refl [OF g] greeting_good [OF g] final_ok_step [OF g u]
    by (auto simp: my_session_backend_def Let_def intro: my_step_quiet split: my_sess.splits if_splits)
qed

lemma session_frontend_step: "my_good T pc \<Longrightarrow> my_step T p pc p (my_session_frontend pc m)"
  using handshake_good by (auto simp: my_session_frontend_def intro: my_step_quiet my_step_refl)

lemma promote_step:
  assumes g: "my_good T pc" and u: "\<not> mc_unit_open pc" and r: "my_session_promote p c pc = (p', pc')"
  shows "my_step T p pc p' pc'" "\<not> mc_unit_open pc'" "mc_phase pc' = MY_PH_READY"
proof -
  let ?e = "mc_sess pc = MY_S_AUTH \<and> \<not> mc_session_emitted pc"
  let ?pc0 = "pc\<lparr>mc_session := (mc_session pc)\<lparr>se_complete := False\<rparr>\<rparr>"
  obtain p1 pc1 where m: "(if ?e then emit_session p c ?pc0 else (p, pc)) = (p1, pc1)" by fastforce
  have s0: "my_step T p pc p ?pc0" using g by (intro my_step_quiet good_session) (simp_all add: session_label_ok good_session_ok)
  have s1: "my_step T p pc p1 pc1 \<and> \<not> mc_unit_open pc1"
  proof (cases ?e)
    case True
    then have e: "emit_session p c ?pc0 = (p1, pc1)" using m by simp
    from my_step_trans [OF s0 emit_session_step [OF my_step_good [OF s0] e]] show ?thesis
      using e u by (auto simp: emit_session_def)
  next
    case False
    then show ?thesis using m my_step_refl [OF g] u by auto
  qed
  have pc': "p' = p1" "pc' = pc1\<lparr>mc_sess := MY_S_DONE, mc_phase := MY_PH_READY, mc_have_pending_user := False, mc_have_pending_db := False\<rparr>"
    using r m by (simp_all add: my_session_promote_def)
  have "my_step T p1 pc1 p1 pc'"
    unfolding pc'(2) using s1 my_step_good by (intro my_step_quiet) (auto intro!: good_phase)
  then show "my_step T p pc p' pc'" "\<not> mc_unit_open pc'" "mc_phase pc' = MY_PH_READY"
    using my_step_trans [OF conjunct1 [OF s1]] s1 pc' by auto
qed

end
