(* ===== verification/My_Query_Steps.thy ===== *)
theory My_Query_Steps
  imports My_Session_Steps
begin

text \<open>The query machine of the MySQL handler keeps the contract \<open>my_step\<close>: commands that open a unit, the two
  terminators, and every reply state.\<close>

section \<open>Opening a unit\<close>

lemma good_unit:
  assumes "my_good T pc" and "my_unit_ok u" and "mc_unit_open pc \<Longrightarrow> my_ref_ok (mc_prep pc) u \<and> mu_ts_start u \<in> T"
  shows "my_good T (pc\<lparr>mc_u := u\<rparr>)"
  using assms by (simp add: my_good_defs)

lemma good_unit_ok: "my_good T pc \<Longrightarrow> my_unit_ok (mc_u pc)"
  by (simp add: my_good_defs)

text \<open>Changes to the unit that neither its text, its kind nor its start can notice.\<close>

definition unit_same :: "my_unit \<Rightarrow> my_unit \<Rightarrow> bool" where
  "unit_same u v \<longleftrightarrow> mu_own_text v = mu_own_text u \<and> mu_own_cap v = mu_own_cap u \<and> mu_kind v = mu_kind u
     \<and> mu_copy_kind v \<in> {mu_copy_kind u, Some LK_Q_COPY_IN} \<and> mu_ts_start v = mu_ts_start u
     \<and> mu_prep_idx v = mu_prep_idx u \<and> mu_prep_gen v = mu_prep_gen u"

lemma unit_same_simps [simp]:
  "unit_same u u" "unit_same u (ok_unit ts n u)" "unit_same u (err_unit ts s e u)" "unit_same u (row_unit ts u)"
  "unit_same u (or_uflag fl u)" "unit_same u (u\<lparr>mu_bytes := b\<rparr>)" "unit_same u (u\<lparr>mu_copy_kind := Some LK_Q_COPY_IN\<rparr>)"
  "unit_same u (u\<lparr>mu_ts_complete := ts, mu_ncomplete := n32\<rparr>)"
  by (simp_all add: unit_same_def ok_unit_def err_unit_def row_unit_def Let_def)

lemma unit_same_trans: "unit_same u v \<Longrightarrow> unit_same v w \<Longrightarrow> unit_same u w"
  by (auto simp: unit_same_def)

lemma same_start: "unit_same u v \<Longrightarrow> mu_ts_start v = mu_ts_start u"
  by (simp add: unit_same_def)

lemma same_good:
  assumes "unit_same (mc_u pc) v"
  shows "my_good T pc \<Longrightarrow> my_good T (pc\<lparr>mc_u := v\<rparr>)" "my_blocks (pc\<lparr>mc_u := v\<rparr>) = my_blocks pc"
proof -
  have r: "my_ref_ok q v = my_ref_ok q (mc_u pc)" for q
    using assms by (cases q; cases "mu_prep_idx (mc_u pc)") (simp_all add: my_ref_ok_def unit_same_def)
  have u: "my_unit_ok (mc_u pc) \<Longrightarrow> my_unit_ok v" using assms by (auto simp: my_unit_ok_def unit_same_def)
  show "my_good T (pc\<lparr>mc_u := v\<rparr>)" if "my_good T pc"
    using that u by (intro good_unit [OF that]) (simp_all add: r my_good_defs same_start [OF assms])
  show "my_blocks (pc\<lparr>mc_u := v\<rparr>) = my_blocks pc" using assms by (simp add: my_blocks_def unit_same_def)
qed

lemma open_good:
  assumes g: "my_good T pc" and "mc_phase pc = MY_PH_READY" and "mc_reply pc \<in> {MY_R_HEAD, MY_R_COLS, MY_R_ROWS}" and "ts \<in> T"
    and "k \<in> {LK_Q_SIMPLE, LK_Q_EXTENDED}"
  shows "my_good T (unit_open k ts pc)" "my_blocks (unit_open k ts pc) = my_blocks pc"
  using assms by (simp_all add: my_good_defs unit_open_def my_unit_ok_def my_ref_ok_def my_unit_zero_def my_blocks_def)

lemma simple_step:
  assumes g: "my_good T pc" and ph: "mc_phase pc = MY_PH_READY" and o: "\<not> mc_unit_open pc" and ts: "m_ts_ns m \<in> T"
    and s: "my_query_simple p pc m = (p', pc')"
  shows "my_step T p pc p' pc'"
proof -
  let ?pc = "unit_open LK_Q_SIMPLE (m_ts_ns m) (pc\<lparr>mc_reply := MY_R_HEAD\<rparr>)"
  let ?off = "case query_text_off ?pc m of Some off \<Rightarrow> off | None \<Rightarrow> m_body_cap m"
  let ?n = "min (m_body_cap m - ?off) LK_MSG_BODY_MAX"
  have e: "(unit_open LK_Q_SIMPLE (m_ts_ns m) pc)\<lparr>mc_reply := MY_R_HEAD\<rparr> = ?pc" by (simp add: unit_open_def)
  have g1: "my_good T ?pc" "my_blocks ?pc = my_blocks pc"
    using open_good [of T "pc\<lparr>mc_reply := MY_R_HEAD\<rparr>"] good_reply [OF g] o ph ts by simp_all
  obtain ok u hp where gr: "my_own_grow (mc_u ?pc) ?n (p_heap p) = (ok, u, hp)" by (cases rule: prod_cases3)
  note gp = my_own_grow_props [OF gr]
  have pc0: "mu_own_cap (mc_u ?pc) = mu_own_cap (mc_u pc)" "mu_own_text (mc_u ?pc) = []" "mu_copy_kind (mc_u ?pc) = None"
    "mu_kind (mc_u ?pc) = LK_Q_SIMPLE" "mu_prep_idx (mc_u ?pc) = None" "mu_ts_start (mc_u ?pc) = m_ts_ns m"
    by (simp_all add: unit_open_def my_unit_zero_def)
  have cap: "mu_own_cap u \<le> LK_MSG_BODY_MAX" using gp(3) pc0(1) good_unit_ok [OF g] by (simp add: my_unit_ok_def) linarith
  have st: "my_step T p pc (p\<lparr>p_heap := hp\<rparr>) (?pc\<lparr>mc_u := v\<rparr>)"
    if v: "mu_own_cap v = mu_own_cap u" "length (mu_own_text v) \<le> mu_own_cap u" "unit_same (u\<lparr>mu_own_text := []\<rparr>) (v\<lparr>mu_own_text := []\<rparr>)" for v
  proof -
    have "my_unit_ok v" "mu_prep_idx v = None" "mu_ts_start v = m_ts_ns m"
      using v gp(6-9) cap pc0 by (simp_all add: my_unit_ok_def unit_same_def)
    then have "my_good T (?pc\<lparr>mc_u := v\<rparr>)" using ts by (intro good_unit [OF g1(1)]) (simp_all add: my_ref_ok_def)
    moreover have "my_balanced (p_heap p) pc hp (?pc\<lparr>mc_u := v\<rparr>)"
      using gp(1) g1(2) v(1) pc0(1) blocks_unit [where pc = ?pc and u = v] by (simp add: my_balanced_def)
    ultimately show ?thesis by (simp add: my_step_def)
  qed
  have short: "length (take ?n (drop ?off (m_body m))) \<le> mu_own_cap u" if ok using gp(4) that by simp
  show ?thesis
  proof (cases "m_body_cap m \<le> ?off")
    case True
    then have "p' = p" "pc' = upd_u (or_uflag (if m_trunc m then LK_QO_NO_TEXT OR LK_QO_TEXT_TRUNC else LK_QO_NO_TEXT)) ?pc"
      using s unfolding my_query_simple_def Let_def e by (simp_all only: if_True prod.inject)
    then show ?thesis using g1 same_good [of ?pc, OF unit_same_simps(5)] by (simp add: my_step_quiet)
  next
    case False
    let ?t = "u\<lparr>mu_own_text := take ?n (drop ?off (m_body m))\<rparr>"
    have "p' = p\<lparr>p_heap := hp\<rparr>" "pc' = ?pc\<lparr>mc_u := (if \<not> ok then u else if m_trunc m then or_uflag LK_QO_TEXT_TRUNC ?t else ?t)\<rparr>"
      using s False unfolding my_query_simple_def Let_def e by (simp_all add: gr split: if_splits)
    moreover have "my_step T p pc (p\<lparr>p_heap := hp\<rparr>) (?pc\<lparr>mc_u := or_uflag fl ?t\<rparr>)" if ok for fl
      using short that by (intro st) (simp_all add: unit_same_def)
    ultimately show ?thesis using st [of u] st [of ?t] gp(5) short by (simp add: unit_same_def)
  qed
qed

text \<open>Execute and fetch name a cached statement. The reply state is set after the unit is opened, but the order
  does not matter.\<close>

lemma lookup_reply: "my_prep_lookup (pc\<lparr>mc_reply := r\<rparr>) k = (case my_prep_lookup pc k of (h, pc') \<Rightarrow> (h, pc'\<lparr>mc_reply := r\<rparr>))"
  by (simp add: my_prep_lookup_def Let_def split: option.split)

lemma open_stmt_reply: "(open_stmt_unit pc m)\<lparr>mc_reply := r\<rparr> = open_stmt_unit (pc\<lparr>mc_reply := r\<rparr>) m"
proof -
  have "unit_open k ts (pc\<lparr>mc_reply := r\<rparr>) = (unit_open k ts pc)\<lparr>mc_reply := r\<rparr>" for k ts by (simp add: unit_open_def)
  then show ?thesis by (simp add: open_stmt_unit_def Let_def lookup_reply split: prod.split option.split)
qed

lemma stmt_unit_step:
  assumes g: "my_good T pc" and ph: "mc_phase pc = MY_PH_READY" and o: "\<not> mc_unit_open pc" and ts: "m_ts_ns m \<in> T"
    and r: "r \<in> {MY_R_HEAD, MY_R_ROWS}"
  shows "my_step T p pc p ((open_stmt_unit pc m)\<lparr>mc_reply := r\<rparr>)"
proof -
  let ?pc = "unit_open LK_Q_EXTENDED (m_ts_ns m) (pc\<lparr>mc_reply := r\<rparr>)"
  have g1: "my_good T ?pc" "my_blocks ?pc = my_blocks pc"
    using open_good [of T "pc\<lparr>mc_reply := r\<rparr>"] good_reply [OF g] o ph ts r by auto
  have fl: "my_step T p pc p (upd_u (or_uflag f) q)" if "my_good T q" "my_blocks q = my_blocks pc" for q f
    using that same_good [of q, OF unit_same_simps(5)] by (simp add: my_step_quiet)
  have hit: "my_step T p pc p (q\<lparr>mc_u := (if t then or_uflag f (u\<lparr>mu_prep_idx := Some i, mu_prep_gen := gen\<rparr>)
      else u\<lparr>mu_prep_idx := Some i, mu_prep_gen := gen\<rparr>)\<rparr>)"
    if l: "my_prep_lookup ?pc k = (Some (i, gen, t), q)" and u: "u = mc_u q" for k i gen t q u f
  proof -
    note ls = lookup_step [OF g1(1) l]
    let ?q = "q\<lparr>mc_u := u\<lparr>mu_prep_idx := Some i, mu_prep_gen := gen\<rparr>\<rparr>"
    have v: "my_unit_ok (u\<lparr>mu_prep_idx := Some i, mu_prep_gen := gen\<rparr>)" using good_unit_ok [OF ls(1)] by (simp add: my_unit_ok_def u)
    have "mu_ts_start u = m_ts_ns m" unfolding u by (subst ls(3)) (simp add: unit_open_def)
    then have gq: "my_good T ?q" using ls(4) [OF refl, of u] ts by (intro good_unit [OF ls(1) v]) simp
    have bq: "my_blocks ?q = my_blocks pc" using ls(2) g1(2) u blocks_unit [where pc = q and u = "u\<lparr>mu_prep_idx := Some i, mu_prep_gen := gen\<rparr>"] by simp
    show ?thesis using fl [OF gq bq, of f] my_step_quiet [OF gq silent_refl refl bq] by simp
  qed
  show ?thesis unfolding open_stmt_reply
    using fl [OF g1] lookup_step [OF g1(1)] g1(2) fl hit
    by (auto simp: open_stmt_unit_def Let_def split: prod.split option.split)
qed

lemma execute_step:
  assumes "my_good T pc" and "mc_phase pc = MY_PH_READY" and "\<not> mc_unit_open pc" and "m_ts_ns m \<in> T"
  shows "my_step T p pc p (my_query_execute pc m)" "my_step T p pc p (my_query_fetch pc m)"
  unfolding my_query_execute_def my_query_fetch_def by (intro stmt_unit_step [OF assms]; simp)+

lemma infile_step: "my_good T pc \<Longrightarrow> my_step T p pc p (my_query_infile_data pc m)"
  using same_good [of pc, OF unit_same_simps(6)] by (auto simp: my_query_infile_data_def intro: my_step_quiet my_step_refl)

section \<open>Terminators\<close>

lemma txn_step:
  assumes g: "my_good T pc" and ts: "ts \<in> T" and t: "txn_track p c pc ok ts = (p', pc')"
  shows "my_step T p pc p' pc'" "pc' = pc\<lparr>mc_txn_start := mc_txn_start pc', mc_txn_status := mc_txn_status pc'\<rparr>"
proof -
  have st: "my_good T (pc\<lparr>mc_txn_status := ch CHR ''I''\<rparr>)" "my_good T (pc\<lparr>mc_txn_start := ts, mc_txn_status := x\<rparr>)"
    "mc_txn_status pc = ch CHR ''T'' \<Longrightarrow> my_good T (pc\<lparr>mc_txn_status := ch CHR ''T''\<rparr>)" for x
    using g ts by (simp_all add: my_good_defs)
  have c: "tells T p (call_txn p c (mc_txn_start pc) ts s)" if "mc_txn_status pc = ch CHR ''T''" for s
    unfolding tells_def
    by (intro exI [of _ "if p_has_txn p then [OnTxn (cn_cookie c) (mc_txn_start pc) ts s] else []"])
      (use g that in \<open>auto simp: reports_def same_out_def calls_simps failed_def my_good_defs\<close>)
  show "my_step T p pc p' pc'"
    using t st c g by (auto simp: txn_track_def Let_def my_step_def my_balanced_def split: if_splits)
  show "pc' = pc\<lparr>mc_txn_start := mc_txn_start pc', mc_txn_status := mc_txn_status pc'\<rparr>"
    using t by (auto simp: txn_track_def Let_def split: if_splits)
qed

lemma my_emit_report: "my_emit_unit p c pc = (report_obs c (mc_session pc) (my_obs pc) p, pc\<lparr>mc_unit_open := False\<rparr>)"
  by (simp add: my_emit_unit_def report_obs_def my_obs_def Let_def)

lemma emit_step:
  assumes "my_good T (pc\<lparr>mc_unit_open := False\<rparr>)" and "mu_ts_start (mc_u pc) \<in> T" and "my_emit_unit p c pc = (p', pc')"
  shows "my_step T p pc p' pc'"
proof -
  have "o_ts_start (my_obs pc) \<in> T" using assms(2) by (simp add: my_obs_def Let_def)
  then have "tells T p (report_obs c (mc_session pc) (my_obs pc) p)"
    using report_obs_reports [of p c "mc_session pc" "my_obs pc"] by (auto simp: tells_def)
  then show ?thesis using assms(1,3) by (auto simp: my_emit_report my_step_def my_balanced_def)
qed

lemma emit_none:
  assumes g: "my_good T pc" and o: "mc_unit_open pc" and e: "my_emit_unit p c (pc\<lparr>mc_reply := MY_R_NONE\<rparr>) = (p', pc')"
  shows "my_step T p pc p' pc'"
proof -
  let ?pc = "pc\<lparr>mc_reply := MY_R_NONE\<rparr>"
  have "my_good T (?pc\<lparr>mc_unit_open := False\<rparr>)" using g by (simp add: my_good_defs)
  moreover have "mu_ts_start (mc_u ?pc) \<in> T" using g o by (simp add: my_good_defs)
  ultimately have "my_step T p ?pc p' pc'" using e by (intro emit_step) simp_all
  then show ?thesis by (simp add: my_step_def my_balanced_def)
qed

lemma quiet_step: "my_step T p pc p1 pc1 \<Longrightarrow> my_good T pc2 \<Longrightarrow> my_blocks pc2 = my_blocks pc1 \<Longrightarrow> my_step T p pc p1 pc2"
  by (simp add: my_step_def my_balanced_def)

lemma same_step: "my_step T p pc p1 pc1 \<Longrightarrow> unit_same (mc_u pc1) v \<Longrightarrow> my_step T p pc p1 (pc1\<lparr>mc_u := v\<rparr>)"
  using same_good my_step_good by (blast intro: quiet_step)

lemma reply_step:
  assumes s: "my_step T p pc p1 pc1" and r: "mc_unit_open pc1 \<longrightarrow> r \<in> {MY_R_HEAD, MY_R_COLS, MY_R_ROWS}"
  shows "my_step T p pc p1 (pc1\<lparr>mc_reply := r\<rparr>)"
  by (rule quiet_step [OF s good_reply [OF my_step_good [OF s] r]]) simp

lemma terminator_ok_step:
  assumes g: "my_good T pc" and ts: "m_ts_ns m \<in> T" and t: "terminator_ok p c pc m eof = (p', pc')"
  shows "my_step T p pc p' pc'"
proof -
  obtain ok pc1 where o: "my_query_parse_ok pc m eof = (ok, pc1)" by fastforce
  note po = parse_ok_step [OF g o]
  let ?pc2 = "my_session_ok_effects pc1"
  have s2: "my_step T p pc p ?pc2" using ok_effects_good [OF po(1)] po(2) by (intro my_step_quiet) simp_all
  obtain p3 pc3 where x: "txn_track p c ?pc2 ok (m_ts_ns m) = (p3, pc3)" by fastforce
  have s3: "my_step T p pc p3 pc3" using my_step_trans [OF s2 txn_step(1) [OF my_step_good [OF s2] ts x]] .
  let ?pc4 = "leave_infile pc3" and ?u = "ok_unit (m_ts_ns m) (ok_affected ok)"
  let ?more = "ok_have_status ok \<and> has_flag (ok_status ok) MY_ST_MORE_RESULTS"
  let ?sus = "ok_have_status ok \<and> has_flag (ok_status ok) MY_ST_CURSOR_EXISTS \<and> \<not> has_flag (ok_status ok) MY_ST_LAST_ROW_SENT"
  let ?pc6 = "if ?sus then upd_u (or_uflag LK_QO_SUSPENDED) (upd_u ?u ?pc4) else upd_u ?u ?pc4"
  have s4: "my_step T p pc p3 ?pc4" by (rule quiet_step [OF s3]) (simp_all add: good_leave [OF my_step_good [OF s3]])
  have s5: "my_step T p pc p3 (upd_u ?u ?pc4)" by (rule same_step [OF s4]) simp
  have s6: "my_step T p pc p3 ?pc6" using s5 same_step [OF s5 unit_same_simps(5)] by auto
  have e: "terminator_ok p c pc m eof =
    (if \<not> mc_unit_open ?pc4 then (p3, ?pc4\<lparr>mc_reply := (if ?more then MY_R_HEAD else MY_R_NONE)\<rparr>)
     else if ?more then (p3, (upd_u ?u ?pc4)\<lparr>mc_reply := MY_R_HEAD\<rparr>)
     else my_emit_unit p3 c (?pc6\<lparr>mc_reply := MY_R_NONE\<rparr>))"
    unfolding terminator_ok_def o x prod.case Let_def by (simp add: x)
  show ?thesis
  proof (cases "mc_unit_open ?pc4")
    case True
    show ?thesis
    proof (cases ?more)
      case m: True
      then show ?thesis using t True reply_step [OF s5, of MY_R_HEAD] unfolding e by auto
    next
      case False
      then have "my_emit_unit p3 c (?pc6\<lparr>mc_reply := MY_R_NONE\<rparr>) = (p', pc')" using t True unfolding e by auto
      from my_step_trans [OF s6 emit_none [OF my_step_good [OF s6] _ this]] show ?thesis using True by simp
    qed
  next
    case False
    then show ?thesis using t reply_step [OF s4] unfolding e by auto
  qed
qed

lemma parse_err_silent: "parse_err p pc m = (r, p') \<Longrightarrow> silent p p' \<and> p_heap p' = p_heap p"
  by (auto simp: parse_err_def Let_def split: if_splits prod.splits)

lemma terminator_err_step:
  assumes g: "my_good T pc" and t: "terminator_err p c pc m = (p', pc')"
  shows "my_step T p pc p' pc'"
proof -
  obtain r p1 where r: "parse_err p pc m = (r, p1)" by fastforce
  have s1: "my_step T p pc p1 pc" using parse_err_silent [OF r] g by (intro my_step_quiet) simp_all
  show ?thesis
  proof (cases r)
    case None
    then show ?thesis using t s1 r by (auto simp: terminator_err_def)
  next
    case (Some x)
    obtain sq ec where x: "x = (sq, ec)" by fastforce
    let ?pc1 = "(leave_infile pc)\<lparr>mc_have_pending_db := False\<rparr>" and ?u = "err_unit (m_ts_ns m) sq ec"
    have s2: "my_step T p pc p1 ?pc1" by (rule quiet_step [OF s1]) (simp_all add: good_leave g)
    have s3: "my_step T p pc p1 (upd_u ?u ?pc1)" by (rule same_step [OF s2]) simp
    have e: "terminator_err p c pc m = (if \<not> mc_unit_open pc then (p1, ?pc1\<lparr>mc_reply := MY_R_NONE\<rparr>)
        else my_emit_unit p1 c ((upd_u ?u ?pc1)\<lparr>mc_reply := MY_R_NONE\<rparr>))"
    proof -
      have cm: "q\<lparr>mc_reply := MY_R_NONE, mc_u := v\<rparr> = q\<lparr>mc_u := v, mc_reply := MY_R_NONE\<rparr>"
        "q\<lparr>mc_reply := MY_R_NONE, mc_have_pending_db := False\<rparr> = q\<lparr>mc_have_pending_db := False, mc_reply := MY_R_NONE\<rparr>" for q :: my_conn and v by simp_all
      show ?thesis using r Some x by (simp add: terminator_err_def Let_def cm)
    qed
    show ?thesis
    proof (cases "mc_unit_open pc")
      case True
      then have "my_emit_unit p1 c ((upd_u ?u ?pc1)\<lparr>mc_reply := MY_R_NONE\<rparr>) = (p', pc')" using t e by simp
      from my_step_trans [OF s3 emit_none [OF my_step_good [OF s3] _ this]] show ?thesis using True by simp
    next
      case False
      then show ?thesis using t e reply_step [OF s2, of MY_R_NONE] by simp
    qed
  qed
qed

end
