(* ===== verification/My_Handler_Steps.thy ===== *)
theory My_Handler_Steps
  imports My_Query_Steps
begin

text \<open>The reply states, the dispatch and the three callbacks of the MySQL handler keep the contract \<open>my_step\<close>.\<close>

section \<open>Replies\<close>

lemma drop_step:
  assumes "my_good T pc"
  shows "my_step T p pc (add_dropped n p) ((pc\<lparr>mc_unit_open := False\<rparr>)\<lparr>mc_reply := r\<rparr>)"
    "my_step T p pc (inc_parse_errors p) ((pc\<lparr>mc_unit_open := False\<rparr>)\<lparr>mc_reply := r\<rparr>)"
  using good_reply [OF good_closed [OF assms]] by (auto intro!: my_step_quiet)

lemma corrupt_step: "my_good T pc \<Longrightarrow> my_corrupt p pc = (p', pc') \<Longrightarrow> my_step T p pc p' pc'"
  using drop_step(2) by (auto simp: my_corrupt_def)

lemma head_count_frame: "head_count pc m = (cnt, pc') \<Longrightarrow> \<exists>x. pc' = pc\<lparr>mc_cols_left := x\<rparr>"
proof -
  assume h: "head_count pc m = (cnt, pc')"
  have "\<exists>x. pc = pc\<lparr>mc_cols_left := x\<rparr>" by (rule exI [of _ "mc_cols_left pc"]) simp
  then show ?thesis using h by (auto simp: head_count_def Let_def split: prod.splits if_splits)
qed

lemma resultset_step:
  assumes g: "my_good T pc" and r: "reply_resultset p pc m = (p', pc')"
  shows "my_step T p pc p' pc'"
proof -
  obtain cnt pc1 where h: "head_count pc m = (cnt, pc1)" by fastforce
  obtain x where pc1: "pc1 = pc\<lparr>mc_cols_left := x\<rparr>" using head_count_frame [OF h] ..
  have g1: "my_good T pc1" "my_blocks pc1 = my_blocks pc" using g pc1 by simp_all
  have s1: "my_step T p pc p pc1" using g1 by (intro my_step_quiet) simp_all
  have c: "my_step T p pc p' pc'" if "my_corrupt p pc1 = (p', pc')" using my_step_trans [OF s1 corrupt_step [OF g1(1) that]] .
  have d: "my_step T p pc (add_dropped n p) (pc1\<lparr>mc_unit_open := False, mc_reply := MY_R_NONE\<rparr>)" for n
    using my_step_trans [OF s1 drop_step(1) [OF g1(1)]] .
  have dd: "(case my_query_drop_unit pc1 of (n, pc) \<Rightarrow> (add_dropped n p, pc\<lparr>mc_reply := MY_R_NONE\<rparr>))
      = (add_dropped (fst (my_query_drop_unit pc1)) p, pc1\<lparr>mc_unit_open := False, mc_reply := MY_R_NONE\<rparr>)"
    by (auto simp: my_query_drop_unit_def)
  show ?thesis using r c d reply_step [OF s1] by (auto simp: reply_resultset_def h Let_def dd split: if_splits)
qed

lemma head_step:
  assumes g: "my_good T pc" and ts: "m_ts_ns m \<in> T" and r: "reply_head p c pc m = (p', pc')"
  shows "my_step T p pc p' pc'"
proof -
  have i: "my_step T p pc p ((if mc_unit_open pc then upd_u (\<lambda>u. u\<lparr>mu_copy_kind := Some LK_Q_COPY_IN\<rparr>) pc else pc)\<lparr>mc_phase := MY_PH_INFILE\<rparr>)"
    using g same_good [of pc, OF unit_same_simps(7)] by (auto intro!: my_step_quiet good_phase)
  show ?thesis
    using r i terminator_ok_step [OF g ts] terminator_err_step [OF g] resultset_step [OF g]
    by (auto simp: reply_head_def Let_def simp del: unit_same_simps split: if_splits)
qed

lemma cols_eof_step:
  assumes g: "my_good T pc" and ts: "m_ts_ns m \<in> T" and r: "cols_eof p c pc m = (p', pc')"
  shows "my_step T p pc p' pc'"
proof -
  obtain ok pc1 where o: "my_query_parse_ok pc m True = (ok, pc1)" by fastforce
  note po = parse_ok_step [OF g o]
  have s1: "my_step T p pc p pc1" using po by (intro my_step_quiet) simp_all
  obtain p2 pc2 where x: "txn_track p c pc1 ok (m_ts_ns m) = (p2, pc2)" by fastforce
  have s2: "my_step T p pc p2 pc2" using my_step_trans [OF s1 txn_step(1) [OF po(1) ts x]] .
  let ?u = "(mc_u pc2)\<lparr>mu_ts_complete := m_ts_ns m, mu_ncomplete := mu_ncomplete (mc_u pc2) + 1\<rparr>"
  let ?v = "if \<not> has_flag (ok_status ok) MY_ST_LAST_ROW_SENT then or_uflag LK_QO_SUSPENDED ?u else ?u"
  have "unit_same (mc_u pc2) ?v" using unit_same_trans [OF unit_same_simps(8) unit_same_simps(5)] by auto
  then have s3: "my_step T p pc p2 (pc2\<lparr>mc_u := ?v\<rparr>)" by (rule same_step [OF s2])
  have s4: "my_step T p pc p (pc1\<lparr>mc_cols_left := 0, mc_reply := MY_R_ROWS\<rparr>)"
    using po(1,2) by (intro my_step_quiet good_reply) simp_all
  show ?thesis
  proof (cases "ok_have_status ok \<and> has_flag (ok_status ok) MY_ST_CURSOR_EXISTS \<and> mc_unit_open pc2")
    case True
    then have "my_emit_unit p2 c ((pc2\<lparr>mc_u := ?v\<rparr>)\<lparr>mc_reply := MY_R_NONE\<rparr>) = (p', pc')"
      using r by (simp add: cols_eof_def o x Let_def)
    from my_step_trans [OF s3 emit_none [OF my_step_good [OF s3] _ this]] show ?thesis using True by simp
  next
    case False
    then show ?thesis using r s4 reply_step [OF s2, of MY_R_NONE] by (auto simp: cols_eof_def o x Let_def split: if_splits)
  qed
qed

lemma cols_step:
  assumes g: "my_good T pc" and ts: "m_ts_ns m \<in> T" and r: "reply_cols p c pc m = (p', pc')"
  shows "my_step T p pc p' pc'"
proof -
  have "my_step T p pc p (pc\<lparr>mc_cols_left := x\<rparr>)" "my_step T p pc p (pc\<lparr>mc_cols_left := x, mc_reply := MY_R_ROWS\<rparr>)"
    "my_step T p pc p (pc\<lparr>mc_reply := MY_R_ROWS\<rparr>)" for x
    using g by (auto intro!: my_step_quiet good_reply)
  then show ?thesis
    using r cols_eof_step [OF g ts] terminator_err_step [OF g] my_step_refl [OF g]
    by (auto simp: reply_cols_def Let_def split: if_splits)
qed

lemma rows_step:
  assumes g: "my_good T pc" and ts: "m_ts_ns m \<in> T" and r: "reply_rows p c pc m = (p', pc')"
  shows "my_step T p pc p' pc'"
  using r terminator_ok_step [OF g ts] terminator_err_step [OF g] same_step [OF my_step_refl [OF g], of "row_unit ts (mc_u pc)" for ts] my_step_refl [OF g]
  by (auto simp: reply_rows_def split: if_splits)

lemma backend_query_step:
  assumes g: "my_good T pc" and ts: "m_ts_ns m \<in> T" and r: "my_query_backend p c pc m = (p', pc')"
  shows "my_step T p pc p' pc'"
proof (cases "mc_reply pc \<in> {MY_R_HEAD, MY_R_COLS, MY_R_ROWS}")
  case True
  have d: "my_step T p pc (add_dropped n p) (pc\<lparr>mc_unit_open := False, mc_reply := MY_R_NONE, mc_pending_prep := False\<rparr>)" for n
    by (rule quiet_step [OF drop_step(1) [OF g]]) (simp_all add: good_reply [OF good_closed [OF g]])
  show ?thesis
  proof (cases "mc_reply pc = MY_R_HEAD \<and> m_body m = []")
    case h: True
    then show ?thesis using r d by (auto simp: my_query_backend_def drop_unit_cases Let_def split: prod.splits dest!: drop_unit_cases)
  next
    case False
    then show ?thesis using True r head_step [OF g ts] cols_step [OF g ts] rows_step [OF g ts] by (auto simp: my_query_backend_def)
  qed
next
  case False
  then have u: "\<not> mc_unit_open pc" using g by (auto simp: my_good_defs)
  have q: "my_step T p pc p (pc\<lparr>mc_reply := y\<rparr>)" "my_step T p pc p (pc\<lparr>mc_meta_left := x, mc_reply := y\<rparr>)" "my_step T p pc p (pc\<lparr>mc_meta_left := x\<rparr>)"
    "my_step T p pc (add_dropped 0 p) (pc\<lparr>mc_reply := y, mc_pending_prep := b\<rparr>)" for x y b
    using g u by (auto intro!: my_step_quiet good_reply)
  have pm: "my_step T p pc p (reply_prep_meta pc m)" using q my_step_refl [OF g] by (auto simp: reply_prep_meta_def Let_def)
  show ?thesis
  proof (cases "mc_reply pc \<noteq> MY_R_NONE \<and> m_body m = [] \<and> mc_reply pc \<noteq> MY_R_PREP_META")
    case True
    then show ?thesis using False r q(4) u by (auto simp: my_query_backend_def my_query_drop_unit_def)
  next
    case n: False
    then show ?thesis using False r q(1) my_step_refl [OF g] pm prep_ok_step [OF g u]
      by (cases "mc_reply pc") (auto simp: my_query_backend_def split: if_splits)
  qed
qed

section \<open>Commands\<close>

lemma if_holds: "P x \<Longrightarrow> P y \<Longrightarrow> P (if b then x else y)"
  by simp

lemma anchor_step:
  assumes "my_good T pc" and "my_anchor p pc = (p', pc')"
  shows "my_step T p pc p' pc'" "\<not> mc_unit_open pc'" "mc_phase pc' = mc_phase pc"
proof -
  have "my_step T p pc (add_dropped n p) (pc\<lparr>mc_unit_open := False, mc_reply := MY_R_NONE, mc_have_pending_db := False, mc_pending_prep := False\<rparr>)" for n
    by (rule quiet_step [OF drop_step(1) [OF assms(1)]]) (simp_all add: good_reply [OF good_closed [OF assms(1)]])
  moreover have "pc' = pc\<lparr>mc_unit_open := False, mc_reply := MY_R_NONE, mc_have_pending_db := False, mc_pending_prep := False\<rparr>"
    "\<exists>n. p' = add_dropped n p" using assms(2) by (auto simp: my_anchor_def Let_def split: prod.splits dest!: drop_unit_cases)
  ultimately show "my_step T p pc p' pc'" "\<not> mc_unit_open pc'" "mc_phase pc' = mc_phase pc" by auto
qed

lemma good_labels:
  assumes "my_good T pc"
  shows "my_good T (pc\<lparr>mc_pending_user := my_copy_field 64 x\<rparr>)" "my_good T (pc\<lparr>mc_pending_db := my_copy_field 64 x\<rparr>)"
  using assms copy_field_length [of 64 x] by (simp_all add: my_good_defs)

lemma change_user_step:
  assumes g: "my_good T pc" and u: "\<not> mc_unit_open pc" and c: "my_session_change_user p pc m = (p', pc')"
  shows "my_step T p pc p' pc'"
proof -
  obtain pc1 hp where d: "my_prep_drop_all pc (p_heap p) = (pc1, hp)" by fastforce
  note ds = drop_all_step [OF g d]
  let ?pc2 = "pc1\<lparr>mc_phase := MY_PH_HANDSHAKE, mc_sess := MY_S_AUTH\<rparr>"
  have "my_good T ?pc2" using ds u by (simp add: good_phase [OF my_step_good [OF ds(1)]])
  then have s2: "my_step T p pc (p\<lparr>p_heap := hp\<rparr>) ?pc2" by (rule quiet_step [OF ds(1)]) simp
  note l = good_labels [OF my_step_good [OF s2]]
  have q: "my_step T p pc (p\<lparr>p_heap := hp\<rparr>) (?pc2\<lparr>mc_pending_user := my_copy_field 64 x, mc_have_pending_user := b\<rparr>)"
    "my_step T p pc (p\<lparr>p_heap := hp\<rparr>) (?pc2\<lparr>mc_pending_user := my_copy_field 64 x, mc_have_pending_user := b,
        mc_pending_db := my_copy_field 64 y, mc_have_pending_db := b'\<rparr>)" for x y b b'
    using l(1) good_labels(2) [of T "?pc2\<lparr>mc_pending_user := my_copy_field 64 x, mc_have_pending_user := b\<rparr>" y]
    by (auto intro!: quiet_step [OF s2])
  show ?thesis using c s2 q by (auto simp: my_session_change_user_def d Let_def split: prod.splits if_splits)
qed

lemma command_step:
  assumes g: "my_good T pc" and ph: "mc_phase pc = MY_PH_READY" and u: "\<not> mc_unit_open pc" and ts: "m_ts_ns m \<in> T"
    and c: "my_command p c pc cmd m = (p', c' :: 'a my_lk_conn, pc')"
  shows "my_step T p pc p' pc'"
proof -
  have r: "my_step T p pc p (pc\<lparr>mc_reply := y\<rparr>)" for y using g u by (auto intro!: my_step_quiet good_reply)
  have i: "my_step T p pc p ((my_session_init_db pc m)\<lparr>mc_reply := MY_R_HEAD\<rparr>)"
    unfolding my_session_init_db_def using good_labels(2) [OF g] u by (auto intro!: my_step_quiet good_reply simp: my_blocks_def)
  have b: "my_step T p pc (upd_pst (\<lambda>s. s\<lparr>ps_replication_conns := ps_replication_conns s + 1\<rparr>) p) (pc\<lparr>mc_unit_open := False, mc_phase := MY_PH_IGNORE\<rparr>)"
    using g by (auto intro!: my_step_quiet good_phase good_closed silent_upd)
  have n: "my_step T p pc (my_inc_unknown p) pc" using g by (auto intro!: my_step_quiet)
  obtain p1 pc1 where q: "my_query_simple p pc m = (p1, pc1)" by fastforce
  obtain p2 pc2 where pp: "my_prep_prepare p pc m = (p2, pc2)" by fastforce
  obtain p3 pc3 where cu: "my_session_change_user p pc m = (p3, pc3)" by fastforce
  obtain pc4 hp where da: "my_prep_drop_all pc (p_heap p) = (pc4, hp)" by fastforce
  have d: "my_step T p pc (p\<lparr>p_heap := hp\<rparr>) (pc4\<lparr>mc_reply := MY_R_HEAD\<rparr>)"
    using reply_step [OF drop_all_step(1) [OF g da]] drop_all_step(2) [OF g da] u by simp
  define Q where "Q r \<longleftrightarrow> (case r of (p', c' :: 'a my_lk_conn, pc') \<Rightarrow> my_step T p pc p' pc')" for r
  have st: "Q (x, c', y)" if "my_step T p pc x y" for x c' y using that by (simp add: Q_def)
  note steps = r i b d n simple_step [OF g ph u ts q] prepare_step [OF g u pp] execute_step [OF g ph u ts] change_user_step [OF g u cu]
  have "Q (my_command p c pc cmd m)"
    unfolding my_command_def q pp cu da prod.case Let_def drop_unit_snd by (intro if_holds [where P = Q] st steps)
  then show ?thesis using c by (simp add: Q_def)
qed

lemma dispatch_step:
  assumes g: "my_good T pc" and ph: "mc_phase pc = MY_PH_READY" and ts: "m_ts_ns m \<in> T" and c: "my_dispatch p c pc m = (p', c', pc')"
  shows "my_step T p pc p' pc'"
proof -
  obtain p1 pc1 where a: "my_anchor p pc = (p1, pc1)" by fastforce
  note as = anchor_step [OF g a]
  note cm = command_step [OF my_step_good [OF as(1)] trans [OF as(3) ph] as(2) ts]
  show ?thesis using c prep_close_step [OF g] my_step_refl [OF g] my_step_trans [OF as(1) cm]
    by (auto simp: my_dispatch_def Let_def a split: prod.splits if_splits)
qed

lemma my_frontend_step:
  assumes g: "my_good T pc" and ts: "m_ts_ns m \<in> T" and c: "my_frontend_msg p c pc m = (p', c', pc')"
  shows "my_step T p pc p' pc'"
proof -
  obtain p1 pc1 where pr: "(if mc_phase pc = MY_PH_HANDSHAKE then my_session_promote p c pc else (p, pc)) = (p1, pc1)" by fastforce
  have u: "mc_phase pc = MY_PH_HANDSHAKE \<Longrightarrow> \<not> mc_unit_open pc" using g by (auto simp: my_good_defs)
  have s1: "my_step T p pc p1 pc1 \<and> mc_phase pc1 \<noteq> MY_PH_HANDSHAKE \<and> (mc_phase pc \<noteq> MY_PH_IGNORE \<longrightarrow> mc_phase pc1 \<noteq> MY_PH_IGNORE)"
  proof (cases "mc_phase pc = MY_PH_HANDSHAKE")
    case True
    then have "my_session_promote p c pc = (p1, pc1)" using pr by simp
    from promote_step [OF g u [OF True] this] show ?thesis by simp
  next
    case False
    then show ?thesis using pr my_step_refl [OF g] by auto
  qed
  let ?pc2 = "if mc_phase pc1 = MY_PH_INFILE then pc1\<lparr>mc_phase := MY_PH_READY\<rparr> else pc1"
  have s2: "my_step T p pc p1 ?pc2" using s1 good_phase [OF my_step_good [OF conjunct1 [OF s1]], of MY_PH_READY] by (auto intro: quiet_step)
  have ph: "mc_phase ?pc2 = MY_PH_READY" if "mc_phase pc \<noteq> MY_PH_IGNORE" using s1 that by (cases "mc_phase pc1") auto
  have n: "my_step T p pc (my_inc_unknown p1) ?pc2" using my_step_trans [OF s2 my_step_quiet [OF my_step_good [OF s2]]] by simp
  have f: "my_step T p pc p1 (my_query_infile_data pc1 m)" using my_step_trans [OF conjunct1 [OF s1] infile_step [OF my_step_good [OF conjunct1 [OF s1]]]] .
  have d: "my_step T p pc p' pc'" if "mc_phase pc \<noteq> MY_PH_IGNORE" "my_dispatch p1 c ?pc2 m = (p', c', pc')"
    using my_step_trans [OF s2] dispatch_step [OF my_step_good [OF s2] ph [OF that(1)] ts that(2)] by blast
  have e: "my_frontend_msg p c pc m = (if mc_phase pc = MY_PH_IGNORE then (p, c, pc)
      else if mc_phase pc = MY_PH_HANDSHAKE \<and> m_type m = 0 then (p, c, my_session_frontend pc m)
      else if mc_phase pc1 = MY_PH_INFILE \<and> m_type m = 0 then (p1, c, my_query_infile_data pc1 m)
      else if m_type m = 0 then (my_inc_unknown p1, c, ?pc2) else my_dispatch p1 c ?pc2 m)"
    unfolding my_frontend_msg_def pr prod.case Let_def by (rule refl)
  show ?thesis using c d f n session_frontend_step [OF g] my_step_refl [OF g] unfolding e by (auto split: if_splits)
qed

lemma my_backend_step:
  assumes g: "my_good T pc" and ts: "m_ts_ns m \<in> T" and c: "my_backend_msg p c pc m = (p', pc')"
  shows "my_step T p pc p' pc'"
proof -
  have u: "mc_phase pc = MY_PH_HANDSHAKE \<Longrightarrow> \<not> mc_unit_open pc" using g by (auto simp: my_good_defs)
  show ?thesis using c my_step_refl [OF g] session_backend_step [OF g u] backend_query_step [OF g ts]
    by (auto simp: my_backend_msg_def split: if_splits)
qed

section \<open>Callbacks\<close>

text \<open>A command may blind the connection; it changes nothing else of it.\<close>

lemma my_frontend_conn: "fst (snd (my_frontend_msg p c pc m)) \<in> {c, or_conn_flag LK_CONN_IGNORE c}"
proof -
  define Q where "Q r \<longleftrightarrow> fst (snd r) \<in> {c, or_conn_flag LK_CONN_IGNORE c}" for r :: "lk_proto \<times> 'a my_lk_conn \<times> my_conn"
  have st: "Q (x, c, y)" "Q (x, or_conn_flag LK_CONN_IGNORE c, y)" for x y by (simp_all add: Q_def)
  have ps: "Q (case z of (x, y) \<Rightarrow> (x, c, y))" "Q (case z' of (y, h) \<Rightarrow> (f h, c, g y))" for z z' f g
    by (simp_all add: Q_def split: prod.split)
  have cmd: "Q (my_command p c pc cmd m)" for p pc cmd
    unfolding my_command_def Let_def by (intro if_holds [where P = Q] st ps)
  have an: "Q (case z of (p, pc) \<Rightarrow> my_command p c pc cmd m)" for z cmd by (simp add: cmd split: prod.split)
  have dis: "Q (my_dispatch p c pc m)" for p pc
    unfolding my_dispatch_def Let_def by (intro if_holds [where P = Q] st ps an)
  have "Q (my_frontend_msg p c pc m)"
    unfolding my_frontend_msg_def Let_def by (auto intro!: if_holds [where P = Q] st dis split: prod.split)
  then show ?thesis by (simp add: Q_def)
qed

end
