(* ===== verification/My_Props.thy ===== *)
theory My_Props
  imports My_Handler_Steps
begin

text \<open>
  The MySQL callbacks keep the handler contract (\<open>my_hd\<close>), and the properties of every history of
  messages, resyncs and closes.
\<close>

section \<open>The callbacks\<close>

abbreviation conn_good :: "u64 set \<Rightarrow> 'fs my_lk_conn \<Rightarrow> bool" where
  "conn_good T c \<equiv> pred_option (my_good T) (cn_proto_state c)"

definition my_state_blocks :: "my_conn option \<Rightarrow> nat" where
  "my_state_blocks s = (case s of None \<Rightarrow> 0 | Some pc \<Rightarrow> my_blocks pc)"

definition my_conn_step :: "u64 set \<Rightarrow> lk_proto \<Rightarrow> 'fs my_lk_conn \<Rightarrow> lk_proto \<Rightarrow> 'fs my_lk_conn \<Rightarrow> bool" where
  "my_conn_step T p c p' c' \<longleftrightarrow> conn_good T c' \<and> tells T p p'
     \<and> hp_live (p_heap p') + my_state_blocks (cn_proto_state c) = hp_live (p_heap p) + my_state_blocks (cn_proto_state c')"

lemma my_fresh_good: "my_good T (upd_u (\<lambda>u. u\<lparr>mu_prep_idx := None\<rparr>) my_conn_zero)"
  "my_blocks (upd_u (\<lambda>u. u\<lparr>mu_prep_idx := None\<rparr>) my_conn_zero) = 1"
  using my_inv_zero by (simp_all add: my_good_def starts_in_def my_conn_zero_def my_blocks_def my_unit_zero_def blk_def my_cache_blocks_def)

lemma my_get_frame:
  assumes "my_conn_get p c = (r, p', c')"
  shows "silent p p'" "keeps_core c c'"
  using assms by (auto simp: my_conn_get_def Let_def silent_def same_out_def keeps_core_def split: option.splits if_splits prod.splits)

lemma my_conn_get_step:
  assumes g: "conn_good T c" and e: "my_conn_get p c = (r, p', c')"
  shows "my_conn_step T p c p' c'" "cn_proto_state c' = r"
proof -
  let ?z = "upd_u (\<lambda>u. u\<lparr>mu_prep_idx := None\<rparr>) my_conn_zero"
  have z: "my_good T (?z\<lparr>mc_phase := MY_PH_READY, mc_sess := MY_S_DONE\<rparr>)" "my_blocks (?z\<lparr>mc_phase := MY_PH_READY, mc_sess := MY_S_DONE\<rparr>) = 1"
    using good_phase [OF my_fresh_good(1), of MY_PH_READY] my_fresh_good(2) by simp_all
  show "my_conn_step T p c p' c'" "cn_proto_state c' = r"
    using e g z my_fresh_good silent_tells [OF my_get_frame(1) [OF e]]
    by (auto simp: my_conn_get_def Let_def hp_alloc_def my_conn_step_def my_state_blocks_def split: option.splits if_splits)
qed

lemma my_count_silent [simp]: "silent p (upd_pst (my_count_msg d m) p)"
  by (rule silent_upd) (simp_all add: my_count_msg_def Let_def)

lemma my_conn_step_trans: "my_conn_step T p c p1 c1 \<Longrightarrow> my_conn_step T p1 c1 p2 c2 \<Longrightarrow> my_conn_step T p c p2 c2"
  unfolding my_conn_step_def using tells_trans by fastforce

lemma my_msg_step:
  assumes g: "conn_good T c" and ts: "m_ts_ns m \<in> T" and o: "my_on_msg p c d m = (p', c')"
  shows "my_conn_step T p c p' c'"
proof -
  obtain r p1 c1 where e: "my_conn_get p c = (r, p1, c1)" by (cases rule: prod_cases3)
  note gs = my_conn_get_step [OF g e]
  let ?p2 = "upd_pst (my_count_msg d m) p1"
  have s2: "my_conn_step T p c ?p2 c1" using gs(1) tells_trans [OF _ silent_tells [OF my_count_silent]] by (simp add: my_conn_step_def)
  show ?thesis
  proof (cases r)
    case None
    then show ?thesis using o s2 by (simp add: my_on_msg_def e)
  next
    case (Some pc)
    then have pc: "my_good T pc" using gs(1,2) by (simp add: my_conn_step_def)
    obtain p3 c3 pc3 where f: "(if d = LK_DIR_RECV then my_frontend_msg ?p2 c1 pc m
        else (let (p, pc) = my_backend_msg ?p2 c1 pc m in (p, c1, pc))) = (p3, c3, pc3)" by (cases rule: prod_cases3)
    have "my_step T ?p2 pc p3 pc3"
      using f my_frontend_step [OF pc ts] my_backend_step [OF pc ts] by (auto split: if_splits prod.splits)
    then have "my_conn_step T ?p2 c1 p3 (c3\<lparr>cn_proto_state := Some (pc3\<lparr>mc_msgs := mc_msgs pc3 + 1\<rparr>)\<rparr>)"
      using gs(2) Some by (simp add: my_step_def my_conn_step_def my_state_blocks_def my_balanced_def)
    moreover have "p' = p3" "c' = c3\<lparr>cn_proto_state := Some (pc3\<lparr>mc_msgs := mc_msgs pc3 + 1\<rparr>)\<rparr>"
      using o f Some by (simp_all add: my_on_msg_def e)
    ultimately show ?thesis using my_conn_step_trans [OF s2] by simp
  qed
qed

text \<open>After a resync nothing of the past is left: the state is good for any set of instants.\<close>

lemma resync_good: "my_good T pc \<Longrightarrow> my_good U (my_resync_state pc)" "my_blocks (my_resync_state pc) = my_blocks pc"
  by (auto simp: my_good_defs my_resync_state_def)

lemma keeps_core_state:
  assumes "keeps_core c c1"
  shows "keeps_core c (c1\<lparr>cn_proto_state := x\<rparr>)" "keeps_core c (c1\<lparr>cn_flags := fl, cn_proto_state := x\<rparr>)"
proof -
  obtain f s where c1: "c1 = c\<lparr>cn_flags := f, cn_proto_state := s\<rparr>" using assms unfolding keeps_core_def by blast
  show "keeps_core c (c1\<lparr>cn_proto_state := x\<rparr>)" "keeps_core c (c1\<lparr>cn_flags := fl, cn_proto_state := x\<rparr>)"
    by (simp_all add: keeps_core_def c1)
qed

lemma my_resync_frame:
  assumes o: "my_on_resync p c d = (p', c')"
  shows "silent p p'" "keeps_core c c'"
proof -
  obtain r p1 c1 where e: "my_conn_get p c = (r, p1, c1)" by (cases rule: prod_cases3)
  note gf = my_get_frame [OF e]
  have "silent p1 (upd_pst (\<lambda>s. s\<lparr>ps_resyncs := ps_resyncs s + 1\<rparr>) p1)" by (rule silent_upd) simp_all
  note s2 = silent_trans [OF gf(1) this]
  show "silent p p'" "keeps_core c c'"
    using o s2 silent_trans [OF s2 silent_counters(1)] gf keeps_core_state(1) [OF gf(2)]
    by (auto simp: my_on_resync_def e Let_def split: option.splits)
qed

lemma my_resync_step:
  assumes g: "conn_good T c" and o: "my_on_resync p c d = (p', c')"
  shows "conn_good U c'"
    "hp_live (p_heap p') + my_state_blocks (cn_proto_state c) = hp_live (p_heap p) + my_state_blocks (cn_proto_state c')"
proof -
  obtain r p1 c1 where e: "my_conn_get p c = (r, p1, c1)" by (cases rule: prod_cases3)
  note gs = my_conn_get_step [OF g e]
  show "conn_good U c'"
    "hp_live (p_heap p') + my_state_blocks (cn_proto_state c) = hp_live (p_heap p) + my_state_blocks (cn_proto_state c')"
    using o gs resync_good by (auto simp: my_on_resync_def e Let_def my_conn_step_def my_state_blocks_def split: option.splits)
qed

lemma my_msg_keeps: "keeps_core c (snd (my_on_msg p c d m))"
proof -
  obtain r p1 c1 where e: "my_conn_get p c = (r, p1, c1)" by (cases rule: prod_cases3)
  note k = my_get_frame(2) [OF e]
  show ?thesis
  proof (cases r)
    case None
    then show ?thesis using k by (simp add: my_on_msg_def e)
  next
    case (Some pc)
    let ?p = "upd_pst (my_count_msg d m) p1"
    obtain p3 c3 pc3 where f: "my_frontend_msg ?p c1 pc m = (p3, c3, pc3)" by (cases rule: prod_cases3)
    then have "c3 \<in> {c1, or_conn_flag LK_CONN_IGNORE c1}" using my_frontend_conn [of ?p c1 pc m] by simp
    then show ?thesis using k keeps_core_state [OF k] Some f by (auto simp: my_on_msg_def e Let_def split: prod.split)
  qed
qed

lemma my_close_step:
  assumes o: "my_on_conn_close p c = (p', c')"
  shows "cn_proto_state c' = None" "silent p p'" "keeps_core c c'"
    "hp_live (p_heap p) = n + my_state_blocks (cn_proto_state c) \<Longrightarrow> hp_live (p_heap p') = n"
proof -
  show "cn_proto_state c' = None" "silent p p'" "keeps_core c c'"
    using o by (auto simp: my_on_conn_close_def Let_def silent_def same_out_def keeps_core_def split: option.splits prod.splits)
  assume n: "hp_live (p_heap p) = n + my_state_blocks (cn_proto_state c)"
  show "hp_live (p_heap p') = n"
  proof (cases "cn_proto_state c")
    case None
    then show ?thesis using o n by (auto simp: my_on_conn_close_def my_state_blocks_def)
  next
    case (Some pc)
    let ?hp = "free_text (mc_pending_cap pc) (free_text (mu_own_cap (mc_u pc)) (p_heap p))"
    have l: "hp_live ?hp = Suc n + my_cache_blocks (mc_prep pc)"
      using n Some by (simp add: my_state_blocks_def my_blocks_def free_text_def hp_free_def blk_def)
    obtain pc2 hp2 where f: "my_prep_free (pc\<lparr>mc_unit_open := False\<rparr>) ?hp = (pc2, hp2)" by fastforce
    have "hp_live hp2 = Suc n"
      using f l free_fold_live [where f = "\<lambda>i. me_text_cap (mp_e (the (mc_prep pc)) i)" and xs = "[0..<LK_MY_PREP_CACHE]" and hp = ?hp]
      by (auto simp: my_prep_free_def my_cache_blocks_def my_text_blocks_def sum_upt_blk hp_free_def split: option.splits)
    then show ?thesis using o Some f by (auto simp: my_on_conn_close_def Let_def hp_free_def split: prod.splits dest!: drop_unit_cases)
  qed
qed

interpretation my_hd: proto_handler my_on_msg my_on_resync my_on_conn_close my_inv
proof
  have c: "conn_good UNIV c \<longleftrightarrow> pred_option my_inv (cn_proto_state c)" for c :: "'a my_lk_conn"
    by (cases "cn_proto_state c") (simp_all add: my_good_def starts_in_def)
  fix c c' :: "'a my_lk_conn" and p d m p'
  show "keeps_core c (snd (my_on_msg p c d m))" by (rule my_msg_keeps)
  show "keeps_core c (snd (my_on_resync p c d))" using my_resync_frame(2) by (cases "my_on_resync p c d") auto
  show "my_on_resync p c d = (p', c') \<Longrightarrow> silent p p'" by (rule my_resync_frame(1))
  show "my_on_conn_close p c = (p', c') \<Longrightarrow> silent p p'" "my_on_conn_close p c = (p', c') \<Longrightarrow> cn_proto_state c' = None"
    by (rule my_close_step(2), assumption) (rule my_close_step(1), assumption)
  assume "pred_option my_inv (cn_proto_state c)"
  then have g: "conn_good UNIV c" by (simp add: c)
  show "my_on_msg p c d m = (p', c') \<Longrightarrow> pred_option my_inv (cn_proto_state c')" "my_on_msg p c d m = (p', c') \<Longrightarrow> accounts p p'"
    using my_msg_step [OF g, of m p d p' c'] tells_accounts [of UNIV p p'] by (simp_all add: my_conn_step_def c)
  show "my_on_resync p c d = (p', c') \<Longrightarrow> pred_option my_inv (cn_proto_state c')" using my_resync_step(1) [OF g, where U = UNIV] by (simp add: c)
qed

section \<open>Histories\<close>

primrec my_handle :: "handler_ev \<Rightarrow> lk_proto \<times> 'fs my_lk_conn \<Rightarrow> lk_proto \<times> 'fs my_lk_conn" where
  "my_handle (HMsg d m) s = my_on_msg (fst s) (snd s) d m"
| "my_handle (HResync d) s = my_on_resync (fst s) (snd s) d"
| "my_handle HClose s = my_on_conn_close (fst s) (snd s)"

text \<open>The instants at which a history's messages arrived.\<close>

fun msg_times :: "handler_ev list \<Rightarrow> u64 set" where
  "msg_times [] = {}"
| "msg_times (HMsg d m # evs) = insert (m_ts_ns m) (msg_times evs)"
| "msg_times (ev # evs) = msg_times evs"

lemma my_handle_step:
  assumes g: "conn_good T c" and ts: "msg_times [ev] \<subseteq> T" and h: "my_handle ev (p, c) = (p', c')"
    and n: "hp_live (p_heap p) = n + my_state_blocks (cn_proto_state c)"
  shows "conn_good T c'" "tells T p p'" "hp_live (p_heap p') = n + my_state_blocks (cn_proto_state c')"
proof -
  have "conn_good T c' \<and> tells T p p' \<and> hp_live (p_heap p') = n + my_state_blocks (cn_proto_state c')"
  proof (cases ev)
    case (HMsg d m)
    then show ?thesis using my_msg_step [OF g, of m p d p' c'] ts h n by (simp add: my_conn_step_def)
  next
    case (HResync d)
    then have r: "my_on_resync p c d = (p', c')" using h by simp
    from my_resync_step [OF g r] my_resync_frame(1) [OF r] n show ?thesis by (simp add: silent_tells)
  next
    case HClose
    then have r: "my_on_conn_close p c = (p', c')" using h by simp
    from my_close_step [OF r] n show ?thesis by (simp add: silent_tells my_state_blocks_def)
  qed
  then show "conn_good T c'" "tells T p p'" "hp_live (p_heap p') = n + my_state_blocks (cn_proto_state c')" by blast+
qed

lemma my_run_step:
  assumes "conn_good T c" and "msg_times evs \<subseteq> T" and "fold my_handle evs (p, c) = (p', c')"
    and "hp_live (p_heap p) = n + my_state_blocks (cn_proto_state c)"
  shows "conn_good T c' \<and> tells T p p' \<and> hp_live (p_heap p') = n + my_state_blocks (cn_proto_state c')"
  using assms
proof (induction evs arbitrary: p c)
  case Nil
  then show ?case by simp
next
  case (Cons ev evs)
  obtain p1 c1 where h: "my_handle ev (p, c) = (p1, c1)" by fastforce
  have t: "msg_times [ev] \<subseteq> T" "msg_times evs \<subseteq> T" using Cons.prems(2) by (cases ev; auto)+
  note st = my_handle_step [OF Cons.prems(1) t(1) h Cons.prems(4)]
  from Cons.IH [OF st(1) t(2) _ st(3)] Cons.prems(3) h tells_trans [OF st(2)] show ?case by simp
qed

text \<open>C35. Every history of messages, resyncs and closes of a MySQL connection, whichever allocations fail, leaves
  a well-formed state (at most one unit, open only while its reply is due and with a live cache reference; buffers
  within their caps; the slot counter exact), counters equal to the observations delivered, and every live block
  accounted for, so that a close leaks nothing.\<close>

theorem my_history_sound:
  assumes "cn_proto_state c = None" and "p_has_query p" and "p_calls p = []" and "ps_queries (p_st p) = 0"
    and "ps_errors_sql (p_st p) = 0" and "fold my_handle evs (p, c) = (p', c')"
  shows "pred_option my_inv (cn_proto_state c')
    \<and> ps_queries (p_st p') = length (queries_of (p_calls p'))
    \<and> ps_errors_sql (p_st p') = length (filter (\<lambda>q. has_flag (o_flags q) LK_QO_ERROR) (queries_of (p_calls p')))
    \<and> hp_live (p_heap p') = hp_live (p_heap p) + my_state_blocks (cn_proto_state c')
    \<and> hp_live (p_heap (fst (my_handle HClose (p', c')))) = hp_live (p_heap p)"
proof -
  have r: "conn_good UNIV c'" "tells UNIV p p'" and n: "hp_live (p_heap p') = hp_live (p_heap p) + my_state_blocks (cn_proto_state c')"
    using my_run_step [of UNIV c evs p p' c'] assms(1,6) by (simp_all add: my_state_blocks_def)
  then have "pred_option my_inv (cn_proto_state c')" by (cases "cn_proto_state c'") (simp_all add: my_good_def)
  moreover obtain new where "reports p new p'" using r(2) by (auto simp: tells_def)
  moreover obtain q d where h: "my_on_conn_close p' c' = (q, d)" by fastforce
  ultimately show ?thesis using n my_close_step(4) [OF h n] assms(2-5) by (simp add: reports_def failed_def)
qed

text \<open>C36. No observation spans a gap. Whatever the connection was doing, once a resync has been handled every query
  and every transaction reported later began at a message that arrived after it.\<close>

theorem my_no_observation_across_loss:
  assumes "cn_proto_state c = None" and "fold my_handle before (p, c) = (p1, c1)" and "my_on_resync p1 c1 d = (p2, c2)"
    and "fold my_handle after (p2, c2) = (p3, c3)"
  shows "p_calls p2 = p_calls p1 \<and> (\<exists>new. p_calls p3 = p_calls p2 @ new \<and> list_all (call_in (msg_times after)) new)"
proof -
  have "conn_good UNIV c1" using my_run_step [of UNIV c before p p1 c1] assms(1,2) by (simp add: my_state_blocks_def)
  note rs = my_resync_step [OF this assms(3)] my_resync_frame(1) [OF assms(3)]
  have "hp_live (p_heap p1) = hp_live (p_heap p) + my_state_blocks (cn_proto_state c1)"
    using my_run_step [of UNIV c before p p1 c1] assms(1,2) by (simp add: my_state_blocks_def)
  then have "hp_live (p_heap p2) = hp_live (p_heap p) + my_state_blocks (cn_proto_state c2)" using rs(2) by simp
  then have "tells (msg_times after) p2 p3" using my_run_step [OF rs(1) subset_refl assms(4)] by blast
  then show ?thesis using rs(3) by (auto simp: tells_def reports_def silent_def)
qed

end
