(* ===== verification/My_Examples.thy ===== *)
theory My_Examples
  imports My_Props Pg_Props
begin

text \<open>Concrete sessions for the MySQL handler: the properties of \<open>My_Props\<close> applied where their hypotheses hold.\<close>

type_synonym my_plain_conn = "unit my_lk_conn"

definition my_pkt :: "nat \<Rightarrow> u8 \<Rightarrow> bytes \<Rightarrow> lk_msg" where
  "my_pkt ts ty body = \<lparr>m_ts_ns = of_nat ts, m_type = ty, m_flags = 0, m_len = length body, m_body = body\<rparr>"

definition my_conn0 :: my_plain_conn where
  "my_conn0 = lk_conn_zero\<lparr>cn_cookie := 7, cn_flags := LK_CONN_SYNTHETIC\<rparr>"

text \<open>A query answered by an OK, a break in the middle of the next one, and a third one after it.\<close>

definition my_before :: "handler_ev list" where
  "my_before = [HMsg LK_DIR_RECV (my_pkt 10 MY_COM_QUERY (MY_COM_QUERY # lit ''DO 1'')), HMsg LK_DIR_SEND (my_pkt 20 0 [0, 0, 0, 2, 0, 0, 0]),
     HMsg LK_DIR_RECV (my_pkt 30 MY_COM_QUERY (MY_COM_QUERY # lit ''DO 2''))]"

definition my_after :: "handler_ev list" where
  "my_after = [HMsg LK_DIR_SEND (my_pkt 40 0 [0, 0, 0, 2, 0, 0, 0]), HMsg LK_DIR_RECV (my_pkt 50 MY_COM_QUERY (MY_COM_QUERY # lit ''DO 3'')),
     HMsg LK_DIR_SEND (my_pkt 60 0 [0, 0, 0, 2, 0, 0, 0])]"

lemma my_before_run:
  "case fold my_handle my_before (proto0 heap0, my_conn0) of (p, c) \<Rightarrow> map o_text (queries_of (p_calls p)) = [Some (lit ''DO 1'')]"
  by code_simp

theorem my_history_sound_witness:
  "case fold my_handle my_before (proto0 heap0, my_conn0) of (p', c') \<Rightarrow>
     pred_option my_inv (cn_proto_state c') \<and> ps_queries (p_st p') = 1
     \<and> hp_live (p_heap (fst (my_handle HClose (p', c')))) = 0"
  using my_history_sound [of my_conn0 "proto0 heap0" my_before] my_before_run
  by (auto simp: my_conn0_def lk_conn_zero_def proto0_def heap0_def lk_proto_stats_zero_def dest!: arg_cong [where f = length] split: prod.splits)

theorem my_no_observation_across_loss_witness:
  "case fold my_handle my_before (proto0 heap0, my_conn0) of (p1, c1) \<Rightarrow> case my_on_resync p1 c1 LK_DIR_SEND of (p2, c2) \<Rightarrow>
   case fold my_handle my_after (p2, c2) of (p3, c3) \<Rightarrow>
     \<exists>new. p_calls p3 = p_calls p1 @ new \<and> list_all (call_in {40, 50, 60}) new"
proof -
  obtain p1 c1 where 1: "fold my_handle my_before (proto0 heap0, my_conn0) = (p1, c1)" by fastforce
  obtain p2 c2 where 2: "my_on_resync p1 c1 LK_DIR_SEND = (p2, c2)" by fastforce
  obtain p3 c3 where 3: "fold my_handle my_after (p2, c2) = (p3, c3)" by fastforce
  have "cn_proto_state my_conn0 = None" by (simp add: my_conn0_def lk_conn_zero_def)
  from my_no_observation_across_loss [OF this 1 2 3] have "\<exists>new. p_calls p3 = p_calls p1 @ new \<and> list_all (call_in (msg_times my_after)) new"
    by auto
  moreover have "msg_times my_after = {40, 50, 60}" by (simp add: my_after_def my_pkt_def)
  ultimately show ?thesis by (simp add: 1 2 3)
qed

end
