(* ===== verification/Spec2Isabelle.thy ===== *)
theory Spec2Isabelle
  imports Pg_Resync Pg_Chunks Pg_Examples Conn_Examples Pipeline_Examples Trace My_Examples
begin

text \<open>
  A verification development of latkit, an agent that observes database traffic with eBPF. A kernel
  program copies what server processes read from and write to their sockets into a ring buffer; the
  agent rebuilds protocol messages from these records and reports queries, sessions and transactions
  with their latencies. Modelled here is the path from a raw record to a report, for PostgreSQL and MySQL.

  \<^bold>\<open>Parts and how they interact.\<close> A raw record is decoded (src/src/agent/decode.c) and fed to the pipeline
  (src/src/agent/pipeline.c), which finds or creates the connection's entry in a bounded table
  (src/src/agent/conn_table.c) and hands data to the streaming framer (src/src/agent/reassembly.c). The
  framer cuts the byte stream of each direction into messages with the hooks of the connection's protocol
  (src/src/proto/pg/pg_frame.c, src/src/proto/my/my_frame.c), survives holes of known size and
  resynchronises after losses, and calls the protocol's handler (src/src/proto/pg, src/src/proto/my)
  for every message, every resynchronisation and every closed connection. The handler keeps per-connection
  state and calls the sink with its observations. Raw records can be recorded to a file and replayed
  (src/src/agent/record.c).

  \<^bold>\<open>Theories.\<close>
  \<^item> \<open>Latkit_Prelude\<close>: machine words, byte readers and writers with their round trips, flags, the heap as
    a counter of live blocks with an oracle that says which allocations succeed, and shared list lemmas.
    \<open>Lk_Types\<close>: records of src/src/bpf/latkit.h, src/src/agent/conn_table.h, src/src/agent/reassembly.h and
    src/src/proto/proto.h. The hooks of a protocol are a record of functions; a table of them, indexed by
    the protocol, stands for src/src/proto/registry.c.
  \<^item> \<open>Reassembly\<close>: one definition per function of reassembly.c; every arm of its two loops is a step
    definition, and the loops are partial functions whose value None is a loop that does not end. \<open>Framer\<close>
    states what the framer needs of a protocol (locale \<open>framer_ops\<close>) and proves that it always returns and
    keeps its buffers bounded; \<open>Framer_Chunks\<close> (locale \<open>framer_stream\<close>) that the cutting of the input does
    not matter; \<open>Framer_Keeps\<close> lifts a handler's contract through the framer.
  \<^item> \<open>Pg_Frame\<close>, \<open>Pg_Resync\<close>, \<open>Pg_Chunks\<close>: the PostgreSQL hooks, interpretations of these locales, the
    resync scan against its specification, framing as the inverse of the wire encoding.
  \<^item> \<open>Proto_Types\<close>, \<open>Proto_Handler\<close>: observations, counters and the contract of a handler (locales
    \<open>proto_handler\<close>, \<open>plain_handler\<close>). \<open>Pg_Wire\<close>, \<open>Pg_State\<close>, \<open>Pg_Session\<close>, \<open>Pg_Prep\<close>, \<open>Pg_Query\<close>, \<open>Pg_Handler\<close>
    follow the files of src/src/proto/pg; \<open>Pg_Query_Inv\<close>, \<open>Pg_Ready\<close>, \<open>Stmt_Cache\<close>, \<open>Pg_Prep_Map\<close>, \<open>Pg_Memory\<close>,
    \<open>Pg_Props\<close>, \<open>Pg_Examples\<close> hold their lemmas, properties and witnesses.
  \<^item> \<open>My_Wire\<close>, \<open>My_Frame\<close>, \<open>My_State\<close>, \<open>My_Prep\<close>, \<open>My_Session\<close>, \<open>My_Query\<close>, \<open>My_Handler\<close> follow the files of
    src/src/proto/my. \<open>My_Inv\<close> defines the invariant and the contract \<open>my_step\<close> of an operation: the state
    stays well formed, reports are counted, blocks are accounted for, and nothing reported began outside a
    set of instants \<open>T\<close>. \<open>My_Steps\<close>, \<open>My_Session_Steps\<close>, \<open>My_Query_Steps\<close>, \<open>My_Handler_Steps\<close> prove it for every
    operation; \<open>My_Props\<close> and \<open>My_Examples\<close> hold properties and witnesses.
  \<^item> \<open>Conn_Table\<close>: the connection table over an explicit store of entries, so that dangling pointers and
    endless chains are the value None. \<open>Conn_Links\<close>, \<open>Conn_Chains\<close>: the linked list and the hash chains;
    \<open>Conn_Lru\<close>: the abstract table, a list ordered by use; \<open>Simulation\<close>, \<open>Conn_Refine\<close>: the refinement between
    them; \<open>Conn_Props\<close>, \<open>Conn_Examples\<close>.
  \<^item> \<open>Decode\<close>, \<open>Pipeline\<close>, \<open>Pipeline_Inv\<close> (locale \<open>pipeline_env\<close>), \<open>Pipeline_Props\<close>, \<open>Pipeline_Examples\<close>: the
    composition. \<open>Trace\<close>: recording and replay. This theory: replay of the pipeline.

  \<^bold>\<open>Correspondence.\<close> A struct is a record, an enum a datatype, and a function keeps its name where
  Isabelle allows it (MySQL functions that share a name with a PostgreSQL one have the prefix \<open>my_\<close>). A pointer
  argument that is written through is an extra result. Bytes, flags, sequence numbers, cookies,
  timestamps and counters that wrap in the code's arithmetic are words; lengths, positions and statistics are
  natural numbers. A buffer is the list of its valid bytes with its capacity; a \<open>char[]\<close> is the C string
  it holds. \<open>malloc\<close>, \<open>calloc\<close> and \<open>realloc\<close> ask the heap's oracle, so every property holds for every
  pattern of allocation failures unless it says otherwise. In \<open>lk_recorder_write\<close> a NULL recorder is a caller
  that has none.

  \<^bold>\<open>What is shown.\<close> Framer: termination, bounded buffers and pool, independence of chunking, wire
  round trip, holes, the resync scan. Handlers: state invariants over every history, counters equal to
  reports, exact memory accounting, no observation across a loss, texts that survive cache changes, error
  and overflow paths. Connection table: refinement to the LRU list, bounds, conservation of entries,
  sequence gaps, the idle sweep. Pipeline: it always returns, its bounds, the TLS gauge, no leak,
  ciphertext never parsed. Decoder and recorder: round trips, failed writes, equality of a replay with
  the live run.

  \<^bold>\<open>Bounds and fuel.\<close> No definition has fuel: the loops of the framer, of the hash chains and of the idle
  sweep are \<open>partial_function (option)\<close>, and that they return is a property; the other loops recurse on
  lists or carry a termination proof. The constants are those of the headers.

  \<^bold>\<open>Not modelled.\<close> The HTTP, S3 and Redis protocols, which plug into the framer's stream hooks (the model
  takes these as parameters); normalisation, metrics and exporters, which consume the observations and
  use floating-point numbers, a third-party hash, sockets and formatted output; the kernel program; the
  main program, event loop, TLS attachment and cgroup filter, which talk to the operating system.
\<close>

section \<open>Recording and replaying a session\<close>






end
